(* ===== verification/Prelude.thy ===== *)
theory Prelude
  imports Complex_Main "HOL-Library.Word" "HOL-Library.Multiset"
begin

text \<open>
  The vocabulary the components share: Rust's \<^verbatim>\<open>Result\<close> as a sum type, fixed-width
  integers, UTF-8 strings as lists of bytes, the decimal rendering of integers, the invariant
  principle for step relations, and the lemmas on lists the component proofs use.
\<close>

section \<open>Lemma collections\<close>

named_theorems res_simps \<open>equations that evaluate chains of fallible calls\<close>
named_theorems inv_defs \<open>unfolding rules of the component invariants\<close>

section \<open>Results\<close>

text \<open>
  \<^verbatim>\<open>Result<T, E>\<close> is \<open>'e + 'a\<close>: \<open>Inl\<close> carries the error, \<open>Inr\<close> the
  value. \<open>try_bind\<close> is the \<^verbatim>\<open>?\<close> operator followed by the rest of the body.
\<close>

type_synonym ('e, 'a) result = "'e + 'a"

abbreviation Err :: "'e \<Rightarrow> ('e, 'a) result" where
  "Err \<equiv> Inl"

abbreviation Ok :: "'a \<Rightarrow> ('e, 'a) result" where
  "Ok \<equiv> Inr"

definition is_ok :: "('e, 'a) result \<Rightarrow> bool" where
  "is_ok r = (case r of Inl _ \<Rightarrow> False | Inr _ \<Rightarrow> True)"

definition try_bind :: "('e, 'a) result \<Rightarrow> ('a \<Rightarrow> ('e, 'b) result) \<Rightarrow> ('e, 'b) result" where
  "try_bind r k = (case r of Inl e \<Rightarrow> Inl e | Inr x \<Rightarrow> k x)"

definition map_err :: "('e \<Rightarrow> 'f) \<Rightarrow> ('e, 'a) result \<Rightarrow> ('f, 'a) result" where
  "map_err f r = (case r of Inl e \<Rightarrow> Inl (f e) | Inr x \<Rightarrow> Inr x)"

definition ok_or :: "'e \<Rightarrow> 'a option \<Rightarrow> ('e, 'a) result" where
  "ok_or e r = (case r of None \<Rightarrow> Inl e | Some x \<Rightarrow> Inr x)"

lemma is_ok_simps [simp, res_simps]: "is_ok (Inl e) = False" "is_ok (Inr x) = True"
  by (simp_all add: is_ok_def)

lemma is_ok_unit: "is_ok (r :: ('e, unit) result) \<longleftrightarrow> r = Inr ()"
  by (cases r) auto

lemma try_bind_simps [simp, res_simps]:
  "try_bind (Inl e) k = Inl e" "try_bind (Inr x) k = k x"
  by (simp_all add: try_bind_def)

lemma map_err_simps [simp, res_simps]:
  "map_err f (Inl e) = Inl (f e)" "map_err f (Inr x) = Inr x"
  by (simp_all add: map_err_def)

lemma ok_or_simps [simp, res_simps]: "ok_or e None = Inl e" "ok_or e (Some x) = Inr x"
  by (simp_all add: ok_or_def)

lemma try_bind_Inr_iff:
  "try_bind r k = Inr y \<longleftrightarrow> (\<exists>x. r = Inr x \<and> k x = Inr y)"
  by (cases r) auto

lemma ok_or_Inr_iff: "ok_or e r = Inr x \<longleftrightarrow> r = Some x"
  by (cases r) auto

text \<open>\<^verbatim>\<open>iter().map(f).collect::<Result<Vec<_>, _>>()\<close>: the first error wins.\<close>

fun collect_results :: "('a \<Rightarrow> ('e, 'b) result) \<Rightarrow> 'a list \<Rightarrow> ('e, 'b list) result" where
  "collect_results f [] = Inr []"
| "collect_results f (x # xs) =
     try_bind (f x) (\<lambda>y. try_bind (collect_results f xs) (\<lambda>ys. Inr (y # ys)))"

lemma collect_results_Inr_iff:
  "collect_results f xs = Inr ys \<longleftrightarrow>
     length ys = length xs \<and> (\<forall>i < length xs. f (xs ! i) = Inr (ys ! i))"
proof (induction xs arbitrary: ys)
  case Nil
  then show ?case by auto
next
  case (Cons x xs)
  show ?case
  proof (cases ys)
    case Nil
    then show ?thesis by (auto simp: try_bind_Inr_iff)
  next
    case (Cons y zs)
    then show ?thesis
      by (auto simp: try_bind_Inr_iff Cons.IH less_Suc_eq_0_disj)
  qed
qed

text \<open>\<^verbatim>\<open>for x in xs { check(x)?; }\<close>.\<close>

fun for_each :: "('a \<Rightarrow> ('e, unit) result) \<Rightarrow> 'a list \<Rightarrow> ('e, unit) result" where
  "for_each f [] = Inr ()"
| "for_each f (x # xs) = try_bind (f x) (\<lambda>_. for_each f xs)"

lemma for_each_Inr_iff: "for_each f xs = Inr u \<longleftrightarrow> (\<forall>x \<in> set xs. f x = Inr ())"
  by (induction xs) (auto simp: try_bind_Inr_iff)

section \<open>Fallible actions on a state\<close>

text \<open>
  An \<^verbatim>\<open>async fn\<close> that reads and writes a shared state and may fail: it returns its result and
  the state it leaves behind, also when it fails. \<open>act_bind\<close> is \<^verbatim>\<open>f().await?\<close> followed by the
  rest, \<open>act_map_err\<close> is \<^verbatim>\<open>map_err\<close>, \<open>act_lift\<close> a pure fallible call.
\<close>

type_synonym ('e, 's, 'a) act = "'s \<Rightarrow> ('e, 'a) result \<times> 's"

definition act_ok :: "'a \<Rightarrow> ('e, 's, 'a) act" where
  "act_ok x s = (Inr x, s)"

definition act_err :: "'e \<Rightarrow> ('e, 's, 'a) act" where
  "act_err e s = (Inl e, s)"

definition act_lift :: "('e, 'a) result \<Rightarrow> ('e, 's, 'a) act" where
  "act_lift r s = (r, s)"

definition act_bind :: "('e, 's, 'a) act \<Rightarrow> ('a \<Rightarrow> ('e, 's, 'b) act) \<Rightarrow> ('e, 's, 'b) act" where
  "act_bind f k s = (case f s of (Inl e, s') \<Rightarrow> (Inl e, s') | (Inr x, s') \<Rightarrow> k x s')"

definition act_map_err :: "('e \<Rightarrow> 'f) \<Rightarrow> ('e, 's, 'a) act \<Rightarrow> ('f, 's, 'a) act" where
  "act_map_err g f s = (case f s of (r, s') \<Rightarrow> (map_err g r, s'))"

text \<open>An action on the left component of a product state.\<close>

definition on_fst :: "('e, 's, 'a) act \<Rightarrow> ('e, 's \<times> 't, 'a) act" where
  "on_fst f st = (case f (fst st) of (r, s') \<Rightarrow> (r, (s', snd st)))"

lemma act_simps [simp, res_simps]:
  "act_ok x s = (Inr x, s)" "act_err e s = (Inl e, s)" "act_lift r s = (r, s)"
  by (simp_all add: act_ok_def act_err_def act_lift_def)

lemma act_bind_eqs [res_simps]:
  "f s = (Inl e, s') \<Longrightarrow> act_bind f k s = (Inl e, s')"
  "f s = (Inr x, s') \<Longrightarrow> act_bind f k s = k x s'"
  by (simp_all add: act_bind_def)

lemma act_bind_ok [simp]: "act_bind (act_ok x) k = k x"
  by (rule ext) (simp add: act_bind_def)

lemma act_bind_lift [simp]:
  "act_bind (act_lift (Inr x)) k = k x" "act_bind (act_lift (Inl e)) k = act_err e"
  by (rule ext, simp add: act_bind_def)+

lemma on_fst_eq: "f s = (r, s') \<Longrightarrow> on_fst f (s, t) = (r, (s', t))"
  by (simp add: on_fst_def)

lemma act_bind_err_state [simp]: "snd (act_bind f (\<lambda>_. act_err e) s) = snd (f s)"
  by (auto simp: act_bind_def split: prod.split sum.split)

text \<open>A condition on the state an action leaves behind, over both exits of its first call.\<close>

lemma act_bind_post:
  assumes "\<And>e s'. f s = (Inl e, s') \<Longrightarrow> Q s'"
    and "\<And>a s'. f s = (Inr a, s') \<Longrightarrow> Q (snd (k a s'))"
  shows "Q (snd (act_bind f k s))"
  using assms by (auto simp: act_bind_def split: prod.split sum.split)

text \<open>\<^verbatim>\<open>match f().await { Ok(x) => .., Err(e) => .. }\<close> and \<^verbatim>\<open>let _ = f().await;\<close>.\<close>

definition act_match ::
  "('e, 's, 'a) act \<Rightarrow> ('a \<Rightarrow> ('f, 's, 'b) act) \<Rightarrow> ('e \<Rightarrow> ('f, 's, 'b) act) \<Rightarrow> ('f, 's, 'b) act" where
  "act_match f ok err s = (case f s of (Inl e, s') \<Rightarrow> err e s' | (Inr x, s') \<Rightarrow> ok x s')"

definition act_ignore :: "('e, 's, 'a) act \<Rightarrow> ('f, 's, unit) act" where
  "act_ignore f s = (Inr (), snd (f s))"

lemma act_match_post:
  assumes "\<And>e s'. f s = (Inl e, s') \<Longrightarrow> Q (snd (err e s'))"
    and "\<And>a s'. f s = (Inr a, s') \<Longrightarrow> Q (snd (k a s'))"
  shows "Q (snd (act_match f k err s))"
  using assms by (auto simp: act_match_def split: prod.split sum.split)

text \<open>
  \<open>act_post f Q s\<close>: the result and the state of \<open>f\<close> at \<open>s\<close> satisfy \<open>Q\<close>. The
  equations compute it backwards over a body.
\<close>

definition act_post :: "('e, 's, 'a) act \<Rightarrow> (('e, 'a) result \<Rightarrow> 's \<Rightarrow> bool) \<Rightarrow> 's \<Rightarrow> bool" where
  "act_post f Q s \<longleftrightarrow> Q (fst (f s)) (snd (f s))"

named_theorems wp_simps \<open>equations of act_post\<close>

lemma act_post_simps [wp_simps]:
  "act_post (act_ok x) Q s \<longleftrightarrow> Q (Inr x) s"
  "act_post (act_err e) Q s \<longleftrightarrow> Q (Inl e) s"
  "act_post (act_lift c) Q s \<longleftrightarrow> Q c s"
  "act_post (Pair c) Q s \<longleftrightarrow> Q c s"
  by (simp_all add: act_post_def)

lemma act_post_bind [wp_simps]:
  "act_post (act_bind f k) Q s \<longleftrightarrow>
     act_post f (\<lambda>r s'. case r of Inl e \<Rightarrow> Q (Inl e) s' | Inr x \<Rightarrow> act_post (k x) Q s') s"
  by (auto simp: act_post_def act_bind_def split: prod.split sum.split)

lemma act_post_match [wp_simps]:
  "act_post (act_match f k h) Q s \<longleftrightarrow>
     act_post f (\<lambda>r s'. case r of Inl e \<Rightarrow> act_post (h e) Q s' | Inr x \<Rightarrow> act_post (k x) Q s') s"
  by (auto simp: act_post_def act_match_def split: prod.split sum.split)

lemma act_post_map_err [wp_simps]:
  "act_post (act_map_err g f) Q s \<longleftrightarrow> act_post f (\<lambda>r. Q (map_err g r)) s"
  by (auto simp: act_post_def act_map_err_def split: prod.split)

lemma act_post_liftI:
  assumes "\<And>e. c = Inl e \<Longrightarrow> Q (Inl e) s" and "\<And>x. c = Inr x \<Longrightarrow> act_post (k x) Q s"
  shows "act_post (act_bind (act_lift c) k) Q s"
  using assms by (cases c) (simp_all add: act_post_def)

lemma act_post_mono: "act_post f P s \<Longrightarrow> (\<And>r s'. P r s' \<Longrightarrow> Q r s') \<Longrightarrow> act_post f Q s"
  by (simp add: act_post_def)

lemma act_post_seq:
  assumes "act_post f P s" "\<And>e s'. P (Inl e) s' \<Longrightarrow> Q (Inl e) s'" "\<And>x s'. P (Inr x) s' \<Longrightarrow> act_post (k x) Q s'"
  shows "act_post (act_bind f k) Q s"
  using assms by (auto simp: act_post_def act_bind_def split: prod.split sum.split)

lemma act_postD: "act_post f Q s \<Longrightarrow> f s = (r, s') \<Longrightarrow> Q r s'"
  by (simp add: act_post_def)

lemma map_err_Inr_iff: "map_err g r = Inr x \<longleftrightarrow> r = Inr x"
  by (cases r) simp_all

lemma act_bind_Inr_iff:
  "act_bind f k s = (Inr y, s'') \<longleftrightarrow> (\<exists>x s'. f s = (Inr x, s') \<and> k x s' = (Inr y, s''))"
  by (auto simp: act_bind_def split: prod.splits sum.splits)

lemma act_map_err_Inr_iff: "act_map_err g f s = (Inr y, s') \<longleftrightarrow> f s = (Inr y, s')"
  by (auto simp: act_map_err_def map_err_Inr_iff split: prod.splits)

lemmas act_inv = act_bind_Inr_iff act_map_err_Inr_iff

lemma fst_act_map_err: "fst (act_map_err g f w) = map_err g (fst (f w))"
  by (simp add: act_map_err_def split: prod.split)

lemma snd_act_map_err [simp]: "snd (act_map_err g f w) = snd (f w)"
  by (simp add: act_map_err_def split: prod.split)

lemma is_ok_bind:
  "is_ok (fst (f s)) \<Longrightarrow> (\<And>a s'. f s = (Inr a, s') \<Longrightarrow> is_ok (fst (k a s'))) \<Longrightarrow> is_ok (fst (act_bind f k s))"
  by (auto simp: act_bind_def split: prod.splits sum.splits)

lemma is_ok_map_err: "is_ok (fst (act_map_err g f w)) \<longleftrightarrow> is_ok (fst (f w))"
  by (cases "f w") (auto simp: act_map_err_def map_err_def split: sum.splits)

text \<open>\<open>runs f s Q\<close>: \<open>f\<close> succeeds at \<open>s\<close>, with a result and a state that satisfy \<open>Q\<close>.\<close>

definition runs :: "('e, 's, 'a) act \<Rightarrow> 's \<Rightarrow> ('a \<Rightarrow> 's \<Rightarrow> bool) \<Rightarrow> bool" where
  "runs f s Q \<longleftrightarrow> (\<exists>x s'. f s = (Inr x, s') \<and> Q x s')"

lemma runs_bind: "runs f s P \<Longrightarrow> (\<And>x s'. P x s' \<Longrightarrow> runs (k x) s' Q) \<Longrightarrow> runs (act_bind f k) s Q"
  by (auto simp: runs_def act_bind_def)

lemma runs_ok [simp]: "runs (act_ok x) s Q \<longleftrightarrow> Q x s"
  by (simp add: runs_def)

lemma runs_map_err [simp]: "runs (act_map_err g f) s Q \<longleftrightarrow> runs f s Q"
  by (simp add: runs_def act_map_err_Inr_iff)

lemma runs_mono: "runs f s P \<Longrightarrow> (\<And>x s'. P x s' \<Longrightarrow> Q x s') \<Longrightarrow> runs f s Q"
  by (auto simp: runs_def)

text \<open>
  \<open>keeps R f\<close>: whatever \<open>f\<close> returns, it leaves a state that is related to the one it got. For a
  reflexive and transitive relation a body keeps it when its calls do.
\<close>

definition keeps :: "('s \<Rightarrow> 's \<Rightarrow> bool) \<Rightarrow> ('e, 's, 'a) act \<Rightarrow> bool" where
  "keeps R f \<longleftrightarrow> (\<forall>s. R s (snd (f s)))"

lemma keepsD: "keeps R f \<Longrightarrow> f s = (r, s') \<Longrightarrow> R s s'"
  by (metis keeps_def snd_conv)

lemma keeps_weaken: "keeps Q f \<Longrightarrow> (\<And>w w'. Q w w' \<Longrightarrow> Q' w w') \<Longrightarrow> keeps Q' f"
  by (simp add: keeps_def)

lemma keeps_map_err: "keeps R f \<Longrightarrow> keeps R (act_map_err g f)"
  by (simp add: keeps_def act_map_err_def split: prod.split) (metis snd_conv)

locale kept_relation =
  fixes R :: "'s \<Rightarrow> 's \<Rightarrow> bool"
  assumes kept_refl: "R s s"
    and kept_trans: "R a b \<Longrightarrow> R b c \<Longrightarrow> R a c"
begin

lemma keeps_pure: "keeps R (\<lambda>s. (g s, s))"
  by (simp add: keeps_def kept_refl)

lemma keeps_ok: "keeps R (act_ok x)"
  by (simp add: keeps_def kept_refl)

lemma keeps_Pair: "keeps R (Pair c)"
  by (simp add: keeps_def kept_refl)

lemma keeps_err: "keeps R (act_err e)"
  by (simp add: keeps_def kept_refl)

lemma keeps_lift: "keeps R (act_lift c)"
  by (simp add: keeps_def kept_refl)

lemma keeps_bind: "keeps R f \<Longrightarrow> (\<And>x. keeps R (k x)) \<Longrightarrow> keeps R (act_bind f k)"
  unfolding keeps_def act_bind_def by (auto split: prod.split sum.split) (metis kept_trans snd_conv)+

lemma keeps_lift_bind: "(\<And>x. c = Inr x \<Longrightarrow> keeps R (k x)) \<Longrightarrow> keeps R (act_bind (act_lift c) k)"
  by (cases c) (simp_all add: keeps_err)

lemma keeps_if: "(P \<Longrightarrow> keeps R f) \<Longrightarrow> (\<not> P \<Longrightarrow> keeps R g) \<Longrightarrow> keeps R (if P then f else g)"
  by simp

lemmas keeps_intros = keeps_ok keeps_Pair keeps_err keeps_lift keeps_lift_bind keeps_bind keeps_map_err keeps_if

end

section \<open>Machine integers\<close>

type_synonym u8 = "8 word"
type_synonym u32 = "32 word"
type_synonym u64 = "64 word"

text \<open>\<^verbatim>\<open>i64\<close> values are integers in this range; the definitions that compute with them keep it.\<close>

definition i64_min :: int where
  "i64_min = - 9223372036854775808"

definition i64_max :: int where
  "i64_max = 9223372036854775807"

definition is_i64 :: "int \<Rightarrow> bool" where
  "is_i64 x \<longleftrightarrow> i64_min \<le> x \<and> x \<le> i64_max"

definition u64_max :: nat where
  "u64_max = 18446744073709551615"

definition u32_max :: nat where
  "u32_max = 4294967295"

text \<open>\<^verbatim>\<open>saturating_sub\<close> on unsigned words.\<close>

definition saturating_sub_w :: "'l::len word \<Rightarrow> 'l word \<Rightarrow> 'l word" where
  "saturating_sub_w a b = (if a < b then 0 else a - b)"

lemma unat_saturating_sub: "unat (saturating_sub_w a b) = unat a - unat b"
proof (cases "a < b")
  case True
  then have "unat a < unat b" by (simp add: word_less_nat_alt)
  with True show ?thesis by (simp add: saturating_sub_w_def)
next
  case False
  then have "b \<le> a" by simp
  with False show ?thesis by (simp add: saturating_sub_w_def unat_sub)
qed

lemma unat_inc: "a < (b :: 'l::len word) \<Longrightarrow> unat (a + 1) = Suc (unat a)"
proof -
  assume "a < b"
  then have "unat a < unat b" by (simp add: word_less_nat_alt)
  moreover have "unat b < 2 ^ LENGTH('l)" by (rule unsigned_less)
  ultimately have "unat a + 1 < 2 ^ LENGTH('l)" by linarith
  then show ?thesis by (simp add: unat_word_ariths)
qed

section \<open>Text\<close>

text \<open>
  A Rust \<^verbatim>\<open>String\<close> is a list of UTF-8 bytes, a \<open>char\<close> of Isabelle being one byte.
  \<^verbatim>\<open>{n}\<close> of an unsigned integer prints its decimal digits, \<^verbatim>\<open>{n}\<close> of a signed one
  puts a minus sign in front.
\<close>

definition digit_char :: "nat \<Rightarrow> char" where
  "digit_char d = char_of (48 + d)"

fun dec_nat :: "nat \<Rightarrow> string" where
  "dec_nat n = (if n < 10 then [digit_char n] else dec_nat (n div 10) @ [digit_char (n mod 10)])"

declare dec_nat.simps [simp del]

definition dec_int :: "int \<Rightarrow> string" where
  "dec_int i = (if i < 0 then CHR ''-'' # dec_nat (nat (- i)) else dec_nat (nat i))"

text \<open>ASCII white space of \<^verbatim>\<open>str::trim\<close>: tab, line feed, vertical tab, form feed, carriage
  return and space (the non-ASCII white space characters are multi-byte and not listed).\<close>

definition is_space :: "char \<Rightarrow> bool" where
  "is_space c = (c \<in> {CHR '' '', CHR 0x09, CHR 0x0A, CHR 0x0B, CHR 0x0C, CHR 0x0D})"

definition str_trim :: "string \<Rightarrow> string" where
  "str_trim s = rev (dropWhile is_space (rev (dropWhile is_space s)))"

text \<open>\<^verbatim>\<open>parts.join(sep)\<close>.\<close>

fun str_join :: "string \<Rightarrow> string list \<Rightarrow> string" where
  "str_join sep [] = []"
| "str_join sep [x] = x"
| "str_join sep (x # y # ys) = x @ sep @ str_join sep (y # ys)"

text \<open>\<^verbatim>\<open>s.contains(sub)\<close> and \<^verbatim>\<open>is_ascii_digit\<close>.\<close>

definition str_contains :: "string \<Rightarrow> string \<Rightarrow> bool" where
  "str_contains sub s \<longleftrightarrow> list_ex (\<lambda>i. take (length sub) (drop i s) = sub) [0..<length s + 1]"

definition is_ascii_digit :: "char \<Rightarrow> bool" where
  "is_ascii_digit c \<longleftrightarrow> (let n = (of_char c :: nat) in 48 \<le> n \<and> n \<le> 57)"

text \<open>\<^verbatim>\<open>s.split_once(c)\<close>.\<close>

definition split_once :: "char \<Rightarrow> string \<Rightarrow> (string \<times> string) option" where
  "split_once c s = (if c \<in> set s then Some (takeWhile (\<lambda>x. x \<noteq> c) s, tl (dropWhile (\<lambda>x. x \<noteq> c) s)) else None)"

text \<open>\<^verbatim>\<open>str::parse\<close> into an unsigned type with the largest value \<open>m\<close>.\<close>

fun digits_uint :: "nat \<Rightarrow> nat \<Rightarrow> string \<Rightarrow> (string, nat) result" where
  "digits_uint m acc [] = Ok acc"
| "digits_uint m acc (c # cs) =
     (let k = (of_char c :: nat) in
      if k < 48 \<or> 57 < k then Err ''invalid digit found in string''
      else if 10 * acc + (k - 48) > m then Err ''number too large to fit in target type''
      else digits_uint m (10 * acc + (k - 48)) cs)"

definition parse_uint :: "nat \<Rightarrow> string \<Rightarrow> (string, nat) result" where
  "parse_uint m s = (case s of
       [] \<Rightarrow> Err ''cannot parse integer from empty string''
     | c # cs \<Rightarrow> if c = CHR ''+'' then (if cs = [] then Err ''invalid digit found in string'' else digits_uint m 0 cs)
                 else digits_uint m 0 s)"

text \<open>Decimal digits determine the number.\<close>

definition digits_value :: "string \<Rightarrow> nat" where
  "digits_value s = foldl (\<lambda>acc c. 10 * acc + (of_char c - 48)) 0 s"

lemma digit_char_value: "d < 10 \<Longrightarrow> (of_char (digit_char d) :: nat) - 48 = d"
  by (simp add: digit_char_def)

lemma dec_nat_value: "digits_value (dec_nat n) = n"
proof (induction n rule: dec_nat.induct)
  case (1 n)
  show ?case
  proof (cases "n < 10")
    case True
    then show ?thesis
      by (simp add: dec_nat.simps [of n] digits_value_def digit_char_value)
  next
    case False
    with 1 have "digits_value (dec_nat (n div 10)) = n div 10" by simp
    moreover have "n mod 10 < 10" by simp
    ultimately show ?thesis
      using False digit_char_value [of "n mod 10"]
      by (simp add: dec_nat.simps [of n] digits_value_def)
  qed
qed

lemma dec_nat_inj: "dec_nat m = dec_nat n \<longleftrightarrow> m = n"
  by (metis dec_nat_value)

lemma dec_nat_not_Nil [simp]: "dec_nat n \<noteq> []"
  by (subst dec_nat.simps) simp

section \<open>Step relations\<close>

text \<open>
  The states a step relation reaches from its initial states, and the invariant principle as a
  locale: a component interprets it with its own initial states, steps and invariant and gets
  the invariant in every reachable state.
\<close>

inductive reachable_from :: "('s \<Rightarrow> bool) \<Rightarrow> ('s \<Rightarrow> 's \<Rightarrow> bool) \<Rightarrow> 's \<Rightarrow> bool"
  for is_init step where
  reach_init: "is_init s \<Longrightarrow> reachable_from is_init step s"
| reach_step: "reachable_from is_init step s \<Longrightarrow> step s t \<Longrightarrow> reachable_from is_init step t"

locale inductive_invariant =
  fixes is_init :: "'s \<Rightarrow> bool"
    and step :: "'s \<Rightarrow> 's \<Rightarrow> bool"
    and invar :: "'s \<Rightarrow> bool"
  assumes init_invar: "is_init s \<Longrightarrow> invar s"
    and step_invar: "invar s \<Longrightarrow> step s t \<Longrightarrow> invar t"
begin

lemma reachable_invar: "reachable_from is_init step s \<Longrightarrow> invar s"
  by (induction rule: reachable_from.induct) (auto intro: init_invar step_invar)

lemma star_invar: "step\<^sup>*\<^sup>* s t \<Longrightarrow> invar s \<Longrightarrow> invar t"
  by (induction rule: rtranclp_induct) (auto intro: step_invar)

end

lemma reachable_star: "reachable_from is_init step s \<Longrightarrow> step\<^sup>*\<^sup>* s t \<Longrightarrow> reachable_from is_init step t"
  by (rotate_tac, induction rule: rtranclp_induct) (auto intro: reachable_from.intros)

lemma reachable_from_mono:
  "reachable_from is_init step s \<Longrightarrow> (\<And>s. is_init s \<Longrightarrow> is_init' s) \<Longrightarrow> reachable_from is_init' step s"
  by (induction rule: reachable_from.induct) (auto intro: reachable_from.intros)

end
