(* ===== verification/Rdbms.thy ===== *)
theory Rdbms
  imports Prelude
begin

text \<open>
  The data layer's vocabulary, \<^verbatim>\<open>ecat-data\<close>: JSON values, rows (\<^verbatim>\<open>rdbms.rs\<close>), database
  errors and SQL dialects (\<^verbatim>\<open>dialect.rs\<close>). \<^verbatim>\<open>serde_json::Value\<close> is a data type here, with its
  documented accessors; its text rendering is a parameter wherever it is used.
\<close>

section \<open>JSON values and rows\<close>

text \<open>
  \<^verbatim>\<open>serde_json::Value\<close> as data. A number is an unsigned or a negative integer or a double
  (its IEEE bit pattern); an object is its list of members.
\<close>

datatype json_number = PosInt nat | NegInt int | Float u64

datatype json_value =
    JNull
  | JBool bool
  | JNumber json_number
  | JString string
  | JArray "json_value list"
  | JObject "(string \<times> json_value) list"

definition is_null :: "json_value \<Rightarrow> bool" where
  "is_null v = (case v of JNull \<Rightarrow> True | _ \<Rightarrow> False)"

definition number_as_i64 :: "json_number \<Rightarrow> int option" where
  "number_as_i64 n = (case n of
       PosInt k \<Rightarrow> if int k \<le> i64_max then Some (int k) else None
     | NegInt i \<Rightarrow> Some i
     | Float _ \<Rightarrow> None)"

definition as_i64 :: "json_value \<Rightarrow> int option" where
  "as_i64 v = (case v of JNumber n \<Rightarrow> number_as_i64 n | _ \<Rightarrow> None)"

definition is_u64 :: "json_value \<Rightarrow> bool" where
  "is_u64 v = (case v of JNumber (PosInt _) \<Rightarrow> True | _ \<Rightarrow> False)"

definition as_str :: "json_value \<Rightarrow> string option" where
  "as_str v = (case v of JString s \<Rightarrow> Some s | _ \<Rightarrow> None)"

text \<open>\<^verbatim>\<open>Value::Number(i64.into())\<close>.\<close>

definition json_int :: "int \<Rightarrow> json_value" where
  "json_int i = JNumber (if i < 0 then NegInt i else PosInt (nat i))"

lemma as_i64_json_int: "is_i64 i \<Longrightarrow> as_i64 (json_int i) = Some i"
  by (simp add: as_i64_def json_int_def number_as_i64_def is_i64_def)

text \<open>The numbers \<^verbatim>\<open>serde_json\<close> represents: unsigned 64-bit, negative \<^verbatim>\<open>i64\<close>, or a double.\<close>

definition number_ok :: "json_number \<Rightarrow> bool" where
  "number_ok n = (case n of PosInt k \<Rightarrow> k \<le> u64_max | NegInt i \<Rightarrow> i64_min \<le> i \<and> i < 0 | Float _ \<Rightarrow> True)"

definition scalar_ok :: "json_value \<Rightarrow> bool" where
  "scalar_ok v = (case v of JNumber n \<Rightarrow> number_ok n | _ \<Rightarrow> True)"

lemma as_i64_is_i64: "scalar_ok v \<Longrightarrow> as_i64 v = Some k \<Longrightarrow> is_i64 k"
  by (auto simp: scalar_ok_def number_ok_def as_i64_def number_as_i64_def is_i64_def i64_min_def i64_max_def
      split: json_value.splits json_number.splits if_splits)

text \<open>\<^verbatim>\<open>ecat_data::Row\<close>.\<close>

record db_row =
  row_columns :: "string list"
  row_values :: "json_value list"

fun position_of :: "string \<Rightarrow> string list \<Rightarrow> nat option" where
  "position_of c [] = None"
| "position_of c (x # xs) = (if x = c then Some 0 else map_option Suc (position_of c xs))"

definition row_get :: "db_row \<Rightarrow> string \<Rightarrow> json_value option" where
  "row_get r col = (case position_of col (row_columns r) of
       None \<Rightarrow> None
     | Some i \<Rightarrow> if i < length (row_values r) then Some (row_values r ! i) else None)"

definition row_iter :: "db_row \<Rightarrow> (string \<times> json_value) list" where
  "row_iter r = zip (row_columns r) (row_values r)"

lemma row_get_map_of:
  "row_get r col = map_of (row_iter r) col" if "length (row_columns r) = length (row_values r)"
proof -
  have "(case position_of c xs of None \<Rightarrow> None
          | Some i \<Rightarrow> if i < length ys then Some (ys ! i) else None) = map_of (zip xs ys) c"
    if "length xs = length ys" for c xs and ys :: "json_value list"
    using that
  proof (induction xs ys rule: list_induct2)
    case Nil
    then show ?case by simp
  next
    case (Cons x xs y ys)
    then show ?case by (cases "position_of c xs") auto
  qed
  with that show ?thesis by (simp add: row_get_def row_iter_def)
qed

text \<open>\<^verbatim>\<open>RdbmsError\<close> with its \<^verbatim>\<open>Display\<close>, and the SQL dialects.\<close>

datatype rdbms_error =
    RdbmsDatabase string
  | RdbmsConnection string
  | RdbmsConfig string
  | RdbmsTimeout string
  | NoAvailableReplica

fun rdbms_error_text :: "rdbms_error \<Rightarrow> string" where
  "rdbms_error_text (RdbmsDatabase m) = ''database error: '' @ m"
| "rdbms_error_text (RdbmsConnection m) = ''connection error: '' @ m"
| "rdbms_error_text (RdbmsConfig m) = ''configuration error: '' @ m"
| "rdbms_error_text (RdbmsTimeout m) = ''timeout: '' @ m"
| "rdbms_error_text NoAvailableReplica = ''no available replica''"

datatype dialect = Standard | Sqlite | Postgres | MySql | Mssql

text \<open>
  \<^verbatim>\<open>Dialect::from_url\<close>: bytes up to the space are trimmed at both ends, and the scheme is what
  precedes the first colon (a \<^verbatim>\<open>://\<close> starts with one).
\<close>

definition ascii_lower :: "char \<Rightarrow> char" where
  "ascii_lower c = (let n = (of_char c :: nat) in if 65 \<le> n \<and> n \<le> 90 then char_of (n + 32) else c)"

definition c0_or_space :: "char \<Rightarrow> bool" where
  "c0_or_space c = ((of_char c :: nat) \<le> 32)"

definition dialect_from_url :: "string \<Rightarrow> dialect" where
  "dialect_from_url url =
     (let trimmed = rev (dropWhile c0_or_space (rev (dropWhile c0_or_space url)));
          scheme = map ascii_lower (takeWhile (\<lambda>c. c \<noteq> CHR '':'') trimmed)
      in if scheme = ''postgres'' \<or> scheme = ''postgresql'' then Postgres
         else if scheme = ''mysql'' \<or> scheme = ''mariadb'' then MySql
         else if scheme = ''sqlite'' then Sqlite
         else if scheme = ''mssql'' \<or> scheme = ''sqlserver'' then Mssql
         else Standard)"

section \<open>Executors and transactions (rdbms.rs)\<close>

text \<open>
  \<^verbatim>\<open>SqlExecutor\<close> as a record of actions on the database's state \<open>'d\<close>; the databases themselves
  (sqlx, tiberius) are parameters. The trait's default methods are the last definitions of the
  group, for an implementor that overrides nothing but \<^verbatim>\<open>execute\<close> and \<^verbatim>\<open>query\<close>.
\<close>

record 'd sql_executor =
  ex_execute :: "string \<Rightarrow> (rdbms_error, 'd, nat) act"
  ex_query :: "string \<Rightarrow> (rdbms_error, 'd, db_row list) act"
  ex_execute_with :: "string \<Rightarrow> json_value list \<Rightarrow> (rdbms_error, 'd, nat) act"
  ex_query_with :: "string \<Rightarrow> json_value list \<Rightarrow> (rdbms_error, 'd, db_row list) act"
  ex_query_write :: "string \<Rightarrow> json_value list \<Rightarrow> (rdbms_error, 'd, db_row list) act"
  ex_execute_then_query :: "string \<Rightarrow> json_value list \<Rightarrow> string \<Rightarrow> (rdbms_error, 'd, db_row list) act"
  ex_dialect :: dialect

definition default_executor ::
  "(string \<Rightarrow> (rdbms_error, 'd, nat) act) \<Rightarrow> (string \<Rightarrow> (rdbms_error, 'd, db_row list) act) \<Rightarrow>
   dialect \<Rightarrow> 'd sql_executor" where
  "default_executor execute query d =
     \<lparr>ex_execute = execute, ex_query = query,
      ex_execute_with = (\<lambda>_ _. act_err (RdbmsDatabase ''parameterized execute not supported by this backend'')),
      ex_query_with = (\<lambda>_ _. act_err (RdbmsDatabase ''parameterized query not supported by this backend'')),
      ex_query_write = (\<lambda>_ _. act_err (RdbmsDatabase ''parameterized query not supported by this backend'')),
      ex_execute_then_query = (\<lambda>_ _ _. act_err (RdbmsDatabase
        ''this backend cannot run two statements atomically on one connection'')),
      ex_dialect = d\<rparr>"

text \<open>\<^verbatim>\<open>TransactionInner\<close> and \<^verbatim>\<open>Transaction\<close>, which forwards to it if it has one.\<close>

record 'd transaction_inner =
  in_execute :: "string \<Rightarrow> (rdbms_error, 'd, nat) act"
  in_query :: "string \<Rightarrow> (rdbms_error, 'd, db_row list) act"
  in_execute_with :: "string \<Rightarrow> json_value list \<Rightarrow> (rdbms_error, 'd, nat) act"
  in_query_with :: "string \<Rightarrow> json_value list \<Rightarrow> (rdbms_error, 'd, db_row list) act"
  in_dialect :: dialect
  in_commit :: "(rdbms_error, 'd, unit) act"
  in_rollback :: "(rdbms_error, 'd, unit) act"

record 'd transaction =
  tx_committed :: bool
  tx_rolled_back :: bool
  tx_dialect :: dialect
  tx_inner :: "'d transaction_inner option"

definition no_backing :: string where
  "no_backing = ''transaction has no backing connection (created via Transaction::new)''"

definition transaction_new :: "'d transaction" where
  "transaction_new = \<lparr>tx_committed = False, tx_rolled_back = False, tx_dialect = Standard, tx_inner = None\<rparr>"

definition transaction_with_inner :: "'d transaction_inner \<Rightarrow> 'd transaction" where
  "transaction_with_inner inner =
     \<lparr>tx_committed = False, tx_rolled_back = False, tx_dialect = in_dialect inner, tx_inner = Some inner\<rparr>"

definition with_backing ::
  "'d transaction \<Rightarrow> ('d transaction_inner \<Rightarrow> (rdbms_error, 'd, 'a) act) \<Rightarrow> (rdbms_error, 'd, 'a) act" where
  "with_backing tx f = (case tx_inner tx of
       Some inner \<Rightarrow> f inner
     | None \<Rightarrow> act_err (RdbmsDatabase no_backing))"

definition transaction_executor :: "'d transaction \<Rightarrow> 'd sql_executor" where
  "transaction_executor tx =
     \<lparr>ex_execute = (\<lambda>sql. with_backing tx (\<lambda>i. in_execute i sql)),
      ex_query = (\<lambda>sql. with_backing tx (\<lambda>i. in_query i sql)),
      ex_execute_with = (\<lambda>sql ps. with_backing tx (\<lambda>i. in_execute_with i sql ps)),
      ex_query_with = (\<lambda>sql ps. with_backing tx (\<lambda>i. in_query_with i sql ps)),
      ex_query_write = (\<lambda>sql ps. with_backing tx (\<lambda>i. in_query_with i sql ps)),
      ex_execute_then_query = (\<lambda>first ps second. with_backing tx (\<lambda>i.
        act_bind (in_execute_with i first ps) (\<lambda>_. in_query i second))),
      ex_dialect = tx_dialect tx\<rparr>"

text \<open>\<^verbatim>\<open>commit\<close> and \<^verbatim>\<open>rollback\<close> consume the transaction: the flags they set, or do not set when the
  database fails, are what \<^verbatim>\<open>Drop\<close> then looks at to count a leaked transaction.\<close>

definition drop_leaks :: "'d transaction \<Rightarrow> nat" where
  "drop_leaks tx = (if \<not> tx_committed tx \<and> \<not> tx_rolled_back tx then 1 else 0)"

definition transaction_commit :: "'d transaction \<Rightarrow> (rdbms_error, 'd, unit) act \<times> ('d \<Rightarrow> nat)" where
  "transaction_commit tx =
     (let backend = (case tx_inner tx of Some inner \<Rightarrow> in_commit inner | None \<Rightarrow> act_ok ()) in
      (backend, \<lambda>d. drop_leaks (if is_ok (fst (backend d)) then tx\<lparr>tx_committed := True\<rparr> else tx)))"

definition transaction_rollback :: "'d transaction \<Rightarrow> (rdbms_error, 'd, unit) act \<times> ('d \<Rightarrow> nat)" where
  "transaction_rollback tx =
     (let backend = (case tx_inner tx of Some inner \<Rightarrow> in_rollback inner | None \<Rightarrow> act_ok ()) in
      (backend, \<lambda>d. drop_leaks (if is_ok (fst (backend d))
                      then tx\<lparr>tx_committed := False, tx_rolled_back := True\<rparr> else tx)))"

text \<open>A transaction counts as leaked exactly when the commit or the rollback that consumed it failed.\<close>

lemma leak_iff_failed:
  assumes "\<not> tx_committed tx" "\<not> tx_rolled_back tx"
  shows "snd (transaction_commit tx) d = (if is_ok (fst (fst (transaction_commit tx) d)) then 0 else 1)"
    and "snd (transaction_rollback tx) d = (if is_ok (fst (fst (transaction_rollback tx) d)) then 0 else 1)"
  using assms by (simp_all add: transaction_commit_def transaction_rollback_def drop_leaks_def Let_def)

text \<open>Postgres numbers its placeholders, the other dialects write a question mark.\<close>

definition placeholder :: "dialect \<Rightarrow> nat \<Rightarrow> string" where
  "placeholder d n = (if d = Postgres then CHR ''$'' # dec_nat n else ''?'')"

end
