(* ===== verification/Breaker.thy ===== *)
theory Breaker
  imports Rdbms
begin

text \<open>
  The circuit breaker of \<^verbatim>\<open>ecat-circuit-breaker\<close> (\<^verbatim>\<open>window.rs\<close>, \<^verbatim>\<open>breaker.rs\<close>,
  \<^verbatim>\<open>tower.rs\<close>) and its SQL wrapper \<^verbatim>\<open>ecat-data/src/breaker.rs\<close>. Instants and durations are
  natural numbers of nanoseconds; \<^verbatim>\<open>Instant::elapsed\<close> saturates at zero, as subtraction on
  \<open>nat\<close> does. \<^verbatim>\<open>Breaker::call\<close> releases its mutex around the awaited future, so it is
  modelled by the two critical sections \<open>call_enter\<close> and \<open>call_exit\<close> and by
  \<open>permit_drop\<close>, the \<^verbatim>\<open>Drop\<close> of a probe permit when the future is cancelled; the step
  relation \<open>breaker_step\<close> interleaves any number of calls. Log output is not modelled.
\<close>

section \<open>Double precision quotients\<close>

text \<open>
  \<^verbatim>\<open>failures as f64 / total as f64\<close>: conversion and division round to the nearest double
  (53 significant bits), ties to even. The quotient of two counters is never subnormal.
\<close>

fun bit_len :: "nat \<Rightarrow> nat" where
  "bit_len n = (if n = 0 then 0 else Suc (bit_len (n div 2)))"

declare bit_len.simps [simp del]

definition round_half_even :: "nat \<Rightarrow> nat \<Rightarrow> nat" where
  "round_half_even a b = (let q = a div b; r = a mod b in
     if b < 2 * r \<or> (2 * r = b \<and> odd q) then Suc q else q)"

definition f64_of_u64 :: "nat \<Rightarrow> nat" where
  "f64_of_u64 n = (if n < 2 ^ 53 then n
     else let k = bit_len n - 53 in round_half_even n (2 ^ k) * 2 ^ k)"

definition scale2 :: "int \<Rightarrow> nat \<Rightarrow> nat \<Rightarrow> nat \<times> nat" where
  "scale2 e a b = (if 0 \<le> e then (a * 2 ^ nat e, b) else (a, b * 2 ^ nat (- e)))"

definition f64_quot :: "nat \<Rightarrow> nat \<Rightarrow> rat" where
  "f64_quot a b = (if a = 0 then 0 else
     let e0 = 52 + int (bit_len b) - int (bit_len a);
         (n0, d0) = scale2 e0 a b;
         e = (if n0 div d0 < 2 ^ 52 then e0 + 1 else e0);
         (n, d) = scale2 e a b;
         m = round_half_even n d
     in if 0 \<le> e then of_nat m / 2 ^ nat e else of_nat m * 2 ^ nat (- e))"

lemma f64_quot_zero [simp]: "f64_quot 0 b = 0"
  by (simp add: f64_quot_def)

lemma f64_quot_self: "0 < n \<Longrightarrow> f64_quot n n = 1"
  by (simp add: f64_quot_def scale2_def round_half_even_def Let_def)

section \<open>Sliding window\<close>

record sliding_window =
  successes :: u64
  failures :: u64
  window_start :: nat
  window_len :: nat

definition window_new :: "nat \<Rightarrow> nat \<Rightarrow> sliding_window" where
  "window_new window now =
     \<lparr>successes = 0, failures = 0, window_start = now, window_len = window\<rparr>"

definition window_rotate :: "nat \<Rightarrow> sliding_window \<Rightarrow> sliding_window" where
  "window_rotate now w = (if window_len w \<le> now - window_start w
     then w\<lparr>successes := 0, failures := 0, window_start := now\<rparr> else w)"

definition window_record :: "nat \<Rightarrow> bool \<Rightarrow> sliding_window \<Rightarrow> sliding_window" where
  "window_record now success w = (let w' = window_rotate now w in
     if success then w'\<lparr>successes := successes w' + 1\<rparr>
     else w'\<lparr>failures := failures w' + 1\<rparr>)"

definition window_total :: "nat \<Rightarrow> sliding_window \<Rightarrow> u64 \<times> sliding_window" where
  "window_total now w = (let w' = window_rotate now w in (successes w' + failures w', w'))"

definition window_failure_ratio :: "nat \<Rightarrow> sliding_window \<Rightarrow> rat \<times> sliding_window" where
  "window_failure_ratio now w = (let (total, w') = window_total now w in
     if total = 0 then (0, w')
     else (f64_quot (f64_of_u64 (unat (failures w'))) (f64_of_u64 (unat total)), w'))"

definition window_clear :: "nat \<Rightarrow> sliding_window \<Rightarrow> sliding_window" where
  "window_clear now w = w\<lparr>successes := 0, failures := 0, window_start := now\<rparr>"

section \<open>Breaker state\<close>

datatype breaker_state = Closed | Open | HalfOpen

fun state_code :: "breaker_state \<Rightarrow> u8" where
  "state_code Closed = 0"
| "state_code Open = 1"
| "state_code HalfOpen = 2"

record breaker_config =
  failure_ratio :: rat
  cfg_window :: nat
  half_open_probes :: u32
  open_duration :: nat

text \<open>Durations are nanoseconds: 30 s and 10 s.\<close>

definition default_config :: breaker_config where
  "default_config = \<lparr>failure_ratio = 1 / 2, cfg_window = 30 * 10 ^ 9,
     half_open_probes = 3, open_duration = 10 * 10 ^ 9\<rparr>"

record breaker_inner =
  b_state :: breaker_state
  b_window :: sliding_window
  opened_at :: "nat option"
  half_open_count :: u32
  opened_total :: u64

definition breaker_new :: "breaker_config \<Rightarrow> nat \<Rightarrow> breaker_inner" where
  "breaker_new cfg now = \<lparr>b_state = Closed, b_window = window_new (cfg_window cfg) now,
     opened_at = None, half_open_count = 0, opened_total = 0\<rparr>"

datatype 'e breaker_error = BreakerOpen | ProbesExhausted | Inner 'e

section \<open>A protected call\<close>

text \<open>
  The first critical section of \<^verbatim>\<open>Breaker::call\<close>: an error, or whether the call holds a probe
  permit (\<open>True\<close>) while the future runs.
\<close>

definition call_enter ::
  "breaker_config \<Rightarrow> nat \<Rightarrow> breaker_inner \<Rightarrow> ('e breaker_error, bool) result \<times> breaker_inner" where
  "call_enter cfg now b = (case b_state b of
       Open \<Rightarrow>
         (case opened_at b of
            Some t \<Rightarrow>
              if open_duration cfg \<le> now - t
              then (Inr False, b\<lparr>b_state := HalfOpen, half_open_count := 0\<rparr>)
              else (Inl BreakerOpen, b)
          | None \<Rightarrow> (Inr False, b))
     | HalfOpen \<Rightarrow>
         if half_open_probes cfg \<le> half_open_count b
         then (Inl ProbesExhausted, b)
         else (Inr True, b\<lparr>half_open_count := half_open_count b + 1\<rparr>)
     | Closed \<Rightarrow> (Inr False, b))"

text \<open>
  The clock readings of the second critical section: when the outcome is recorded, when the
  total and the ratio are read, and when a transition stores the time.
\<close>

record readings =
  at_record :: nat
  at_total :: nat
  at_ratio :: nat
  at_change :: nat

definition record_outcome ::
  "('t \<Rightarrow> bool) option \<Rightarrow> nat \<Rightarrow> ('e, 't) result \<Rightarrow> sliding_window \<Rightarrow> sliding_window" where
  "record_outcome classify now res w = (case res of
       Inr resp \<Rightarrow>
         (let is_failure = (case classify of None \<Rightarrow> False | Some c \<Rightarrow> c resp)
          in window_record now (\<not> is_failure) w)
     | Inl _ \<Rightarrow> window_record now False w)"

definition call_exit ::
  "breaker_config \<Rightarrow> ('t \<Rightarrow> bool) option \<Rightarrow> readings \<Rightarrow> ('e, 't) result \<Rightarrow>
   breaker_inner \<Rightarrow> breaker_inner" where
  "call_exit cfg classify r res b0 =
     (let b = b0\<lparr>b_window := record_outcome classify (at_record r) res (b_window b0)\<rparr> in
      case b_state b of
        Closed \<Rightarrow>
          (let (total, w1) = window_total (at_total r) (b_window b); b1 = b\<lparr>b_window := w1\<rparr> in
           if total < 5 then b1
           else (let (ratio, w2) = window_failure_ratio (at_ratio r) w1;
                     b2 = b1\<lparr>b_window := w2\<rparr> in
                 if failure_ratio cfg \<le> ratio
                 then b2\<lparr>b_state := Open, opened_at := Some (at_change r),
                        opened_total := opened_total b2 + 1\<rparr>
                 else b2))
      | HalfOpen \<Rightarrow>
          if is_ok res
          then b\<lparr>b_state := Closed, opened_at := None,
                b_window := window_clear (at_change r) (b_window b)\<rparr>
          else b\<lparr>b_state := Open, opened_at := Some (at_change r),
                opened_total := opened_total b + 1\<rparr>
      | Open \<Rightarrow> b)"

text \<open>\<^verbatim>\<open>Drop for ProbePermit\<close> when the call is cancelled while its future runs.\<close>

definition permit_drop :: "bool \<Rightarrow> breaker_inner \<Rightarrow> breaker_inner" where
  "permit_drop armed b = (if armed
     then b\<lparr>half_open_count := saturating_sub_w (half_open_count b) 1\<rparr> else b)"

text \<open>
  The whole of \<^verbatim>\<open>Breaker::call\<close> when no other call interleaves: \<open>f\<close> is the awaited future,
  run only after the first critical section let the call through. The last component says
  whether \<open>f\<close> was run.
\<close>

definition breaker_call ::
  "breaker_config \<Rightarrow> ('t \<Rightarrow> bool) option \<Rightarrow> nat \<Rightarrow> readings \<Rightarrow> ('e, 't) result \<Rightarrow> breaker_inner \<Rightarrow>
   ('e breaker_error, 't) result \<times> breaker_inner \<times> bool" where
  "breaker_call cfg classify now r f b = (case call_enter cfg now b of
       (Inl e, b') \<Rightarrow> (Inl e, b', False)
     | (Inr permit, b') \<Rightarrow> (map_err Inner f, call_exit cfg classify r f b', True))"

text \<open>\<^verbatim>\<open>Breaker::state\<close>: reports the cool-down, without changing the stored state.\<close>

definition effective_state :: "breaker_config \<Rightarrow> nat \<Rightarrow> breaker_inner \<Rightarrow> breaker_state" where
  "effective_state cfg now b =
     (let cooled_down = (case opened_at b of None \<Rightarrow> False | Some t \<Rightarrow> open_duration cfg \<le> now - t)
      in if b_state b = Open \<and> cooled_down then HalfOpen else b_state b)"

section \<open>The tower layer and the SQL wrapper\<close>

text \<open>
  \<^verbatim>\<open>CircuitBreakerLayer\<close> clamps what its builder sets; \<^verbatim>\<open>layer\<close> makes a fresh breaker and the
  service's \<^verbatim>\<open>call\<close> is a breaker call with the layer's \<open>classify\<close>.
\<close>

record 't breaker_layer =
  layer_config :: breaker_config
  layer_classify :: "('t \<Rightarrow> bool) option"

definition layer_new :: "'t breaker_layer" where
  "layer_new = \<lparr>layer_config = default_config, layer_classify = None\<rparr>"

definition set_classify :: "('t \<Rightarrow> bool) \<Rightarrow> 't breaker_layer \<Rightarrow> 't breaker_layer" where
  "set_classify f l = l\<lparr>layer_classify := Some f\<rparr>"

definition set_failure_ratio :: "rat \<Rightarrow> 't breaker_layer \<Rightarrow> 't breaker_layer" where
  "set_failure_ratio ratio l = l\<lparr>layer_config := (layer_config l)\<lparr>failure_ratio :=
     (if ratio < 0 then 0 else if 1 < ratio then 1 else ratio)\<rparr>\<rparr>"

definition set_window :: "nat \<Rightarrow> 't breaker_layer \<Rightarrow> 't breaker_layer" where
  "set_window w l = l\<lparr>layer_config := (layer_config l)\<lparr>cfg_window := w\<rparr>\<rparr>"

definition set_half_open_probes :: "u32 \<Rightarrow> 't breaker_layer \<Rightarrow> 't breaker_layer" where
  "set_half_open_probes probes l =
     l\<lparr>layer_config := (layer_config l)\<lparr>half_open_probes := max probes 1\<rparr>\<rparr>"

definition set_open_duration :: "nat \<Rightarrow> 't breaker_layer \<Rightarrow> 't breaker_layer" where
  "set_open_duration d l = l\<lparr>layer_config := (layer_config l)\<lparr>open_duration := d\<rparr>\<rparr>"

definition layer_breaker :: "'t breaker_layer \<Rightarrow> nat \<Rightarrow> breaker_inner" where
  "layer_breaker l now = breaker_new (layer_config l) now"

definition service_call ::
  "'t breaker_layer \<Rightarrow> nat \<Rightarrow> readings \<Rightarrow> ('e, 't) result \<Rightarrow> breaker_inner \<Rightarrow>
   ('e breaker_error, 't) result \<times> breaker_inner \<times> bool" where
  "service_call l now r f b = breaker_call (layer_config l) (layer_classify l) now r f b"

text \<open>
  \<^verbatim>\<open>CircuitBreakerExecutor\<close>: a backend error passes unchanged, a refused call becomes a
  connection error. The six statement methods have the same body around the wrapped client's
  method, whose outcome is \<open>f\<close>.
\<close>

fun breaker_error_text :: "rdbms_error breaker_error \<Rightarrow> string" where
  "breaker_error_text BreakerOpen = ''circuit breaker is open''"
| "breaker_error_text ProbesExhausted = ''circuit breaker: too many probes''"
| "breaker_error_text (Inner e) = rdbms_error_text e"

definition map_breaker_error :: "rdbms_error breaker_error \<Rightarrow> rdbms_error" where
  "map_breaker_error e = (case e of
       Inner inner \<Rightarrow> inner
     | other \<Rightarrow> RdbmsConnection (breaker_error_text other))"

definition executor_call ::
  "breaker_config \<Rightarrow> nat \<Rightarrow> readings \<Rightarrow> (rdbms_error, 't) result \<Rightarrow> breaker_inner \<Rightarrow>
   (rdbms_error, 't) result \<times> breaker_inner \<times> bool" where
  "executor_call cfg now r f b = (case breaker_call cfg None now r f b of
     (res, b', called) \<Rightarrow> (map_err map_breaker_error res, b', called))"

section \<open>Concurrent calls\<close>

text \<open>
  Any number of calls share one breaker. A state holds the breaker, the clock and how many calls
  are between their two critical sections, with and without a probe permit. The error value of
  a call plays no role for the breaker and is the unit.
\<close>

record breaker_sys =
  sys_inner :: breaker_inner
  sys_clock :: nat
  probes_in_flight :: nat
  plain_in_flight :: nat

definition sys_init :: "breaker_config \<Rightarrow> breaker_sys \<Rightarrow> bool" where
  "sys_init cfg s \<longleftrightarrow> sys_inner s = breaker_new cfg (sys_clock s)
     \<and> probes_in_flight s = 0 \<and> plain_in_flight s = 0"

definition in_flight :: "bool \<Rightarrow> breaker_sys \<Rightarrow> nat" where
  "in_flight p s = (if p then probes_in_flight s else plain_in_flight s)"

definition start_flight :: "bool \<Rightarrow> breaker_sys \<Rightarrow> breaker_sys" where
  "start_flight p s = (if p then s\<lparr>probes_in_flight := Suc (probes_in_flight s)\<rparr>
     else s\<lparr>plain_in_flight := Suc (plain_in_flight s)\<rparr>)"

definition end_flight :: "bool \<Rightarrow> breaker_sys \<Rightarrow> breaker_sys" where
  "end_flight p s = (if p then s\<lparr>probes_in_flight := probes_in_flight s - 1\<rparr>
     else s\<lparr>plain_in_flight := plain_in_flight s - 1\<rparr>)"

definition in_order :: "nat \<Rightarrow> readings \<Rightarrow> bool" where
  "in_order now r \<longleftrightarrow> now \<le> at_record r \<and> at_record r \<le> at_total r
     \<and> at_total r \<le> at_ratio r \<and> at_ratio r \<le> at_change r"

inductive breaker_step ::
  "breaker_config \<Rightarrow> ('t \<Rightarrow> bool) option \<Rightarrow> breaker_sys \<Rightarrow> breaker_sys \<Rightarrow> bool"
  for cfg classify where
  tick: "breaker_step cfg classify s (s\<lparr>sys_clock := sys_clock s + d\<rparr>)"
| enter: "call_enter cfg (sys_clock s) (sys_inner s) = (Inr p :: (unit breaker_error, bool) result, b)
     \<Longrightarrow> breaker_step cfg classify s (start_flight p (s\<lparr>sys_inner := b\<rparr>))"
| refuse: "call_enter cfg (sys_clock s) (sys_inner s) = (Inl e :: (unit breaker_error, bool) result, b)
     \<Longrightarrow> breaker_step cfg classify s (s\<lparr>sys_inner := b\<rparr>)"
| finish: "0 < in_flight p s \<Longrightarrow> in_order (sys_clock s) r
     \<Longrightarrow> breaker_step cfg classify s (end_flight p (s\<lparr>sys_inner :=
           call_exit cfg classify r (res :: (unit, 't) result) (sys_inner s), sys_clock := at_change r\<rparr>))"
| cancel: "0 < in_flight p s
     \<Longrightarrow> breaker_step cfg classify s (end_flight p (s\<lparr>sys_inner := permit_drop p (sys_inner s)\<rparr>))"

section \<open>Invariant\<close>

lemma call_exit_count [simp]:
  "half_open_count (call_exit cfg classify r res b) = half_open_count b"
  by (auto simp: call_exit_def Let_def split: breaker_state.split prod.split)

lemma call_exit_not_half_open [simp]: "b_state (call_exit cfg classify r res b) \<noteq> HalfOpen"
  by (auto simp: call_exit_def Let_def split: breaker_state.split prod.split)

lemma call_exit_opened_at:
  "(opened_at b = None \<longleftrightarrow> b_state b = Closed) \<Longrightarrow>
   (opened_at (call_exit cfg classify r res b) = None
      \<longleftrightarrow> b_state (call_exit cfg classify r res b) = Closed)"
  by (cases "b_state b") (auto simp: call_exit_def Let_def split: prod.split)

lemma permit_drop_simps [simp]:
  "b_state (permit_drop p b) = b_state b" "opened_at (permit_drop p b) = opened_at b"
  "b_window (permit_drop p b) = b_window b"
  "unat (half_open_count (permit_drop p b)) = unat (half_open_count b) - (if p then 1 else 0)"
  by (simp_all add: permit_drop_def unat_saturating_sub)

lemma flight_simps [simp]:
  "sys_inner (start_flight p s) = sys_inner s" "sys_inner (end_flight p s) = sys_inner s"
  "sys_clock (start_flight p s) = sys_clock s" "sys_clock (end_flight p s) = sys_clock s"
  "probes_in_flight (start_flight p s) = probes_in_flight s + (if p then 1 else 0)"
  "probes_in_flight (end_flight p s) = probes_in_flight s - (if p then 1 else 0)"
  "in_flight p (start_flight p s) = Suc (in_flight p s)"
  by (simp_all add: start_flight_def end_flight_def in_flight_def)

definition breaker_inv :: "breaker_config \<Rightarrow> breaker_sys \<Rightarrow> bool" where
  "breaker_inv cfg s \<longleftrightarrow>
     (opened_at (sys_inner s) = None \<longleftrightarrow> b_state (sys_inner s) = Closed)
   \<and> unat (half_open_count (sys_inner s)) \<le> unat (half_open_probes cfg)
   \<and> (b_state (sys_inner s) = HalfOpen \<longrightarrow>
        unat (half_open_count (sys_inner s)) \<le> probes_in_flight s)"

lemma breaker_inv_init: "sys_init cfg s \<Longrightarrow> breaker_inv cfg s"
  by (simp add: sys_init_def breaker_inv_def breaker_new_def)

lemma call_enter_inv:
  assumes "call_enter cfg now b = (x, b')"
    and "opened_at b = None \<longleftrightarrow> b_state b = Closed"
    and "unat (half_open_count b) \<le> unat (half_open_probes cfg)"
    and "b_state b = HalfOpen \<longrightarrow> unat (half_open_count b) \<le> n"
  shows "(opened_at b' = None \<longleftrightarrow> b_state b' = Closed)
     \<and> unat (half_open_count b') \<le> unat (half_open_probes cfg)
     \<and> (b_state b' = HalfOpen \<longrightarrow> unat (half_open_count b') \<le> n + (if x = Inr True then 1 else 0))"
proof (cases "b_state b")
  case HalfOpen
  show ?thesis
  proof (cases "half_open_probes cfg \<le> half_open_count b")
    case True
    with HalfOpen assms show ?thesis by (auto simp: call_enter_def)
  next
    case False
    then have lt: "half_open_count b < half_open_probes cfg" by simp
    from HalfOpen False assms(1) have
      "x = Inr True" "b' = b\<lparr>half_open_count := half_open_count b + 1\<rparr>"
      by (simp_all add: call_enter_def)
    moreover from lt have "unat (half_open_count b) < unat (half_open_probes cfg)"
      by (simp add: word_less_nat_alt)
    ultimately show ?thesis
      using HalfOpen assms(2,4) unat_inc [OF lt] by auto
  qed
qed (use assms in \<open>auto simp: call_enter_def split: option.splits if_splits\<close>)

lemma breaker_inv_step:
  assumes "breaker_step cfg classify s t" and "breaker_inv cfg s"
  shows "breaker_inv cfg t"
  using assms
proof (induction rule: breaker_step.induct)
  case (tick s d)
  then show ?case by (simp add: breaker_inv_def)
next
  case (enter s p b)
  from call_enter_inv [OF enter.hyps] enter.prems show ?case
    by (cases p) (auto simp: breaker_inv_def)
next
  case (refuse s e b)
  from call_enter_inv [OF refuse.hyps] refuse.prems show ?case
    by (auto simp: breaker_inv_def)
next
  case (finish p s r res)
  then show ?case by (simp add: breaker_inv_def call_exit_opened_at)
next
  case (cancel p s)
  then show ?case by (cases p) (auto simp: breaker_inv_def in_flight_def)
qed

interpretation brk: inductive_invariant "sys_init cfg" "breaker_step cfg classify" "breaker_inv cfg"
  for cfg classify
  by unfold_locales (auto intro: breaker_inv_init breaker_inv_step)

lemmas breaker_reachable_inv = brk.reachable_invar

section \<open>Recovery\<close>

lemma finish_closes:
  assumes "b_state (sys_inner s) = HalfOpen" and "0 < in_flight p s"
  shows "\<exists>t. breaker_step cfg classify s t \<and> b_state (sys_inner t) = Closed"
proof -
  let ?r = "\<lparr>at_record = sys_clock s, at_total = sys_clock s, at_ratio = sys_clock s,
             at_change = sys_clock s\<rparr>"
  let ?res = "Inr undefined :: (unit, 'a) result"
  have "in_order (sys_clock s) ?r" by (simp add: in_order_def)
  from breaker_step.finish [OF assms(2) this, of cfg classify ?res]
  show ?thesis
    using assms(1) by (intro exI conjI) (auto simp: call_exit_def Let_def)
qed

lemma half_open_closes:
  assumes "breaker_inv cfg s" and "b_state (sys_inner s) = HalfOpen" and "1 \<le> half_open_probes cfg"
  shows "\<exists>t. (breaker_step cfg classify)\<^sup>*\<^sup>* s t \<and> b_state (sys_inner t) = Closed"
proof (cases "\<exists>p. 0 < in_flight p s")
  case True
  then show ?thesis using finish_closes [OF assms(2)] by (blast intro: r_into_rtranclp)
next
  case False
  then have "probes_in_flight s = 0" by (metis in_flight_def neq0_conv)
  with assms(1,2) have "half_open_count (sys_inner s) = 0"
    by (simp add: breaker_inv_def unat_eq_0)
  moreover from assms(3) have "\<not> half_open_probes cfg \<le> 0"
    by (simp add: word_le_nat_alt)
  ultimately have "call_enter cfg (sys_clock s) (sys_inner s)
      = (Inr True :: (unit breaker_error, bool) result, (sys_inner s)\<lparr>half_open_count := 1\<rparr>)"
    using assms(2) by (simp add: call_enter_def)
  note step = breaker_step.enter [OF this, of classify]
  let ?u = "start_flight True (s\<lparr>sys_inner := (sys_inner s)\<lparr>half_open_count := 1\<rparr>\<rparr>)"
  have "0 < in_flight True ?u" by simp
  with assms(2) obtain t where "breaker_step cfg classify ?u t" "b_state (sys_inner t) = Closed"
    using finish_closes [of ?u True cfg classify] by auto
  with step show ?thesis by (blast intro: converse_rtranclp_into_rtranclp r_into_rtranclp)
qed

lemma open_half_opens:
  assumes "breaker_inv cfg s" and "b_state (sys_inner s) = Open"
  shows "\<exists>t. (breaker_step cfg classify)\<^sup>*\<^sup>* s t \<and> b_state (sys_inner t) = HalfOpen
     \<and> in_flight False t = Suc (in_flight False s) \<and> half_open_count (sys_inner t) = 0
     \<and> probes_in_flight t = probes_in_flight s"
proof -
  from assms obtain t0 where t0: "opened_at (sys_inner s) = Some t0"
    by (auto simp: breaker_inv_def)
  let ?u = "s\<lparr>sys_clock := sys_clock s + (open_duration cfg + t0)\<rparr>"
  have "call_enter cfg (sys_clock ?u) (sys_inner ?u)
      = (Inr False :: (unit breaker_error, bool) result,
         (sys_inner s)\<lparr>b_state := HalfOpen, half_open_count := 0\<rparr>)"
    using t0 assms(2) by (simp add: call_enter_def)
  from breaker_step.enter [OF this, of classify] breaker_step.tick [of cfg classify s]
  have "(breaker_step cfg classify)\<^sup>*\<^sup>* s
      (start_flight False (?u\<lparr>sys_inner := (sys_inner s)\<lparr>b_state := HalfOpen, half_open_count := 0\<rparr>\<rparr>))"
    by (meson converse_rtranclp_into_rtranclp r_into_rtranclp)
  moreover have "in_flight False (start_flight False v) = Suc (in_flight False v)"
      "probes_in_flight (start_flight False v) = probes_in_flight v" for v
    by (simp_all add: in_flight_def start_flight_def)
  ultimately show ?thesis by (auto simp: in_flight_def)
qed

text \<open>
  C1. The breaker never gets stuck: whatever calls were made, finished, refused or cancelled
  before, if at least one probe is configured then some continuation closes it again.
\<close>

theorem breaker_recovers:
  assumes "reachable_from (sys_init cfg) (breaker_step cfg classify) s"
    and "1 \<le> half_open_probes cfg"
  shows "\<exists>t. (breaker_step cfg classify)\<^sup>*\<^sup>* s t \<and> b_state (sys_inner t) = Closed"
proof -
  from assms(1) have inv: "breaker_inv cfg s" by (rule breaker_reachable_inv)
  show ?thesis
  proof (cases "b_state (sys_inner s)")
    case Closed
    then show ?thesis by blast
  next
    case HalfOpen
    with inv assms(2) show ?thesis by (blast intro: half_open_closes)
  next
    case Open
    from open_half_opens [OF inv Open, of classify] obtain u where
      u: "(breaker_step cfg classify)\<^sup>*\<^sup>* s u" "b_state (sys_inner u) = HalfOpen" by blast
    from brk.star_invar [OF u(1) inv] u(2) assms(2) obtain t where
      "(breaker_step cfg classify)\<^sup>*\<^sup>* u t" "b_state (sys_inner t) = Closed"
      by (blast dest: half_open_closes)
    with u(1) show ?thesis by (blast intro: rtranclp_trans)
  qed
qed


section \<open>Sequences of calls\<close>


text \<open>All readings of a call fall inside the window that started at \<open>t0\<close>.\<close>

definition in_window :: "breaker_config \<Rightarrow> nat \<Rightarrow> nat \<times> readings \<times> ('e, 't) result \<Rightarrow> bool" where
  "in_window cfg t0 c = (case c of (now, r, f) \<Rightarrow>
     at_record r - t0 < cfg_window cfg \<and> at_total r - t0 < cfg_window cfg
     \<and> at_ratio r - t0 < cfg_window cfg)"

text \<open>A closed breaker whose window holds \<open>k\<close> failures and no success.\<close>

definition failing_run :: "breaker_config \<Rightarrow> nat \<Rightarrow> nat \<Rightarrow> breaker_inner \<Rightarrow> bool" where
  "failing_run cfg t0 k b \<longleftrightarrow> b_state b = Closed
     \<and> b_window b = \<lparr>successes = 0, failures = of_nat k, window_start = t0, window_len = cfg_window cfg\<rparr>"

lemma f64_of_u64_small: "n < 2 ^ 53 \<Longrightarrow> f64_of_u64 n = n"
  by (simp add: f64_of_u64_def)

lemma unat_small_count: "k < 10 \<Longrightarrow> unat (of_nat k :: u64) = k"
  by (simp add: unat_of_nat)

lemma failing_call:
  assumes "failing_run cfg t0 k b" and "k < 5" and "in_window cfg t0 (now, r, Inl e :: ('e, 't) result)"
    and "failure_ratio cfg \<le> 1"
  shows "let b' = fst (snd (breaker_call cfg classify now r (Inl e :: ('e, 't) result) b)) in
     if Suc k < 5 then failing_run cfg t0 (Suc k) b'
     else b_state b' = Open \<and> opened_at b' = Some (at_change r)
          \<and> opened_total b' = opened_total b + 1"
proof -
  let ?w = "\<lparr>successes = 0, failures = of_nat k + 1, window_start = t0, window_len = cfg_window cfg\<rparr>"
  have u: "unat (1 + of_nat k :: u64) = Suc k"
    using assms(2) unat_small_count [of "Suc k"] by simp
  then have small: "(1 + of_nat k :: u64) < 5 \<longleftrightarrow> Suc k < 5"
    by (simp add: word_less_nat_alt)
  from u have nonzero: "(1 + of_nat k :: u64) \<noteq> 0"
    by (metis nat.distinct(1) unat_0)
  have ratio: "f64_quot (f64_of_u64 (Suc k)) (f64_of_u64 (Suc k)) = 1"
    using assms(2) by (simp add: f64_of_u64_small f64_quot_self)
  show ?thesis
    using assms small nonzero ratio
    by (auto simp: failing_run_def in_window_def breaker_call_def call_enter_def call_exit_def
        record_outcome_def window_record_def window_rotate_def window_total_def
        window_failure_ratio_def Let_def u not_le add.commute)
qed

lemma failing_run_new: "failing_run cfg t0 0 (breaker_new cfg t0)"
  by (simp add: failing_run_def breaker_new_def window_new_def)



text \<open>With a positive threshold, successful calls alone never trip a closed breaker.\<close>

lemma success_keeps_closed:
  assumes "b_state b = Closed" and "failures (b_window b) = 0" and "0 < failure_ratio cfg"
  shows "let b' = fst (snd (breaker_call cfg None now r (Inr x) b)) in
     b_state b' = Closed \<and> failures (b_window b') = 0"
  using assms
  by (auto simp: breaker_call_def call_enter_def call_exit_def record_outcome_def window_record_def
      window_rotate_def window_total_def window_failure_ratio_def Let_def f64_of_u64_def not_le)

section \<open>Agreement of \<^verbatim>\<open>state\<close> and \<^verbatim>\<open>call\<close>, half-open outcomes\<close>

text \<open>
  C4. \<^verbatim>\<open>Breaker::state\<close> tells what a call would do: it reports \<open>Open\<close> exactly when a call through
  the SQL wrapper is refused with the connection error of an open breaker, without running the
  statement and without changing the breaker.
\<close>

theorem open_state_refuses:
  assumes "reachable_from (sys_init cfg) (breaker_step cfg classify) s"
  shows "effective_state cfg now (sys_inner s) = Open \<longleftrightarrow>
     executor_call cfg now r f (sys_inner s)
       = (Inl (RdbmsConnection ''circuit breaker is open''), sys_inner s, False)"
proof -
  from assms have "breaker_inv cfg s" by (rule breaker_reachable_inv)
  then show ?thesis
    by (cases "b_state (sys_inner s)")
      (auto simp: effective_state_def executor_call_def breaker_call_def call_enter_def
        map_breaker_error_def breaker_inv_def split: option.splits if_splits)
qed

text \<open>
  C5. The call that finds an open breaker cooled down runs its future and decides alone: any \<open>Ok\<close>
  closes the breaker with an empty window, even when \<open>classify\<close> counts the response as a
  failure; an error opens it again for a full cool-down and counts one more opening.
\<close>

theorem cooled_down_call_decides:
  assumes "b_state b = Open" and "opened_at b = Some t" and "open_duration cfg \<le> now - t"
  shows "let (res, b', called) = breaker_call cfg classify now r f b in
     res = map_err Inner f \<and> called \<and>
     (case f of
        Inr x \<Rightarrow> b_state b' = Closed \<and> opened_at b' = None \<and> successes (b_window b') = 0
                 \<and> failures (b_window b') = 0 \<and> opened_total b' = opened_total b
      | Inl e \<Rightarrow> b_state b' = Open \<and> opened_at b' = Some (at_change r)
                 \<and> opened_total b' = opened_total b + 1
                 \<and> (\<forall>now'. now' - at_change r < open_duration cfg \<longrightarrow>
                       effective_state cfg now' b' = Open))"
  using assms
  by (auto simp: breaker_call_def call_enter_def call_exit_def window_clear_def effective_state_def
      Let_def split: sum.split)

section \<open>Counting openings\<close>

lemma call_exit_opened_total:
  "opened_total (call_exit cfg classify r res b) = opened_total b
     + (if b_state b \<noteq> Open \<and> b_state (call_exit cfg classify r res b) = Open then 1 else 0)"
  by (cases "b_state b") (auto simp: call_exit_def Let_def split: prod.split)

text \<open>
  Every step adds one to \<^verbatim>\<open>opened_total\<close> if it turns the breaker to \<open>Open\<close> and leaves the
  counter alone otherwise, so the metric counts openings, re-openings after a failed probe
  included.
\<close>

theorem opened_total_counts_openings:
  assumes "breaker_step cfg classify s t"
  shows "opened_total (sys_inner t) = opened_total (sys_inner s)
     + (if b_state (sys_inner s) \<noteq> Open \<and> b_state (sys_inner t) = Open then 1 else 0)"
  using assms
proof (induction rule: breaker_step.induct)
  case (finish p s r res)
  then show ?case by (simp add: call_exit_opened_total)
next
  case (cancel p s)
  then show ?case by (simp add: permit_drop_def)
qed (auto simp: call_enter_def split: breaker_state.splits option.splits if_splits)

section \<open>Witnesses and the zero-probe configuration\<close>

definition readings_at :: "nat \<Rightarrow> readings" where
  "readings_at t = \<lparr>at_record = t, at_total = t, at_ratio = t, at_change = t\<rparr>"

lemma readings_at_simps [simp]:
  "at_record (readings_at t) = t" "at_total (readings_at t) = t"
  "at_ratio (readings_at t) = t" "at_change (readings_at t) = t"
  by (simp_all add: readings_at_def)

lemma in_order_readings_at: "now \<le> t \<Longrightarrow> in_order now (readings_at t)"
  by (simp add: in_order_def readings_at_def)

lemma start_end_flight:
  "end_flight p ((start_flight p (s\<lparr>sys_inner := c\<rparr>))\<lparr>sys_inner := b, sys_clock := t\<rparr>)
     = s\<lparr>sys_inner := b, sys_clock := t\<rparr>"
  by (cases p; cases s) (simp_all add: start_flight_def end_flight_def)

text \<open>A sequential call is a run of the interleaved system.\<close>

lemma sequential_call_steps:
  fixes f :: "(unit, 't) result"
  assumes "breaker_call cfg classify (sys_clock s) r f (sys_inner s) = (res, b, True)"
    and "in_order (sys_clock s) r"
  shows "(breaker_step cfg classify)\<^sup>*\<^sup>* s (s\<lparr>sys_inner := b, sys_clock := at_change r\<rparr>)"
proof -
  from assms(1) obtain p c where enter: "call_enter cfg (sys_clock s) (sys_inner s)
      = (Inr p :: (unit breaker_error, bool) result, c)" and b: "b = call_exit cfg classify r f c"
    by (auto simp: breaker_call_def split: prod.splits sum.splits)
  let ?u = "start_flight p (s\<lparr>sys_inner := c\<rparr>)"
  have "0 < in_flight p ?u" "in_order (sys_clock ?u) r" using assms(2) by simp_all
  from breaker_step.enter [OF enter, of classify] breaker_step.finish [OF this, of cfg classify f] b
  have "(breaker_step cfg classify)\<^sup>*\<^sup>* s
      (end_flight p (?u\<lparr>sys_inner := b, sys_clock := at_change r\<rparr>))"
    by (simp add: converse_rtranclp_into_rtranclp r_into_rtranclp)
  then show ?thesis by (simp add: start_end_flight)
qed

lemma failing_steps:
  assumes "failing_run cfg 0 k (sys_inner s)" and "sys_clock s = 0" and "0 < cfg_window cfg"
    and "failure_ratio cfg \<le> 1" and "k < 5" and "k + n \<le> 5"
  shows "\<exists>b. (breaker_step cfg classify)\<^sup>*\<^sup>* s (s\<lparr>sys_inner := b\<rparr>) \<and>
     (if k + n < 5 then failing_run cfg 0 (k + n) b
      else b_state b = Open \<and> opened_at b = Some 0)"
  using assms
proof (induction n arbitrary: k s)
  case 0
  have "s\<lparr>sys_inner := sys_inner s\<rparr> = s" by simp
  with 0 show ?case by (metis add.right_neutral rtranclp.rtrancl_refl)
next
  case (Suc n)
  let ?f = "Inl () :: (unit, 'a) result"
  have win: "in_window cfg 0 (0, readings_at 0, ?f)"
    using Suc.prems(3) by (simp add: in_window_def readings_at_def)
  obtain res b called where
    call: "breaker_call cfg classify (sys_clock s) (readings_at 0) ?f (sys_inner s) = (res, b, called)"
    by (metis prod_cases3)
  with Suc.prems(1) have called by (auto simp: breaker_call_def call_enter_def failing_run_def)
  with call Suc.prems(2) have
    steps: "(breaker_step cfg classify)\<^sup>*\<^sup>* s (s\<lparr>sys_inner := b, sys_clock := 0\<rparr>)"
    using sequential_call_steps [of cfg classify s "readings_at 0" ?f res b]
      in_order_readings_at [of 0 0] by (simp add: readings_at_def)
  then have to_b: "(breaker_step cfg classify)\<^sup>*\<^sup>* s (s\<lparr>sys_inner := b\<rparr>)"
    using Suc.prems(2) by (cases s) simp
  have after: "if Suc k < 5 then failing_run cfg 0 (Suc k) b
      else b_state b = Open \<and> opened_at b = Some 0"
    using failing_call [OF Suc.prems(1,5) win Suc.prems(4), of classify] call Suc.prems(2)
    by (simp add: Let_def split: if_splits)
  show ?case
  proof (cases "Suc k < 5")
    case True
    with after have "failing_run cfg 0 (Suc k) (sys_inner (s\<lparr>sys_inner := b\<rparr>))" by simp
    from Suc.IH [OF this] Suc.prems True obtain c where
      "(breaker_step cfg classify)\<^sup>*\<^sup>* (s\<lparr>sys_inner := b\<rparr>) (s\<lparr>sys_inner := c\<rparr>)"
      "if Suc k + n < 5 then failing_run cfg 0 (Suc k + n) c
       else b_state c = Open \<and> opened_at c = Some 0" by auto
    with to_b show ?thesis by (auto intro: rtranclp_trans)
  next
    case False
    with after to_b Suc.prems(6) show ?thesis by auto
  qed
qed

lemma tripped_reachable:
  assumes "0 < cfg_window cfg" and "failure_ratio cfg \<le> 1"
  shows "\<exists>s. reachable_from (sys_init cfg) (breaker_step cfg classify) s
     \<and> b_state (sys_inner s) = Open \<and> probes_in_flight s = 0 \<and> plain_in_flight s = 0"
proof -
  let ?s = "\<lparr>sys_inner = breaker_new cfg 0, sys_clock = 0, probes_in_flight = 0, plain_in_flight = 0\<rparr>"
  have "reachable_from (sys_init cfg) (breaker_step cfg classify) ?s"
    by (rule reach_init) (simp add: sys_init_def)
  moreover obtain b where "(breaker_step cfg classify)\<^sup>*\<^sup>* ?s (?s\<lparr>sys_inner := b\<rparr>)" "b_state b = Open"
    using failing_steps [of cfg 0 ?s 5 classify] failing_run_new [of cfg 0] assms by auto
  ultimately show ?thesis
    by (intro exI [of _ "?s\<lparr>sys_inner := b\<rparr>"]) (auto intro: reachable_star)
qed

theorem breaker_recovers_witness:
  "\<exists>s. reachable_from (sys_init default_config) (breaker_step default_config (None :: (nat \<Rightarrow> bool) option)) s
     \<and> b_state (sys_inner s) = Open
     \<and> (\<exists>t. (breaker_step default_config (None :: (nat \<Rightarrow> bool) option))\<^sup>*\<^sup>* s t
          \<and> b_state (sys_inner t) = Closed)"
proof -
  obtain s where s: "reachable_from (sys_init default_config)
      (breaker_step default_config (None :: (nat \<Rightarrow> bool) option)) s" "b_state (sys_inner s) = Open"
    using tripped_reachable [of default_config] by (auto simp: default_config_def)
  have "1 \<le> half_open_probes default_config" by (simp add: default_config_def)
  from breaker_recovers [OF s(1) this] s show ?thesis by blast
qed

lemma zero_probes_stay_half_open:
  assumes "(breaker_step cfg classify)\<^sup>*\<^sup>* s t" and "half_open_probes cfg = 0"
    and "b_state (sys_inner s) = HalfOpen" and "probes_in_flight s = 0" and "plain_in_flight s = 0"
  shows "b_state (sys_inner t) = HalfOpen \<and> probes_in_flight t = 0 \<and> plain_in_flight t = 0"
  using assms(1)
proof (induction rule: rtranclp_induct)
  case base
  with assms show ?case by simp
next
  case (step t u)
  from step.hyps(2) step.IH assms(2) show ?case
    by (cases rule: breaker_step.cases) (auto simp: call_enter_def in_flight_def split: if_splits)
qed

text \<open>
  C6. A breaker built with \<^verbatim>\<open>half_open_probes: 0\<close>, which \<^verbatim>\<open>Breaker::new\<close> accepts, can reach a state
  that refuses every call for ever: the call that moved it to half-open is cancelled, and no
  probe is ever admitted again.
\<close>

theorem zero_probes_can_wedge:
  assumes "half_open_probes cfg = 0" and "0 < cfg_window cfg" and "failure_ratio cfg \<le> 1"
  shows "\<exists>s. reachable_from (sys_init cfg) (breaker_step cfg classify) s \<and>
     (\<forall>t. (breaker_step cfg classify)\<^sup>*\<^sup>* s t \<longrightarrow>
        b_state (sys_inner t) = HalfOpen \<and>
        (\<forall>now. fst (call_enter cfg now (sys_inner t)) = Inl ProbesExhausted))"
proof -
  obtain s where s: "reachable_from (sys_init cfg) (breaker_step cfg classify) s"
    "b_state (sys_inner s) = Open" "probes_in_flight s = 0" "plain_in_flight s = 0"
    using tripped_reachable [OF assms(2,3), of classify] by blast
  obtain u where u: "(breaker_step cfg classify)\<^sup>*\<^sup>* s u" "b_state (sys_inner u) = HalfOpen"
    "in_flight False u = 1" "probes_in_flight u = 0"
    using open_half_opens [OF breaker_reachable_inv [OF s(1)] s(2)] s(3,4)
    by (fastforce simp: in_flight_def)
  let ?v = "end_flight False (u\<lparr>sys_inner := permit_drop False (sys_inner u)\<rparr>)"
  have "breaker_step cfg classify u ?v" using u(3) by (intro breaker_step.cancel) simp
  with s(1) u(1) have "reachable_from (sys_init cfg) (breaker_step cfg classify) ?v"
    by (meson reach_step reachable_star)
  moreover have v: "b_state (sys_inner ?v) = HalfOpen" "probes_in_flight ?v = 0" "plain_in_flight ?v = 0"
    using u by (simp_all add: end_flight_def in_flight_def)
  ultimately show ?thesis
    using zero_probes_stay_half_open [OF _ assms(1) v] assms(1)
    by (intro exI [of _ ?v]) (auto simp: call_enter_def)
qed




theorem open_state_refuses_witness:
  "\<exists>s. reachable_from (sys_init default_config) (breaker_step default_config (None :: (nat \<Rightarrow> bool) option)) s
     \<and> effective_state default_config 0 (sys_inner s) \<noteq> Open
     \<and> executor_call default_config 0 (readings_at 0) (Inr (1::nat)) (sys_inner s)
         \<noteq> (Inl (RdbmsConnection ''circuit breaker is open''), sys_inner s, False)"
proof -
  let ?s = "\<lparr>sys_inner = breaker_new default_config 0, sys_clock = 0,
             probes_in_flight = 0, plain_in_flight = 0\<rparr>"
  have r: "reachable_from (sys_init default_config)
      (breaker_step default_config (None :: (nat \<Rightarrow> bool) option)) ?s"
    by (rule reach_init) (simp add: sys_init_def)
  moreover have "effective_state default_config 0 (sys_inner ?s) \<noteq> Open"
    by (simp add: effective_state_def breaker_new_def)
  ultimately show ?thesis
    using open_state_refuses [OF r, of 0 "readings_at 0" "Inr (1::nat)"] by blast
qed

text \<open>In the witness the response 503 is one that \<open>classify\<close> counts as a failure.\<close>

theorem cooled_down_call_decides_witness:
  "let b = (breaker_new default_config 0)\<lparr>b_state := Open, opened_at := Some 0\<rparr>;
       (res, b', called) = breaker_call default_config (Some (\<lambda>code. 500 \<le> code)) 20000000000
          (readings_at 20000000001) (Inr (503::nat) :: (unit, nat) result) b
   in res = Inr 503 \<and> called \<and> b_state b' = Closed"
  using cooled_down_call_decides [of "(breaker_new default_config 0)\<lparr>b_state := Open, opened_at := Some 0\<rparr>"
      0 default_config 20000000000 "Some (\<lambda>code. 500 \<le> code)" "readings_at 20000000001"
      "Inr (503::nat) :: (unit, nat) result"]
  by (simp add: default_config_def breaker_new_def split: prod.splits)

theorem opened_total_counts_openings_witness:
  "\<exists>s t. breaker_step default_config (None :: (nat \<Rightarrow> bool) option) s t
     \<and> b_state (sys_inner t) = Open \<and> opened_total (sys_inner t) = opened_total (sys_inner s) + 1"
proof -
  let ?s = "\<lparr>sys_inner = (breaker_new default_config 0)\<lparr>b_state := HalfOpen, opened_at := Some 0\<rparr>,
     sys_clock = 9, probes_in_flight = 0, plain_in_flight = 1\<rparr>"
  let ?t = "end_flight False (?s\<lparr>sys_inner := call_exit default_config (None :: (nat \<Rightarrow> bool) option)
     (readings_at 9) (Inl () :: (unit, nat) result) (sys_inner ?s), sys_clock := at_change (readings_at 9)\<rparr>)"
  have step: "breaker_step default_config (None :: (nat \<Rightarrow> bool) option) ?s ?t"
    by (rule breaker_step.finish) (simp_all add: in_flight_def in_order_readings_at)
  moreover have "b_state (sys_inner ?t) = Open" by (simp add: call_exit_def Let_def)
  moreover have "opened_total (sys_inner ?t) = opened_total (sys_inner ?s) + 1"
    using opened_total_counts_openings [OF step] \<open>b_state (sys_inner ?t) = Open\<close> by simp
  ultimately show ?thesis by blast
qed

theorem zero_probes_can_wedge_witness:
  "let cfg = default_config\<lparr>half_open_probes := 0\<rparr> in
   \<exists>s. reachable_from (sys_init cfg) (breaker_step cfg (None :: (nat \<Rightarrow> bool) option)) s
     \<and> fst (call_enter cfg 0 (sys_inner s)) = (Inl ProbesExhausted :: (unit breaker_error, bool) result)"
proof -
  let ?cfg = "default_config\<lparr>half_open_probes := 0\<rparr>"
  have "half_open_probes ?cfg = 0" "0 < cfg_window ?cfg" "failure_ratio ?cfg \<le> 1"
    by (simp_all add: default_config_def)
  from zero_probes_can_wedge [OF this, of "None :: (nat \<Rightarrow> bool) option"]
  show ?thesis unfolding Let_def by blast
qed

end
