(* ===== verification/Saga.thy ===== *)
theory Saga
  imports Rdbms
begin

text \<open>
  \<^verbatim>\<open>ecat-saga\<close>: the saga engine of \<^verbatim>\<open>saga.rs\<close> over the state stores of \<^verbatim>\<open>state.rs\<close>. The engine
  is an action on a pair of the store's state and the environment the steps act on. The store's
  contract is the locale \<open>unreliable_store\<close> (a call may fail, with or without its effect, which
  is also how a crash shows) and its extension \<open>saga_store\<close> (no call fails); the in-memory and
  the SQL store provide it.
\<close>

section \<open>Statuses, states and errors (saga.rs, state.rs)\<close>

datatype saga_status = Running | Compensating | Completed | Compensated | SagaFailed

datatype step_status = StepPending | StepDone | StepCompensated | StepFailedStatus

record saga_state =
  st_saga_id :: string
  st_status :: saga_status
  st_current_step :: nat
  st_context :: json_value

record saga_context =
  ctx_saga_id :: string
  ctx_idempotency_key :: string
  ctx_data :: json_value

datatype saga_error =
    StepFailed string string
  | CompensationFailed string string
  | SagaNotFound string
  | SagaInvalidState string saga_status
  | SagaStateError string
  | SagaContextError string

text \<open>\<^verbatim>\<open>{status:?}\<close> prints the variant's name.\<close>

fun saga_status_debug :: "saga_status \<Rightarrow> string" where
  "saga_status_debug Running = ''Running''"
| "saga_status_debug Compensating = ''Compensating''"
| "saga_status_debug Completed = ''Completed''"
| "saga_status_debug Compensated = ''Compensated''"
| "saga_status_debug SagaFailed = ''Failed''"

fun saga_error_text :: "saga_error \<Rightarrow> string" where
  "saga_error_text (StepFailed s m) = ''saga step `'' @ s @ ''` failed: '' @ m"
| "saga_error_text (CompensationFailed s m) = ''saga compensation `'' @ s @ ''` failed: '' @ m"
| "saga_error_text (SagaNotFound i) = ''saga `'' @ i @ ''` not found''"
| "saga_error_text (SagaInvalidState i s) =
     ''saga `'' @ i @ ''` is '' @ saga_status_debug s @ ''; manual intervention required''"
| "saga_error_text (SagaStateError m) = ''saga state: '' @ m"
| "saga_error_text (SagaContextError m) = ''saga context: '' @ m"

fun saga_status_as_str :: "saga_status \<Rightarrow> string" where
  "saga_status_as_str Running = ''running''"
| "saga_status_as_str Compensating = ''compensating''"
| "saga_status_as_str Completed = ''completed''"
| "saga_status_as_str Compensated = ''compensated''"
| "saga_status_as_str SagaFailed = ''failed''"

definition saga_status_parse :: "string \<Rightarrow> (saga_error, saga_status) result" where
  "saga_status_parse s =
     (if s = ''running'' then Ok Running
      else if s = ''compensating'' then Ok Compensating
      else if s = ''completed'' then Ok Completed
      else if s = ''compensated'' then Ok Compensated
      else if s = ''failed'' then Ok SagaFailed
      else Err (SagaStateError (''unknown saga status `'' @ s @ ''`'')))"

fun step_status_as_str :: "step_status \<Rightarrow> string" where
  "step_status_as_str StepPending = ''pending''"
| "step_status_as_str StepDone = ''done''"
| "step_status_as_str StepCompensated = ''compensated''"
| "step_status_as_str StepFailedStatus = ''failed''"

definition step_status_parse :: "string \<Rightarrow> (saga_error, step_status) result" where
  "step_status_parse s =
     (if s = ''pending'' then Ok StepPending
      else if s = ''done'' then Ok StepDone
      else if s = ''compensated'' then Ok StepCompensated
      else if s = ''failed'' then Ok StepFailedStatus
      else Err (SagaStateError (''unknown step status `'' @ s @ ''`'')))"

lemma saga_status_parse_as_str [simp]: "saga_status_parse (saga_status_as_str s) = Ok s"
  by (cases s) (simp_all add: saga_status_parse_def)

lemma step_status_parse_as_str [simp]: "step_status_parse (step_status_as_str s) = Ok s"
  by (cases s) (simp_all add: step_status_parse_def)

section \<open>The engine (saga.rs)\<close>

text \<open>
  \<^verbatim>\<open>SagaStateStore\<close> and \<^verbatim>\<open>SagaStep\<close> are records of operations. A step may change the context it
  is given even when it fails. \<^verbatim>\<open>serde_json::to_value\<close> and \<^verbatim>\<open>from_value\<close> on contexts are
  parameters.
\<close>

record 'w saga_store_ops =
  op_load :: "string \<Rightarrow> (saga_error, 'w, saga_state option) act"
  op_save :: "saga_state \<Rightarrow> (saga_error, 'w, unit) act"
  op_step_status :: "string \<Rightarrow> string \<Rightarrow> (saga_error, 'w, step_status) act"
  op_set_step :: "string \<Rightarrow> string \<Rightarrow> step_status \<Rightarrow> (saga_error, 'w, unit) act"

type_synonym 'x step_body = "saga_context \<times> 'x \<Rightarrow> (saga_error, unit) result \<times> saga_context \<times> 'x"

record 'x saga_step =
  step_name :: string
  step_execute :: "'x step_body"
  step_compensate :: "'x step_body"

record ctx_codec =
  ctx_to_value :: "saga_context \<Rightarrow> (string, json_value) result"
  ctx_from_value :: "json_value \<Rightarrow> (string, saga_context) result"

record ('w, 'x) saga =
  saga_steps :: "'x saga_step list"
  saga_ops :: "'w saga_store_ops"
  saga_codec :: ctx_codec

definition encode_context :: "ctx_codec \<Rightarrow> saga_context \<Rightarrow> (saga_error, json_value) result" where
  "encode_context c ctx =
     map_err (\<lambda>e. SagaContextError (''failed to encode saga context: '' @ e)) (ctx_to_value c ctx)"

definition decode_context :: "ctx_codec \<Rightarrow> saga_state \<Rightarrow> (saga_error, saga_context) result" where
  "decode_context c st =
     map_err (\<lambda>e. SagaContextError (''failed to decode saga context: '' @ e))
       (ctx_from_value c (st_context st))"

text \<open>\<open>save_with_context\<close> is the pair of lines that encode the context and save the state.\<close>

definition save_with_context ::
  "('w, 'x) saga \<Rightarrow> saga_state \<Rightarrow> saga_context \<Rightarrow> (saga_error, 'w \<times> 'x, saga_state) act" where
  "save_with_context sg st ctx =
     act_bind (act_lift (encode_context (saga_codec sg) ctx)) (\<lambda>v.
     let st' = st\<lparr>st_context := v\<rparr> in
     act_bind (on_fst (op_save (saga_ops sg) st')) (\<lambda>_. act_ok st'))"

text \<open>
  The reverse loop of \<^verbatim>\<open>compensate\<close>, over the steps before the failure, last one first, and the
  lines after it.
\<close>

fun compensate_loop ::
  "('w, 'x) saga \<Rightarrow> 'x saga_step list \<Rightarrow> saga_state \<Rightarrow> saga_context \<Rightarrow> saga_error option \<Rightarrow>
   (saga_error, 'w \<times> 'x, unit) act" where
  "compensate_loop sg [] st ctx cause =
     act_bind (save_with_context sg (st\<lparr>st_status := Compensated\<rparr>) ctx) (\<lambda>_.
       case cause of Some c \<Rightarrow> act_err c | None \<Rightarrow> act_ok ())"
| "compensate_loop sg (s # ss) st ctx cause =
     act_bind (on_fst (op_step_status (saga_ops sg) (st_saga_id st) (step_name s))) (\<lambda>status.
       if status \<noteq> StepDone then compensate_loop sg ss st ctx cause
       else (\<lambda>(w, x). case step_compensate s (ctx, x) of
           (Inl e, ctx', x') \<Rightarrow>
             act_bind (on_fst (op_set_step (saga_ops sg) (st_saga_id st) (step_name s) StepFailedStatus)) (\<lambda>_.
             act_bind (save_with_context sg (st\<lparr>st_status := SagaFailed\<rparr>) ctx') (\<lambda>_.
               act_err (CompensationFailed (step_name s) (saga_error_text e)))) (w, x')
         | (Inr _, ctx', x') \<Rightarrow>
             act_bind (on_fst (op_set_step (saga_ops sg) (st_saga_id st) (step_name s) StepCompensated)) (\<lambda>_.
             act_bind (save_with_context sg st ctx') (\<lambda>st'.
               compensate_loop sg ss st' ctx' cause)) (w, x')))"

definition compensate ::
  "('w, 'x) saga \<Rightarrow> saga_state \<Rightarrow> saga_context \<Rightarrow> nat \<Rightarrow> saga_error option \<Rightarrow>
   (saga_error, 'w \<times> 'x, unit) act" where
  "compensate sg st ctx before cause =
     compensate_loop sg (rev (take (min before (length (saga_steps sg))) (saga_steps sg))) st ctx cause"

text \<open>The loop of \<^verbatim>\<open>forward\<close>: \<open>index\<close> is the position of the first of the remaining steps.\<close>

fun forward_loop ::
  "('w, 'x) saga \<Rightarrow> nat \<Rightarrow> 'x saga_step list \<Rightarrow> saga_state \<Rightarrow> saga_context \<Rightarrow>
   (saga_error, 'w \<times> 'x, unit) act" where
  "forward_loop sg index [] st ctx =
     act_bind (save_with_context sg (st\<lparr>st_status := Completed\<rparr>) ctx) (\<lambda>_. act_ok ())"
| "forward_loop sg index (s # ss) st ctx =
     act_bind (on_fst (op_step_status (saga_ops sg) (st_saga_id st) (step_name s))) (\<lambda>status.
       if status = StepDone then forward_loop sg (Suc index) ss st ctx
       else (\<lambda>(w, x). case step_execute s (ctx, x) of
           (Inr _, ctx', x') \<Rightarrow>
             act_bind (on_fst (op_set_step (saga_ops sg) (st_saga_id st) (step_name s) StepDone)) (\<lambda>_.
             act_bind (save_with_context sg (st\<lparr>st_current_step := index + 1\<rparr>) ctx') (\<lambda>st'.
               forward_loop sg (Suc index) ss st' ctx')) (w, x')
         | (Inl e, ctx', x') \<Rightarrow>
             act_bind (on_fst (op_set_step (saga_ops sg) (st_saga_id st) (step_name s) StepFailedStatus)) (\<lambda>_.
             act_bind (save_with_context sg (st\<lparr>st_status := Compensating\<rparr>) ctx') (\<lambda>st'.
               compensate sg st' ctx' index (Some (StepFailed (step_name s) (saga_error_text e))))) (w, x')))"

definition forward ::
  "('w, 'x) saga \<Rightarrow> saga_state \<Rightarrow> saga_context \<Rightarrow> (saga_error, 'w \<times> 'x, unit) act" where
  "forward sg st ctx =
     forward_loop sg (st_current_step st) (drop (st_current_step st) (saga_steps sg)) st ctx"

definition continue_state :: "('w, 'x) saga \<Rightarrow> saga_state \<Rightarrow> (saga_error, 'w \<times> 'x, unit) act" where
  "continue_state sg st =
     (if st_current_step st > length (saga_steps sg) then
        act_err (SagaStateError (''saga `'' @ st_saga_id st @ ''` current_step ''
          @ dec_nat (st_current_step st) @ '' exceeds '' @ dec_nat (length (saga_steps sg)) @ '' steps''))
      else case st_status st of
          Completed \<Rightarrow> act_ok ()
        | Compensated \<Rightarrow> act_ok ()
        | SagaFailed \<Rightarrow> act_err (SagaInvalidState (st_saga_id st) (st_status st))
        | Compensating \<Rightarrow> act_bind (act_lift (decode_context (saga_codec sg) st)) (\<lambda>ctx.
            compensate sg st ctx (st_current_step st) None)
        | Running \<Rightarrow> act_bind (act_lift (decode_context (saga_codec sg) st)) (\<lambda>ctx.
            forward sg st ctx))"

definition saga_run :: "('w, 'x) saga \<Rightarrow> string \<Rightarrow> saga_context \<Rightarrow> (saga_error, 'w \<times> 'x, unit) act" where
  "saga_run sg i ctx0 =
     (let ctx = ctx0\<lparr>ctx_saga_id := i\<rparr> in
      act_bind (on_fst (op_load (saga_ops sg) i)) (\<lambda>found. case found of
          Some st \<Rightarrow> continue_state sg st
        | None \<Rightarrow> act_bind (act_lift (encode_context (saga_codec sg) ctx)) (\<lambda>v.
            let st = \<lparr>st_saga_id = i, st_status = Running, st_current_step = 0, st_context = v\<rparr> in
            act_bind (on_fst (op_save (saga_ops sg) st)) (\<lambda>_. forward sg st ctx))))"

definition saga_resume :: "('w, 'x) saga \<Rightarrow> string \<Rightarrow> (saga_error, 'w \<times> 'x, unit) act" where
  "saga_resume sg i =
     act_bind (on_fst (op_load (saga_ops sg) i)) (\<lambda>found.
     act_bind (act_lift (ok_or (SagaNotFound i) found)) (\<lambda>st. continue_state sg st))"

section \<open>The in-memory store (state.rs)\<close>

record saga_memory =
  mem_states :: "string \<rightharpoonup> saga_state"
  mem_steps :: "string \<times> string \<rightharpoonup> step_status"

definition memory_new :: saga_memory where
  "memory_new = \<lparr>mem_states = Map.empty, mem_steps = Map.empty\<rparr>"

definition mem_load :: "string \<Rightarrow> (saga_error, saga_memory, saga_state option) act" where
  "mem_load i m = (Ok (mem_states m i), m)"

definition mem_save :: "saga_state \<Rightarrow> (saga_error, saga_memory, unit) act" where
  "mem_save st m = (Ok (), m\<lparr>mem_states := (mem_states m)(st_saga_id st \<mapsto> st)\<rparr>)"

definition mem_step_status :: "string \<Rightarrow> string \<Rightarrow> (saga_error, saga_memory, step_status) act" where
  "mem_step_status i n m =
     (Ok (case mem_steps m (i, n) of Some s \<Rightarrow> s | None \<Rightarrow> StepPending), m)"

definition mem_set_step :: "string \<Rightarrow> string \<Rightarrow> step_status \<Rightarrow> (saga_error, saga_memory, unit) act" where
  "mem_set_step i n s m = (Ok (), m\<lparr>mem_steps := (mem_steps m)((i, n) \<mapsto> s)\<rparr>)"

definition memory_ops :: "saga_memory saga_store_ops" where
  "memory_ops = \<lparr>op_load = mem_load, op_save = mem_save, op_step_status = mem_step_status,
                 op_set_step = mem_set_step\<rparr>"

section \<open>The SQL store (state.rs)\<close>

text \<open>
  \<^verbatim>\<open>SqlSagaStateStore\<close>: the statements it sends and what it makes of the answers. The database,
  the clock and the JSON text codec are parameters. Rust's string continuation drops the line
  break and the indentation after it.
\<close>

record 'd sql_saga_store =
  ss_db :: "'d sql_executor"
  ss_clock :: "'d \<Rightarrow> (string, string) result"
  ss_to_text :: "json_value \<Rightarrow> (string, string) result"
  ss_from_text :: "string \<Rightarrow> (string, json_value) result"

definition saga_INSTANCES :: string where
  "saga_INSTANCES = ''saga_instances''"

definition saga_STEPS :: string where
  "saga_STEPS = ''saga_steps''"

definition saga_db_error :: "rdbms_error \<Rightarrow> saga_error" where
  "saga_db_error e = SagaStateError (rdbms_error_text e)"

definition saga_now :: "'d sql_saga_store \<Rightarrow> (saga_error, 'd, string) act" where
  "saga_now s d = (map_err (\<lambda>e. SagaStateError (''failed to format timestamp: '' @ e)) (ss_clock s d), d)"

definition saga_row_text :: "db_row \<Rightarrow> string \<Rightarrow> (saga_error, string) result" where
  "saga_row_text row c =
     ok_or (SagaStateError (''saga row missing text column `'' @ c @ ''`'')) (Option.bind (row_get row c) as_str)"

definition saga_row_int :: "db_row \<Rightarrow> string \<Rightarrow> (saga_error, int) result" where
  "saga_row_int row c =
     ok_or (SagaStateError (''saga row missing integer column `'' @ c @ ''`'')) (Option.bind (row_get row c) as_i64)"

definition saga_store_dialect :: "'d sql_saga_store \<Rightarrow> (saga_error, dialect) result" where
  "saga_store_dialect s =
     (if ex_dialect (ss_db s) = Mssql then Err (SagaStateError ''MSSQL saga store is unsupported'')
      else Ok (ex_dialect (ss_db s)))"

definition newline_indent :: "nat \<Rightarrow> string" where
  "newline_indent n = CHR 0x0A # replicate n (CHR '' '')"

definition saga_schema_sql :: "dialect \<Rightarrow> string list" where
  "saga_schema_sql d =
     (let id_type = (if d = MySql then ''VARCHAR(255)'' else ''TEXT''); nl = newline_indent 20 in
      [''CREATE TABLE IF NOT EXISTS '' @ saga_INSTANCES @ '' ('' @ nl @ ''saga_id '' @ id_type @ '' PRIMARY KEY,'' @ nl
         @ ''status TEXT NOT NULL,'' @ nl @ ''current_step BIGINT NOT NULL,'' @ nl @ ''context TEXT NOT NULL,'' @ nl
         @ ''updated_at TEXT NOT NULL'' @ newline_indent 16 @ '')'',
       ''CREATE TABLE IF NOT EXISTS '' @ saga_STEPS @ '' ('' @ nl @ ''saga_id '' @ id_type @ '' NOT NULL,'' @ nl
         @ ''step_name '' @ id_type @ '' NOT NULL,'' @ nl @ ''status TEXT NOT NULL,'' @ nl
         @ ''updated_at TEXT NOT NULL,'' @ nl @ ''PRIMARY KEY (saga_id, step_name)'' @ newline_indent 16 @ '')''])"

definition saga_ensure_schema :: "'d sql_saga_store \<Rightarrow> (saga_error, 'd, unit) act" where
  "saga_ensure_schema s =
     act_bind (act_lift (saga_store_dialect s)) (\<lambda>d.
     act_bind (act_map_err saga_db_error (ex_execute (ss_db s) (saga_schema_sql d ! 0))) (\<lambda>_.
     act_bind (act_map_err saga_db_error (ex_execute (ss_db s) (saga_schema_sql d ! 1))) (\<lambda>_. act_ok ())))"

definition saga_load_sql :: "dialect \<Rightarrow> string" where
  "saga_load_sql d = ''SELECT saga_id, status, current_step, context FROM '' @ saga_INSTANCES
     @ '' WHERE saga_id = '' @ placeholder d 1"

definition saga_row_state :: "'d sql_saga_store \<Rightarrow> db_row \<Rightarrow> (saga_error, saga_state) result" where
  "saga_row_state s row =
     try_bind (saga_row_int row ''current_step'') (\<lambda>c.
     if c < 0 then Err (SagaStateError ''saga current_step out of range'') else
     try_bind (saga_row_text row ''context'') (\<lambda>context.
     try_bind (saga_row_text row ''saga_id'') (\<lambda>i.
     try_bind (saga_row_text row ''status'') (\<lambda>st_text.
     try_bind (saga_status_parse st_text) (\<lambda>status.
     try_bind (map_err (\<lambda>e. SagaStateError (''saga context is invalid JSON: '' @ e)) (ss_from_text s context)) (\<lambda>v.
       Ok \<lparr>st_saga_id = i, st_status = status, st_current_step = nat c, st_context = v\<rparr>))))))"

definition sql_load :: "'d sql_saga_store \<Rightarrow> string \<Rightarrow> (saga_error, 'd, saga_state option) act" where
  "sql_load s i =
     act_bind (act_lift (saga_store_dialect s)) (\<lambda>d.
     act_bind (act_map_err saga_db_error (ex_query_with (ss_db s) (saga_load_sql d) [JString i])) (\<lambda>rows.
       case rows of [] \<Rightarrow> act_ok None
       | row # _ \<Rightarrow> act_bind (act_lift (saga_row_state s row)) (\<lambda>st. act_ok (Some st))))"

definition saga_save_sql :: "dialect \<Rightarrow> string" where
  "saga_save_sql d =
     (if d = MySql then
        ''INSERT INTO '' @ saga_INSTANCES @ '' (saga_id, status, current_step, context, updated_at) ''
        @ ''VALUES (?, ?, ?, ?, ?) AS ecat_new ''
        @ ''ON DUPLICATE KEY UPDATE status = ecat_new.status, ''
        @ ''current_step = ecat_new.current_step, context = ecat_new.context, ''
        @ ''updated_at = ecat_new.updated_at''
      else
        ''INSERT INTO '' @ saga_INSTANCES @ '' (saga_id, status, current_step, context, updated_at) ''
        @ ''VALUES ('' @ placeholder d 1 @ '', '' @ placeholder d 2 @ '', '' @ placeholder d 3 @ '', ''
        @ placeholder d 4 @ '', '' @ placeholder d 5 @ '') ON CONFLICT(saga_id) DO UPDATE SET ''
        @ ''status = EXCLUDED.status, current_step = EXCLUDED.current_step, ''
        @ ''context = EXCLUDED.context, updated_at = EXCLUDED.updated_at'')"

definition sql_save :: "'d sql_saga_store \<Rightarrow> saga_state \<Rightarrow> (saga_error, 'd, unit) act" where
  "sql_save s st =
     act_bind (act_lift (saga_store_dialect s)) (\<lambda>d.
     if int (st_current_step st) > i64_max then act_err (SagaStateError ''saga current_step out of range'') else
     act_bind (act_lift (map_err (\<lambda>e. SagaStateError (''failed to encode saga context: '' @ e))
       (ss_to_text s (st_context st)))) (\<lambda>context.
     act_bind (saga_now s) (\<lambda>ts.
     act_bind (act_map_err saga_db_error (ex_execute_with (ss_db s) (saga_save_sql d)
       [JString (st_saga_id st), JString (saga_status_as_str (st_status st)),
        json_int (int (st_current_step st)), JString context, JString ts])) (\<lambda>_. act_ok ()))))"

definition saga_step_status_sql :: "dialect \<Rightarrow> string" where
  "saga_step_status_sql d = ''SELECT status FROM '' @ saga_STEPS @ '' WHERE saga_id = '' @ placeholder d 1
     @ '' AND step_name = '' @ placeholder d 2"

definition sql_step_status :: "'d sql_saga_store \<Rightarrow> string \<Rightarrow> string \<Rightarrow> (saga_error, 'd, step_status) act" where
  "sql_step_status s i n =
     act_bind (act_lift (saga_store_dialect s)) (\<lambda>d.
     act_bind (act_map_err saga_db_error (ex_query_with (ss_db s) (saga_step_status_sql d) [JString i, JString n])) (\<lambda>rows.
       case rows of [] \<Rightarrow> act_ok StepPending
       | row # _ \<Rightarrow> act_lift (try_bind (saga_row_text row ''status'') step_status_parse)))"

definition saga_set_step_sql :: "dialect \<Rightarrow> string" where
  "saga_set_step_sql d =
     (if d = MySql then
        ''INSERT INTO '' @ saga_STEPS @ '' (saga_id, step_name, status, updated_at) ''
        @ ''VALUES (?, ?, ?, ?) AS ecat_new ''
        @ ''ON DUPLICATE KEY UPDATE status = ecat_new.status, ''
        @ ''updated_at = ecat_new.updated_at''
      else
        ''INSERT INTO '' @ saga_STEPS @ '' (saga_id, step_name, status, updated_at) ''
        @ ''VALUES ('' @ placeholder d 1 @ '', '' @ placeholder d 2 @ '', '' @ placeholder d 3 @ '', ''
        @ placeholder d 4 @ '') ON CONFLICT(saga_id, step_name) DO UPDATE SET ''
        @ ''status = EXCLUDED.status, updated_at = EXCLUDED.updated_at'')"

definition sql_set_step :: "'d sql_saga_store \<Rightarrow> string \<Rightarrow> string \<Rightarrow> step_status \<Rightarrow> (saga_error, 'd, unit) act" where
  "sql_set_step s i n u =
     act_bind (act_lift (saga_store_dialect s)) (\<lambda>d.
     act_bind (saga_now s) (\<lambda>ts.
     act_bind (act_map_err saga_db_error (ex_execute_with (ss_db s) (saga_set_step_sql d)
       [JString i, JString n, JString (step_status_as_str u), JString ts])) (\<lambda>_. act_ok ())))"

definition sql_ops :: "'d sql_saga_store \<Rightarrow> 'd saga_store_ops" where
  "sql_ops s = \<lparr>op_load = sql_load s, op_save = sql_save s, op_step_status = sql_step_status s,
                op_set_step = sql_set_step s\<rparr>"

section \<open>The store's contract\<close>

text \<open>
  \<open>state_of\<close> and \<open>step_of\<close> read the persisted state. A call may fail, and a failed write may
  have taken effect or not; a call that succeeds did what it says. A crash of the engine is a
  call that fails.
\<close>

locale unreliable_store =
  fixes ops :: "'w saga_store_ops"
    and okw :: "'w \<Rightarrow> bool"
    and state_of :: "'w \<Rightarrow> string \<Rightarrow> saga_state option"
    and step_of :: "'w \<Rightarrow> string \<times> string \<Rightarrow> step_status"
  assumes state_id: "okw w \<Longrightarrow> state_of w i = Some st \<Longrightarrow> st_saga_id st = i"
    and load_law: "okw w \<Longrightarrow> op_load ops i w = (r, w') \<Longrightarrow>
      okw w' \<and> state_of w' = state_of w \<and> step_of w' = step_of w \<and> (is_ok r \<longrightarrow> r = Ok (state_of w i))"
    and step_status_law: "okw w \<Longrightarrow> op_step_status ops i n w = (r2, w') \<Longrightarrow>
      okw w' \<and> state_of w' = state_of w \<and> step_of w' = step_of w \<and> (is_ok r2 \<longrightarrow> r2 = Ok (step_of w (i, n)))"
    and save_law: "okw w \<Longrightarrow> op_save ops st w = (r3, w') \<Longrightarrow>
      okw w' \<and> step_of w' = step_of w \<and>
      (state_of w' = (state_of w)(st_saga_id st \<mapsto> st) \<or> \<not> is_ok r3 \<and> state_of w' = state_of w)"
    and set_step_law: "okw w \<Longrightarrow> op_set_step ops i n s w = (r3, w') \<Longrightarrow>
      okw w' \<and> state_of w' = state_of w \<and>
      (step_of w' = (step_of w)((i, n) := s) \<or> \<not> is_ok r3 \<and> step_of w' = step_of w)"

text \<open>A store that does not fail, for the step counts it can represent.\<close>

locale saga_store = unreliable_store +
  fixes storable :: "nat \<Rightarrow> bool"
  assumes load_ok: "okw w \<Longrightarrow> is_ok (fst (op_load ops i w))"
    and step_status_ok: "okw w \<Longrightarrow> is_ok (fst (op_step_status ops i n w))"
    and save_ok: "okw w \<Longrightarrow> storable (st_current_step st) \<Longrightarrow> is_ok (fst (op_save ops st w))"
    and set_step_ok: "okw w \<Longrightarrow> is_ok (fst (op_set_step ops i n s w))"

definition memory_ok :: "saga_memory \<Rightarrow> bool" where
  "memory_ok m \<longleftrightarrow> (\<forall>i st. mem_states m i = Some st \<longrightarrow> st_saga_id st = i)"

definition memory_step :: "saga_memory \<Rightarrow> string \<times> string \<Rightarrow> step_status" where
  "memory_step m k = (case mem_steps m k of Some s \<Rightarrow> s | None \<Rightarrow> StepPending)"

lemmas memory_defs = memory_ops_def mem_load_def mem_save_def mem_step_status_def mem_set_step_def
  memory_ok_def memory_step_def

interpretation memory: saga_store memory_ops memory_ok mem_states memory_step "\<lambda>_. True"
  by unfold_locales (auto simp: memory_defs fun_eq_iff)

section \<open>Reference semantics of a saga\<close>

text \<open>
  What a saga promises, without any store: the steps run in order on the context; the first
  failure makes the completed ones be compensated in reverse order; a failed compensation ends
  it. \<open>out_steps\<close> is the final status of every step name.
\<close>

record 'x saga_outcome =
  out_result :: "(saga_error, unit) result"
  out_status :: saga_status
  out_context :: saga_context
  out_env :: 'x
  out_steps :: "string \<Rightarrow> step_status"
  out_current :: nat

fun spec_compensate ::
  "'x saga_step list \<Rightarrow> saga_context \<Rightarrow> 'x \<Rightarrow> (string \<Rightarrow> step_status) \<Rightarrow> nat \<Rightarrow> saga_error option \<Rightarrow> 'x saga_outcome" where
  "spec_compensate [] ctx x f c cause =
     \<lparr>out_result = (case cause of Some e \<Rightarrow> Err e | None \<Rightarrow> Ok ()), out_status = Compensated, out_context = ctx,
      out_env = x, out_steps = f, out_current = c\<rparr>"
| "spec_compensate (s # ss) ctx x f c cause = (case step_compensate s (ctx, x) of
       (Inl e, ctx', x') \<Rightarrow>
         \<lparr>out_result = Err (CompensationFailed (step_name s) (saga_error_text e)), out_status = SagaFailed,
          out_context = ctx', out_env = x', out_steps = f(step_name s := StepFailedStatus), out_current = c\<rparr>
     | (Inr _, ctx', x') \<Rightarrow> spec_compensate ss ctx' x' (f(step_name s := StepCompensated)) c cause)"

fun spec_forward ::
  "'x saga_step list \<Rightarrow> 'x saga_step list \<Rightarrow> saga_context \<Rightarrow> 'x \<Rightarrow> (string \<Rightarrow> step_status) \<Rightarrow> 'x saga_outcome" where
  "spec_forward finished [] ctx x f =
     \<lparr>out_result = Ok (), out_status = Completed, out_context = ctx, out_env = x, out_steps = f,
      out_current = length finished\<rparr>"
| "spec_forward finished (s # ss) ctx x f = (case step_execute s (ctx, x) of
       (Inr _, ctx', x') \<Rightarrow> spec_forward (s # finished) ss ctx' x' (f(step_name s := StepDone))
     | (Inl e, ctx', x') \<Rightarrow>
         spec_compensate finished ctx' x' (f(step_name s := StepFailedStatus)) (length finished)
           (Some (StepFailed (step_name s) (saga_error_text e))))"

definition saga_spec :: "'x saga_step list \<Rightarrow> string \<Rightarrow> saga_context \<Rightarrow> 'x \<Rightarrow> 'x saga_outcome" where
  "saga_spec steps i ctx x = spec_forward [] steps (ctx\<lparr>ctx_saga_id := i\<rparr>) x (\<lambda>_. StepPending)"

text \<open>
  The store after the run holds the outcome of the reference semantics for this saga and has not
  changed for any other one.
\<close>

definition saga_implements ::
  "('w \<Rightarrow> string \<Rightarrow> saga_state option) \<Rightarrow> ('w \<Rightarrow> string \<times> string \<Rightarrow> step_status) \<Rightarrow> ctx_codec \<Rightarrow>
   string \<Rightarrow> 'w \<Rightarrow> 'w \<Rightarrow> 'x saga_outcome \<Rightarrow> bool" where
  "saga_implements state_of step_of codec i w w' out \<longleftrightarrow>
     (\<exists>v. ctx_to_value codec (out_context out) = Ok v \<and>
        state_of w' = (state_of w)(i \<mapsto> \<lparr>st_saga_id = i, st_status = out_status out,
           st_current_step = out_current out, st_context = v\<rparr>)) \<and>
     (\<forall>n. step_of w' (i, n) = out_steps out n) \<and>
     (\<forall>j n. j \<noteq> i \<longrightarrow> step_of w' (j, n) = step_of w (j, n))"

definition codec_total :: "ctx_codec \<Rightarrow> bool" where
  "codec_total c \<longleftrightarrow> (\<forall>ctx. is_ok (ctx_to_value c ctx))"

lemma codec_totalE:
  assumes "codec_total c"
  obtains v where "ctx_to_value c ctx = Ok v"
  using assms unfolding codec_total_def by (metis is_ok_simps(1) sum.exhaust)

lemma saga_implements_later:
  assumes "saga_implements state_of step_of codec i w1 w' out"
    and "\<And>j. j \<noteq> i \<Longrightarrow> state_of w1 j = state_of w j"
    and "\<And>j n. j \<noteq> i \<Longrightarrow> step_of w1 (j, n) = step_of w (j, n)"
  shows "saga_implements state_of step_of codec i w w' out"
proof -
  have "(state_of w1)(i \<mapsto> s) = (state_of w)(i \<mapsto> s)" for s
    using assms(2) by (auto simp: fun_eq_iff)
  with assms(1,3) show ?thesis by (simp add: saga_implements_def)
qed

section \<open>A fresh run implements the reference semantics\<close>

context saga_store
begin

lemma load_exec:
  assumes "okw w"
  obtains w' where "op_load ops i w = (Ok (state_of w i), w')" "okw w'"
    "state_of w' = state_of w" "step_of w' = step_of w"
proof -
  obtain r w' where e: "op_load ops i w = (r, w')" by (cases "op_load ops i w")
  from load_law [OF assms e] load_ok [OF assms, of i] show ?thesis
    using that e by (simp add: is_ok_unit)
qed

lemma step_status_exec:
  assumes "okw w"
  obtains w' where "op_step_status ops i n w = (Ok (step_of w (i, n)), w')" "okw w'"
    "state_of w' = state_of w" "step_of w' = step_of w"
proof -
  obtain r w' where e: "op_step_status ops i n w = (r, w')" by (cases "op_step_status ops i n w")
  from step_status_law [OF assms e] step_status_ok [OF assms, of i n] show ?thesis
    using that e by (simp add: is_ok_unit)
qed

lemma save_exec:
  assumes "okw w" "storable (st_current_step st)"
  obtains w' where "op_save ops st w = (Ok (), w')" "okw w'"
    "state_of w' = (state_of w)(st_saga_id st \<mapsto> st)" "step_of w' = step_of w"
proof -
  obtain r w' where e: "op_save ops st w = (r, w')" by (cases "op_save ops st w")
  from save_law [OF assms(1) e] save_ok [OF assms] show ?thesis
    using that e by (simp add: is_ok_unit)
qed

lemma set_step_exec:
  assumes "okw w"
  obtains w' where "op_set_step ops i n s w = (Ok (), w')" "okw w'"
    "state_of w' = state_of w" "step_of w' = (step_of w)((i, n) := s)"
proof -
  obtain r w' where e: "op_set_step ops i n s w = (r, w')" by (cases "op_set_step ops i n s w")
  from set_step_law [OF assms e] set_step_ok [OF assms, of i n s] show ?thesis
    using that e by (simp add: is_ok_unit)
qed

lemma save_ctx_exec:
  assumes "okw w" "storable (st_current_step st)" "saga_ops sg = ops" "codec_total (saga_codec sg)"
  shows "\<exists>w' v. save_with_context sg st ctx (w, x) = (Ok (st\<lparr>st_context := v\<rparr>), (w', x)) \<and>
    ctx_to_value (saga_codec sg) ctx = Ok v \<and> okw w' \<and>
    state_of w' = (state_of w)(st_saga_id st \<mapsto> st\<lparr>st_context := v\<rparr>) \<and> step_of w' = step_of w"
proof -
  obtain v where v: "ctx_to_value (saga_codec sg) ctx = Ok v"
    using assms(4) by (rule codec_totalE)
  have "storable (st_current_step (st\<lparr>st_context := v\<rparr>))" using assms(2) by simp
  then obtain w' where s: "op_save ops (st\<lparr>st_context := v\<rparr>) w = (Ok (), w')" "okw w'"
    "state_of w' = (state_of w)(st_saga_id st \<mapsto> st\<lparr>st_context := v\<rparr>)" "step_of w' = step_of w"
    using save_exec [OF assms(1), of "st\<lparr>st_context := v\<rparr>"] by auto
  have "save_with_context sg st ctx (w, x) = (Ok (st\<lparr>st_context := v\<rparr>), (w', x))"
    using v s(1) assms(3)
    by (simp add: save_with_context_def encode_context_def act_bind_def on_fst_def Let_def)
  with v s show ?thesis by blast
qed

lemma compensate_loop_implements:
  assumes "saga_ops sg = ops" "codec_total (saga_codec sg)" "storable c"
    and "okw w" "st_saga_id st = i" "st_current_step st = c"
    and "distinct (map step_name ss)" "\<forall>s \<in> set ss. step_of w (i, step_name s) = StepDone"
    and "out = spec_compensate ss ctx x (\<lambda>n. step_of w (i, n)) c cause"
  shows "\<exists>w'. compensate_loop sg ss st ctx cause (w, x) = (out_result out, (w', out_env out)) \<and> okw w'
           \<and> saga_implements state_of step_of (saga_codec sg) i w w' out"
  using assms(4-)
proof (induction ss arbitrary: w x st ctx)
  case Nil
  let ?st = "st\<lparr>st_status := Compensated\<rparr>"
  obtain w' v where s: "save_with_context sg ?st ctx (w, x) = (Ok (?st\<lparr>st_context := v\<rparr>), (w', x))"
    "ctx_to_value (saga_codec sg) ctx = Ok v" "okw w'"
    "state_of w' = (state_of w)(st_saga_id ?st \<mapsto> ?st\<lparr>st_context := v\<rparr>)" "step_of w' = step_of w"
    using save_ctx_exec [of w ?st sg ctx x] assms(1-3) Nil(1-3) by auto
  show ?case
    using Nil s by (auto simp: act_bind_def saga_implements_def split: option.splits)
next
  case (Cons s ss)
  obtain w1 where w1: "op_step_status ops i (step_name s) w = (Ok StepDone, w1)" "okw w1"
    "state_of w1 = state_of w" "step_of w1 = step_of w"
    using step_status_exec [OF Cons.prems(1), of i "step_name s"] Cons.prems(5) by auto
  obtain r ctx' x' where b: "step_compensate s (ctx, x) = (r, ctx', x')"
    by (cases "step_compensate s (ctx, x)") auto
  show ?case
  proof (cases r)
    case (Inl e)
    obtain w2 where w2: "op_set_step ops i (step_name s) StepFailedStatus w1 = (Ok (), w2)" "okw w2"
      "state_of w2 = state_of w1" "step_of w2 = (step_of w1)((i, step_name s) := StepFailedStatus)"
      using set_step_exec [OF w1(2)] by blast
    let ?st = "st\<lparr>st_status := SagaFailed\<rparr>"
    obtain w3 v where w3: "save_with_context sg ?st ctx' (w2, x') = (Ok (?st\<lparr>st_context := v\<rparr>), (w3, x'))"
      "ctx_to_value (saga_codec sg) ctx' = Ok v" "okw w3"
      "state_of w3 = (state_of w2)(st_saga_id ?st \<mapsto> ?st\<lparr>st_context := v\<rparr>)" "step_of w3 = step_of w2"
      using save_ctx_exec [OF w2(2), of ?st sg ctx' x'] assms(1-3) Cons.prems(2,3) by auto
    show ?thesis
      using Inl b w1 w2 w3 assms(1) Cons.prems
      by (auto simp: act_bind_def on_fst_def saga_implements_def)
  next
    case (Inr u)
    obtain w2 where w2: "op_set_step ops i (step_name s) StepCompensated w1 = (Ok (), w2)" "okw w2"
      "state_of w2 = state_of w1" "step_of w2 = (step_of w1)((i, step_name s) := StepCompensated)"
      using set_step_exec [OF w1(2)] by blast
    obtain w3 v where w3: "save_with_context sg st ctx' (w2, x') = (Ok (st\<lparr>st_context := v\<rparr>), (w3, x'))"
      "ctx_to_value (saga_codec sg) ctx' = Ok v" "okw w3"
      "state_of w3 = (state_of w2)(st_saga_id st \<mapsto> st\<lparr>st_context := v\<rparr>)" "step_of w3 = step_of w2"
      using save_ctx_exec [OF w2(2), of st sg ctx' x'] assms(1-3) Cons.prems(2,3) by auto
    have steps3: "(\<lambda>n. step_of w3 (i, n)) = (\<lambda>n. step_of w (i, n))(step_name s := StepCompensated)"
      using w1 w2 w3 by (auto simp: fun_eq_iff)
    then have out3: "out = spec_compensate ss ctx' x' (\<lambda>n. step_of w3 (i, n)) c cause"
      using Cons.prems(6) b Inr by simp
    have "\<forall>t \<in> set ss. step_of w3 (i, step_name t) = StepDone"
      using Cons.prems(4,5) w1 w2 w3 by (auto simp: fun_upd_apply) (metis imageI)
    then obtain w' where w': "compensate_loop sg ss (st\<lparr>st_context := v\<rparr>) ctx' cause (w3, x')
        = (out_result out, (w', out_env out))" "okw w'"
      "saga_implements state_of step_of (saga_codec sg) i w3 w' out"
      using Cons.IH [OF w3(3) _ _ _ _ out3, of "st\<lparr>st_context := v\<rparr>"] Cons.prems by auto
    have "saga_implements state_of step_of (saga_codec sg) i w w' out"
      using w'(3) by (rule saga_implements_later) (use w1 w2 w3 Cons.prems in auto)
    with w' b Inr w1 w2 w3 assms(1) Cons.prems show ?thesis
      by (auto simp: act_bind_def on_fst_def)
  qed
qed

lemma forward_loop_implements:
  assumes "saga_ops sg = ops" "codec_total (saga_codec sg)" "\<forall>n \<le> length (saga_steps sg). storable n"
    and "okw w" "st_saga_id st = i" "st_status st = Running" "st_current_step st = length finished"
    and "distinct (map step_name (finished @ ss))" "saga_steps sg = rev finished @ ss"
    and "\<forall>s \<in> set finished. step_of w (i, step_name s) = StepDone"
    and "\<forall>s \<in> set ss. step_of w (i, step_name s) \<noteq> StepDone"
    and "out = spec_forward finished ss ctx x (\<lambda>n. step_of w (i, n))"
  shows "\<exists>w'. forward_loop sg (length finished) ss st ctx (w, x) = (out_result out, (w', out_env out)) \<and> okw w'
           \<and> saga_implements state_of step_of (saga_codec sg) i w w' out"
  using assms(4-)
proof (induction ss arbitrary: w x st ctx finished)
  case Nil
  let ?st = "st\<lparr>st_status := Completed\<rparr>"
  obtain w' v where s: "save_with_context sg ?st ctx (w, x) = (Ok (?st\<lparr>st_context := v\<rparr>), (w', x))"
    "ctx_to_value (saga_codec sg) ctx = Ok v" "okw w'"
    "state_of w' = (state_of w)(st_saga_id ?st \<mapsto> ?st\<lparr>st_context := v\<rparr>)" "step_of w' = step_of w"
    using save_ctx_exec [of w ?st sg ctx x] assms(1-3) Nil(1-4,6) by auto
  show ?case
    using Nil s by (auto simp: act_bind_def saga_implements_def)
next
  case (Cons s ss)
  obtain w1 where w1: "op_step_status ops i (step_name s) w = (Ok (step_of w (i, step_name s)), w1)" "okw w1"
    "state_of w1 = state_of w" "step_of w1 = step_of w"
    using step_status_exec [OF Cons.prems(1), of i "step_name s"] by blast
  have sts: "storable (Suc (length finished))" "storable (length finished)"
    using assms(3) Cons.prems(6) by auto
  obtain r ctx' x' where b: "step_execute s (ctx, x) = (r, ctx', x')"
    by (cases "step_execute s (ctx, x)") auto
  have frame: "step_of w'' (i, step_name t) = step_of w (i, step_name t)"
    if "step_of w'' = (step_of w)((i, step_name s) := u)" "t \<in> set finished \<union> set ss" for w'' t u
    using that Cons.prems(5) by (auto simp: fun_upd_apply) (metis imageI)+
  show ?case
  proof (cases r)
    case (Inl e)
    obtain w2 where w2: "op_set_step ops i (step_name s) StepFailedStatus w1 = (Ok (), w2)" "okw w2"
      "state_of w2 = state_of w1" "step_of w2 = (step_of w1)((i, step_name s) := StepFailedStatus)"
      using set_step_exec [OF w1(2)] by blast
    let ?st = "st\<lparr>st_status := Compensating\<rparr>"
    obtain w3 v where w3: "save_with_context sg ?st ctx' (w2, x') = (Ok (?st\<lparr>st_context := v\<rparr>), (w3, x'))"
      "ctx_to_value (saga_codec sg) ctx' = Ok v" "okw w3"
      "state_of w3 = (state_of w2)(st_saga_id ?st \<mapsto> ?st\<lparr>st_context := v\<rparr>)" "step_of w3 = step_of w2"
      using save_ctx_exec [OF w2(2), of ?st sg ctx' x'] assms(1-2) sts Cons.prems(2,4) by auto
    have steps3: "(\<lambda>n. step_of w3 (i, n)) = (\<lambda>n. step_of w (i, n))(step_name s := StepFailedStatus)"
      using w1 w2 w3 by (auto simp: fun_eq_iff)
    have "out = spec_compensate finished ctx' x' (\<lambda>n. step_of w3 (i, n)) (length finished)
        (Some (StepFailed (step_name s) (saga_error_text e)))"
      using Cons.prems(9) b Inl steps3 by simp
    moreover have "\<forall>t \<in> set finished. step_of w3 (i, step_name t) = StepDone"
      using frame [of w3] Cons.prems(7) w1 w2 w3 by auto
    ultimately obtain w' where w': "compensate_loop sg finished (?st\<lparr>st_context := v\<rparr>) ctx'
        (Some (StepFailed (step_name s) (saga_error_text e))) (w3, x') = (out_result out, (w', out_env out))" "okw w'"
      "saga_implements state_of step_of (saga_codec sg) i w3 w' out"
      using compensate_loop_implements [OF assms(1,2) sts(2) w3(3), of "?st\<lparr>st_context := v\<rparr>" i finished out
          ctx' x' "Some (StepFailed (step_name s) (saga_error_text e))"] Cons.prems
      by auto
    have "saga_implements state_of step_of (saga_codec sg) i w w' out"
      using w'(3) by (rule saga_implements_later) (use w1 w2 w3 Cons.prems in auto)
    with w' b Inl w1 w2 w3 assms(1) Cons.prems show ?thesis
      by (auto simp: act_bind_def on_fst_def compensate_def)
  next
    case (Inr u)
    obtain w2 where w2: "op_set_step ops i (step_name s) StepDone w1 = (Ok (), w2)" "okw w2"
      "state_of w2 = state_of w1" "step_of w2 = (step_of w1)((i, step_name s) := StepDone)"
      using set_step_exec [OF w1(2)] by blast
    let ?st = "st\<lparr>st_current_step := Suc (length finished)\<rparr>"
    obtain w3 v where w3: "save_with_context sg ?st ctx' (w2, x') = (Ok (?st\<lparr>st_context := v\<rparr>), (w3, x'))"
      "ctx_to_value (saga_codec sg) ctx' = Ok v" "okw w3"
      "state_of w3 = (state_of w2)(st_saga_id ?st \<mapsto> ?st\<lparr>st_context := v\<rparr>)" "step_of w3 = step_of w2"
      using save_ctx_exec [OF w2(2), of ?st sg ctx' x'] assms(1-2) sts Cons.prems(2,4) by auto
    have steps3: "(\<lambda>n. step_of w3 (i, n)) = (\<lambda>n. step_of w (i, n))(step_name s := StepDone)"
      using w1 w2 w3 by (auto simp: fun_eq_iff)
    have out3: "out = spec_forward (s # finished) ss ctx' x' (\<lambda>n. step_of w3 (i, n))"
      using Cons.prems(9) b Inr steps3 by simp
    have done3: "\<forall>t \<in> set (s # finished). step_of w3 (i, step_name t) = StepDone"
      using frame [of w3] Cons.prems(7) w1 w2 w3 by auto
    have todo3: "\<forall>t \<in> set ss. step_of w3 (i, step_name t) \<noteq> StepDone"
      using frame [of w3] Cons.prems(8) w1 w2 w3 by auto
    obtain w' where w': "forward_loop sg (length (s # finished)) ss (?st\<lparr>st_context := v\<rparr>) ctx' (w3, x')
        = (out_result out, (w', out_env out))" "okw w'"
      "saga_implements state_of step_of (saga_codec sg) i w3 w' out"
      using Cons.IH [OF w3(3) _ _ _ _ _ done3 todo3 out3, of "?st\<lparr>st_context := v\<rparr>"] Cons.prems(2-6)
      by auto
    have "saga_implements state_of step_of (saga_codec sg) i w w' out"
      using w'(3) by (rule saga_implements_later) (use w1 w2 w3 Cons.prems in auto)
    with w' b Inr w1 w2 w3 assms(1) Cons.prems show ?thesis
      by (auto simp: act_bind_def on_fst_def)
  qed
qed

lemma fresh_run_implements:
  assumes "saga_ops sg = ops" "codec_total (saga_codec sg)" "\<forall>n \<le> length (saga_steps sg). storable n"
    and "distinct (map step_name (saga_steps sg))"
    and "okw w" "state_of w i = None" "\<forall>n. step_of w (i, n) = StepPending"
    and "out = saga_spec (saga_steps sg) i ctx x"
  shows "\<exists>w'. saga_run sg i ctx (w, x) = (out_result out, (w', out_env out)) \<and> okw w'
           \<and> saga_implements state_of step_of (saga_codec sg) i w w' out"
proof -
  let ?ctx = "ctx\<lparr>ctx_saga_id := i\<rparr>"
  obtain w1 where w1: "op_load ops i w = (Ok None, w1)" "okw w1"
    "state_of w1 = state_of w" "step_of w1 = step_of w"
    using load_exec [OF assms(5), of i] assms(6) by auto
  obtain v where v: "ctx_to_value (saga_codec sg) ?ctx = Ok v"
    using assms(2) by (rule codec_totalE)
  let ?st = "\<lparr>st_saga_id = i, st_status = Running, st_current_step = 0, st_context = v\<rparr>"
  obtain w2 where w2: "op_save ops ?st w1 = (Ok (), w2)" "okw w2"
    "state_of w2 = (state_of w1)(i \<mapsto> ?st)" "step_of w2 = step_of w1"
    using save_exec [OF w1(2), of ?st] assms(3) by auto
  have "(\<lambda>n. step_of w2 (i, n)) = (\<lambda>_. StepPending)" using w1 w2 assms(7) by simp
  then have out2: "out = spec_forward [] (saga_steps sg) ?ctx x (\<lambda>n. step_of w2 (i, n))"
    using assms(8) by (simp add: saga_spec_def)
  obtain w' where w': "forward_loop sg (length ([] :: 'a saga_step list)) (saga_steps sg) ?st ?ctx (w2, x)
      = (out_result out, (w', out_env out))" "okw w'"
    "saga_implements state_of step_of (saga_codec sg) i w2 w' out"
    using forward_loop_implements [OF assms(1-3) w2(2) _ _ _ _ _ _ _ out2, of ?st] assms(4,7) w1 w2 by auto
  have "saga_implements state_of step_of (saga_codec sg) i w w' out"
    using w'(3) by (rule saga_implements_later) (use w1 w2 in auto)
  with w' w1 w2 v assms(1) show ?thesis
    by (auto simp: saga_run_def act_bind_def on_fst_def encode_context_def forward_def Let_def)
qed

end

section \<open>Crashes and failing stores\<close>

text \<open>
  \<open>eff k\<close> is what the success of step \<open>k\<close> means for the environment: its \<^verbatim>\<open>execute\<close> establishes
  it, the other steps' \<^verbatim>\<open>execute\<close> and the changes \<open>ext\<close> made by the rest of the world keep it.
\<close>

definition effect_stable ::
  "'x saga_step list \<Rightarrow> (nat \<Rightarrow> 'x \<Rightarrow> bool) \<Rightarrow> ('x \<Rightarrow> 'x \<Rightarrow> bool) \<Rightarrow> bool" where
  "effect_stable steps eff ext \<longleftrightarrow>
     (\<forall>k < length steps. \<forall>ctx x ctx' x'. step_execute (steps ! k) (ctx, x) = (Ok (), ctx', x') \<longrightarrow> eff k x') \<and>
     (\<forall>k < length steps. \<forall>j < length steps. j \<noteq> k \<longrightarrow>
        (\<forall>ctx x r ctx' x'. step_execute (steps ! j) (ctx, x) = (r, ctx', x') \<longrightarrow> eff k x \<longrightarrow> eff k x')) \<and>
     (\<forall>k < length steps. \<forall>x x'. ext x x' \<longrightarrow> eff k x \<longrightarrow> eff k x')"

text \<open>One call of \<^verbatim>\<open>run\<close> or \<^verbatim>\<open>resume\<close> on a saga, cut short by any failing store call, or a change
  of the environment.\<close>

definition saga_calls ::
  "('w, 'x) saga \<Rightarrow> string \<Rightarrow> ('x \<Rightarrow> 'x \<Rightarrow> bool) \<Rightarrow> 'w \<times> 'x \<Rightarrow> 'w \<times> 'x \<Rightarrow> bool" where
  "saga_calls sg i ext s t \<longleftrightarrow>
     (\<exists>ctx. t = snd (saga_run sg i ctx s)) \<or> t = snd (saga_resume sg i s) \<or>
     (fst t = fst s \<and> ext (snd s) (snd t))"

definition saga_inv ::
  "'x saga_step list \<Rightarrow> (nat \<Rightarrow> 'x \<Rightarrow> bool) \<Rightarrow> ('w \<Rightarrow> string \<Rightarrow> saga_state option) \<Rightarrow>
   ('w \<Rightarrow> string \<times> string \<Rightarrow> step_status) \<Rightarrow> string \<Rightarrow> 'w \<times> 'x \<Rightarrow> bool" where
  "saga_inv steps eff state_of step_of i s \<longleftrightarrow> (case state_of (fst s) i of
       None \<Rightarrow> \<forall>k < length steps. step_of (fst s) (i, step_name (steps ! k)) = StepDone \<longrightarrow> eff k (snd s)
     | Some st \<Rightarrow> st_current_step st \<le> length steps \<and>
         (case st_status st of
             Running \<Rightarrow> (\<forall>k < st_current_step st. step_of (fst s) (i, step_name (steps ! k)) = StepDone) \<and>
               (\<forall>k < length steps. step_of (fst s) (i, step_name (steps ! k)) = StepDone \<longrightarrow> eff k (snd s))
           | Completed \<Rightarrow>
               \<forall>k < length steps. step_of (fst s) (i, step_name (steps ! k)) = StepDone \<and> eff k (snd s)
           | Compensated \<Rightarrow> \<forall>k < st_current_step st. step_of (fst s) (i, step_name (steps ! k)) \<noteq> StepDone
           | _ \<Rightarrow> True))"

lemma step_name_nth_eq:
  "distinct (map step_name steps) \<Longrightarrow> j < length steps \<Longrightarrow> k < length steps \<Longrightarrow>
   step_name (steps ! j) = step_name (steps ! k) \<longleftrightarrow> j = k"
  by (metis distinct_conv_nth length_map nth_map)

lemma rev_take_Suc: "k < length xs \<Longrightarrow> rev (take (Suc k) xs) = xs ! k # rev (take k xs)"
  by (simp add: take_Suc_conv_app_nth)

lemma saga_inv_cong:
  "state_of w' = state_of w \<Longrightarrow> step_of w' = step_of w \<Longrightarrow>
   saga_inv steps eff state_of step_of i (w', x) \<longleftrightarrow> saga_inv steps eff state_of step_of i (w, x)"
  by (simp only: saga_inv_def fst_conv snd_conv)

lemma saga_inv_env:
  assumes "saga_inv steps eff state_of step_of i (w, x)" "\<forall>k < length steps. eff k x \<longrightarrow> eff k x'"
  shows "saga_inv steps eff state_of step_of i (w, x')"
proof (cases "state_of w i")
  case (Some st)
  then show ?thesis using assms by (cases "st_status st") (auto simp: saga_inv_def)
qed (use assms in \<open>auto simp: saga_inv_def\<close>)

lemma saga_inv_running:
  assumes "state_of w i = Some st" "st_status st = Running" "st_current_step st \<le> length steps"
    and "\<forall>k < st_current_step st. step_of w (i, step_name (steps ! k)) = StepDone"
    and "\<forall>k < length steps. step_of w (i, step_name (steps ! k)) = StepDone \<longrightarrow> eff k x"
  shows "saga_inv steps eff state_of step_of i (w, x)"
  using assms by (auto simp: saga_inv_def)

lemma saga_inv_compensating:
  assumes "state_of w i = Some st" "st_current_step st \<le> length steps"
    and "st_status st = Compensating \<or> st_status st = SagaFailed"
  shows "saga_inv steps eff state_of step_of i (w, x)"
  using assms by (auto simp: saga_inv_def)

context unreliable_store
begin

lemma save_ctx_law:
  assumes "okw w" "saga_ops sg = ops" "save_with_context sg st ctx (w, x) = (r, s)"
  shows "\<exists>w'. s = (w', x) \<and> okw w' \<and> step_of w' = step_of w \<and>
     (case r of Inr st' \<Rightarrow> (\<exists>v. st' = st\<lparr>st_context := v\<rparr> \<and> state_of w' = (state_of w)(st_saga_id st \<mapsto> st'))
      | Inl _ \<Rightarrow> state_of w' = state_of w \<or> (\<exists>v. state_of w' = (state_of w)(st_saga_id st \<mapsto> st\<lparr>st_context := v\<rparr>)))"
proof (cases "encode_context (saga_codec sg) ctx")
  case (Inl e)
  with assms show ?thesis by (auto simp: save_with_context_def)
next
  case (Inr v)
  obtain r' w' where o: "op_save ops (st\<lparr>st_context := v\<rparr>) w = (r', w')"
    by (cases "op_save ops (st\<lparr>st_context := v\<rparr>) w")
  from save_law [OF assms(1) o] Inr o assms(2,3) show ?thesis
    by (auto simp: save_with_context_def Let_def act_bind_def on_fst_def split: sum.splits)
qed

lemma on_set_step_law:
  assumes "okw w" "on_fst (op_set_step ops i n u) (w, x) = (r, s)"
  shows "\<exists>w'. s = (w', x) \<and> okw w' \<and> state_of w' = state_of w \<and>
     (step_of w' = (step_of w)((i, n) := u) \<or> \<not> is_ok r \<and> step_of w' = step_of w)"
  using assms set_step_law [OF assms(1), of i n u] by (auto simp: on_fst_def split: prod.splits)

lemma on_step_status_law:
  assumes "okw w" "on_fst (op_step_status ops i n) (w, x) = (r, s)"
  shows "\<exists>w'. s = (w', x) \<and> okw w' \<and> state_of w' = state_of w \<and> step_of w' = step_of w \<and>
     (is_ok r \<longrightarrow> r = Ok (step_of w (i, n)))"
  using assms step_status_law [OF assms(1), of i n] by (auto simp: on_fst_def split: prod.splits)

lemma on_load_law:
  assumes "okw w" "on_fst (op_load ops i) (w, x) = (r, s)"
  shows "\<exists>w'. s = (w', x) \<and> okw w' \<and> state_of w' = state_of w \<and> step_of w' = step_of w \<and>
     (is_ok r \<longrightarrow> r = Ok (state_of w i))"
  using assms load_law [OF assms(1), of i] by (auto simp: on_fst_def split: prod.splits)

text \<open>A failed compensation leaves the saga compensating or failed.\<close>

lemma compensation_failure_inv:
  assumes "saga_ops sg = ops" "okw w" "state_of w i = Some st" "st_saga_id st = i" "st_status st = Compensating"
    and "st_current_step st \<le> length (saga_steps sg)"
    and "s' = snd (act_bind (on_fst (op_set_step (saga_ops sg) i n u)) (\<lambda>_.
             act_bind (save_with_context sg (st\<lparr>st_status := SagaFailed\<rparr>) ctx) (\<lambda>_. act_err e)) (w, x))"
  shows "okw (fst s') \<and> saga_inv (saga_steps sg) eff state_of step_of i s'"
  unfolding assms(1,7)
proof (rule act_bind_post)
  fix e' t assume "on_fst (op_set_step ops i n u) (w, x) = (Inl e', t)"
  from on_set_step_law [OF assms(2) this] show "okw (fst t) \<and> saga_inv (saga_steps sg) eff state_of step_of i t"
    using assms by (auto intro: saga_inv_compensating)
next
  fix a t assume "on_fst (op_set_step ops i n u) (w, x) = (Inr a, t)"
  from on_set_step_law [OF assms(2) this] obtain w2 where w2: "t = (w2, x)" "okw w2" "state_of w2 = state_of w"
    by auto
  obtain r t' where s: "save_with_context sg (st\<lparr>st_status := SagaFailed\<rparr>) ctx (w2, x) = (r, t')"
    by (cases "save_with_context sg (st\<lparr>st_status := SagaFailed\<rparr>) ctx (w2, x)")
  from save_ctx_law [OF w2(2) assms(1) s]
  have "okw (fst t') \<and> saga_inv (saga_steps sg) eff state_of step_of i t'"
    using w2 assms(3-6) by (cases r) (auto intro: saga_inv_compensating)
  then show "okw (fst (snd (act_bind (save_with_context sg (st\<lparr>st_status := SagaFailed\<rparr>) ctx) (\<lambda>_. act_err e) t))) \<and>
        saga_inv (saga_steps sg) eff state_of step_of i
          (snd (act_bind (save_with_context sg (st\<lparr>st_status := SagaFailed\<rparr>) ctx) (\<lambda>_. act_err e) t))"
    by (simp only: act_bind_err_state w2(1) s snd_conv)
qed

lemma compensate_loop_inv:
  assumes "saga_ops sg = ops" "distinct (map step_name (saga_steps sg))"
    and "okw w" "state_of w i = Some st" "st_saga_id st = i" "st_status st = Compensating"
    and "st_current_step st \<le> b" "b \<le> length (saga_steps sg)" "k \<le> b"
    and "\<forall>j. k \<le> j \<and> j < b \<longrightarrow> step_of w (i, step_name (saga_steps sg ! j)) \<noteq> StepDone"
    and "s' = snd (compensate_loop sg (rev (take k (saga_steps sg))) st ctx cause (w, x))"
  shows "okw (fst s') \<and> saga_inv (saga_steps sg) eff state_of step_of i s'"
  using assms(3-7,9-)
proof (induction k arbitrary: w x st ctx s')
  case 0
  show ?case unfolding 0(8)
    apply (simp only: take_0 rev.simps compensate_loop.simps)
    apply (rule act_bind_post)
     apply (drule save_ctx_law [OF 0(1) assms(1)])
    using 0 assms(8) apply (auto simp: saga_inv_def)[1]
    apply (drule save_ctx_law [OF 0(1) assms(1)])
    using 0 assms(8) by (auto simp: saga_inv_def split: option.split)
next
  case (Suc k)
  let ?s = "saga_steps sg ! k" and ?inv = "\<lambda>s. okw (fst s) \<and> saga_inv (saga_steps sg) eff state_of step_of i s"
  have kn: "k < length (saga_steps sg)" using Suc.prems(6) assms(8) by simp
  have cn: "st_current_step st \<le> length (saga_steps sg)" using Suc.prems(5) assms(8) by simp
  show ?case
    unfolding Suc.prems(8) rev_take_Suc [OF kn] compensate_loop.simps Suc.prems(3) assms(1)
  proof (rule act_bind_post [where Q = ?inv], goal_cases)
    case (1 e s)
    from on_step_status_law [OF Suc.prems(1) 1] show ?case
      using Suc.prems(2,4) cn by (auto intro: saga_inv_compensating)
  next
    case (2 status s)
    from on_step_status_law [OF Suc.prems(1) 2] obtain w1 where w1: "s = (w1, x)" "okw w1"
      "state_of w1 = state_of w" "step_of w1 = step_of w" "status = step_of w (i, step_name ?s)" by auto
    obtain r ctx' x' where b: "step_compensate ?s (ctx, x) = (r, ctx', x')"
      by (cases "step_compensate ?s (ctx, x)") auto
    consider "status \<noteq> StepDone" | e where "status = StepDone" "r = Inl e" | u where "status = StepDone" "r = Inr u"
      by (cases r) auto
    then show ?case
    proof cases
      case 1
      have "\<forall>j. k \<le> j \<and> j < b \<longrightarrow> step_of w1 (i, step_name (saga_steps sg ! j)) \<noteq> StepDone"
        using Suc.prems(7) 1 w1 by (metis Suc_leI le_neq_implies_less)
      from Suc.IH [OF w1(2) _ Suc.prems(3-5) _ this refl] show ?thesis
        using 1 w1 Suc.prems(2,6) by simp
    next
      case 2
      then show ?thesis
        using compensation_failure_inv [OF assms(1) w1(2) _ Suc.prems(3,4) cn refl] w1 b Suc.prems(2) assms(1)
        by simp
    next
      case 3
      have "?inv (snd (act_bind (on_fst (op_set_step ops i (step_name ?s) StepCompensated)) (\<lambda>_.
             act_bind (save_with_context sg st ctx') (\<lambda>st'.
               compensate_loop sg (rev (take k (saga_steps sg))) st' ctx' cause)) (w1, x')))"
      proof (rule act_bind_post [where Q = ?inv], goal_cases)
        case (1 e t)
        from on_set_step_law [OF w1(2) 1] show ?case
          using w1 Suc.prems(2,4) cn by (auto intro: saga_inv_compensating)
      next
        case (2 a t)
        from on_set_step_law [OF w1(2) 2] obtain w2 where w2: "t = (w2, x')" "okw w2" "state_of w2 = state_of w"
          "step_of w2 = (step_of w)((i, step_name ?s) := StepCompensated)" using w1 by auto
        show ?case unfolding w2(1)
        proof (rule act_bind_post [where Q = ?inv], goal_cases)
          case (1 e t)
          from save_ctx_law [OF w2(2) assms(1) 1] show ?case
            using w2 Suc.prems(2-4) cn by (auto intro: saga_inv_compensating)
        next
          case (2 st' t)
          from save_ctx_law [OF w2(2) assms(1) 2] obtain w3 v where w3: "t = (w3, x')" "okw w3"
            "step_of w3 = step_of w2" "st' = st\<lparr>st_context := v\<rparr>" "state_of w3 = (state_of w2)(i \<mapsto> st')"
            using Suc.prems(3) by auto
          have "\<forall>j. k \<le> j \<and> j < b \<longrightarrow> step_of w3 (i, step_name (saga_steps sg ! j)) \<noteq> StepDone"
            using Suc.prems(7) w2 w3 by (auto dest: le_neq_implies_less)
          from Suc.IH [OF w3(2) _ _ _ _ _ this refl] show ?case
            unfolding w3(1) using w3 Suc.prems(2-6) by simp
        qed
      qed
      with 3 w1 b show ?thesis by simp
    qed
  qed
qed

text \<open>A running saga whose finished steps are the first ones, with their effects in place.\<close>

lemma forward_loop_inv:
  assumes "saga_ops sg = ops" "distinct (map step_name (saga_steps sg))"
    and stable: "effect_stable (saga_steps sg) eff ext"
    and "okw w" "state_of w i = Some st" "st_saga_id st = i" "st_status st = Running"
    and "st_current_step st \<le> index" "index \<le> length (saga_steps sg)" "ss = drop index (saga_steps sg)"
    and "\<forall>k < index. step_of w (i, step_name (saga_steps sg ! k)) = StepDone"
    and "\<forall>k < length (saga_steps sg). step_of w (i, step_name (saga_steps sg ! k)) = StepDone \<longrightarrow> eff k x"
    and "s' = snd (forward_loop sg index ss st ctx (w, x))"
  shows "okw (fst s') \<and> saga_inv (saga_steps sg) eff state_of step_of i s'"
  using assms(4-)
proof (induction ss arbitrary: w x st ctx index s')
  case Nil
  have full: "index = length (saga_steps sg)" using Nil.prems(6,7) by simp
  show ?case unfolding Nil.prems(10) forward_loop.simps
    apply (rule act_bind_post [where Q = "\<lambda>s. okw (fst s) \<and> saga_inv (saga_steps sg) eff state_of step_of i s"])
     apply (drule save_ctx_law [OF Nil.prems(1) assms(1)])
    using Nil.prems(2-9) full apply (auto simp: saga_inv_def)[1]
    apply (drule save_ctx_law [OF Nil.prems(1) assms(1)])
    using Nil.prems(2-9) full by (auto simp: saga_inv_def)
next
  case (Cons s ss)
  let ?inv = "\<lambda>s. okw (fst s) \<and> saga_inv (saga_steps sg) eff state_of step_of i s"
  have idx: "index < length (saga_steps sg)" using Cons.prems(7) by (metis drop_all list.distinct(1) not_le)
  have s: "s = saga_steps sg ! index" and ss: "ss = drop (Suc index) (saga_steps sg)"
    using Cons.prems(7) idx by (metis Cons_nth_drop_Suc list.inject)+
  have run: "?inv (w', x')" if "okw w'" "state_of w' i = Some st" "step_of w' = step_of w"
    "\<forall>k < length (saga_steps sg). step_of w (i, step_name (saga_steps sg ! k)) = StepDone \<longrightarrow> eff k x'" for w' x'
    using that Cons.prems(4-9) by (auto simp: saga_inv_def)
  show ?case
    unfolding Cons.prems(10) forward_loop.simps Cons.prems(3) assms(1)
  proof (rule act_bind_post [where Q = ?inv], goal_cases)
    case (1 e s)
    from on_step_status_law [OF Cons.prems(1) 1] show ?case using run Cons.prems(2,9) by auto
  next
    case (2 status t)
    from on_step_status_law [OF Cons.prems(1) 2] obtain w1 where w1: "t = (w1, x)" "okw w1"
      "state_of w1 = state_of w" "step_of w1 = step_of w" "status = step_of w (i, step_name s)" by auto
    obtain r ctx' x' where b: "step_execute s (ctx, x) = (r, ctx', x')"
      by (cases "step_execute s (ctx, x)") auto
    have keep: "step_of w (i, step_name (saga_steps sg ! k)) = StepDone \<Longrightarrow> k < length (saga_steps sg) \<Longrightarrow> eff k x'"
      if "status \<noteq> StepDone" for k
      using stable that w1(5) b s idx Cons.prems(9) unfolding effect_stable_def by metis
    have upd: "step_of w' (i, step_name (saga_steps sg ! k))
        = (if k = index then u else step_of w (i, step_name (saga_steps sg ! k)))"
      if "step_of w' = (step_of w)((i, step_name s) := u)" "k < length (saga_steps sg)" for w' u k
      using that step_name_nth_eq [OF assms(2) that(2) idx] by (auto simp: s)
    have failed: "?inv (w', x')"
      if "status \<noteq> StepDone" "okw w'" "state_of w' i = Some st"
        "step_of w' = step_of w \<or> step_of w' = (step_of w)((i, step_name s) := u)"
        "u \<noteq> StepDone \<or> r = Inr ()" for w' u
    proof -
      have eff_new: "eff index x'" if "r = Inr ()"
        using stable that b s idx unfolding effect_stable_def by metis
      show ?thesis
        using that keep eff_new upd [of w'] Cons.prems(4-8) idx
        by (auto intro!: saga_inv_running [of state_of w' i st] split: if_splits)
    qed
    consider "status = StepDone" | e where "status \<noteq> StepDone" "r = Inl e" | "status \<noteq> StepDone" "r = Inr ()"
      by (cases r) auto
    then show ?case
    proof cases
      case 1
      then have "\<forall>k < Suc index. step_of w1 (i, step_name (saga_steps sg ! k)) = StepDone"
        using Cons.prems(8) w1 s by (auto simp: less_Suc_eq)
      from Cons.IH [OF w1(2) _ Cons.prems(3,4) _ _ ss this _ refl] show ?thesis
        using 1 w1 Cons.prems(2,5,9) idx by simp
    next
      case 2
      have "?inv (snd (act_bind (on_fst (op_set_step ops i (step_name s) StepFailedStatus)) (\<lambda>_.
             act_bind (save_with_context sg (st\<lparr>st_status := Compensating\<rparr>) ctx') (\<lambda>st'.
               compensate sg st' ctx' index (Some (StepFailed (step_name s) (saga_error_text e))))) (w1, x')))"
      proof (rule act_bind_post [where Q = ?inv], goal_cases)
        case (1 e t)
        from on_set_step_law [OF w1(2) 1] show ?case
          using failed [OF 2(1), of _ StepFailedStatus] w1 Cons.prems(2) by auto
      next
        case (2 a t)
        from on_set_step_law [OF w1(2) 2] obtain w2 where w2: "t = (w2, x')" "okw w2" "state_of w2 = state_of w"
          "step_of w2 = (step_of w)((i, step_name s) := StepFailedStatus)" using w1 by auto
        show ?case unfolding w2(1)
        proof (rule act_bind_post [where Q = ?inv], goal_cases)
          case (1 e t)
          from save_ctx_law [OF w2(2) assms(1) 1] obtain w3 where w3: "t = (w3, x')" "okw w3" "step_of w3 = step_of w2"
            "state_of w3 i = Some st \<or> (\<exists>v. state_of w3 i = Some (st\<lparr>st_status := Compensating, st_context := v\<rparr>))"
            using Cons.prems(2,3) w2 by auto blast
          then show ?case
            using failed [OF \<open>status \<noteq> StepDone\<close> w3(2), of StepFailedStatus] w2 Cons.prems(5,6)
            by (auto intro: saga_inv_compensating)
        next
          case (2 st' t)
          from save_ctx_law [OF w2(2) assms(1) 2] obtain w3 v where w3: "t = (w3, x')" "okw w3"
            "st' = st\<lparr>st_status := Compensating, st_context := v\<rparr>" "state_of w3 i = Some st'"
            using Cons.prems(3) by auto
          show ?case unfolding w3(1) compensate_def
            by (rule compensate_loop_inv [OF assms(1,2) w3(2,4), where b = index])
              (use w3 Cons.prems(3,5) idx in auto)
        qed
      qed
      with 2 w1 b show ?thesis by simp
    next
      case 3
      have "?inv (snd (act_bind (on_fst (op_set_step ops i (step_name s) StepDone)) (\<lambda>_.
             act_bind (save_with_context sg (st\<lparr>st_current_step := index + 1\<rparr>) ctx') (\<lambda>st'.
               forward_loop sg (Suc index) ss st' ctx')) (w1, x')))"
      proof (rule act_bind_post [where Q = ?inv], goal_cases)
        case (1 e t)
        from on_set_step_law [OF w1(2) 1] show ?case
          using failed [OF 3(1), of _ StepDone] 3 w1 Cons.prems(2) by auto
      next
        case (2 a t)
        from on_set_step_law [OF w1(2) 2] obtain w2 where w2: "t = (w2, x')" "okw w2" "state_of w2 = state_of w"
          "step_of w2 = (step_of w)((i, step_name s) := StepDone)" using w1 by auto
        have fin: "\<forall>k < Suc index. step_of w2 (i, step_name (saga_steps sg ! k)) = StepDone"
          using upd [OF w2(4)] Cons.prems(8) idx by (auto simp: less_Suc_eq)
        have eff2: "\<forall>k < length (saga_steps sg). step_of w2 (i, step_name (saga_steps sg ! k)) = StepDone \<longrightarrow> eff k x'"
          using stable upd [OF w2(4)] b s idx 3 keep unfolding effect_stable_def by metis
        show ?case unfolding w2(1)
        proof (rule act_bind_post [where Q = ?inv], goal_cases)
          case (1 e t)
          from save_ctx_law [OF w2(2) assms(1) 1] obtain w3 where w3: "t = (w3, x')" "okw w3" "step_of w3 = step_of w2"
            "state_of w3 i = Some st \<or> (\<exists>v. state_of w3 i = Some (st\<lparr>st_current_step := index + 1, st_context := v\<rparr>))"
            using Cons.prems(2,3) w2 by auto blast
          then show ?case
            using failed [OF 3(1) w3(2), of StepDone] 3(2) w2 fin eff2 idx Cons.prems(4)
            by (auto intro: saga_inv_running)
        next
          case (2 st' t)
          from save_ctx_law [OF w2(2) assms(1) 2] obtain w3 v where w3: "t = (w3, x')" "okw w3"
            "step_of w3 = step_of w2" "st' = st\<lparr>st_current_step := index + 1, st_context := v\<rparr>" "state_of w3 i = Some st'"
            using Cons.prems(3) by auto
          show ?case unfolding w3(1)
            by (rule Cons.IH [OF w3(2,5) _ _ _ _ ss _ _ refl]) (use w3 fin eff2 Cons.prems(3,4) idx in auto)
        qed
      qed
      with 3 w1 b show ?thesis by simp
    qed
  qed
qed

lemma continue_state_inv:
  assumes "saga_ops sg = ops" "distinct (map step_name (saga_steps sg))" "effect_stable (saga_steps sg) eff ext"
    and "okw w" "state_of w i = Some st" "saga_inv (saga_steps sg) eff state_of step_of i (w, x)"
    and "s' = snd (continue_state sg st (w, x))"
  shows "okw (fst s') \<and> saga_inv (saga_steps sg) eff state_of step_of i s'"
proof -
  have id: "st_saga_id st = i" using state_id [OF assms(4,5)] .
  have c: "st_current_step st \<le> length (saga_steps sg)" using assms(5,6) by (simp add: saga_inv_def)
  show ?thesis
  proof (cases "st_status st")
    case Running
    show ?thesis
    proof (cases "decode_context (saga_codec sg) st")
      case (Inr ctx)
      have "s' = snd (forward_loop sg (st_current_step st) (drop (st_current_step st) (saga_steps sg)) st ctx (w, x))"
        using assms(7) Running Inr c by (simp add: continue_state_def forward_def)
      then show ?thesis
        using assms(6) Running c assms(5)
        by (intro forward_loop_inv [OF assms(1-5) id Running order_refl c refl]) (auto simp: saga_inv_def)
    qed (use assms c Running in \<open>auto simp: continue_state_def\<close>)
  next
    case Compensating
    show ?thesis
    proof (cases "decode_context (saga_codec sg) st")
      case (Inr ctx)
      have "s' = snd (compensate_loop sg (rev (take (st_current_step st) (saga_steps sg))) st ctx None (w, x))"
        using assms(7) Compensating Inr c by (simp add: continue_state_def compensate_def min_def)
      then show ?thesis
        by (rule compensate_loop_inv [OF assms(1,2,4,5) id Compensating order_refl c order_refl, rotated]) auto
    qed (use assms c Compensating in \<open>auto simp: continue_state_def\<close>)
  qed (use assms c in \<open>auto simp: continue_state_def\<close>)
qed

lemma saga_run_inv:
  assumes "saga_ops sg = ops" "distinct (map step_name (saga_steps sg))" "effect_stable (saga_steps sg) eff ext"
    and "okw w" "saga_inv (saga_steps sg) eff state_of step_of i (w, x)"
    and "s' = snd (saga_run sg i ctx (w, x))"
  shows "okw (fst s') \<and> saga_inv (saga_steps sg) eff state_of step_of i s'"
proof -
  let ?inv = "\<lambda>s. okw (fst s) \<and> saga_inv (saga_steps sg) eff state_of step_of i s"
  show ?thesis unfolding assms(6) saga_run_def Let_def assms(1)
  proof (rule act_bind_post [where Q = ?inv], goal_cases)
    case (1 e t)
    from on_load_law [OF assms(4) 1] obtain w1 where "t = (w1, x)" "okw w1"
      "state_of w1 = state_of w" "step_of w1 = step_of w" by auto
    then show ?case using assms(5) by (simp add: saga_inv_cong [of state_of w1 w step_of])
  next
    case (2 found t)
    from on_load_law [OF assms(4) 2] obtain w1 where w1: "t = (w1, x)" "okw w1"
      "state_of w1 = state_of w" "step_of w1 = step_of w" "found = state_of w i" by auto
    have inv1: "saga_inv (saga_steps sg) eff state_of step_of i (w1, x)"
      using assms(5) w1 by (simp add: saga_inv_cong [of state_of w1 w step_of])
    show ?case
    proof (cases found)
      case (Some st)
      then show ?thesis
        using continue_state_inv [OF assms(1-3) w1(2) _ inv1 refl, of st] w1 by simp
    next
      case None
      show ?thesis
      proof (cases "encode_context (saga_codec sg) (ctx\<lparr>ctx_saga_id := i\<rparr>)")
        case (Inl e)
        then show ?thesis using None w1 inv1 by simp
      next
        case (Inr v)
        let ?st = "\<lparr>st_saga_id = i, st_status = Running, st_current_step = 0, st_context = v\<rparr>"
        let ?ctx = "ctx\<lparr>ctx_saga_id := i\<rparr>"
        have eff: "\<forall>k < length (saga_steps sg). step_of w (i, step_name (saga_steps sg ! k)) = StepDone \<longrightarrow> eff k x"
          using assms(5) None w1(5) by (simp add: saga_inv_def)
        obtain r w2 where o: "op_save ops ?st w1 = (r, w2)" by (cases "op_save ops ?st w1")
        from save_law [OF w1(2) o] have w2: "okw w2" "step_of w2 = step_of w"
          "state_of w2 = (state_of w1)(i \<mapsto> ?st) \<or> \<not> is_ok r \<and> state_of w2 = state_of w1"
          using w1 by auto
        have err: "?inv (w2, x)"
        proof (cases "state_of w2 = state_of w1")
          case True
          then show ?thesis using w1 w2 inv1 by (simp add: saga_inv_cong [of state_of w2 w1 step_of])
        next
          case False
          then show ?thesis
            using w2 eff by (auto intro!: saga_inv_running [of state_of w2 i ?st])
        qed
        have fwd: "?inv (snd (forward sg ?st ?ctx (w2, x)))" if "is_ok r"
          unfolding forward_def
          by (rule forward_loop_inv [OF assms(1-3) w2(1), where index = 0 and st = ?st])
            (use w2 eff that in auto)
        show ?thesis
          using None Inr w1(1) o err fwd
          by (cases r) (simp_all add: act_bind_def on_fst_def)
      qed
    qed
  qed
qed

lemma saga_resume_inv:
  assumes "saga_ops sg = ops" "distinct (map step_name (saga_steps sg))" "effect_stable (saga_steps sg) eff ext"
    and "okw w" "saga_inv (saga_steps sg) eff state_of step_of i (w, x)"
    and "s' = snd (saga_resume sg i (w, x))"
  shows "okw (fst s') \<and> saga_inv (saga_steps sg) eff state_of step_of i s'"
proof -
  obtain r t where o: "on_fst (op_load ops i) (w, x) = (r, t)"
    by (cases "on_fst (op_load ops i) (w, x)")
  from on_load_law [OF assms(4) o] obtain w1 where w1: "t = (w1, x)" "okw w1"
    "state_of w1 = state_of w" "step_of w1 = step_of w" "is_ok r \<longrightarrow> r = Ok (state_of w i)" by auto
  have inv1: "saga_inv (saga_steps sg) eff state_of step_of i (w1, x)"
    using assms(5) w1 by (simp add: saga_inv_cong [of state_of w1 w step_of])
  show ?thesis
  proof (cases "is_ok r \<and> state_of w i \<noteq> None")
    case True
    then obtain st where st: "state_of w i = Some st" by auto
    with True have "s' = snd (continue_state sg st (w1, x))"
      using assms(1,6) o w1 by (simp add: saga_resume_def act_bind_def)
    from continue_state_inv [OF assms(1-3) w1(2) _ inv1 this] show ?thesis using st w1 by simp
  next
    case False
    then have "s' = (w1, x)"
      using assms(1,6) o w1 by (cases r) (auto simp: saga_resume_def act_bind_def)
    then show ?thesis using w1 inv1 by simp
  qed
qed

lemma calls_invariant:
  assumes "saga_ops sg = ops" "distinct (map step_name (saga_steps sg))" "effect_stable (saga_steps sg) eff ext"
  shows "inductive_invariant (\<lambda>s. okw (fst s) \<and> state_of (fst s) i = None \<and> (\<forall>n. step_of (fst s) (i, n) = StepPending))
     (saga_calls sg i ext) (\<lambda>s. okw (fst s) \<and> saga_inv (saga_steps sg) eff state_of step_of i s)"
proof (unfold_locales, goal_cases)
  case (1 s)
  then show ?case by (simp add: saga_inv_def)
next
  case (2 s t)
  obtain w x where s: "s = (w, x)" by (cases s)
  have "saga_inv (saga_steps sg) eff state_of step_of i (w, x')"
    if "saga_inv (saga_steps sg) eff state_of step_of i (w, x)" "ext x x'" for x'
    using that assms(3) by (intro saga_inv_env [OF that(1)]) (auto simp: effect_stable_def)
  moreover have "okw (fst t) \<and> saga_inv (saga_steps sg) eff state_of step_of i t"
    if "t = snd (saga_run sg i ctx s)" for ctx
    using saga_run_inv [OF assms] 2(1) that unfolding s by simp
  moreover have "okw (fst t) \<and> saga_inv (saga_steps sg) eff state_of step_of i t"
    if "t = snd (saga_resume sg i s)"
    using saga_resume_inv [OF assms] 2(1) that unfolding s by simp
  ultimately show ?case
    using 2 unfolding s saga_calls_def by (metis fst_conv snd_conv prod.collapse)
qed

end

section \<open>The SQL store keeps the contract\<close>

text \<open>
  What the store relies on of its database: the two tables as partial functions of their primary
  keys, a select that answers from them, an upsert that replaces one row; any statement may fail
  instead, an upsert then having happened or not.
\<close>

definition tables_same ::
  "('d \<Rightarrow> bool) \<Rightarrow> ('d \<Rightarrow> string \<rightharpoonup> string \<times> int \<times> string) \<Rightarrow> ('d \<Rightarrow> string \<times> string \<rightharpoonup> string) \<Rightarrow> 'd \<Rightarrow> 'd \<Rightarrow> bool" where
  "tables_same okd inst stp d d' \<longleftrightarrow> okd d' \<and> inst d' = inst d \<and> stp d' = stp d"

definition saga_tables ::
  "'d sql_saga_store \<Rightarrow> ('d \<Rightarrow> bool) \<Rightarrow> ('d \<Rightarrow> string \<rightharpoonup> string \<times> int \<times> string) \<Rightarrow>
   ('d \<Rightarrow> string \<times> string \<rightharpoonup> string) \<Rightarrow> bool" where
  "saga_tables s okd inst stp \<longleftrightarrow>
     (\<forall>d i r d'. okd d \<longrightarrow> ex_query_with (ss_db s) (saga_load_sql (ex_dialect (ss_db s))) [JString i] d = (r, d') \<longrightarrow>
        tables_same okd inst stp d d' \<and>
        (is_ok r \<longrightarrow> r = Ok (case inst d i of None \<Rightarrow> []
           | Some (st, c, x) \<Rightarrow> [\<lparr>row_columns = [''saga_id'', ''status'', ''current_step'', ''context''],
                                  row_values = [JString i, JString st, json_int c, JString x]\<rparr>]))) \<and>
     (\<forall>d i n r d'. okd d \<longrightarrow>
        ex_query_with (ss_db s) (saga_step_status_sql (ex_dialect (ss_db s))) [JString i, JString n] d = (r, d') \<longrightarrow>
        tables_same okd inst stp d d' \<and>
        (is_ok r \<longrightarrow> r = Ok (case stp d (i, n) of None \<Rightarrow> []
           | Some st \<Rightarrow> [\<lparr>row_columns = [''status''], row_values = [JString st]\<rparr>]))) \<and>
     (\<forall>d i st c x ts r d'. okd d \<longrightarrow>
        ex_execute_with (ss_db s) (saga_save_sql (ex_dialect (ss_db s)))
          [JString i, JString st, json_int c, JString x, JString ts] d = (r, d') \<longrightarrow>
        okd d' \<and> stp d' = stp d \<and>
        (inst d' = (inst d)(i \<mapsto> (st, c, x)) \<or> \<not> is_ok r \<and> inst d' = inst d)) \<and>
     (\<forall>d i n st ts r d'. okd d \<longrightarrow>
        ex_execute_with (ss_db s) (saga_set_step_sql (ex_dialect (ss_db s)))
          [JString i, JString n, JString st, JString ts] d = (r, d') \<longrightarrow>
        okd d' \<and> inst d' = inst d \<and>
        (stp d' = (stp d)((i, n) \<mapsto> st) \<or> \<not> is_ok r \<and> stp d' = stp d))"

lemmas saga_tables_load = saga_tables_def [THEN iffD1, THEN conjunct1, rule_format]
lemmas saga_tables_status = saga_tables_def [THEN iffD1, THEN conjunct2, THEN conjunct1, rule_format]
lemmas saga_tables_save =
  saga_tables_def [THEN iffD1, THEN conjunct2, THEN conjunct2, THEN conjunct1, rule_format]
lemmas saga_tables_set_step =
  saga_tables_def [THEN iffD1, THEN conjunct2, THEN conjunct2, THEN conjunct2, rule_format]

text \<open>Rows that do not parse read as absent; loading one fails.\<close>

definition sql_state :: "'d sql_saga_store \<Rightarrow> ('d \<Rightarrow> string \<rightharpoonup> string \<times> int \<times> string) \<Rightarrow> 'd \<Rightarrow> string \<Rightarrow> saga_state option" where
  "sql_state s inst d i = (case inst d i of None \<Rightarrow> None
     | Some (st, c, x) \<Rightarrow> (case (saga_status_parse st, ss_from_text s x) of
           (Inr status, Inr v) \<Rightarrow> if 0 \<le> c \<and> c \<le> i64_max
             then Some \<lparr>st_saga_id = i, st_status = status, st_current_step = nat c, st_context = v\<rparr> else None
         | _ \<Rightarrow> None))"

definition sql_step :: "('d \<Rightarrow> string \<times> string \<rightharpoonup> string) \<Rightarrow> 'd \<Rightarrow> string \<times> string \<Rightarrow> step_status" where
  "sql_step stp d k = (case stp d k of None \<Rightarrow> StepPending
     | Some st \<Rightarrow> (case step_status_parse st of Inr u \<Rightarrow> u | Inl _ \<Rightarrow> StepPending))"

lemma as_i64_json_int_iff: "as_i64 (json_int c) = (if c \<le> i64_max then Some c else None)"
  by (auto simp: as_i64_def json_int_def number_as_i64_def i64_max_def)

lemma saga_row_state_eq:
  assumes "row = \<lparr>row_columns = [''saga_id'', ''status'', ''current_step'', ''context''],
                   row_values = [JString i, JString st, json_int c, JString x]\<rparr>"
  shows "is_ok (saga_row_state s row) \<Longrightarrow> inst d i = Some (st, c, x) \<Longrightarrow>
    \<exists>v. saga_row_state s row = Ok v \<and> sql_state s inst d i = Some v"
  using assms
  by (auto simp: saga_row_state_def saga_row_int_def saga_row_text_def row_get_def as_str_def as_i64_json_int_iff
      sql_state_def try_bind_def map_err_def split: sum.splits if_splits)

text \<open>A statement sent through \<^verbatim>\<open>map_err(db_error)\<close>, and the store's calls in terms of it.\<close>

lemma sql_load_cases:
  assumes "sql_load s i d = (r, d')"
  obtains "\<not> is_ok r" "d' = d"
  | q where "ex_query_with (ss_db s) (saga_load_sql (ex_dialect (ss_db s))) [JString i] d = (q, d')"
      "r = (case q of Inl e \<Rightarrow> Err (saga_db_error e) | Inr [] \<Rightarrow> Ok None
            | Inr (row # _) \<Rightarrow> (case saga_row_state s row of Inl e \<Rightarrow> Err e | Inr st \<Rightarrow> Ok (Some st)))"
  using assms
  by (auto simp: sql_load_def saga_store_dialect_def act_bind_def act_map_err_def map_err_def
      split: if_splits prod.splits sum.splits list.splits)

lemma sql_step_status_cases:
  assumes "sql_step_status s i n d = (r, d')"
  obtains "\<not> is_ok r" "d' = d"
  | q where "ex_query_with (ss_db s) (saga_step_status_sql (ex_dialect (ss_db s))) [JString i, JString n] d = (q, d')"
      "r = (case q of Inl e \<Rightarrow> Err (saga_db_error e) | Inr [] \<Rightarrow> Ok StepPending
            | Inr (row # _) \<Rightarrow> try_bind (saga_row_text row ''status'') step_status_parse)"
  using assms
  by (auto simp: sql_step_status_def saga_store_dialect_def act_bind_def act_map_err_def map_err_def
      split: if_splits prod.splits sum.splits list.splits)

lemma sql_save_cases:
  assumes "sql_save s st d = (r, d')"
  obtains "\<not> is_ok r" "d' = d"
  | q x ts where "ex_execute_with (ss_db s) (saga_save_sql (ex_dialect (ss_db s)))
        [JString (st_saga_id st), JString (saga_status_as_str (st_status st)),
         json_int (int (st_current_step st)), JString x, JString ts] d = (q, d')"
      "is_ok r = is_ok q" "ss_to_text s (st_context st) = Ok x" "int (st_current_step st) \<le> i64_max"
  using assms
  by (auto simp: sql_save_def saga_store_dialect_def saga_now_def act_bind_def act_map_err_def map_err_def
      split: if_splits prod.splits sum.splits)

lemma sql_set_step_cases:
  assumes "sql_set_step s i n u d = (r, d')"
  obtains "\<not> is_ok r" "d' = d"
  | q ts where "ex_execute_with (ss_db s) (saga_set_step_sql (ex_dialect (ss_db s)))
        [JString i, JString n, JString (step_status_as_str u), JString ts] d = (q, d')" "is_ok r = is_ok q"
  using assms
  by (auto simp: sql_set_step_def saga_store_dialect_def saga_now_def act_bind_def act_map_err_def map_err_def
      split: if_splits prod.splits sum.splits)

lemma sql_state_saved:
  assumes "ss_from_text s x = Ok (st_context st)" "int (st_current_step st) \<le> i64_max"
    and "inst d' = (inst d)(st_saga_id st \<mapsto> (saga_status_as_str (st_status st), int (st_current_step st), x))"
  shows "sql_state s inst d' = (sql_state s inst d)(st_saga_id st \<mapsto> st)"
  using assms by (auto simp: sql_state_def fun_eq_iff)

lemma sql_step_set:
  assumes "stp d' = (stp d)((i, n) \<mapsto> step_status_as_str u)"
  shows "sql_step stp d' = (sql_step stp d)((i, n) := u)"
  using assms by (auto simp: sql_step_def fun_eq_iff)

lemma sql_views_same:
  "tables_same okd inst stp d d' \<Longrightarrow>
   okd d' \<and> sql_state s inst d' = sql_state s inst d \<and> sql_step stp d' = sql_step stp d"
  by (auto simp: tables_same_def sql_state_def sql_step_def fun_eq_iff)

lemma sql_load_answer:
  assumes "saga_tables s okd inst stp" "okd d" "sql_load s i d = (r, d')"
  shows "tables_same okd inst stp d d' \<and> (is_ok r \<longrightarrow> r = Ok (sql_state s inst d i))"
  using assms(3)
proof (cases rule: sql_load_cases)
  case 1
  then show ?thesis using assms(2) by (simp add: tables_same_def)
next
  case (2 q)
  note law = saga_tables_load [OF assms(1,2) 2(1)]
  show ?thesis
  proof (cases q)
    case (Inr rows)
    show ?thesis
    proof (cases "inst d i")
      case None
      then show ?thesis using law 2(2) Inr by (simp add: sql_state_def)
    next
      case (Some y)
      obtain st c x where y: "y = (st, c, x)" by (cases y)
      let ?row = "\<lparr>row_columns = [''saga_id'', ''status'', ''current_step'', ''context''],
                   row_values = [JString i, JString st, json_int c, JString x]\<rparr>"
      have "r = (case saga_row_state s ?row of Inl e \<Rightarrow> Err e | Inr st \<Rightarrow> Ok (Some st))"
        using law 2(2) Inr Some y by simp
      then show ?thesis
        using law saga_row_state_eq [OF refl, of s i st c x inst d] Some y
        by (cases "saga_row_state s ?row") auto
    qed
  qed (use law 2(2) in simp)
qed

lemma sql_step_status_answer:
  assumes "saga_tables s okd inst stp" "okd d" "sql_step_status s i n d = (r, d')"
  shows "tables_same okd inst stp d d' \<and> (is_ok r \<longrightarrow> r = Ok (sql_step stp d (i, n)))"
  using assms(3)
proof (cases rule: sql_step_status_cases)
  case 1
  then show ?thesis using assms(2) by (simp add: tables_same_def)
next
  case (2 q)
  note law = saga_tables_status [OF assms(1,2) 2(1)]
  show ?thesis
  proof (cases q)
    case (Inr rows)
    then show ?thesis
      using law 2(2)
      by (cases "stp d (i, n)") (auto simp: sql_step_def saga_row_text_def row_get_def as_str_def split: sum.split)
  qed (use law 2(2) in simp)
qed

section \<open>A store with faults, and example sagas\<close>

text \<open>
  The in-memory store behind a list of faults, one per call: the call is refused, or it takes
  effect and its answer is lost, or it goes through; when the list is used up every call goes
  through.
\<close>

datatype fault = NoFault | Refused | AnswerLost

definition with_fault :: "(saga_error, saga_memory, 'a) act \<Rightarrow> (saga_error, saga_memory \<times> fault list, 'a) act" where
  "with_fault f s = (case snd s of
       Refused # fs \<Rightarrow> (Err (SagaStateError ''store''), (fst s, fs))
     | AnswerLost # fs \<Rightarrow> (Err (SagaStateError ''store''), (snd (f (fst s)), fs))
     | fs \<Rightarrow> (fst (f (fst s)), (snd (f (fst s)), tl fs)))"

definition faulty_ops :: "(saga_memory \<times> fault list) saga_store_ops" where
  "faulty_ops =
     \<lparr>op_load = (\<lambda>i. with_fault (mem_load i)), op_save = (\<lambda>st. with_fault (mem_save st)),
      op_step_status = (\<lambda>i n. with_fault (mem_step_status i n)),
      op_set_step = (\<lambda>i n u. with_fault (mem_set_step i n u))\<rparr>"

interpretation faulty: unreliable_store faulty_ops "\<lambda>s. memory_ok (fst s)" "\<lambda>s. mem_states (fst s)"
  "\<lambda>s. memory_step (fst s)"
  by unfold_locales
    (auto simp: memory_defs faulty_ops_def with_fault_def fun_eq_iff split: list.splits fault.splits)

text \<open>
  Example steps: the environment is the list of the names of the steps in effect; a step adds its
  name, its compensation removes it, and either may be made to fail.
\<close>

definition example_step :: "string \<Rightarrow> bool \<Rightarrow> bool \<Rightarrow> string list saga_step" where
  "example_step n fe fc =
     \<lparr>step_name = n,
      step_execute = (\<lambda>(ctx, x). if fe then (Err (SagaStateError ''refused''), ctx, x)
                       else (Ok (), ctx\<lparr>ctx_data := JString n\<rparr>, n # x)),
      step_compensate = (\<lambda>(ctx, x). if fc then (Err (SagaStateError ''refused''), ctx, x)
                       else (Ok (), ctx, removeAll n x))\<rparr>"

definition example_codec :: ctx_codec where
  "example_codec =
     \<lparr>ctx_to_value = (\<lambda>c. Ok (JArray [JString (ctx_saga_id c), JString (ctx_idempotency_key c), ctx_data c])),
      ctx_from_value = (\<lambda>v. case v of
          JArray [JString a, JString b, d] \<Rightarrow> Ok \<lparr>ctx_saga_id = a, ctx_idempotency_key = b, ctx_data = d\<rparr>
        | _ \<Rightarrow> Err ''shape'')\<rparr>"

definition example_ctx :: saga_context where
  "example_ctx = \<lparr>ctx_saga_id = [], ctx_idempotency_key = ''k'', ctx_data = JNull\<rparr>"

definition example_saga :: "'w saga_store_ops \<Rightarrow> string list saga_step list \<Rightarrow> ('w, string list) saga" where
  "example_saga ops steps = \<lparr>saga_steps = steps, saga_ops = ops, saga_codec = example_codec\<rparr>"

lemmas example_simps = example_saga_def example_step_def example_codec_def example_ctx_def
  saga_run_def saga_resume_def forward_def compensate_def continue_state_def save_with_context_def
  encode_context_def decode_context_def act_bind_def on_fst_def Let_def memory_new_def

lemmas faulty_simps = faulty_ops_def with_fault_def mem_load_def mem_save_def mem_step_status_def mem_set_step_def

section \<open>Properties\<close>

text \<open>
  C7. \<^verbatim>\<open>Saga::run\<close> on an identifier the store does not know, with distinct step names and the
  in-memory store, returns what the reference semantics returns and leaves its environment: the
  steps run once each, in order; a failing step makes the completed ones be compensated in
  reverse order and \<^verbatim>\<open>StepFailed\<close> be returned; a failing compensation stops with
  \<^verbatim>\<open>CompensationFailed\<close>. The store then holds the matching status, step counter and context, the
  status of every step, and nothing has changed for other sagas.
\<close>

theorem fresh_saga_run_refines_spec:
  assumes "saga_ops sg = memory_ops" "codec_total (saga_codec sg)"
    and "distinct (map step_name (saga_steps sg))"
    and "memory_ok w" "mem_states w i = None" "\<forall>n. mem_steps w (i, n) = None"
    and "out = saga_spec (saga_steps sg) i ctx x"
  shows "\<exists>w'. saga_run sg i ctx (w, x) = (out_result out, (w', out_env out)) \<and> memory_ok w'
           \<and> saga_implements mem_states memory_step (saga_codec sg) i w w' out"
  by (rule memory.fresh_run_implements) (use assms in \<open>auto simp: memory_step_def\<close>)

text \<open>
  C8. Whatever store calls fail, with or without effect, in however many calls of \<^verbatim>\<open>run\<close> and
  \<^verbatim>\<open>resume\<close> (one at a time): a saga that the store reports as \<^verbatim>\<open>Completed\<close> has every step marked
  done and every step's effect in place, for effects that the other steps and the environment
  keep. The steps' and compensations' behaviour is arbitrary, and so is the codec's.
\<close>

theorem completed_saga_took_effect:
  assumes "unreliable_store (saga_ops sg) okw state_of step_of"
    and "distinct (map step_name (saga_steps sg))"
    and "effect_stable (saga_steps sg) eff ext"
    and "reachable_from (\<lambda>s. okw (fst s) \<and> state_of (fst s) i = None \<and> (\<forall>n. step_of (fst s) (i, n) = StepPending))
           (saga_calls sg i ext) (w, x)"
    and "state_of w i = Some st" "st_status st = Completed" "k < length (saga_steps sg)"
  shows "step_of w (i, step_name (saga_steps sg ! k)) = StepDone \<and> eff k x"
proof -
  have "saga_inv (saga_steps sg) eff state_of step_of i (w, x)"
    using inductive_invariant.reachable_invar [OF unreliable_store.calls_invariant
        [OF assms(1) refl assms(2,3)] assms(4)] by simp
  with assms(5-7) show ?thesis by (simp add: saga_inv_def)
qed

text \<open>
  C9. The SQL store keeps the same contract on any database that answers its selects from the two
  tables and replaces one row per upsert, as long as the JSON text of a context parses back to
  it: what \<^verbatim>\<open>save\<close> and \<^verbatim>\<open>set_step\<close> wrote is what \<^verbatim>\<open>load\<close> and \<^verbatim>\<open>step_status\<close> return, a row
  that does not parse or a step counter out of range is an error and never a wrong answer, and
  a failing statement may have happened or not.
\<close>

theorem sql_saga_store_keeps_contract:
  assumes "saga_tables s okd inst stp"
    and "\<forall>v x. ss_to_text s v = Ok x \<longrightarrow> ss_from_text s x = Ok v"
  shows "unreliable_store (sql_ops s) okd (sql_state s inst) (sql_step stp)"
proof (unfold_locales, goal_cases)
  case (1 w i st)
  then show ?case by (auto simp: sql_state_def split: option.splits prod.splits sum.splits if_splits)
next
  case (2 w i r w')
  then show ?case
    using sql_load_answer [OF assms(1)] sql_views_same [of okd inst stp w w' s] by (auto simp: sql_ops_def)
next
  case (3 w i n r2 w')
  then show ?case
    using sql_step_status_answer [OF assms(1)] sql_views_same [of okd inst stp w w' s] by (auto simp: sql_ops_def)
next
  case (4 w st r3 w')
  then have "sql_save s st w = (r3, w')" by (simp add: sql_ops_def)
  then show ?case
  proof (cases rule: sql_save_cases)
    case 1
    then show ?thesis using 4 by simp
  next
    case (2 q x ts)
    have "okd w' \<and> stp w' = stp w \<and>
      (inst w' = (inst w)(st_saga_id st \<mapsto> (saga_status_as_str (st_status st), int (st_current_step st), x))
       \<or> \<not> is_ok q \<and> inst w' = inst w)"
      by (rule saga_tables_save [OF assms(1) 4(1) 2(1)])
    then show ?thesis
      using sql_state_saved [of s x st inst w' w] assms(2) 2 by (auto simp: sql_step_def sql_state_def fun_eq_iff)
  qed
next
  case (5 w i n u r3 w')
  then have "sql_set_step s i n u w = (r3, w')" by (simp add: sql_ops_def)
  then show ?case
  proof (cases rule: sql_set_step_cases)
    case 1
    then show ?thesis using 5 by simp
  next
    case (2 q ts)
    have "okd w' \<and> inst w' = inst w \<and>
      (stp w' = (stp w)((i, n) \<mapsto> step_status_as_str u) \<or> \<not> is_ok q \<and> stp w' = stp w)"
      by (rule saga_tables_set_step [OF assms(1) 5(1) 2(1)])
    then show ?thesis
      using sql_step_set [of stp w' w i n u] 2 by (auto simp: sql_step_def sql_state_def fun_eq_iff)
  qed
qed

text \<open>
  A saga that ended \<^verbatim>\<open>Completed\<close> or \<^verbatim>\<open>Compensated\<close> is final: every later \<^verbatim>\<open>run\<close> or \<^verbatim>\<open>resume\<close>
  returns \<^verbatim>\<open>Ok(())\<close>, runs no step and changes nothing; one that ended \<^verbatim>\<open>Failed\<close> is refused
  with \<^verbatim>\<open>InvalidState\<close>, also without a change. This holds even when the run that compensated
  returned the failure itself.
\<close>

theorem ended_saga_is_final:
  assumes "saga_ops sg = memory_ops" "mem_states w i = Some st"
    and "st_current_step st \<le> length (saga_steps sg)"
  shows "(st_status st = Completed \<or> st_status st = Compensated \<longrightarrow>
            saga_run sg i ctx (w, x) = (Ok (), (w, x)) \<and> saga_resume sg i (w, x) = (Ok (), (w, x))) \<and>
         (st_status st = SagaFailed \<longrightarrow>
            saga_run sg i ctx (w, x) = (Err (SagaInvalidState (st_saga_id st) SagaFailed), (w, x)) \<and>
            saga_resume sg i (w, x) = (Err (SagaInvalidState (st_saga_id st) SagaFailed), (w, x)))"
  using assms by (auto simp: saga_run_def saga_resume_def act_bind_def on_fst_def memory_ops_def
      mem_load_def continue_state_def Let_def)



section \<open>Witnesses\<close>

text \<open>A second step that fails: the first one is compensated.\<close>

theorem fresh_saga_run_refines_spec_witness:
  "\<exists>w'. saga_run (example_saga memory_ops [example_step ''a'' False False, example_step ''b'' True False])
          ''s'' example_ctx (memory_new, [])
        = (Err (StepFailed ''b'' ''saga state: refused''), (w', [])) \<and> memory_ok w'
      \<and> saga_implements mem_states memory_step example_codec ''s'' memory_new w'
          (saga_spec [example_step ''a'' False False, example_step ''b'' True False] ''s'' example_ctx [])"
  using fresh_saga_run_refines_spec [of
      "example_saga memory_ops [example_step ''a'' False False, example_step ''b'' True False]"
      memory_new "''s''" _ example_ctx "[]", OF _ _ _ _ _ _ refl]
  by (simp add: example_saga_def codec_total_def memory_ok_def memory_new_def example_step_def example_codec_def
      saga_spec_def)

theorem completed_saga_took_effect_witness:
  "(let s = snd (saga_run (example_saga faulty_ops [example_step ''a'' False False, example_step ''b'' False False])
                  ''s'' example_ctx ((memory_new, []), []))
    in memory_step (fst (fst s)) (''s'', ''b'') = StepDone \<and> ''b'' \<in> set (snd s))"
proof -
  let ?steps = "[example_step ''a'' False False, example_step ''b'' False False]"
  let ?sg = "example_saga faulty_ops ?steps"
  let ?s = "snd (saga_run ?sg ''s'' example_ctx ((memory_new, []), []))"
  let ?eff = "\<lambda>k x. step_name (?steps ! k) \<in> set x" and ?ext = "\<lambda>x y :: string list. set x \<subseteq> set y"
  have "reachable_from (\<lambda>s. memory_ok (fst (fst s)) \<and> mem_states (fst (fst s)) ''s'' = None \<and>
      (\<forall>n. memory_step (fst (fst s)) (''s'', n) = StepPending)) (saga_calls ?sg ''s'' ?ext) (fst ?s, snd ?s)"
    by (rule reach_step, rule reach_init [of _ "((memory_new, []), [])"])
      (auto simp: saga_calls_def memory_new_def memory_ok_def memory_step_def)
  moreover have "effect_stable ?steps ?eff ?ext"
    by (auto simp: effect_stable_def example_step_def less_Suc_eq)
  moreover have "map_option st_status (mem_states (fst (fst ?s)) ''s'') = Some Completed"
    by (simp add: example_simps faulty_simps)
  then obtain st where "mem_states (fst (fst ?s)) ''s'' = Some st" "st_status st = Completed" by auto
  ultimately have "memory_step (fst (fst ?s)) (''s'', step_name (?steps ! 1)) = StepDone \<and> ?eff 1 (snd ?s)"
    using completed_saga_took_effect [of ?sg "\<lambda>s. memory_ok (fst s)" "\<lambda>s. mem_states (fst s)"
        "\<lambda>s. memory_step (fst s)" ?eff ?ext "''s''" "fst ?s" "snd ?s" st 1]
      faulty.unreliable_store_axioms
    by (simp add: example_saga_def example_step_def)
  then show ?thesis by (simp add: example_step_def Let_def)
qed

definition example_tables :: "((string \<rightharpoonup> string \<times> int \<times> string) \<times> (string \<times> string \<rightharpoonup> string)) sql_saga_store" where
  "example_tables =
     \<lparr>ss_db = \<lparr>ex_execute = (\<lambda>_ d. (Ok 0, d)), ex_query = (\<lambda>_ d. (Ok [], d)),
        ex_execute_with = (\<lambda>sql ps d. case ps of
            [JString i, JString st, JNumber c, JString x, _] \<Rightarrow>
              (Ok 1, ((fst d)(i \<mapsto> (st, (case c of PosInt n \<Rightarrow> int n | NegInt z \<Rightarrow> z | Float _ \<Rightarrow> 0), x)), snd d))
          | [JString i, JString n, JString st, _] \<Rightarrow> (Ok 1, (fst d, (snd d)((i, n) \<mapsto> st)))
          | _ \<Rightarrow> (Err (RdbmsDatabase sql), d)),
        ex_query_with = (\<lambda>sql ps d. case ps of
            [JString i] \<Rightarrow> (Ok (case fst d i of None \<Rightarrow> []
               | Some (st, c, x) \<Rightarrow> [\<lparr>row_columns = [''saga_id'', ''status'', ''current_step'', ''context''],
                                      row_values = [JString i, JString st, json_int c, JString x]\<rparr>]), d)
          | [JString i, JString n] \<Rightarrow> (Ok (case snd d (i, n) of None \<Rightarrow> []
               | Some st \<Rightarrow> [\<lparr>row_columns = [''status''], row_values = [JString st]\<rparr>]), d)
          | _ \<Rightarrow> (Err (RdbmsDatabase sql), d)),
        ex_query_write = (\<lambda>_ _ d. (Ok [], d)), ex_execute_then_query = (\<lambda>_ _ _ d. (Ok [], d)),
        ex_dialect = Postgres\<rparr>,
      ss_clock = (\<lambda>_. Ok ''2026-01-01T00:00:00Z''),
      ss_to_text = (\<lambda>v. case v of JString x \<Rightarrow> Ok x | _ \<Rightarrow> Err ''unsupported''),
      ss_from_text = (\<lambda>x. Ok (JString x))\<rparr>"

theorem sql_saga_store_keeps_contract_witness:
  "unreliable_store (sql_ops example_tables) (\<lambda>_. True) (sql_state example_tables fst) (sql_step snd)"
proof (rule sql_saga_store_keeps_contract)
  show "saga_tables example_tables (\<lambda>_. True) fst snd"
    by (auto simp: saga_tables_def example_tables_def tables_same_def json_int_def)
  show "\<forall>v x. ss_to_text example_tables v = Ok x \<longrightarrow> ss_from_text example_tables x = Ok v"
    by (auto simp: example_tables_def split: json_value.splits)
qed

theorem ended_saga_is_final_witness:
  "let w = memory_new\<lparr>mem_states := [''s'' \<mapsto> \<lparr>st_saga_id = ''s'', st_status = Compensated,
             st_current_step = 1, st_context = JNull\<rparr>]\<rparr>;
       sg = example_saga memory_ops [example_step ''a'' False False]
   in saga_run sg ''s'' example_ctx (w, []) = (Ok (), (w, []))"
  using ended_saga_is_final [of "example_saga memory_ops [example_step ''a'' False False]"
      "memory_new\<lparr>mem_states := [''s'' \<mapsto> \<lparr>st_saga_id = ''s'', st_status = Compensated,
             st_current_step = 1, st_context = JNull\<rparr>]\<rparr>" "''s''" _ example_ctx "[]"]
  by (simp add: example_saga_def Let_def)

end
