(* ===== verification/TwoPhase.thy ===== *)
theory TwoPhase
  imports Rdbms
begin

text \<open>
  \<^verbatim>\<open>ecat-data-2pc\<close>: the two-phase-commit coordinator of \<^verbatim>\<open>coordinator.rs\<close> and the recovery of
  \<^verbatim>\<open>recovery.rs\<close>, as actions on a world that holds the coordination log's database, the
  participants' branches and the fence. Participants, database and lock are parameters; what they
  document is the contract of the section on the world.
\<close>

section \<open>Participants, errors and the log (coordinator.rs)\<close>

datatype xa_error =
    XaUnsupportedDialect
  | XaUnknownParticipant string
  | XaUnknownXid string
  | XaState string
  | XaDatabase string
  | XaLock string

fun xa_error_text :: "xa_error \<Rightarrow> string" where
  "xa_error_text XaUnsupportedDialect = ''unsupported dialect for XA''"
| "xa_error_text (XaUnknownParticipant n) = ''unknown XA participant `'' @ n @ ''`''"
| "xa_error_text (XaUnknownXid x) = ''XA transaction `'' @ x @ ''` is not active''"
| "xa_error_text (XaState m) = ''XA state: '' @ m"
| "xa_error_text (XaDatabase m) = ''XA database: '' @ m"
| "xa_error_text (XaLock m) = ''XA lock: '' @ m"

record 'w xa_participant =
  xa_start :: "string \<Rightarrow> (xa_error, 'w, unit) act"
  xa_end :: "string \<Rightarrow> (xa_error, 'w, unit) act"
  xa_prepare :: "string \<Rightarrow> (xa_error, 'w, unit) act"
  xa_commit :: "string \<Rightarrow> (xa_error, 'w, unit) act"
  xa_rollback :: "string \<Rightarrow> (xa_error, 'w, unit) act"
  xa_recover :: "(xa_error, 'w, string list) act"
  xa_execute :: "string \<Rightarrow> string \<Rightarrow> json_value list \<Rightarrow> (xa_error, 'w, nat) act"

text \<open>
  \<^verbatim>\<open>FencedLock::acquire_fenced\<close> answers with a token or nothing, \<^verbatim>\<open>release\<close> gives it back; a lock
  error is its text.
\<close>

record 'w fence_setting =
  fence_acquire :: "string \<Rightarrow> nat \<Rightarrow> (string, 'w, string option) act"
  fence_release :: "string \<Rightarrow> string \<Rightarrow> (string, 'w, unit) act"
  fence_key :: string
  fence_ttl :: nat

text \<open>
  The coordinator, with the clock and the JSON text of a list of names as parameters. A
  distributed transaction keeps the participants it was begun with.
\<close>

record 'w coordinator =
  co_db :: "'w sql_executor"
  co_participants :: "string \<rightharpoonup> 'w xa_participant"
  co_fence :: "'w fence_setting option"
  co_clock :: "'w \<Rightarrow> (string, string) result"
  co_names_to_text :: "string list \<Rightarrow> (string, string) result"
  co_names_from_text :: "string \<Rightarrow> (string, string list) result"

record 'w distributed_tx =
  dtx_id :: string
  dtx_participants :: "(string \<times> 'w xa_participant) list"

record log_row =
  lr_id :: string
  lr_status :: string
  lr_participants :: "string list"
  lr_decision :: "string option"

record recovery_report =
  rep_recovered :: nat
  rep_failed :: nat

definition TX_TABLE :: string where
  "TX_TABLE = ''distributed_tx''"

definition xa_db_error :: "rdbms_error \<Rightarrow> xa_error" where
  "xa_db_error e = XaDatabase (rdbms_error_text e)"

definition xa_now :: "'w coordinator \<Rightarrow> (xa_error, 'w, string) act" where
  "xa_now co w = (map_err (\<lambda>e. XaState (''failed to format timestamp: '' @ e)) (co_clock co w), w)"

definition state_dialect :: "'w coordinator \<Rightarrow> (xa_error, dialect) result" where
  "state_dialect co = (if ex_dialect (co_db co) = Mssql then Err XaUnsupportedDialect else Ok (ex_dialect (co_db co)))"

definition nullable_text :: "string option \<Rightarrow> json_value" where
  "nullable_text d = (case d of None \<Rightarrow> JNull | Some s \<Rightarrow> JString s)"

definition tx_schema_sql :: "dialect \<Rightarrow> string" where
  "tx_schema_sql d =
     (let id_type = (if d = MySql then ''VARCHAR(255)'' else ''TEXT'');
          nl = CHR 0x0A # replicate 16 (CHR '' '') in
      ''CREATE TABLE IF NOT EXISTS '' @ TX_TABLE @ '' ('' @ nl @ ''id '' @ id_type @ '' PRIMARY KEY,'' @ nl
      @ ''status TEXT NOT NULL,'' @ nl @ ''participants TEXT NOT NULL,'' @ nl @ ''decision TEXT,'' @ nl
      @ ''created_at TEXT NOT NULL'' @ CHR 0x0A # replicate 12 (CHR '' '') @ '')'')"

definition tx_ensure_schema :: "'w coordinator \<Rightarrow> (xa_error, 'w, unit) act" where
  "tx_ensure_schema co =
     act_bind (act_lift (state_dialect co)) (\<lambda>d.
     act_bind (act_map_err xa_db_error (ex_execute (co_db co) (tx_schema_sql d))) (\<lambda>_. act_ok ()))"

definition insert_log_sql :: "dialect \<Rightarrow> string" where
  "insert_log_sql d = ''INSERT INTO '' @ TX_TABLE @ '' (id, status, participants, decision, created_at) VALUES (''
     @ placeholder d 1 @ '', '' @ placeholder d 2 @ '', '' @ placeholder d 3 @ '', '' @ placeholder d 4 @ '', ''
     @ placeholder d 5 @ '')''"

definition insert_log ::
  "'w coordinator \<Rightarrow> string \<Rightarrow> string \<Rightarrow> string list \<Rightarrow> string option \<Rightarrow> (xa_error, 'w, unit) act" where
  "insert_log co i status names decision =
     act_bind (act_lift (state_dialect co)) (\<lambda>d.
     act_bind (act_lift (map_err (\<lambda>e. XaState (''failed to encode participants: '' @ e))
       (co_names_to_text co names))) (\<lambda>t.
     act_bind (xa_now co) (\<lambda>ts.
     act_bind (act_map_err xa_db_error (ex_execute_with (co_db co) (insert_log_sql d)
       [JString i, JString status, JString t, nullable_text decision, JString ts])) (\<lambda>_. act_ok ()))))"

definition set_log_sql :: "dialect \<Rightarrow> string" where
  "set_log_sql d = ''UPDATE '' @ TX_TABLE @ '' SET status = '' @ placeholder d 1 @ '', decision = ''
     @ placeholder d 2 @ '' WHERE id = '' @ placeholder d 3"

definition set_log :: "'w coordinator \<Rightarrow> string \<Rightarrow> string \<Rightarrow> string option \<Rightarrow> (xa_error, 'w, unit) act" where
  "set_log co i status decision =
     act_bind (act_lift (state_dialect co)) (\<lambda>d.
     act_bind (act_map_err xa_db_error (ex_execute_with (co_db co) (set_log_sql d)
       [JString status, nullable_text decision, JString i])) (\<lambda>_. act_ok ()))"

definition row_text :: "db_row \<Rightarrow> string \<Rightarrow> string option" where
  "row_text row c = Option.bind (row_get row c) as_str"

definition row_to_log :: "'w coordinator \<Rightarrow> db_row \<Rightarrow> (xa_error, log_row) result" where
  "row_to_log co row =
     try_bind (ok_or (XaState ''distributed_tx.participants missing'') (row_text row ''participants'')) (\<lambda>t.
     try_bind (ok_or (XaState ''distributed_tx.id missing'') (row_text row ''id'')) (\<lambda>i.
     try_bind (ok_or (XaState ''distributed_tx.status missing'') (row_text row ''status'')) (\<lambda>st.
     try_bind (map_err (\<lambda>e. XaState (''invalid participants JSON: '' @ e)) (co_names_from_text co t)) (\<lambda>ns.
       Ok \<lparr>lr_id = i, lr_status = st, lr_participants = ns, lr_decision = row_text row ''decision''\<rparr>))))"

definition recoverable_sql :: "dialect \<Rightarrow> string" where
  "recoverable_sql d = ''SELECT id, status, participants, decision FROM '' @ TX_TABLE @ '' WHERE status IN (''
     @ placeholder d 1 @ '', '' @ placeholder d 2 @ '', '' @ placeholder d 3 @ '', '' @ placeholder d 4
     @ '') ORDER BY created_at''"

definition recoverable_params :: "json_value list" where
  "recoverable_params = [JString ''started'', JString ''prepared'', JString ''committing'', JString ''rolling_back'']"

definition recoverable_logs :: "'w coordinator \<Rightarrow> (xa_error, 'w, log_row list) act" where
  "recoverable_logs co =
     act_bind (act_lift (state_dialect co)) (\<lambda>d.
     act_bind (act_map_err xa_db_error (ex_query_with (co_db co) (recoverable_sql d) recoverable_params)) (\<lambda>rows.
       act_lift (collect_results (row_to_log co) rows)))"

definition tx_status_sql :: "dialect \<Rightarrow> string" where
  "tx_status_sql d = ''SELECT status FROM '' @ TX_TABLE @ '' WHERE id = '' @ placeholder d 1"

definition tx_status :: "'w coordinator \<Rightarrow> string \<Rightarrow> (xa_error, 'w, string option) act" where
  "tx_status co i =
     act_bind (act_lift (state_dialect co)) (\<lambda>d.
     act_bind (act_map_err xa_db_error (ex_query_with (co_db co) (tx_status_sql d) [JString i])) (\<lambda>rows.
       act_ok (case rows of [] \<Rightarrow> None | row # _ \<Rightarrow> row_text row ''status'')))"

section \<open>Beginning and ending a distributed transaction (coordinator.rs)\<close>

text \<open>
  The reverse loop over participants that ends and rolls back each branch, \<open>on_error\<close> wrapping the
  first failure; \<^verbatim>\<open>rollback_started\<close>, \<^verbatim>\<open>rollback\<close> and \<^verbatim>\<open>abort\<close> differ in that wrapping only.
\<close>

fun rollback_branches ::
  "string \<Rightarrow> (string \<Rightarrow> xa_error \<Rightarrow> xa_error) \<Rightarrow> (string \<times> 'w xa_participant) list \<Rightarrow> (xa_error, 'w, unit) act" where
  "rollback_branches i on_error [] = act_ok ()"
| "rollback_branches i on_error ((n, p) # ps) =
     act_bind (act_ignore (xa_end p i)) (\<lambda>_.
     act_bind (act_map_err (on_error n) (xa_rollback p i)) (\<lambda>_.
       rollback_branches i on_error ps))"

definition rollback_started :: "string \<Rightarrow> (string \<times> 'w xa_participant) list \<Rightarrow> (xa_error, 'w, unit) act" where
  "rollback_started i started = rollback_branches i (\<lambda>_ e. e) (rev started)"

text \<open>The checks at the head of \<^verbatim>\<open>begin\<close>, in the order of the loop.\<close>

fun check_participants ::
  "'w coordinator \<Rightarrow> string list \<Rightarrow> (string \<times> 'w xa_participant) list \<Rightarrow> (xa_error, unit) result" where
  "check_participants co seen [] = Ok ()"
| "check_participants co seen ((n, _) # ps) =
     (if n \<in> set seen then Err (XaState (''duplicate participant `'' @ n @ ''`''))
      else if co_participants co n = None
        then Err (XaState (''participant `'' @ n @ ''` is not registered with the coordinator''))
      else check_participants co (n # seen) ps)"

text \<open>The loop that starts the branches; \<open>started\<close> holds the started ones, last one first.\<close>

fun start_branches ::
  "'w coordinator \<Rightarrow> string \<Rightarrow> (string \<times> 'w xa_participant) list \<Rightarrow> (string \<times> 'w xa_participant) list \<Rightarrow>
   (xa_error, 'w, (string \<times> 'w xa_participant) list) act" where
  "start_branches co i started [] = act_ok (rev started)"
| "start_branches co i started ((n, p) # ps) =
     act_match (xa_start p i) (\<lambda>_. start_branches co i ((n, p) # started) ps) (\<lambda>e.
       act_bind (act_ignore (xa_end p i)) (\<lambda>_.
       act_bind (act_ignore (xa_rollback p i)) (\<lambda>_.
       act_bind (act_match (rollback_started i (rev started))
           (\<lambda>_. act_ignore (set_log co i ''rolled_back'' (Some ''rollback''))) (\<lambda>_. act_ok ())) (\<lambda>_.
         act_err (XaState (''participant `'' @ n @ ''` XA START failed: '' @ xa_error_text e))))))"

text \<open>\<open>i\<close> is the fresh UUID.\<close>

definition tx_begin ::
  "'w coordinator \<Rightarrow> string \<Rightarrow> (string \<times> 'w xa_participant) list \<Rightarrow> (xa_error, 'w, 'w distributed_tx) act" where
  "tx_begin co i ps =
     (if ps = [] then act_err (XaState ''2PC requires at least one participant'') else
      act_bind (act_lift (check_participants co [] ps)) (\<lambda>_.
      act_bind (tx_ensure_schema co) (\<lambda>_.
      act_bind (insert_log co i ''started'' (map fst ps) None) (\<lambda>_.
      act_bind (start_branches co i [] ps) (\<lambda>started.
        act_ok \<lparr>dtx_id = i, dtx_participants = started\<rparr>)))))"

definition tx_execute ::
  "'w distributed_tx \<Rightarrow> string \<Rightarrow> string \<Rightarrow> json_value list \<Rightarrow> (xa_error, 'w, nat) act" where
  "tx_execute tx n sql params = (case map_of (dtx_participants tx) n of
       None \<Rightarrow> act_err (XaUnknownParticipant n)
     | Some p \<Rightarrow> xa_execute p (dtx_id tx) sql params)"

definition tx_abort :: "'w coordinator \<Rightarrow> 'w distributed_tx \<Rightarrow> xa_error \<Rightarrow> (xa_error, 'w, unit) act" where
  "tx_abort co tx original =
     act_bind (set_log co (dtx_id tx) ''rolling_back'' (Some ''rollback'')) (\<lambda>_.
     act_bind (rollback_branches (dtx_id tx)
       (\<lambda>_ e. XaState (xa_error_text original @ ''; rollback failed: '' @ xa_error_text e))
       (rev (dtx_participants tx))) (\<lambda>_.
     act_bind (set_log co (dtx_id tx) ''rolled_back'' (Some ''rollback'')) (\<lambda>_.
       act_err original)))"

text \<open>A phase of \<^verbatim>\<open>commit\<close>: one call per participant, the first failure handed to \<open>failed\<close>.\<close>

fun tx_phase ::
  "('w xa_participant \<Rightarrow> (xa_error, 'w, unit) act) \<Rightarrow> (string \<Rightarrow> xa_error \<Rightarrow> (xa_error, 'w, unit) act) \<Rightarrow>
   (string \<times> 'w xa_participant) list \<Rightarrow> (xa_error, 'w, unit) act \<Rightarrow> (xa_error, 'w, unit) act" where
  "tx_phase call failed [] k = k"
| "tx_phase call failed ((n, p) # ps) k = act_match (call p) (\<lambda>_. tx_phase call failed ps k) (failed n)"

definition tx_failure :: "string \<Rightarrow> string \<Rightarrow> xa_error \<Rightarrow> xa_error" where
  "tx_failure what n e = XaState (''participant `'' @ n @ ''` XA '' @ what @ '' failed: '' @ xa_error_text e)"

definition tx_commit :: "'w coordinator \<Rightarrow> 'w distributed_tx \<Rightarrow> (xa_error, 'w, unit) act" where
  "tx_commit co tx =
     (let i = dtx_id tx; ps = dtx_participants tx in
      act_bind (tx_status co i) (\<lambda>status.
        if status = Some ''committed'' then act_ok ()
        else if status = Some ''rolled_back''
          then act_err (XaState (''distributed tx `'' @ i @ ''` was rolled back''))
        else
          tx_phase (\<lambda>p. xa_end p i) (\<lambda>n e. tx_abort co tx (tx_failure ''END'' n e)) ps
         (tx_phase (\<lambda>p. xa_prepare p i) (\<lambda>n e. tx_abort co tx (tx_failure ''PREPARE'' n e)) ps
           (act_bind (set_log co i ''prepared'' None) (\<lambda>_.
            act_bind (set_log co i ''committing'' (Some ''commit'')) (\<lambda>_.
            tx_phase (\<lambda>p. xa_commit p i) (\<lambda>n e. act_err (tx_failure ''COMMIT'' n e)) ps
              (act_bind (set_log co i ''committed'' (Some ''commit'')) (\<lambda>_. act_ok ()))))))))"

definition tx_rollback :: "'w coordinator \<Rightarrow> 'w distributed_tx \<Rightarrow> (xa_error, 'w, unit) act" where
  "tx_rollback co tx =
     (let i = dtx_id tx in
      act_bind (tx_status co i) (\<lambda>status.
        if status = Some ''rolled_back'' then act_ok ()
        else if status = Some ''committed''
          then act_err (XaState (''distributed tx `'' @ i @ ''` was committed''))
        else
          act_bind (set_log co i ''rolling_back'' (Some ''rollback'')) (\<lambda>_.
          act_bind (rollback_branches i (tx_failure ''ROLLBACK'') (rev (dtx_participants tx))) (\<lambda>_.
          act_bind (set_log co i ''rolled_back'' (Some ''rollback'')) (\<lambda>_. act_ok ())))))"

section \<open>Recovery (recovery.rs)\<close>

definition should_commit :: "log_row \<Rightarrow> bool" where
  "should_commit row =
     (if lr_status row = ''started'' then False
      else if lr_status row = ''rolling_back'' \<or> (lr_status row = ''prepared'' \<and> lr_decision row = Some ''rollback'') then False
      else if lr_status row = ''prepared'' \<or> lr_status row = ''committing'' then True
      else False)"

definition participants_for :: "'w coordinator \<Rightarrow> string list \<Rightarrow> 'w xa_participant list option" where
  "participants_for co names =
     (if \<forall>n \<in> set names. co_participants co n \<noteq> None then Some (map (\<lambda>n. the (co_participants co n)) names) else None)"

definition already_resolved :: "'w xa_participant \<Rightarrow> string \<Rightarrow> (xa_error, 'w, bool) act" where
  "already_resolved p i =
     act_match (xa_recover p) (\<lambda>in_doubt. act_ok (i \<notin> set in_doubt)) (\<lambda>_. act_ok False)"

fun recover_commit_loop :: "string \<Rightarrow> bool \<Rightarrow> 'w xa_participant list \<Rightarrow> (xa_error, 'w, unit) act" where
  "recover_commit_loop i cross_check [] = act_ok ()"
| "recover_commit_loop i cross_check (p # ps) =
     act_bind (if cross_check then already_resolved p i else act_ok False) (\<lambda>resolved.
       if resolved then recover_commit_loop i cross_check ps
       else act_bind (xa_commit p i) (\<lambda>_. recover_commit_loop i cross_check ps))"

definition recover_commit ::
  "'w coordinator \<Rightarrow> string \<Rightarrow> 'w xa_participant list \<Rightarrow> bool \<Rightarrow> (xa_error, 'w, unit) act" where
  "recover_commit co i ps cross_check =
     act_bind (recover_commit_loop i cross_check ps) (\<lambda>_. set_log co i ''committed'' (Some ''commit''))"

fun recover_rollback_loop :: "string \<Rightarrow> bool \<Rightarrow> 'w xa_participant list \<Rightarrow> (xa_error, 'w, unit) act" where
  "recover_rollback_loop i cross_check [] = act_ok ()"
| "recover_rollback_loop i cross_check (p # ps) =
     act_bind (if cross_check then already_resolved p i else act_ok False) (\<lambda>resolved.
       if resolved then recover_rollback_loop i cross_check ps
       else act_bind (act_ignore (xa_end p i)) (\<lambda>_.
            act_bind (xa_rollback p i) (\<lambda>_. recover_rollback_loop i cross_check ps)))"

definition recover_rollback ::
  "'w coordinator \<Rightarrow> string \<Rightarrow> 'w xa_participant list \<Rightarrow> bool \<Rightarrow> (xa_error, 'w, unit) act" where
  "recover_rollback co i ps cross_check =
     act_bind (recover_rollback_loop i cross_check (rev ps)) (\<lambda>_. set_log co i ''rolled_back'' (Some ''rollback''))"

definition recover_row :: "'w coordinator \<Rightarrow> log_row \<Rightarrow> 'w xa_participant list \<Rightarrow> (xa_error, 'w, unit) act" where
  "recover_row co row ps =
     (let cross_check = (lr_status row = ''prepared'' \<or> lr_status row = ''committing'') in
      if should_commit row then recover_commit co (lr_id row) ps cross_check
      else recover_rollback co (lr_id row) ps cross_check)"

fun recover_rows :: "'w coordinator \<Rightarrow> recovery_report \<Rightarrow> log_row list \<Rightarrow> (xa_error, 'w, recovery_report) act" where
  "recover_rows co rep [] = act_ok rep"
| "recover_rows co rep (row # rows) = (case participants_for co (lr_participants row) of
       None \<Rightarrow> recover_rows co (rep\<lparr>rep_failed := rep_failed rep + 1\<rparr>) rows
     | Some ps \<Rightarrow>
         act_match (recover_row co row ps)
           (\<lambda>_. recover_rows co (rep\<lparr>rep_recovered := rep_recovered rep + 1\<rparr>) rows)
           (\<lambda>_. recover_rows co (rep\<lparr>rep_failed := rep_failed rep + 1\<rparr>) rows))"

definition recover_locked :: "'w coordinator \<Rightarrow> (xa_error, 'w, recovery_report) act" where
  "recover_locked co =
     act_bind (recoverable_logs co) (\<lambda>rows. recover_rows co \<lparr>rep_recovered = 0, rep_failed = 0\<rparr> rows)"

definition acquire_fence :: "'w coordinator \<Rightarrow> (xa_error, 'w, string option) act" where
  "acquire_fence co = (case co_fence co of
       None \<Rightarrow> act_ok None
     | Some f \<Rightarrow> act_bind (act_map_err XaLock (fence_acquire f (fence_key f) (fence_ttl f))) (\<lambda>g. case g of
           Some token \<Rightarrow> act_ok (Some token)
         | None \<Rightarrow> act_err (XaLock ''another recovery holds the fence'')))"

definition release_fence :: "'w coordinator \<Rightarrow> string option \<Rightarrow> (xa_error, 'w, unit) act" where
  "release_fence co guard = (case (co_fence co, guard) of
       (Some f, Some token) \<Rightarrow> act_map_err XaLock (fence_release f (fence_key f) token)
     | _ \<Rightarrow> act_ok ())"

definition tx_recover :: "'w coordinator \<Rightarrow> (xa_error, 'w, recovery_report) act" where
  "tx_recover co =
     act_bind (tx_ensure_schema co) (\<lambda>_.
     act_bind (acquire_fence co) (\<lambda>guard.
     act_match (recover_locked co)
       (\<lambda>report. act_bind (release_fence co guard) (\<lambda>_. act_ok report))
       (\<lambda>e. act_bind (act_ignore (release_fence co guard)) (\<lambda>_. act_err e))))"

section \<open>The world's contract\<close>

text \<open>
  Where the branch of a transaction stands at a participant. A connection that is lost rolls back
  a branch that is not prepared; a prepared branch stays prepared until it is resolved.
\<close>

datatype branch = NoBranch | Active | Idle | Prepared | BranchCommitted | BranchRolledBack

text \<open>
  What each XA call may do to its branch, by whether it succeeded. A failed call may have taken
  effect. Committing a branch that is not prepared and rolling back one that is committed do
  nothing, whatever they answer (an unknown XID counts as success).
\<close>

datatype xa_call = CallStart | CallEnd | CallPrepare | CallCommit | CallRollback | CallExecute

fun xa_moves :: "xa_call \<Rightarrow> bool \<Rightarrow> branch \<Rightarrow> branch \<Rightarrow> bool" where
  "xa_moves CallStart ok b b' = (b' = b \<or> b = NoBranch \<and> b' = Active)"
| "xa_moves CallEnd ok b b' = (b' = b \<or> b = Active \<and> b' \<in> {Idle, BranchRolledBack})"
| "xa_moves CallPrepare ok b b' =
     (if ok then b \<in> {Active, Idle} \<and> b' = Prepared
      else b' = b \<or> b \<in> {Active, Idle} \<and> b' \<in> {Prepared, BranchRolledBack})"
| "xa_moves CallCommit ok b b' =
     (if b = Prepared then b' = BranchCommitted \<or> \<not> ok \<and> b' = Prepared
      else b' = b \<or> b \<in> {Active, Idle} \<and> b' = BranchRolledBack)"
| "xa_moves CallRollback ok b b' =
     (b' = b \<and> (ok \<longrightarrow> b \<noteq> Prepared) \<or> b \<in> {Active, Idle, Prepared} \<and> b' = BranchRolledBack)"
| "xa_moves CallExecute ok b b' = (b' = b \<or> b \<in> {Active, Idle} \<and> b' = BranchRolledBack)"

fun xa_call_act :: "xa_call \<Rightarrow> 'w xa_participant \<Rightarrow> string \<Rightarrow> (xa_error, 'w, unit) act" where
  "xa_call_act CallStart p i = xa_start p i"
| "xa_call_act CallEnd p i = xa_end p i"
| "xa_call_act CallPrepare p i = xa_prepare p i"
| "xa_call_act CallCommit p i = xa_commit p i"
| "xa_call_act CallRollback p i = xa_rollback p i"
| "xa_call_act CallExecute p i = act_ok ()"

text \<open>
  A log entry is its status, the text of the participants and the decision. \<open>only_log\<close> and
  \<open>only_branch\<close> say that nothing else has changed.
\<close>

type_synonym log_entry = "string \<times> string \<times> string option"

record 'w tx_view =
  tv_ok :: "'w \<Rightarrow> bool"
  tv_log :: "'w \<Rightarrow> string \<Rightarrow> log_entry option"
  tv_branch :: "'w \<Rightarrow> string \<Rightarrow> string \<Rightarrow> branch"

definition only_log :: "'w tx_view \<Rightarrow> string \<Rightarrow> 'w \<Rightarrow> 'w \<Rightarrow> bool" where
  "only_log v i w w' \<longleftrightarrow> tv_ok v w' \<and> tv_branch v w' = tv_branch v w \<and> (\<forall>x. x \<noteq> i \<longrightarrow> tv_log v w' x = tv_log v w x)"

definition only_branch :: "'w tx_view \<Rightarrow> string \<Rightarrow> string \<Rightarrow> 'w \<Rightarrow> 'w \<Rightarrow> bool" where
  "only_branch v n i w w' \<longleftrightarrow> tv_ok v w' \<and> tv_log v w' = tv_log v w \<and>
     (\<forall>m x. (m, x) \<noteq> (n, i) \<longrightarrow> tv_branch v w' m x = tv_branch v w m x)"

definition nothing_changed :: "'w tx_view \<Rightarrow> 'w \<Rightarrow> 'w \<Rightarrow> bool" where
  "nothing_changed v w w' \<longleftrightarrow> tv_ok v w' \<and> tv_log v w' = tv_log v w \<and> tv_branch v w' = tv_branch v w"

definition recoverable :: "string \<Rightarrow> bool" where
  "recoverable st \<longleftrightarrow> st \<in> {''started'', ''prepared'', ''committing'', ''rolling_back''}"

definition log_db_row :: "string \<Rightarrow> log_entry \<Rightarrow> db_row" where
  "log_db_row i e = (case e of (st, t, dec) \<Rightarrow>
     \<lparr>row_columns = [''id'', ''status'', ''participants'', ''decision''],
      row_values = [JString i, JString st, JString t, nullable_text dec]\<rparr>)"

text \<open>The participants: a call moves its own branch only; \<^verbatim>\<open>XA RECOVER\<close> lists every prepared branch.\<close>

definition participants_contract :: "'w coordinator \<Rightarrow> 'w tx_view \<Rightarrow> bool" where
  "participants_contract co v \<longleftrightarrow>
     (\<forall>n p. co_participants co n = Some p \<longrightarrow>
        (\<forall>c i w r w'. tv_ok v w \<longrightarrow> xa_call_act c p i w = (r, w') \<longrightarrow>
           only_branch v n i w w' \<and> xa_moves c (is_ok r) (tv_branch v w n i) (tv_branch v w' n i)) \<and>
        (\<forall>i sql ps w r w'. tv_ok v w \<longrightarrow> xa_execute p i sql ps w = (r, w') \<longrightarrow>
           only_branch v n i w w' \<and> xa_moves CallExecute (is_ok r) (tv_branch v w n i) (tv_branch v w' n i)) \<and>
        (\<forall>w r w'. tv_ok v w \<longrightarrow> xa_recover p w = (r, w') \<longrightarrow> nothing_changed v w w' \<and>
           (\<forall>xs i. r = Ok xs \<longrightarrow> tv_branch v w n i = Prepared \<longrightarrow> i \<in> set xs)))"

text \<open>The log's database, by statement; a failed write may have happened or not.\<close>

definition log_contract :: "'w coordinator \<Rightarrow> 'w tx_view \<Rightarrow> bool" where
  "log_contract co v \<longleftrightarrow>
     (\<forall>w r w'. tv_ok v w \<longrightarrow> ex_execute (co_db co) (tx_schema_sql (ex_dialect (co_db co))) w = (r, w') \<longrightarrow>
        nothing_changed v w w') \<and>
     (\<forall>i st t dec ts w r w'. tv_ok v w \<longrightarrow> tv_log v w i = None \<longrightarrow>
        ex_execute_with (co_db co) (insert_log_sql (ex_dialect (co_db co)))
          [JString i, JString st, JString t, nullable_text dec, JString ts] w = (r, w') \<longrightarrow>
        only_log v i w w' \<and> (tv_log v w' i = Some (st, t, dec) \<or> \<not> is_ok r \<and> tv_log v w' i = None)) \<and>
     (\<forall>i st dec w r w'. tv_ok v w \<longrightarrow>
        ex_execute_with (co_db co) (set_log_sql (ex_dialect (co_db co)))
          [JString st, nullable_text dec, JString i] w = (r, w') \<longrightarrow>
        only_log v i w w' \<and>
        (tv_log v w' i = map_option (\<lambda>e. (st, fst (snd e), dec)) (tv_log v w i) \<or>
         \<not> is_ok r \<and> tv_log v w' i = tv_log v w i)) \<and>
     (\<forall>i w r w'. tv_ok v w \<longrightarrow>
        ex_query_with (co_db co) (tx_status_sql (ex_dialect (co_db co))) [JString i] w = (r, w') \<longrightarrow>
        nothing_changed v w w' \<and>
        (is_ok r \<longrightarrow> r = Ok (case tv_log v w i of None \<Rightarrow> []
           | Some e \<Rightarrow> [\<lparr>row_columns = [''status''], row_values = [JString (fst e)]\<rparr>]))) \<and>
     (\<forall>w r w'. tv_ok v w \<longrightarrow>
        ex_query_with (co_db co) (recoverable_sql (ex_dialect (co_db co))) recoverable_params w = (r, w') \<longrightarrow>
        nothing_changed v w w' \<and>
        (\<forall>rows. r = Ok rows \<longrightarrow> (\<exists>ids. distinct ids \<and>
           set ids = {i. \<exists>e. tv_log v w i = Some e \<and> recoverable (fst e)} \<and>
           rows = map (\<lambda>i. log_db_row i (the (tv_log v w i))) ids)))"

definition fence_contract :: "'w coordinator \<Rightarrow> 'w tx_view \<Rightarrow> bool" where
  "fence_contract co v \<longleftrightarrow> (\<forall>f. co_fence co = Some f \<longrightarrow>
     (\<forall>k ttl w r w'. tv_ok v w \<longrightarrow> fence_acquire f k ttl w = (r, w') \<longrightarrow> nothing_changed v w w') \<and>
     (\<forall>k token w r w'. tv_ok v w \<longrightarrow> fence_release f k token w = (r, w') \<longrightarrow> nothing_changed v w w'))"

definition tx_contract :: "'w coordinator \<Rightarrow> 'w tx_view \<Rightarrow> bool" where
  "tx_contract co v \<longleftrightarrow> participants_contract co v \<and> log_contract co v \<and> fence_contract co v \<and>
     (\<forall>ns t. co_names_to_text co ns = Ok t \<longrightarrow> co_names_from_text co t = Ok ns)"

section \<open>What each call does to one transaction\<close>

text \<open>\<open>only_tx i\<close>: the world is well-formed and only transaction \<open>i\<close> has changed.\<close>

definition only_tx :: "'w tx_view \<Rightarrow> string \<Rightarrow> 'w \<Rightarrow> 'w \<Rightarrow> bool" where
  "only_tx v i w w' \<longleftrightarrow> tv_ok v w' \<and>
     (\<forall>x. x \<noteq> i \<longrightarrow> tv_log v w' x = tv_log v w x \<and> (\<forall>n. tv_branch v w' n x = tv_branch v w n x))"

lemma only_tx_trans: "only_tx v i w1 w2 \<Longrightarrow> only_tx v i w2 w3 \<Longrightarrow> only_tx v i w1 w3"
  by (auto simp: only_tx_def)

lemma only_tx_refl: "tv_ok v w \<Longrightarrow> only_tx v i w w"
  by (simp add: only_tx_def)

lemma only_tx_nothing: "nothing_changed v w w' \<Longrightarrow> only_tx v i w w'"
  by (simp add: only_tx_def nothing_changed_def)

lemma only_tx_only_log: "only_log v i w w' \<Longrightarrow> only_tx v i w w'"
  by (simp add: only_tx_def only_log_def)

lemma only_tx_only_branch: "only_branch v n i w w' \<Longrightarrow> only_tx v i w w'"
  by (simp add: only_tx_def only_branch_def)

lemmas log_schema = log_contract_def [THEN iffD1, THEN conjunct1, rule_format]
lemmas log_insert = log_contract_def [THEN iffD1, THEN conjunct2, THEN conjunct1, rule_format]
lemmas log_update = log_contract_def [THEN iffD1, THEN conjunct2, THEN conjunct2, THEN conjunct1, rule_format]
lemmas log_status =
  log_contract_def [THEN iffD1, THEN conjunct2, THEN conjunct2, THEN conjunct2, THEN conjunct1, rule_format]
lemmas log_recoverable =
  log_contract_def [THEN iffD1, THEN conjunct2, THEN conjunct2, THEN conjunct2, THEN conjunct2, rule_format]

lemma participant_laws:
  assumes "participants_contract co v" "co_participants co n = Some p" "tv_ok v w"
  shows "xa_call_act c p i w = (r, w') \<Longrightarrow>
      only_branch v n i w w' \<and> xa_moves c (is_ok r) (tv_branch v w n i) (tv_branch v w' n i)"
    and "xa_execute p i sql ps w = (q, w') \<Longrightarrow>
      only_branch v n i w w' \<and> xa_moves CallExecute (is_ok q) (tv_branch v w n i) (tv_branch v w' n i)"
    and "xa_recover p w = (q2, w') \<Longrightarrow>
      nothing_changed v w w' \<and> (q2 = Ok xs \<longrightarrow> tv_branch v w n i = Prepared \<longrightarrow> i \<in> set xs)"
  using assms unfolding participants_contract_def by blast+

lemmas participant_call = participant_laws(1)

lemma contract_parts:
  assumes "tx_contract co v"
  shows "participants_contract co v" "log_contract co v" "fence_contract co v"
    "co_names_to_text co ns = Ok t \<Longrightarrow> co_names_from_text co t = Ok ns"
  using assms by (auto simp: tx_contract_def)

lemma xa_call_law:
  assumes "tx_contract co v" "co_participants co n = Some p" "tv_ok v w" "xa_call_act c p i w = (r, w')"
  shows "only_tx v i w w' \<and> tv_log v w' = tv_log v w \<and> (\<forall>m. m \<noteq> n \<longrightarrow> tv_branch v w' m i = tv_branch v w m i) \<and>
     xa_moves c (is_ok r) (tv_branch v w n i) (tv_branch v w' n i)"
  using participant_call [OF contract_parts(1) [OF assms(1)] assms(2-4)]
  by (auto simp: only_branch_def only_tx_def)

lemma set_log_law:
  assumes "tx_contract co v" "tv_ok v w" "set_log co i st dec w = (r, w')"
  shows "only_tx v i w w' \<and> tv_branch v w' = tv_branch v w \<and>
     (tv_log v w' i = map_option (\<lambda>e. (st, fst (snd e), dec)) (tv_log v w i) \<or>
      \<not> is_ok r \<and> tv_log v w' i = tv_log v w i)"
proof (cases "ex_dialect (co_db co) = Mssql")
  case True
  then show ?thesis using assms by (auto simp: set_log_def state_dialect_def only_tx_refl)
next
  case False
  obtain q where q: "ex_execute_with (co_db co) (set_log_sql (ex_dialect (co_db co)))
      [JString st, nullable_text dec, JString i] w = (q, w')" "is_ok r = is_ok q"
    using False assms(3)
    by (auto simp: set_log_def state_dialect_def act_bind_def act_map_err_def map_err_def
        split: prod.splits sum.splits)
  show ?thesis
    using log_update [OF contract_parts(2) [OF assms(1)] assms(2) q(1)] q(2)
    by (auto intro: only_tx_only_log simp: only_log_def)
qed

lemma tx_status_law:
  assumes "tx_contract co v" "tv_ok v w" "tx_status co i w = (r, w')"
  shows "nothing_changed v w w' \<and> (is_ok r \<longrightarrow> r = Ok (map_option fst (tv_log v w i)))"
proof (cases "ex_dialect (co_db co) = Mssql")
  case True
  then show ?thesis using assms by (auto simp: tx_status_def state_dialect_def nothing_changed_def)
next
  case False
  obtain q where q: "ex_query_with (co_db co) (tx_status_sql (ex_dialect (co_db co))) [JString i] w = (q, w')"
    "r = (case q of Inl e \<Rightarrow> Err (xa_db_error e) | Inr rows \<Rightarrow> Ok (case rows of [] \<Rightarrow> None | row # _ \<Rightarrow> row_text row ''status''))"
    using False assms(3)
    by (auto simp: tx_status_def state_dialect_def act_bind_def act_map_err_def map_err_def
        split: prod.splits sum.splits)
  show ?thesis
    using log_status [OF contract_parts(2) [OF assms(1)] assms(2) q(1)] q(2)
    by (auto simp: row_text_def row_get_def as_str_def split: sum.splits option.splits)
qed

section \<open>The invariant of one transaction\<close>

text \<open>
  What the log's status says about the branches, \<open>ns\<close> being the participants the log names: before
  the \<^verbatim>\<open>prepared\<close> record nothing is committed, from it on nothing is rolled back, and the final
  records are true.
\<close>

definition phase_ok :: "string \<Rightarrow> string option \<Rightarrow> string list \<Rightarrow> (string \<Rightarrow> branch) \<Rightarrow> bool" where
  "phase_ok st dec ns b \<longleftrightarrow>
     (st = ''started'' \<or> st = ''rolling_back'') \<and> (\<forall>n. b n \<noteq> BranchCommitted) \<or>
     st = ''rolled_back'' \<and> (\<forall>n. b n \<noteq> BranchCommitted \<and> b n \<noteq> Prepared) \<or>
     (st = ''prepared'' \<and> dec = None \<or> st = ''committing'') \<and> (\<forall>n \<in> set ns. b n = Prepared \<or> b n = BranchCommitted) \<or>
     st = ''committed'' \<and> (\<forall>n \<in> set ns. b n = BranchCommitted)"

lemma phase_ok_simps:
  "phase_ok ''started'' dec ns b \<longleftrightarrow> (\<forall>n. b n \<noteq> BranchCommitted)"
  "phase_ok ''rolling_back'' dec ns b \<longleftrightarrow> (\<forall>n. b n \<noteq> BranchCommitted)"
  "phase_ok ''rolled_back'' dec ns b \<longleftrightarrow> (\<forall>n. b n \<noteq> BranchCommitted \<and> b n \<noteq> Prepared)"
  "phase_ok ''prepared'' dec ns b \<longleftrightarrow> dec = None \<and> (\<forall>n \<in> set ns. b n = Prepared \<or> b n = BranchCommitted)"
  "phase_ok ''committing'' dec ns b \<longleftrightarrow> (\<forall>n \<in> set ns. b n = Prepared \<or> b n = BranchCommitted)"
  "phase_ok ''committed'' dec ns b \<longleftrightarrow> (\<forall>n \<in> set ns. b n = BranchCommitted)"
  by (simp_all add: phase_ok_def)

definition names_ok :: "'w coordinator \<Rightarrow> string \<Rightarrow> string list \<Rightarrow> (string \<Rightarrow> branch) \<Rightarrow> bool" where
  "names_ok co t ns b \<longleftrightarrow> co_names_from_text co t = Ok ns \<and> distinct ns \<and>
     (\<forall>n \<in> set ns. co_participants co n \<noteq> None) \<and> (\<forall>n. n \<notin> set ns \<longrightarrow> b n = NoBranch)"

definition tx_good :: "'w coordinator \<Rightarrow> 'w tx_view \<Rightarrow> 'w \<Rightarrow> string \<Rightarrow> bool" where
  "tx_good co v w i \<longleftrightarrow> (case tv_log v w i of
       None \<Rightarrow> \<forall>n. tv_branch v w n i = NoBranch
     | Some (st, t, dec) \<Rightarrow>
         \<exists>ns. names_ok co t ns (\<lambda>n. tv_branch v w n i) \<and> phase_ok st dec ns (\<lambda>n. tv_branch v w n i))"

text \<open>Branches on their way out: towards rolled back, and towards committed.\<close>

definition goes_down :: "branch \<Rightarrow> branch \<Rightarrow> bool" where
  "goes_down b b' \<longleftrightarrow> b' = b \<or> b \<in> {Active, Idle, Prepared} \<and> b' \<in> {Idle, BranchRolledBack}"

definition goes_up :: "branch \<Rightarrow> branch \<Rightarrow> bool" where
  "goes_up b b' \<longleftrightarrow> b' = b \<or> b = Prepared \<and> b' = BranchCommitted"

lemma goes_down_trans: "goes_down a b \<Longrightarrow> goes_down b c \<Longrightarrow> goes_down a c"
  by (auto simp: goes_down_def)

lemma goes_down_moves:
  "xa_moves CallEnd ok b b' \<Longrightarrow> goes_down b b'"
  "xa_moves CallRollback ok b b' \<Longrightarrow> goes_down b b'"
  by (auto simp: goes_down_def)

lemma goes_down_keeps:
  "goes_down b b' \<Longrightarrow> b \<noteq> BranchCommitted \<Longrightarrow> b' \<noteq> BranchCommitted"
  "goes_down b b' \<Longrightarrow> b \<noteq> Prepared \<Longrightarrow> b' \<noteq> Prepared"
  "goes_down NoBranch b' \<Longrightarrow> b' = NoBranch"
  by (auto simp: goes_down_def)

definition registered :: "'w coordinator \<Rightarrow> (string \<times> 'w xa_participant) list \<Rightarrow> bool" where
  "registered co ps \<longleftrightarrow> (\<forall>(n, p) \<in> set ps. co_participants co n = Some p)"

text \<open>The effect of ending and rolling back one branch.\<close>

lemma end_rollback_one:
  assumes "tx_contract co v" "co_participants co n = Some p" "tv_ok v w"
    and "act_bind (act_ignore (xa_end p i)) (\<lambda>_. act_map_err f (xa_rollback p i)) w = (r, w')"
  shows "only_tx v i w w' \<and> tv_log v w' i = tv_log v w i \<and>
     (\<forall>m. goes_down (tv_branch v w m i) (tv_branch v w' m i)) \<and> (is_ok r \<longrightarrow> tv_branch v w' n i \<noteq> Prepared)"
proof -
  obtain r1 w1 where e: "xa_end p i w = (r1, w1)" by (cases "xa_end p i w")
  then have e1: "xa_call_act CallEnd p i w = (r1, w1)" by simp
  obtain r2 where b: "xa_rollback p i w1 = (r2, w')" and r2: "is_ok r = is_ok r2"
    using assms(4) e by (auto simp: act_bind_def act_ignore_def act_map_err_def map_err_def split: prod.splits sum.splits)
  then have b1: "xa_call_act CallRollback p i w1 = (r2, w')" by simp
  note l1 = xa_call_law [OF assms(1-3) e1]
  then have ok1: "tv_ok v w1" by (simp add: only_tx_def)
  note l2 = xa_call_law [OF assms(1,2) ok1 b1]
  from l1 have m1: "xa_moves CallEnd (is_ok r1) (tv_branch v w n i) (tv_branch v w1 n i)" by (elim conjE)
  from l2 have m2: "xa_moves CallRollback (is_ok r2) (tv_branch v w1 n i) (tv_branch v w' n i)" by (elim conjE)
  have "goes_down (tv_branch v w n i) (tv_branch v w' n i)"
    by (rule goes_down_trans [OF goes_down_moves(1) [OF m1] goes_down_moves(2) [OF m2]])
  moreover have "goes_down (tv_branch v w m i) (tv_branch v w' m i)" if "m \<noteq> n" for m
    using l1 l2 that by (simp add: goes_down_def)
  moreover have "is_ok r \<longrightarrow> tv_branch v w' n i \<noteq> Prepared"
    using m2 r2 by auto
  ultimately show ?thesis
    using l1 l2 only_tx_trans by (metis (no_types, lifting))
qed

lemma act_bind_assoc: "act_bind (act_bind f g) h s = act_bind f (\<lambda>x. act_bind (g x) h) s"
  by (auto simp: act_bind_def split: prod.split sum.split)

lemma rollback_branches_law:
  assumes "tx_contract co v" "registered co ps" "tv_ok v w" "rollback_branches i f ps w = (r, w')"
  shows "only_tx v i w w' \<and> tv_log v w' i = tv_log v w i \<and>
     (\<forall>m. goes_down (tv_branch v w m i) (tv_branch v w' m i)) \<and>
     (is_ok r \<longrightarrow> (\<forall>n \<in> fst ` set ps. tv_branch v w' n i \<noteq> Prepared))"
  using assms(2-)
proof (induction ps arbitrary: w)
  case Nil
  then show ?case by (auto simp: goes_down_def only_tx_refl)
next
  case (Cons np ps)
  obtain n p where np: "np = (n, p)" by (cases np)
  obtain r1 w1 where one: "act_bind (act_ignore (xa_end p i)) (\<lambda>_. act_map_err (f n) (xa_rollback p i)) w = (r1, w1)"
    by (cases "act_bind (act_ignore (xa_end p i)) (\<lambda>_. act_map_err (f n) (xa_rollback p i)) w")
  have split: "rollback_branches i f (np # ps) w
      = act_bind (\<lambda>s. act_bind (act_ignore (xa_end p i)) (\<lambda>_. act_map_err (f n) (xa_rollback p i)) s)
          (\<lambda>_. rollback_branches i f ps) w"
    by (simp add: np act_bind_assoc)
  have reg: "co_participants co n = Some p" "registered co ps" using Cons.prems(1) np by (auto simp: registered_def)
  note l1 = end_rollback_one [OF assms(1) reg(1) Cons.prems(2) one]
  show ?case
  proof (cases r1)
    case (Inl e)
    then have "r = Inl e" "w' = w1" using Cons.prems(3) split one by (auto simp: act_bind_def)
    then show ?thesis using l1 by simp
  next
    case (Inr u)
    have "tv_ok v w1" using l1 by (simp add: only_tx_def)
    moreover have "rollback_branches i f ps w1 = (r, w')"
      using Cons.prems(3) split one Inr by (simp add: act_bind_def)
    ultimately have l2: "only_tx v i w1 w' \<and> tv_log v w' i = tv_log v w1 i \<and>
       (\<forall>m. goes_down (tv_branch v w1 m i) (tv_branch v w' m i)) \<and>
       (is_ok r \<longrightarrow> (\<forall>n \<in> fst ` set ps. tv_branch v w' n i \<noteq> Prepared))"
      using Cons.IH [OF reg(2)] by blast
    have "tv_branch v w' n i \<noteq> Prepared" using l1 l2 Inr goes_down_keeps(2) by auto
    then show ?thesis using l1 l2 np by (auto intro: only_tx_trans goes_down_trans)
  qed
qed

lemma resolved_law:
  assumes "tx_contract co v" "co_participants co n = Some p" "tv_ok v w"
    and "(if cross_check then already_resolved p i else act_ok False) w = (r, w')"
  shows "\<exists>d. r = Inr d \<and> nothing_changed v w w' \<and> (d \<longrightarrow> tv_branch v w n i \<noteq> Prepared)"
proof (cases cross_check)
  case True
  obtain q w1 where q: "xa_recover p w = (q, w1)" by (cases "xa_recover p w")
  note law = participant_laws(3) [OF contract_parts(1) [OF assms(1)] assms(2,3) q]
  show ?thesis
    using law [of _ i] True assms(4) q
    by (cases q) (auto simp: already_resolved_def act_match_def)
qed (use assms in \<open>auto simp: nothing_changed_def\<close>)

lemma recover_rollback_loop_law:
  assumes "tx_contract co v" "\<forall>n \<in> set ns. co_participants co n \<noteq> None" "tv_ok v w"
    and "recover_rollback_loop i cc (map (\<lambda>n. the (co_participants co n)) ns) w = (r, w')"
  shows "only_tx v i w w' \<and> tv_log v w' i = tv_log v w i \<and>
     (\<forall>m. goes_down (tv_branch v w m i) (tv_branch v w' m i)) \<and>
     (is_ok r \<longrightarrow> (\<forall>n \<in> set ns. tv_branch v w' n i \<noteq> Prepared))"
  using assms(2-)
proof (induction ns arbitrary: w)
  case Nil
  then show ?case by (auto simp: goes_down_def only_tx_refl)
next
  case (Cons n ns)
  let ?ps = "map (\<lambda>n. the (co_participants co n)) ns"
  obtain p where p: "co_participants co n = Some p" using Cons.prems(1) by auto
  obtain q w1 where q: "(if cc then already_resolved p i else act_ok False) w = (q, w1)"
    by (cases "(if cc then already_resolved p i else act_ok False) w")
  from resolved_law [OF assms(1) p Cons.prems(2) q] obtain d where d: "q = Inr d" "nothing_changed v w w1"
    "d \<longrightarrow> tv_branch v w n i \<noteq> Prepared" by blast
  have w1: "tv_ok v w1" "tv_log v w1 = tv_log v w" "tv_branch v w1 = tv_branch v w" "only_tx v i w w1"
    using d(2) by (auto simp: nothing_changed_def only_tx_def)
  have IH: "only_tx v i u w' \<and> tv_log v w' i = tv_log v u i \<and>
     (\<forall>m. goes_down (tv_branch v u m i) (tv_branch v w' m i)) \<and>
     (is_ok r \<longrightarrow> (\<forall>n \<in> set ns. tv_branch v w' n i \<noteq> Prepared))"
    if "tv_ok v u" "recover_rollback_loop i cc ?ps u = (r, w')" for u
    using Cons.IH [OF _ that] Cons.prems(1) by simp
  show ?case
  proof (cases d)
    case True
    then have "recover_rollback_loop i cc ?ps w1 = (r, w')"
      using Cons.prems(3) p q d(1) by (simp add: act_bind_def)
    note l2 = IH [OF w1(1) this]
    have "tv_branch v w' n i \<noteq> Prepared" using d(3) True w1(3) l2 goes_down_keeps(2) by metis
    then show ?thesis using l2 w1 by (auto intro: only_tx_trans)
  next
    case False
    obtain r2 w2 where one: "act_bind (act_ignore (xa_end p i)) (\<lambda>_. act_map_err id (xa_rollback p i)) w1 = (r2, w2)"
      by (cases "act_bind (act_ignore (xa_end p i)) (\<lambda>_. act_map_err id (xa_rollback p i)) w1")
    have idmap: "act_map_err id g = g" for g :: "(xa_error, 'a, unit) act"
      by (rule ext) (auto simp: act_map_err_def map_err_def split: prod.split sum.split)
    note l1 = end_rollback_one [OF assms(1) p w1(1) one]
    have split: "(r, w') = act_bind (\<lambda>s. act_bind (act_ignore (xa_end p i)) (\<lambda>_. act_map_err id (xa_rollback p i)) s)
        (\<lambda>_. recover_rollback_loop i cc ?ps) w1"
      using Cons.prems(3) p q d(1) False by (simp add: act_bind_assoc idmap) (simp add: act_bind_def)
    show ?thesis
    proof (cases r2)
      case (Inl e)
      then have "r = Inl e" "w' = w2" using split one by (auto simp: act_bind_def)
      then show ?thesis using l1 w1 by (auto intro: only_tx_trans)
    next
      case (Inr u)
      have ok2: "tv_ok v w2" using l1 by (simp add: only_tx_def)
      have "recover_rollback_loop i cc ?ps w2 = (r, w')" using split one Inr by (simp add: act_bind_def)
      note l2 = IH [OF ok2 this]
      have "tv_branch v w' n i \<noteq> Prepared" using l1 l2 Inr goes_down_keeps(2) is_ok_simps(2) by metis
      then show ?thesis using l1 l2 w1 by (auto intro: only_tx_trans goes_down_trans)
    qed
  qed
qed

lemma commit_one:
  assumes "tx_contract co v" "co_participants co n = Some p" "tv_ok v w" "xa_commit p i w = (r, w')"
    and "\<forall>m \<in> set ns. tv_branch v w m i = Prepared \<or> tv_branch v w m i = BranchCommitted" "n \<in> set ns"
  shows "only_tx v i w w' \<and> tv_log v w' i = tv_log v w i \<and>
     (\<forall>m. goes_up (tv_branch v w m i) (tv_branch v w' m i)) \<and> (is_ok r \<longrightarrow> tv_branch v w' n i = BranchCommitted)"
proof -
  have c: "xa_call_act CallCommit p i w = (r, w')" using assms(4) by simp
  note l = xa_call_law [OF assms(1-3) c]
  then have m: "xa_moves CallCommit (is_ok r) (tv_branch v w n i) (tv_branch v w' n i)" by (elim conjE)
  have "goes_up (tv_branch v w n i) (tv_branch v w' n i)" "is_ok r \<longrightarrow> tv_branch v w' n i = BranchCommitted"
    using m assms(5,6) by (auto simp: goes_up_def split: if_splits)
  moreover have "goes_up (tv_branch v w k i) (tv_branch v w' k i)" if "k \<noteq> n" for k
    using l that by (simp add: goes_up_def)
  ultimately show ?thesis using l by metis
qed

lemma goes_up_keeps:
  "goes_up b b' \<Longrightarrow> b = Prepared \<or> b = BranchCommitted \<Longrightarrow> b' = Prepared \<or> b' = BranchCommitted"
  "goes_up BranchCommitted b' \<Longrightarrow> b' = BranchCommitted"
  "goes_up NoBranch b' \<Longrightarrow> b' = NoBranch"
  "goes_up a b \<Longrightarrow> goes_up b c \<Longrightarrow> goes_up a c"
  by (auto simp: goes_up_def)

lemma recover_commit_loop_law:
  assumes "tx_contract co v" "\<forall>n \<in> set ms. co_participants co n \<noteq> None" "set ms \<subseteq> set ns" "tv_ok v w"
    and "\<forall>m \<in> set ns. tv_branch v w m i = Prepared \<or> tv_branch v w m i = BranchCommitted"
    and "recover_commit_loop i cc (map (\<lambda>n. the (co_participants co n)) ms) w = (r, w')"
  shows "only_tx v i w w' \<and> tv_log v w' i = tv_log v w i \<and>
     (\<forall>m. goes_up (tv_branch v w m i) (tv_branch v w' m i)) \<and>
     (is_ok r \<longrightarrow> (\<forall>n \<in> set ms. tv_branch v w' n i = BranchCommitted))"
  using assms(2-)
proof (induction ms arbitrary: w)
  case Nil
  then show ?case by (auto simp: goes_up_def only_tx_refl)
next
  case (Cons n ms)
  let ?ps = "map (\<lambda>n. the (co_participants co n)) ms"
  obtain p where p: "co_participants co n = Some p" using Cons.prems(1) by auto
  obtain q w1 where q: "(if cc then already_resolved p i else act_ok False) w = (q, w1)"
    by (cases "(if cc then already_resolved p i else act_ok False) w")
  from resolved_law [OF assms(1) p Cons.prems(3) q] obtain d where d: "q = Inr d" "nothing_changed v w w1"
    "d \<longrightarrow> tv_branch v w n i \<noteq> Prepared" by blast
  have w1: "tv_ok v w1" "tv_log v w1 = tv_log v w" "tv_branch v w1 = tv_branch v w" "only_tx v i w w1"
    using d(2) by (auto simp: nothing_changed_def only_tx_def)
  have IH: "only_tx v i u w' \<and> tv_log v w' i = tv_log v u i \<and>
     (\<forall>m. goes_up (tv_branch v u m i) (tv_branch v w' m i)) \<and>
     (is_ok r \<longrightarrow> (\<forall>n \<in> set ms. tv_branch v w' n i = BranchCommitted))"
    if "tv_ok v u" "recover_commit_loop i cc ?ps u = (r, w')"
      "\<forall>m \<in> set ns. tv_branch v u m i = Prepared \<or> tv_branch v u m i = BranchCommitted" for u
    using Cons.IH [OF _ _ that(1,3,2)] Cons.prems(1,2) by simp
  have nn: "n \<in> set ns" using Cons.prems(2) by simp
  show ?case
  proof (cases d)
    case True
    then have rest: "recover_commit_loop i cc ?ps w1 = (r, w')"
      using Cons.prems(5) p q d(1) by (simp add: act_bind_def)
    have l2: "only_tx v i w1 w' \<and> tv_log v w' i = tv_log v w1 i \<and>
       (\<forall>m. goes_up (tv_branch v w1 m i) (tv_branch v w' m i)) \<and>
       (is_ok r \<longrightarrow> (\<forall>n \<in> set ms. tv_branch v w' n i = BranchCommitted))"
      by (rule IH [OF w1(1) rest]) (use Cons.prems(4) w1 in simp)
    have "tv_branch v w n i = BranchCommitted" using d(3) True Cons.prems(4) nn by auto
    then have "tv_branch v w' n i = BranchCommitted" using l2 w1(3) goes_up_keeps(2) by metis
    then show ?thesis using l2 w1 by (auto intro: only_tx_trans)
  next
    case False
    obtain r2 w2 where one: "xa_commit p i w1 = (r2, w2)" by (cases "xa_commit p i w1")
    have l1: "only_tx v i w1 w2 \<and> tv_log v w2 i = tv_log v w1 i \<and>
       (\<forall>m. goes_up (tv_branch v w1 m i) (tv_branch v w2 m i)) \<and> (is_ok r2 \<longrightarrow> tv_branch v w2 n i = BranchCommitted)"
      by (rule commit_one [OF assms(1) p w1(1) one _ nn]) (use Cons.prems(4) w1 in simp)
    show ?thesis
    proof (cases r2)
      case (Inl e)
      then have "r = Inl e" "w' = w2" using Cons.prems(5) p q d(1) False one by (auto simp: act_bind_def)
      then show ?thesis using l1 w1 by (auto intro: only_tx_trans)
    next
      case (Inr u)
      have ok2: "tv_ok v w2" using l1 by (simp add: only_tx_def)
      have rest: "recover_commit_loop i cc ?ps w2 = (r, w')"
        using Cons.prems(5) p q d(1) False one Inr by (simp add: act_bind_def)
      have "\<forall>m \<in> set ns. tv_branch v w2 m i = Prepared \<or> tv_branch v w2 m i = BranchCommitted"
        using l1 Cons.prems(4) w1(3) goes_up_keeps(1) by metis
      note l2 = IH [OF ok2 rest this]
      have "tv_branch v w' n i = BranchCommitted" using l1 l2 Inr goes_up_keeps(2) is_ok_simps(2) by metis
      then show ?thesis using l1 l2 w1 by (auto intro: only_tx_trans goes_up_keeps(4))
    qed
  qed
qed

text \<open>\<open>tx_at\<close>: the transaction stands at this log entry, with these participants.\<close>

definition tx_at :: "'w coordinator \<Rightarrow> 'w tx_view \<Rightarrow> 'w \<Rightarrow> string \<Rightarrow> string \<Rightarrow> string \<Rightarrow> string option \<Rightarrow> string list \<Rightarrow> bool" where
  "tx_at co v w i st t dec ns \<longleftrightarrow> tv_ok v w \<and> tv_log v w i = Some (st, t, dec) \<and>
     names_ok co t ns (\<lambda>n. tv_branch v w n i) \<and> phase_ok st dec ns (\<lambda>n. tv_branch v w n i)"

text \<open>\<open>tx_kept\<close>: what a call on transaction \<open>i\<close> leaves behind.\<close>

definition tx_kept :: "'w coordinator \<Rightarrow> 'w tx_view \<Rightarrow> string \<Rightarrow> 'w \<Rightarrow> 'w \<Rightarrow> bool" where
  "tx_kept co v i w w' \<longleftrightarrow> only_tx v i w w' \<and> tx_good co v w' i"

lemma tx_at_good: "tx_at co v w i st t dec ns \<Longrightarrow> tx_good co v w i"
  by (auto simp: tx_at_def tx_good_def)

lemma tx_at_kept: "only_tx v i w w' \<Longrightarrow> tx_at co v w' i st t dec ns \<Longrightarrow> tx_kept co v i w w'"
  by (simp add: tx_kept_def tx_at_good)

text \<open>Writing a record that is true of the branches, and branches that go down or up.\<close>

lemma set_log_at:
  assumes "tx_contract co v" "tx_at co v w i st t dec ns" "set_log co i st' dec' w = (r, w')"
    and "phase_ok st' dec' ns (\<lambda>n. tv_branch v w n i)"
  shows "only_tx v i w w' \<and> (tx_at co v w' i st' t dec' ns \<or> \<not> is_ok r \<and> tx_at co v w' i st t dec ns)"
proof -
  have "tv_ok v w" using assms(2) by (simp add: tx_at_def)
  from set_log_law [OF assms(1) this assms(3)] have law: "only_tx v i w w'" "tv_branch v w' = tv_branch v w"
    "tv_log v w' i = map_option (\<lambda>e. (st', fst (snd e), dec')) (tv_log v w i) \<or> \<not> is_ok r \<and> tv_log v w' i = tv_log v w i"
    by auto
  then show ?thesis using assms(2,4) by (auto simp: tx_at_def only_tx_def)
qed

lemma down_at:
  assumes "tx_at co v w i st t dec ns" "st = ''started'' \<or> st = ''rolling_back'' \<or> st = ''rolled_back''"
    and "only_tx v i w w'" "tv_log v w' i = tv_log v w i" "\<forall>m. goes_down (tv_branch v w m i) (tv_branch v w' m i)"
  shows "tx_at co v w' i st t dec ns"
proof -
  have "tv_branch v w' n i \<noteq> BranchCommitted" if "tv_branch v w n i \<noteq> BranchCommitted" for n
    using assms(5) that goes_down_keeps(1) by metis
  moreover have "tv_branch v w' n i \<noteq> Prepared" if "tv_branch v w n i \<noteq> Prepared" for n
    using assms(5) that goes_down_keeps(2) by metis
  moreover have "tv_branch v w' n i = NoBranch" if "tv_branch v w n i = NoBranch" for n
    using assms(5) that goes_down_keeps(3) by metis
  ultimately show ?thesis
    using assms(1-4) by (auto simp: tx_at_def phase_ok_simps names_ok_def only_tx_def)
qed

lemma up_at:
  assumes "tx_at co v w i st t dec ns" "st = ''prepared'' \<or> st = ''committing''"
    and "only_tx v i w w'" "tv_log v w' i = tv_log v w i"
    and "\<forall>m. goes_up (tv_branch v w m i) (tv_branch v w' m i)"
  shows "tx_at co v w' i st t dec ns"
proof -
  have "tv_branch v w' n i = Prepared \<or> tv_branch v w' n i = BranchCommitted"
    if "tv_branch v w n i = Prepared \<or> tv_branch v w n i = BranchCommitted" for n
    using assms(5) that goes_up_keeps(1) by metis
  moreover have "tv_branch v w' n i = NoBranch" if "tv_branch v w n i = NoBranch" for n
    using assms(5) that goes_up_keeps(3) by metis
  ultimately show ?thesis
    using assms(1-4) by (auto simp: tx_at_def phase_ok_simps names_ok_def only_tx_def)
qed

text \<open>The tail shared by \<^verbatim>\<open>rollback\<close> and \<^verbatim>\<open>abort\<close>: roll back every branch, then record it.\<close>

lemma rolled_back_phase:
  assumes "tx_at co v w i st t dec ns" "st = ''started'' \<or> st = ''rolling_back''"
    and "\<forall>n \<in> set ns. tv_branch v w n i \<noteq> Prepared"
  shows "phase_ok ''rolled_back'' dec' ns (\<lambda>n. tv_branch v w n i)"
  using assms by (auto simp: tx_at_def phase_ok_def names_ok_def)

lemma rollback_tail:
  assumes "tx_contract co v" "tx_at co v w i st t dec (map fst ps)" "st = ''started'' \<or> st = ''rolling_back''"
    and "registered co ps" "\<And>u. snd (k u) = u"
  shows "tx_kept co v i w (snd (act_bind (rollback_branches i f (rev ps)) (\<lambda>_.
           act_bind (set_log co i ''rolled_back'' (Some ''rollback'')) (\<lambda>_. k)) w))"
proof -
  have ok: "tv_ok v w" using assms(2) by (simp add: tx_at_def)
  have reg: "registered co (rev ps)" using assms(4) by (simp add: registered_def)
  obtain r w1 where rb: "rollback_branches i f (rev ps) w = (r, w1)" by (cases "rollback_branches i f (rev ps) w")
  note law = rollback_branches_law [OF assms(1) reg ok rb]
  have at1: "tx_at co v w1 i st t dec (map fst ps)"
    using down_at [OF assms(2)] assms(3) law by blast
  show ?thesis
  proof (cases r)
    case (Inl e)
    then show ?thesis using rb law at1 by (simp add: act_bind_def tx_at_kept)
  next
    case (Inr u)
    then have "\<forall>n \<in> set (map fst ps). tv_branch v w1 n i \<noteq> Prepared" using law by simp
    note ph = rolled_back_phase [OF at1 assms(3) this]
    obtain r2 w2 where sl: "set_log co i ''rolled_back'' (Some ''rollback'') w1 = (r2, w2)"
      by (cases "set_log co i ''rolled_back'' (Some ''rollback'') w1")
    from set_log_at [OF assms(1) at1 sl ph] law have "tx_kept co v i w w2"
      by (auto intro: tx_at_kept only_tx_trans)
    then show ?thesis using rb Inr sl assms(5) by (cases r2) (simp_all add: act_bind_def)
  qed
qed

lemma tx_abort_kept:
  assumes "tx_contract co v" "tx_at co v w (dtx_id tx) st t dec (map fst (dtx_participants tx))"
    and "st = ''started'' \<or> st = ''rolling_back''" "registered co (dtx_participants tx)"
  shows "tx_kept co v (dtx_id tx) w (snd (tx_abort co tx original w))"
proof -
  let ?i = "dtx_id tx"
  obtain r w1 where sl: "set_log co ?i ''rolling_back'' (Some ''rollback'') w = (r, w1)"
    by (cases "set_log co ?i ''rolling_back'' (Some ''rollback'') w")
  have "phase_ok ''rolling_back'' (Some ''rollback'') (map fst (dtx_participants tx)) (\<lambda>n. tv_branch v w n ?i)"
    using assms(2,3) by (auto simp: tx_at_def phase_ok_def)
  note law = set_log_at [OF assms(1,2) sl this]
  show ?thesis
  proof (cases r)
    case (Inl e)
    then show ?thesis using law sl by (auto simp: tx_abort_def act_bind_def intro: tx_at_kept)
  next
    case (Inr u)
    then have at1: "tx_at co v w1 ?i ''rolling_back'' t (Some ''rollback'') (map fst (dtx_participants tx))"
      using law by simp
    have "tx_kept co v ?i w1 (snd (tx_abort co tx original w))"
      using rollback_tail [OF assms(1) at1 _ assms(4), of "act_err original :: (xa_error, 'a, unit) act"] sl Inr
      by (simp add: tx_abort_def act_bind_def)
    then show ?thesis using law by (auto simp: tx_kept_def intro: only_tx_trans)
  qed
qed

text \<open>A phase of \<^verbatim>\<open>commit\<close>, by a condition on the participants still to be called.\<close>

lemma tx_phase_post:
  assumes "P ps w"
    and "\<And>n p ps w a w'. P ((n, p) # ps) w \<Longrightarrow> call p w = (Inr a, w') \<Longrightarrow> P ps w'"
    and "\<And>n p ps w e w'. P ((n, p) # ps) w \<Longrightarrow> call p w = (Inl e, w') \<Longrightarrow> Q (snd (failed n e w'))"
    and "\<And>w. P [] w \<Longrightarrow> Q (snd (k w))"
  shows "Q (snd (tx_phase call failed ps k w))"
  using assms(1)
proof (induction ps arbitrary: w)
  case Nil
  then show ?case using assms(4) by simp
next
  case (Cons np ps)
  obtain n p where np: "np = (n, p)" by (cases np)
  obtain r w' where c: "call p w = (r, w')" by (cases "call p w")
  show ?case
    using Cons assms(2,3) c unfolding np by (cases r) (auto simp: act_match_def)
qed

lemma non_commit_at:
  assumes "tx_contract co v" "tx_at co v w i st t dec ns" "st = ''started'' \<or> st = ''rolling_back''"
    and "co_participants co n = Some p" "n \<in> set ns" "c \<noteq> CallCommit" "xa_call_act c p i w = (r, w')"
  shows "only_tx v i w w' \<and> tx_at co v w' i st t dec ns"
proof -
  have ok: "tv_ok v w" using assms(2) by (simp add: tx_at_def)
  note law = xa_call_law [OF assms(1,4) ok assms(7)]
  then have m: "xa_moves c (is_ok r) (tv_branch v w n i) (tv_branch v w' n i)" by (elim conjE)
  have nc: "tv_branch v w k i \<noteq> BranchCommitted" for k
    using assms(2,3) by (auto simp: tx_at_def phase_ok_def)
  have "tv_branch v w' n i \<noteq> BranchCommitted"
    using m assms(6) nc [of n] by (cases c) (auto split: if_splits)
  then have "tv_branch v w' k i \<noteq> BranchCommitted" for k
    using law nc by metis
  moreover have "k \<notin> set ns \<longrightarrow> tv_branch v w' k i = NoBranch" for k
    using law assms(2,5) unfolding tx_at_def names_ok_def by metis
  ultimately show ?thesis
    using law assms(2,3) by (auto simp: tx_at_def phase_ok_def names_ok_def only_tx_def)
qed

text \<open>The last part of \<^verbatim>\<open>commit\<close>, once the decision is in the log.\<close>

lemma commit_phase_kept:
  assumes "tx_contract co v" "tx_at co v w i ''committing'' t dec (map fst ps)" "registered co ps"
  shows "tx_kept co v i w (snd (tx_phase (\<lambda>p. xa_commit p i) (\<lambda>n e. act_err (tx_failure ''COMMIT'' n e)) ps
           (act_bind (set_log co i ''committed'' (Some ''commit'')) (\<lambda>_. act_ok ())) w))"
proof (rule tx_phase_post [where P = "\<lambda>rem u. only_tx v i w u \<and> tx_at co v u i ''committing'' t dec (map fst ps) \<and>
      (\<exists>dn. ps = dn @ rem \<and> (\<forall>n \<in> fst ` set dn. tv_branch v u n i = BranchCommitted))"], goal_cases)
  case 1
  then show ?case using assms(2) by (auto simp: tx_at_def intro: only_tx_refl)
next
  case (2 n p rem u a u')
  then obtain dn where dn: "ps = dn @ (n, p) # rem" "\<forall>n \<in> fst ` set dn. tv_branch v u n i = BranchCommitted" by blast
  have p: "co_participants co n = Some p" using assms(3) dn(1) by (auto simp: registered_def)
  have at: "tx_at co v u i ''committing'' t dec (map fst ps)" using 2 by simp
  have pc: "\<forall>m \<in> set (map fst ps). tv_branch v u m i = Prepared \<or> tv_branch v u m i = BranchCommitted"
    using at unfolding tx_at_def phase_ok_simps by simp
  have ok: "tv_ok v u" and nin: "n \<in> set (map fst ps)" using at dn(1) by (auto simp: tx_at_def)
  note law = commit_one [OF assms(1) p ok 2(2) pc nin]
  have "tx_at co v u' i ''committing'' t dec (map fst ps)"
    using up_at [OF at disjI2 [OF refl]] law by blast
  moreover have "\<forall>m \<in> fst ` set (dn @ [(n, p)]). tv_branch v u' m i = BranchCommitted"
  proof -
    have "tv_branch v u' m i = BranchCommitted" if "m \<in> fst ` set dn" for m
      using dn(2) that law goes_up_keeps(2) by metis
    moreover have "tv_branch v u' n i = BranchCommitted" using law by simp
    ultimately show ?thesis by auto
  qed
  moreover have "ps = (dn @ [(n, p)]) @ rem" using dn(1) by simp
  moreover have "only_tx v i w u'"
    by (rule only_tx_trans [OF 2(1) [THEN conjunct1] law [THEN conjunct1]])
  ultimately show ?case by blast
next
  case (3 n p rem u e u')
  then obtain dn where dn: "ps = dn @ (n, p) # rem" by blast
  have p: "co_participants co n = Some p" using assms(3) dn by (auto simp: registered_def)
  have at: "tx_at co v u i ''committing'' t dec (map fst ps)" using 3 by simp
  have pc: "\<forall>m \<in> set (map fst ps). tv_branch v u m i = Prepared \<or> tv_branch v u m i = BranchCommitted"
    using at unfolding tx_at_def phase_ok_simps by simp
  have ok: "tv_ok v u" and nin: "n \<in> set (map fst ps)" using at dn by (auto simp: tx_at_def)
  note law = commit_one [OF assms(1) p ok 3(2) pc nin]
  have "tx_at co v u' i ''committing'' t dec (map fst ps)" using up_at [OF at disjI2 [OF refl]] law by blast
  then show ?case using 3(1) law by (auto intro: tx_at_kept only_tx_trans)
next
  case (4 u)
  then have at: "tx_at co v u i ''committing'' t dec (map fst ps)"
    and all: "\<forall>n \<in> set (map fst ps). tv_branch v u n i = BranchCommitted" by auto
  obtain r u' where sl: "set_log co i ''committed'' (Some ''commit'') u = (r, u')"
    by (cases "set_log co i ''committed'' (Some ''commit'') u")
  have "phase_ok ''committed'' (Some ''commit'') (map fst ps) (\<lambda>n. tv_branch v u n i)"
    using all unfolding phase_ok_simps by simp
  from set_log_at [OF assms(1) at sl this] 4 have "tx_kept co v i w u'"
    by (auto intro: tx_at_kept only_tx_trans)
  then show ?case using sl by (cases r) (simp_all add: act_bind_def)
qed

lemma decide_commit_kept:
  assumes "tx_contract co v" "tx_at co v w i ''started'' t dec (map fst ps)" "registered co ps"
    and "\<forall>n \<in> set (map fst ps). tv_branch v w n i = Prepared"
  shows "tx_kept co v i w (snd (act_bind (set_log co i ''prepared'' None) (\<lambda>_.
            act_bind (set_log co i ''committing'' (Some ''commit'')) (\<lambda>_.
            tx_phase (\<lambda>p. xa_commit p i) (\<lambda>n e. act_err (tx_failure ''COMMIT'' n e)) ps
              (act_bind (set_log co i ''committed'' (Some ''commit'')) (\<lambda>_. act_ok ())))) w))"
proof (rule act_bind_post [where Q = "tx_kept co v i w"], goal_cases)
  case (1 e w1)
  have "phase_ok ''prepared'' None (map fst ps) (\<lambda>n. tv_branch v w n i)"
    using assms(4) unfolding phase_ok_simps by simp
  from set_log_at [OF assms(1,2) 1 this] show ?case by (auto intro: tx_at_kept)
next
  case (2 a w1)
  have "phase_ok ''prepared'' None (map fst ps) (\<lambda>n. tv_branch v w n i)"
    using assms(4) unfolding phase_ok_simps by simp
  from set_log_at [OF assms(1,2) 2 this] have at1: "only_tx v i w w1" "tx_at co v w1 i ''prepared'' t None (map fst ps)"
    by auto
  then have ph: "phase_ok ''committing'' (Some ''commit'') (map fst ps) (\<lambda>n. tv_branch v w1 n i)"
    unfolding tx_at_def phase_ok_simps by simp
  show ?case
  proof (rule act_bind_post [where Q = "tx_kept co v i w"], goal_cases)
    case (1 e w2)
    from set_log_at [OF assms(1) at1(2) 1 ph] at1(1) show ?case by (auto intro: tx_at_kept only_tx_trans)
  next
    case (2 b w2)
    from set_log_at [OF assms(1) at1(2) 2 ph] at1(1)
    have at2: "only_tx v i w w2" "tx_at co v w2 i ''committing'' t (Some ''commit'') (map fst ps)"
      by (auto intro: only_tx_trans)
    from commit_phase_kept [OF assms(1) at2(2) assms(3)] at2(1) show ?case
      by (auto simp: tx_kept_def intro: only_tx_trans)
  qed
qed

lemma nothing_at:
  "tx_at co v w i st t dec ns \<Longrightarrow> nothing_changed v w w' \<Longrightarrow> tx_at co v w' i st t dec ns"
  by (simp add: tx_at_def nothing_changed_def)

text \<open>An open transaction: begun, not yet committed or rolled back by its owner.\<close>

definition tx_open :: "'w coordinator \<Rightarrow> 'w tx_view \<Rightarrow> 'w \<Rightarrow> 'w distributed_tx \<Rightarrow> bool" where
  "tx_open co v w tx \<longleftrightarrow> registered co (dtx_participants tx) \<and>
     (\<exists>st t dec. (st = ''started'' \<or> st = ''rolled_back'') \<and>
        tx_at co v w (dtx_id tx) st t dec (map fst (dtx_participants tx)))"

lemma prepare_phase_kept:
  assumes "tx_contract co v" "tx_at co v w i ''started'' t dec (map fst ps)" "registered co ps"
    and "i = dtx_id tx" "ps = dtx_participants tx"
    and done_kept: "\<And>u. only_tx v i w u \<Longrightarrow> tx_at co v u i ''started'' t dec (map fst ps) \<Longrightarrow>
       \<forall>n \<in> set (map fst ps). tv_branch v u n i = Prepared \<Longrightarrow> tx_kept co v i u (snd (k u))"
  shows "tx_kept co v i w (snd (tx_phase (\<lambda>p. xa_prepare p i) (\<lambda>n e. tx_abort co tx (tx_failure ''PREPARE'' n e)) ps k w))"
proof (rule tx_phase_post [where P = "\<lambda>rem u. only_tx v i w u \<and> tx_at co v u i ''started'' t dec (map fst ps) \<and>
      (\<exists>dn. ps = dn @ rem \<and> (\<forall>n \<in> fst ` set dn. tv_branch v u n i = Prepared))"], goal_cases)
  case 1
  then show ?case using assms(2) by (auto simp: tx_at_def intro: only_tx_refl)
next
  case (2 n p rem u a u')
  then obtain dn where dn: "ps = dn @ (n, p) # rem" "\<forall>n \<in> fst ` set dn. tv_branch v u n i = Prepared" by blast
  have p: "co_participants co n = Some p" "n \<in> set (map fst ps)" using assms(3) dn(1) by (auto simp: registered_def)
  have at: "tx_at co v u i ''started'' t dec (map fst ps)" using 2(1) by simp
  have c: "xa_call_act CallPrepare p i u = (Inr a, u')" using 2(2) by simp
  have ok: "tv_ok v u" and dist: "distinct (map fst ps)" using at by (auto simp: tx_at_def names_ok_def)
  note law = xa_call_law [OF assms(1) p(1) ok c]
  have at': "only_tx v i u u' \<and> tx_at co v u' i ''started'' t dec (map fst ps)"
    by (rule non_commit_at [OF assms(1) at _ p _ c]) simp_all
  have "tv_branch v u' n i = Prepared" using law by simp
  moreover have "n \<notin> fst ` set dn" using dist dn(1) by auto
  then have "\<forall>m \<in> fst ` set dn. tv_branch v u' m i = Prepared" using law dn(2) by metis
  ultimately have "\<forall>m \<in> fst ` set (dn @ [(n, p)]). tv_branch v u' m i = Prepared" by simp
  moreover have "ps = (dn @ [(n, p)]) @ rem" using dn(1) by simp
  moreover have "only_tx v i w u'" by (rule only_tx_trans [OF 2(1) [THEN conjunct1] at' [THEN conjunct1]])
  ultimately show ?case using at' by blast
next
  case (3 n p rem u e u')
  then obtain dn where dn: "ps = dn @ (n, p) # rem" by blast
  have p: "co_participants co n = Some p" "n \<in> set (map fst ps)" using assms(3) dn(1) by (auto simp: registered_def)
  have at: "tx_at co v u i ''started'' t dec (map fst ps)" using 3(1) by simp
  have c: "xa_call_act CallPrepare p i u = (Inl e, u')" using 3(2) by simp
  have at': "only_tx v i u u' \<and> tx_at co v u' i ''started'' t dec (map fst ps)"
    by (rule non_commit_at [OF assms(1) at _ p _ c]) simp_all
  have "tx_kept co v i u' (snd (tx_abort co tx (tx_failure ''PREPARE'' n e) u'))"
    using tx_abort_kept [OF assms(1)] at' assms(3) unfolding assms(4,5) by blast
  moreover have "only_tx v i w u'" by (rule only_tx_trans [OF 3(1) [THEN conjunct1] at' [THEN conjunct1]])
  ultimately show ?case by (auto simp: tx_kept_def intro: only_tx_trans)
next
  case (4 u)
  then have "tx_kept co v i u (snd (k u))" using done_kept [of u] by simp
  then show ?case using 4 by (auto simp: tx_kept_def intro: only_tx_trans)
qed

lemma end_phase_kept:
  assumes "tx_contract co v" "tx_at co v w i ''started'' t dec (map fst ps)" "registered co ps"
    and "i = dtx_id tx" "ps = dtx_participants tx"
    and done_kept: "\<And>u. tx_at co v u i ''started'' t dec (map fst ps) \<Longrightarrow> tx_kept co v i u (snd (k u))"
  shows "tx_kept co v i w (snd (tx_phase (\<lambda>p. xa_end p i) (\<lambda>n e. tx_abort co tx (tx_failure ''END'' n e)) ps k w))"
proof (rule tx_phase_post [where P = "\<lambda>rem u. only_tx v i w u \<and> tx_at co v u i ''started'' t dec (map fst ps) \<and>
      set rem \<subseteq> set ps"], goal_cases)
  case 1
  then show ?case using assms(2) by (auto simp: tx_at_def intro: only_tx_refl)
next
  case (2 n p rem u a u')
  have p: "co_participants co n = Some p" "n \<in> set (map fst ps)"
    using assms(3) 2(1) by (auto simp: registered_def image_iff intro: bexI [of _ "(n, p)"])
  have at: "tx_at co v u i ''started'' t dec (map fst ps)" using 2(1) by simp
  have c: "xa_call_act CallEnd p i u = (Inr a, u')" using 2(2) by simp
  have at': "only_tx v i u u' \<and> tx_at co v u' i ''started'' t dec (map fst ps)"
    by (rule non_commit_at [OF assms(1) at _ p _ c]) simp_all
  have "only_tx v i w u'" by (rule only_tx_trans [OF 2(1) [THEN conjunct1] at' [THEN conjunct1]])
  then show ?case using at' 2(1) by simp
next
  case (3 n p rem u e u')
  have p: "co_participants co n = Some p" "n \<in> set (map fst ps)"
    using assms(3) 3(1) by (auto simp: registered_def image_iff intro: bexI [of _ "(n, p)"])
  have at: "tx_at co v u i ''started'' t dec (map fst ps)" using 3(1) by simp
  have c: "xa_call_act CallEnd p i u = (Inl e, u')" using 3(2) by simp
  have at': "only_tx v i u u' \<and> tx_at co v u' i ''started'' t dec (map fst ps)"
    by (rule non_commit_at [OF assms(1) at _ p _ c]) simp_all
  have "tx_kept co v i u' (snd (tx_abort co tx (tx_failure ''END'' n e) u'))"
    using tx_abort_kept [OF assms(1)] at' assms(3) unfolding assms(4,5) by blast
  moreover have "only_tx v i w u'" by (rule only_tx_trans [OF 3(1) [THEN conjunct1] at' [THEN conjunct1]])
  ultimately show ?case by (auto simp: tx_kept_def intro: only_tx_trans)
next
  case (4 u)
  then have "tx_kept co v i u (snd (k u))" using done_kept by blast
  then show ?case using 4 by (auto simp: tx_kept_def intro: only_tx_trans)
qed

lemma tx_commit_kept:
  assumes "tx_contract co v" "tx_open co v w tx"
  shows "tx_kept co v (dtx_id tx) w (snd (tx_commit co tx w))"
proof -
  let ?i = "dtx_id tx" and ?ps = "dtx_participants tx"
  obtain st t dec where at: "tx_at co v w ?i st t dec (map fst ?ps)" "st = ''started'' \<or> st = ''rolled_back''"
    and reg: "registered co ?ps" using assms(2) by (auto simp: tx_open_def)
  have ok: "tv_ok v w" using at by (simp add: tx_at_def)
  show ?thesis unfolding tx_commit_def Let_def
  proof (rule act_bind_post [where Q = "tx_kept co v ?i w"], goal_cases)
    case (1 e w1)
    from tx_status_law [OF assms(1) ok 1] at(1) show ?case
      by (auto intro: tx_at_kept only_tx_nothing nothing_at)
  next
    case (2 status w1)
    from tx_status_law [OF assms(1) ok 2] have nc: "nothing_changed v w w1" and s: "status = Some st"
      using at(1) by (auto simp: tx_at_def)
    note at1 = nothing_at [OF at(1) nc] and only1 = only_tx_nothing [OF nc]
    show ?case
    proof (cases "st = ''rolled_back''")
      case True
      then show ?thesis using s at1 only1 by (simp add: tx_at_kept)
    next
      case False
      then have st: "st = ''started''" using at(2) by simp
      have "tx_kept co v ?i w1 (snd (tx_phase (\<lambda>p. xa_end p ?i) (\<lambda>n e. tx_abort co tx (tx_failure ''END'' n e)) ?ps
         (tx_phase (\<lambda>p. xa_prepare p ?i) (\<lambda>n e. tx_abort co tx (tx_failure ''PREPARE'' n e)) ?ps
           (act_bind (set_log co ?i ''prepared'' None) (\<lambda>_.
            act_bind (set_log co ?i ''committing'' (Some ''commit'')) (\<lambda>_.
            tx_phase (\<lambda>p. xa_commit p ?i) (\<lambda>n e. act_err (tx_failure ''COMMIT'' n e)) ?ps
              (act_bind (set_log co ?i ''committed'' (Some ''commit'')) (\<lambda>_. act_ok ())))))) w1))"
        by (rule end_phase_kept [OF assms(1) at1 [unfolded st] reg refl refl])
          (rule prepare_phase_kept [OF assms(1) _ reg refl refl], assumption, rule decide_commit_kept [OF assms(1) _ reg])
      then show ?thesis using s st only1 by (auto simp: tx_kept_def intro: only_tx_trans)
    qed
  qed
qed

lemma tx_rollback_kept:
  assumes "tx_contract co v" "tx_open co v w tx"
  shows "tx_kept co v (dtx_id tx) w (snd (tx_rollback co tx w))"
proof -
  let ?i = "dtx_id tx" and ?ps = "dtx_participants tx"
  obtain st t dec where at: "tx_at co v w ?i st t dec (map fst ?ps)" "st = ''started'' \<or> st = ''rolled_back''"
    and reg: "registered co ?ps" using assms(2) by (auto simp: tx_open_def)
  have ok: "tv_ok v w" using at by (simp add: tx_at_def)
  show ?thesis unfolding tx_rollback_def Let_def
  proof (rule act_bind_post [where Q = "tx_kept co v ?i w"], goal_cases)
    case (1 e w1)
    from tx_status_law [OF assms(1) ok 1] at(1) show ?case
      by (auto intro: tx_at_kept only_tx_nothing nothing_at)
  next
    case (2 status w1)
    from tx_status_law [OF assms(1) ok 2] have nc: "nothing_changed v w w1" and s: "status = Some st"
      using at(1) by (auto simp: tx_at_def)
    note at1 = nothing_at [OF at(1) nc] and only1 = only_tx_nothing [OF nc]
    show ?case
    proof (cases "st = ''rolled_back''")
      case True
      then show ?thesis using s at1 only1 by (simp add: tx_at_kept)
    next
      case False
      then have st: "st = ''started''" using at(2) by simp
      have ph: "phase_ok ''rolling_back'' (Some ''rollback'') (map fst ?ps) (\<lambda>n. tv_branch v w1 n ?i)"
        using at1 unfolding st tx_at_def phase_ok_simps by simp
      obtain r w2 where sl: "set_log co ?i ''rolling_back'' (Some ''rollback'') w1 = (r, w2)"
        by (cases "set_log co ?i ''rolling_back'' (Some ''rollback'') w1")
      note law = set_log_at [OF assms(1) at1 sl ph]
      show ?thesis
      proof (cases r)
        case (Inl e)
        then show ?thesis using law sl s st only1
          by (auto simp: act_bind_def intro: tx_at_kept only_tx_trans)
      next
        case (Inr u)
        then have "tx_kept co v ?i w2 (snd (act_bind (rollback_branches ?i (tx_failure ''ROLLBACK'') (rev ?ps)) (\<lambda>_.
             act_bind (set_log co ?i ''rolled_back'' (Some ''rollback'')) (\<lambda>_. act_ok ())) w2))"
          using law by (intro rollback_tail [OF assms(1) _ _ reg]) auto
        moreover have "only_tx v ?i w w2" using law only1 by (auto intro: only_tx_trans)
        ultimately show ?thesis using sl s st Inr
          by (auto simp: act_bind_def [of "set_log co ?i ''rolling_back'' (Some ''rollback'')"] tx_kept_def intro: only_tx_trans)
      qed
    qed
  qed
qed

section \<open>Beginning a transaction\<close>

lemma check_participants_ok:
  assumes "check_participants co seen ps = Ok u"
  shows "distinct (map fst ps) \<and> set seen \<inter> fst ` set ps = {} \<and> (\<forall>n \<in> fst ` set ps. co_participants co n \<noteq> None)"
  using assms
proof (induction co seen ps rule: check_participants.induct)
  case (2 co seen n p ps)
  then show ?case by (auto split: if_splits)
qed simp

text \<open>Calls that neither commit nor prepare keep an unprepared transaction unprepared.\<close>

definition unprepared :: "'w coordinator \<Rightarrow> 'w tx_view \<Rightarrow> 'w \<Rightarrow> string \<Rightarrow> string \<Rightarrow> string option \<Rightarrow> string list \<Rightarrow> bool" where
  "unprepared co v w i t dec ns \<longleftrightarrow> tx_at co v w i ''started'' t dec ns \<and> (\<forall>n. tv_branch v w n i \<noteq> Prepared)"

lemma unprepared_call:
  assumes "tx_contract co v" "unprepared co v w i t dec ns" "co_participants co n = Some p" "n \<in> set ns"
    and "c \<noteq> CallCommit" "c \<noteq> CallPrepare" "xa_call_act c p i w = (r, w')"
  shows "only_tx v i w w' \<and> unprepared co v w' i t dec ns"
proof -
  have at: "tx_at co v w i ''started'' t dec ns" and np: "tv_branch v w k i \<noteq> Prepared" for k
    using assms(2) by (auto simp: unprepared_def)
  have ok: "tv_ok v w" using at by (simp add: tx_at_def)
  note law = xa_call_law [OF assms(1,3) ok assms(7)]
  then have m: "xa_moves c (is_ok r) (tv_branch v w n i) (tv_branch v w' n i)" by (elim conjE)
  have "tv_branch v w' n i \<noteq> Prepared" using m assms(5,6) np [of n] by (cases c) auto
  then have "tv_branch v w' k i \<noteq> Prepared" for k using law np by metis
  then show ?thesis
    using non_commit_at [OF assms(1) at _ assms(3,4,5,7)] by (simp add: unprepared_def)
qed

lemma unprepared_rolled_back:
  assumes "tx_contract co v" "unprepared co v w i t dec ns"
    and "set_log co i ''rolled_back'' (Some ''rollback'') w = (r, w')"
  shows "tx_kept co v i w w'"
proof -
  have at: "tx_at co v w i ''started'' t dec ns" using assms(2) by (simp add: unprepared_def)
  have "phase_ok ''rolled_back'' (Some ''rollback'') ns (\<lambda>n. tv_branch v w n i)"
    using assms(2) unfolding unprepared_def tx_at_def phase_ok_simps by simp
  from set_log_at [OF assms(1) at assms(3) this] show ?thesis by (auto intro: tx_at_kept)
qed

lemma start_branches_law:
  assumes "tx_contract co v" "unprepared co v w i t dec ns"
    and "registered co (started @ ps)" "fst ` set (started @ ps) \<subseteq> set ns"
    and "start_branches co i started ps w = (r, w')"
  shows "only_tx v i w w' \<and>
     (case r of Inr s \<Rightarrow> s = rev started @ ps \<and> unprepared co v w' i t dec ns | Inl _ \<Rightarrow> tx_good co v w' i)"
  using assms(2-)
proof (induction ps arbitrary: w started)
  case Nil
  then show ?case by (auto simp: unprepared_def tx_at_def intro: only_tx_refl)
next
  case (Cons np ps)
  obtain n p where np: "np = (n, p)" by (cases np)
  have p: "co_participants co n = Some p" "n \<in> set ns" using Cons.prems(2,3) np by (auto simp: registered_def)
  obtain q w1 where q: "xa_start p i w = (q, w1)" by (cases "xa_start p i w")
  have un1: "only_tx v i w w1 \<and> unprepared co v w1 i t dec ns"
    by (rule unprepared_call [OF assms(1) Cons.prems(1) p, of CallStart q]) (use q in simp_all)
  show ?case
  proof (cases q)
    case (Inr u)
    then have "start_branches co i ((n, p) # started) ps w1 = (r, w')"
      using Cons.prems(4) q np by (simp add: act_match_def)
    from Cons.IH [OF _ _ _ this] un1 Cons.prems(2,3) np show ?thesis
      by (auto simp: registered_def intro: only_tx_trans split: sum.splits)
  next
    case (Inl e)
    obtain q2 w2 where q2: "xa_end p i w1 = (q2, w2)" by (cases "xa_end p i w1")
    have un2: "only_tx v i w1 w2 \<and> unprepared co v w2 i t dec ns"
      by (rule unprepared_call [OF assms(1) un1 [THEN conjunct2] p, of CallEnd q2]) (use q2 in simp_all)
    obtain q3 w3 where q3: "xa_rollback p i w2 = (q3, w3)" by (cases "xa_rollback p i w2")
    have un3: "only_tx v i w2 w3 \<and> unprepared co v w3 i t dec ns"
      by (rule unprepared_call [OF assms(1) un2 [THEN conjunct2] p, of CallRollback q3]) (use q3 in simp_all)
    have only3: "only_tx v i w w3" using un1 un2 un3 by (meson only_tx_trans)
    have at3: "tx_at co v w3 i ''started'' t dec ns" "tv_ok v w3" using un3 by (auto simp: unprepared_def tx_at_def)
    obtain q4 w4 where q4: "rollback_branches i (\<lambda>_ e. e) started w3 = (q4, w4)"
      by (cases "rollback_branches i (\<lambda>_ e. e) started w3")
    have reg: "registered co started" using Cons.prems(2) by (simp add: registered_def)
    note law = rollback_branches_law [OF assms(1) reg at3(2) q4]
    have at4: "tx_at co v w4 i ''started'' t dec ns" using down_at [OF at3(1)] law by blast
    have un4: "unprepared co v w4 i t dec ns"
      using un3 law at4 goes_down_keeps(2) unfolding unprepared_def by metis
    have only4: "only_tx v i w w4" using law only3 by (meson only_tx_trans)
    have r: "is_ok r = False" "w' = (case q4 of Inl _ \<Rightarrow> w4
        | Inr _ \<Rightarrow> snd (set_log co i ''rolled_back'' (Some ''rollback'') w4))"
      using Cons.prems(4) q q2 q3 q4 np Inl
      by (auto simp: act_match_def act_bind_def act_ignore_def rollback_started_def split: sum.splits prod.splits)
    have "tx_kept co v i w w'"
    proof (cases q4)
      case (Inl e)
      then show ?thesis using r at4 only4 by (simp add: tx_at_kept)
    next
      case (Inr u)
      obtain q5 w5 where q5: "set_log co i ''rolled_back'' (Some ''rollback'') w4 = (q5, w5)"
        by (cases "set_log co i ''rolled_back'' (Some ''rollback'') w4")
      have "tx_kept co v i w4 w5" by (rule unprepared_rolled_back [OF assms(1) un4 q5])
      then show ?thesis using r Inr q5 only4 by (auto simp: tx_kept_def intro: only_tx_trans)
    qed
    then show ?thesis using r(1) by (cases r) (auto simp: tx_kept_def)
  qed
qed

lemma insert_log_law:
  assumes "tx_contract co v" "tv_ok v w" "tv_log v w i = None" "insert_log co i st ns dec w = (r, w')"
  shows "only_tx v i w w' \<and> tv_branch v w' = tv_branch v w \<and>
     ((\<exists>t. tv_log v w' i = Some (st, t, dec) \<and> co_names_from_text co t = Ok ns) \<or> \<not> is_ok r \<and> tv_log v w' i = None)"
proof (cases "\<exists>t ts. state_dialect co = Ok (ex_dialect (co_db co)) \<and> co_names_to_text co ns = Ok t \<and> co_clock co w = Ok ts")
  case True
  then obtain t ts where t: "state_dialect co = Ok (ex_dialect (co_db co))" "co_names_to_text co ns = Ok t" "co_clock co w = Ok ts"
    by blast
  obtain q where q: "ex_execute_with (co_db co) (insert_log_sql (ex_dialect (co_db co)))
      [JString i, JString st, JString t, nullable_text dec, JString ts] w = (q, w')" "is_ok r = is_ok q"
    using t assms(4)
    by (auto simp: insert_log_def xa_now_def act_bind_def act_map_err_def map_err_def split: prod.splits sum.splits)
  show ?thesis
    using log_insert [OF contract_parts(2) [OF assms(1)] assms(2,3) q(1)] q(2) contract_parts(4) [OF assms(1) t(2)]
    by (auto intro: only_tx_only_log simp: only_log_def)
next
  case False
  then have "\<not> is_ok r" "w' = w"
    using assms(4)
    by (auto simp: insert_log_def state_dialect_def xa_now_def act_bind_def map_err_def split: if_splits sum.splits)
  then show ?thesis using assms(2,3) by (simp add: only_tx_refl)
qed

lemma ensure_schema_law:
  assumes "tx_contract co v" "tv_ok v w" "tx_ensure_schema co w = (r, w')"
  shows "nothing_changed v w w'"
proof (cases "ex_dialect (co_db co) = Mssql")
  case True
  then show ?thesis using assms by (auto simp: tx_ensure_schema_def state_dialect_def nothing_changed_def)
next
  case False
  obtain q where "ex_execute (co_db co) (tx_schema_sql (ex_dialect (co_db co))) w = (q, w')"
    using False assms(3)
    by (auto simp: tx_ensure_schema_def state_dialect_def act_bind_def act_map_err_def map_err_def
        split: prod.splits sum.splits)
  then show ?thesis by (rule log_schema [OF contract_parts(2) [OF assms(1)] assms(2)])
qed

text \<open>
  The participants handed to \<^verbatim>\<open>begin\<close> are the registered ones (the code checks their names only);
  the identifier is new.
\<close>

lemma tx_begin_law:
  assumes "tx_contract co v" "tv_ok v w" "tv_log v w i = None" "\<forall>n. tv_branch v w n i = NoBranch"
    and "\<forall>(n, p) \<in> set ps. co_participants co n = None \<or> co_participants co n = Some p"
    and "tx_begin co i ps w = (r, w')"
  shows "tx_kept co v i w w' \<and> (\<forall>tx. r = Ok tx \<longrightarrow> dtx_id tx = i \<and> tx_open co v w' tx)"
proof -
  have good: "tx_good co v w i" using assms(3,4) by (simp add: tx_good_def)
  have kept: "tx_kept co v i w w" using assms(2) good by (simp add: tx_kept_def only_tx_refl)
  show ?thesis
  proof (cases "ps \<noteq> [] \<and> is_ok (check_participants co [] ps)")
    case False
    then have "\<not> is_ok r" "w' = w"
      using assms(6) by (auto simp: tx_begin_def act_bind_def split: if_splits sum.splits)
    then show ?thesis using kept by auto
  next
    case True
    then obtain u where chk: "check_participants co [] ps = Ok u" by (cases "check_participants co [] ps") auto
    from check_participants_ok [OF chk] have d: "distinct (map fst ps)" "\<forall>n \<in> fst ` set ps. co_participants co n \<noteq> None"
      by auto
    have reg: "registered co ps" using assms(5) d(2) by (force simp: registered_def)
    obtain q1 w1 where q1: "tx_ensure_schema co w = (q1, w1)" by (cases "tx_ensure_schema co w")
    note nc = ensure_schema_law [OF assms(1,2) q1]
    then have w1: "tv_ok v w1" "tv_log v w1 i = None" "\<forall>n. tv_branch v w1 n i = NoBranch" "only_tx v i w w1"
      using assms(3,4) by (auto simp: nothing_changed_def intro: only_tx_nothing)
    obtain q2 w2 where q2: "insert_log co i ''started'' (map fst ps) None w1 = (q2, w2)"
      by (cases "insert_log co i ''started'' (map fst ps) None w1")
    note ins = insert_log_law [OF assms(1) w1(1,2) q2]
    have only2: "only_tx v i w w2" using ins w1(4) by (meson only_tx_trans)
    have br2: "\<forall>n. tv_branch v w2 n i = NoBranch" using ins w1(3) by simp
    have un2: "unprepared co v w2 i t None (map fst ps)"
      if "tv_log v w2 i = Some (''started'', t, None)" "co_names_from_text co t = Ok (map fst ps)" for t
      using that br2 d only2 by (auto simp: unprepared_def tx_at_def names_ok_def phase_ok_simps only_tx_def)
    have kept2: "tx_kept co v i w w2"
    proof (cases "tv_log v w2 i")
      case None
      then show ?thesis using only2 br2 by (simp add: tx_kept_def tx_good_def)
    next
      case (Some e)
      then obtain t where "tv_log v w2 i = Some (''started'', t, None)" "co_names_from_text co t = Ok (map fst ps)"
        using ins by auto
      from un2 [OF this] show ?thesis using only2 by (auto simp: unprepared_def intro: tx_at_kept)
    qed
    show ?thesis
    proof (cases "is_ok q1 \<and> is_ok q2")
      case False
      have step: "tx_begin co i ps w = act_bind (tx_ensure_schema co) (\<lambda>_.
          act_bind (insert_log co i ''started'' (map fst ps) None) (\<lambda>_.
          act_bind (start_branches co i [] ps) (\<lambda>started. act_ok \<lparr>dtx_id = i, dtx_participants = started\<rparr>))) w"
        using True chk by (simp add: tx_begin_def)
      have "tx_kept co v i w w1" using w1 by (simp add: tx_kept_def tx_good_def)
      moreover have "\<not> is_ok r \<and> (w' = w1 \<or> w' = w2)"
        using False assms(6) step q1 q2 by (auto simp: act_bind_def split: sum.splits)
      ultimately show ?thesis using kept2 by auto
    next
      case ok: True
      then obtain t where t: "tv_log v w2 i = Some (''started'', t, None)" "co_names_from_text co t = Ok (map fst ps)"
        using ins by auto
      obtain q3 w3 where q3: "start_branches co i [] ps w2 = (q3, w3)" by (cases "start_branches co i [] ps w2")
      have st: "only_tx v i w2 w3 \<and> (case q3 of Inr s \<Rightarrow> s = rev [] @ ps \<and> unprepared co v w3 i t None (map fst ps)
          | Inl _ \<Rightarrow> tx_good co v w3 i)"
        by (rule start_branches_law [OF assms(1) un2 [OF t] _ _ q3]) (use reg in auto)
      have only3: "only_tx v i w w3" using st only2 by (meson only_tx_trans)
      have res: "w' = w3" "r = (case q3 of Inl e \<Rightarrow> Inl e | Inr s \<Rightarrow> Inr \<lparr>dtx_id = i, dtx_participants = s\<rparr>)"
        using assms(6) True chk q1 q2 q3 ok
        by (cases q1; cases q2; cases q3; simp add: tx_begin_def act_bind_def)+
      show ?thesis
      proof (cases q3)
        case (Inl e)
        then show ?thesis using st res only3 by (simp add: tx_kept_def)
      next
        case (Inr s)
        then have at3: "s = ps" "tx_at co v w3 i ''started'' t None (map fst ps)" using st by (auto simp: unprepared_def)
        then show ?thesis using Inr res only3 reg by (auto simp: tx_open_def intro: tx_at_kept)
      qed
    qed
  qed
qed

section \<open>Recovery\<close>

text \<open>A row as recovery reads it, still true of the log.\<close>

definition row_current :: "'w coordinator \<Rightarrow> 'w tx_view \<Rightarrow> 'w \<Rightarrow> log_row \<Rightarrow> bool" where
  "row_current co v w row \<longleftrightarrow> recoverable (lr_status row) \<and>
     (\<exists>t. tx_at co v w (lr_id row) (lr_status row) t (lr_decision row) (lr_participants row))"

text \<open>What recovering one row leaves: a settled entry if it succeeded, and an open transaction still open.\<close>

definition row_recovered :: "'w coordinator \<Rightarrow> 'w tx_view \<Rightarrow> 'w \<Rightarrow> 'w \<Rightarrow> log_row \<Rightarrow> bool \<Rightarrow> bool" where
  "row_recovered co v w w' row ok \<longleftrightarrow> only_tx v (lr_id row) w w' \<and>
     (\<exists>st t dec. tx_at co v w' (lr_id row) st t dec (lr_participants row) \<and>
        (lr_status row = ''started'' \<longrightarrow> st = ''started'' \<or> st = ''rolled_back'') \<and>
        (ok \<longrightarrow> \<not> recoverable st))"

lemma recover_row_law:
  assumes "tx_contract co v" "row_current co v w row" "recover_row co row ps w = (r, w')"
    and "ps = map (\<lambda>n. the (co_participants co n)) (lr_participants row)"
  shows "row_recovered co v w w' row (is_ok r)"
proof -
  let ?i = "lr_id row" and ?ns = "lr_participants row" and ?st = "lr_status row" and ?dec = "lr_decision row"
  obtain t where at: "tx_at co v w ?i ?st t ?dec ?ns" using assms(2) by (auto simp: row_current_def)
  have ok: "tv_ok v w" and reg: "\<forall>n \<in> set ?ns. co_participants co n \<noteq> None"
    using at by (auto simp: tx_at_def names_ok_def)
  show ?thesis
  proof (cases "?st = ''prepared'' \<or> ?st = ''committing''")
    case True
    then have pc: "\<forall>m \<in> set ?ns. tv_branch v w m ?i = Prepared \<or> tv_branch v w m ?i = BranchCommitted"
      and sc: "should_commit row"
      using at by (auto simp: tx_at_def phase_ok_simps should_commit_def)
    obtain q1 w1 where q1: "recover_commit_loop ?i True ps w = (q1, w1)" by (cases "recover_commit_loop ?i True ps w")
    note law = recover_commit_loop_law [OF assms(1) reg order_refl ok pc q1 [unfolded assms(4)]]
    have at1: "tx_at co v w1 ?i ?st t ?dec ?ns" using up_at [OF at True] law by blast
    show ?thesis
    proof (cases q1)
      case (Inl e)
      then have "r = Inl e" "w' = w1"
        using assms(3) sc True q1 by (auto simp: recover_row_def recover_commit_def act_bind_def)
      then show ?thesis using at1 law True by (auto simp: row_recovered_def)
    next
      case (Inr u)
      then have sl: "set_log co ?i ''committed'' (Some ''commit'') w1 = (r, w')"
        using assms(3) sc True q1 by (auto simp: recover_row_def recover_commit_def act_bind_def)
      have "phase_ok ''committed'' (Some ''commit'') ?ns (\<lambda>n. tv_branch v w1 n ?i)"
        using law Inr unfolding phase_ok_simps by simp
      note fin = set_log_at [OF assms(1) at1 sl this]
      have "only_tx v ?i w w'" using fin law by (meson only_tx_trans)
      moreover have "\<not> recoverable ''committed''" by (simp add: recoverable_def)
      moreover have "?st \<noteq> ''started''" using True by auto
      ultimately show ?thesis using fin unfolding row_recovered_def by blast
    qed
  next
    case False
    then have st: "?st = ''started'' \<or> ?st = ''rolling_back''"
      using assms(2) by (auto simp: row_current_def recoverable_def)
    then have sc: "\<not> should_commit row" by (auto simp: should_commit_def)
    obtain q1 w1 where q1: "recover_rollback_loop ?i False (rev ps) w = (q1, w1)"
      by (cases "recover_rollback_loop ?i False (rev ps) w")
    have reg': "\<forall>n \<in> set (rev ?ns). co_participants co n \<noteq> None" using reg by simp
    have q1': "recover_rollback_loop ?i False (map (\<lambda>n. the (co_participants co n)) (rev ?ns)) w = (q1, w1)"
      using q1 assms(4) by (simp add: rev_map)
    note law = recover_rollback_loop_law [OF assms(1) reg' ok q1']
    have at1: "tx_at co v w1 ?i ?st t ?dec ?ns" using down_at [OF at] st law by blast
    have res: "act_bind (recover_rollback_loop ?i False (rev ps)) (\<lambda>_. set_log co ?i ''rolled_back'' (Some ''rollback'')) w = (r, w')"
      using assms(3) sc False by (simp add: recover_row_def recover_rollback_def)
    show ?thesis
    proof (cases q1)
      case (Inl e)
      then have "r = Inl e" "w' = w1" using res q1 by (auto simp: act_bind_def)
      then show ?thesis using at1 law by (auto simp: row_recovered_def)
    next
      case (Inr u)
      then have sl: "set_log co ?i ''rolled_back'' (Some ''rollback'') w1 = (r, w')"
        using res q1 by (simp add: act_bind_def)
      have "\<forall>n \<in> set ?ns. tv_branch v w1 n ?i \<noteq> Prepared" using law Inr by simp
      note fin = set_log_at [OF assms(1) at1 sl rolled_back_phase [OF at1 st this]]
      have "only_tx v ?i w w'" using fin law by (meson only_tx_trans)
      moreover have "\<not> recoverable ''rolled_back''" by (simp add: recoverable_def)
      ultimately show ?thesis using fin unfolding row_recovered_def by blast
    qed
  qed
qed

definition tx_inv :: "'w coordinator \<Rightarrow> 'w tx_view \<Rightarrow> 'w \<times> 'w distributed_tx set \<Rightarrow> bool" where
  "tx_inv co v s \<longleftrightarrow> tv_ok v (fst s) \<and> (\<forall>i. tx_good co v (fst s) i) \<and>
     (\<forall>tx \<in> snd s. tx_open co v (fst s) tx) \<and> inj_on dtx_id (snd s)"

lemma tx_good_cong:
  "tv_log v w' x = tv_log v w x \<Longrightarrow> \<forall>n. tv_branch v w' n x = tv_branch v w n x \<Longrightarrow>
   tx_good co v w' x = tx_good co v w x"
  by (cases "tv_log v w x") (auto simp: tx_good_def)

lemma tx_good_other: "only_tx v i w w' \<Longrightarrow> x \<noteq> i \<Longrightarrow> tx_good co v w' x = tx_good co v w x"
  by (rule tx_good_cong) (simp_all add: only_tx_def)

lemma tx_at_other:
  "only_tx v i w w' \<Longrightarrow> x \<noteq> i \<Longrightarrow> tx_at co v w x st t dec ns \<Longrightarrow> tx_at co v w' x st t dec ns"
  by (auto simp: tx_at_def only_tx_def)

lemma tx_open_other:
  assumes "only_tx v i w w'" "dtx_id tx \<noteq> i" "tx_open co v w tx"
  shows "tx_open co v w' tx"
proof -
  obtain st t dec where o: "registered co (dtx_participants tx)" "st = ''started'' \<or> st = ''rolled_back''"
    "tx_at co v w (dtx_id tx) st t dec (map fst (dtx_participants tx))" using assms(3) unfolding tx_open_def by blast
  from tx_at_other [OF assms(1,2) o(3)] o(1,2) show ?thesis unfolding tx_open_def by blast
qed

lemma tx_inv_after:
  assumes "tx_inv co v (w, opens)" "tx_kept co v i w w'" "opens' \<subseteq> opens"
    and "\<And>tx. tx \<in> opens' \<Longrightarrow> dtx_id tx = i \<Longrightarrow> tx_open co v w' tx"
  shows "tx_inv co v (w', opens')"
proof -
  have only: "only_tx v i w w'" using assms(2) by (simp add: tx_kept_def)
  have "tx_good co v w' x" for x
    using assms(1,2) tx_good_other [OF only, of x co] by (cases "x = i") (simp_all add: tx_inv_def tx_kept_def)
  moreover have "tx_open co v w' tx" if "tx \<in> opens'" for tx
  proof (cases "dtx_id tx = i")
    case True
    then show ?thesis by (rule assms(4) [OF that])
  next
    case False
    have "tx_open co v w tx" using assms(1,3) that by (auto simp: tx_inv_def)
    then show ?thesis by (rule tx_open_other [OF only False])
  qed
  moreover have "inj_on dtx_id opens'" using assms(1,3) by (auto simp: tx_inv_def intro: inj_on_subset)
  ultimately show ?thesis using only by (simp add: tx_inv_def only_tx_def)
qed

lemma row_recovered_inv:
  assumes "tx_inv co v (w, opens)" "row_current co v w row" "row_recovered co v w w' row ok"
  shows "tx_inv co v (w', opens)"
proof -
  obtain st t dec where at: "tx_at co v w' (lr_id row) st t dec (lr_participants row)"
    "lr_status row = ''started'' \<longrightarrow> st = ''started'' \<or> st = ''rolled_back''" and only: "only_tx v (lr_id row) w w'"
    using assms(3) by (auto simp: row_recovered_def)
  obtain t0 where at0: "tx_at co v w (lr_id row) (lr_status row) t0 (lr_decision row) (lr_participants row)"
    and rec: "recoverable (lr_status row)"
    using assms(2) by (auto simp: row_current_def)
  have "tx_open co v w' tx" if mem: "tx \<in> opens" and same: "dtx_id tx = lr_id row" for tx
  proof -
    have "tx_open co v w tx" using assms(1) mem by (simp add: tx_inv_def)
    then obtain st1 t1 dec1 where o: "registered co (dtx_participants tx)" "st1 = ''started'' \<or> st1 = ''rolled_back''"
      "tx_at co v w (lr_id row) st1 t1 dec1 (map fst (dtx_participants tx))"
      using same by (auto simp: tx_open_def)
    have "st1 = lr_status row" "map fst (dtx_participants tx) = lr_participants row"
      using o(3) at0 by (auto simp: tx_at_def names_ok_def)
    moreover have "lr_status row \<noteq> ''rolled_back''" using rec by (auto simp: recoverable_def)
    ultimately show ?thesis using at o same by (auto simp: tx_open_def)
  qed
  then show ?thesis
    using tx_inv_after [OF assms(1) tx_at_kept [OF only at(1)]] by blast
qed

lemma participants_for_current:
  assumes "row_current co v w row"
  shows "participants_for co (lr_participants row) = Some (map (\<lambda>n. the (co_participants co n)) (lr_participants row))"
  using assms by (auto simp: row_current_def tx_at_def names_ok_def participants_for_def)

lemma row_current_other:
  "only_tx v i w w' \<Longrightarrow> lr_id row \<noteq> i \<Longrightarrow> row_current co v w row \<Longrightarrow> row_current co v w' row"
  using tx_at_other [of v i w w' "lr_id row"] unfolding row_current_def by blast

lemma row_current_nothing: "row_current co v w row \<Longrightarrow> nothing_changed v w w' \<Longrightarrow> row_current co v w' row"
  unfolding row_current_def by (blast intro: nothing_at)

definition tx_settled :: "'w tx_view \<Rightarrow> 'w \<Rightarrow> string \<Rightarrow> bool" where
  "tx_settled v w i \<longleftrightarrow> (\<forall>e. tv_log v w i = Some e \<longrightarrow> \<not> recoverable (fst e))"

lemma recover_rows_law:
  assumes "tx_contract co v" "tx_inv co v (w, opens)" "distinct (map lr_id rows)"
    and "\<forall>row \<in> set rows. row_current co v w row" "recover_rows co rep rows w = (r, w')"
  shows "\<exists>rep'. r = Ok rep' \<and> tx_inv co v (w', opens) \<and> rep_failed rep \<le> rep_failed rep' \<and>
     rep_recovered rep' + rep_failed rep' = rep_recovered rep + rep_failed rep + length rows \<and>
     (\<forall>i. i \<notin> lr_id ` set rows \<longrightarrow> tv_log v w' i = tv_log v w i) \<and>
     (rep_failed rep' = rep_failed rep \<longrightarrow> (\<forall>row \<in> set rows. tx_settled v w' (lr_id row)))"
  using assms(2-)
proof (induction rows arbitrary: w rep)
  case Nil
  then show ?case by auto
next
  case (Cons row rows)
  let ?ps = "map (\<lambda>n. the (co_participants co n)) (lr_participants row)"
  have cur: "row_current co v w row" using Cons.prems(3) by simp
  obtain q w1 where q: "recover_row co row ?ps w = (q, w1)" by (cases "recover_row co row ?ps w")
  note rec = recover_row_law [OF assms(1) cur q refl]
  have only: "only_tx v (lr_id row) w w1" using rec by (simp add: row_recovered_def)
  have inv1: "tx_inv co v (w1, opens)" by (rule row_recovered_inv [OF Cons.prems(1) cur rec])
  have cur1: "\<forall>row' \<in> set rows. row_current co v w1 row'"
    using Cons.prems(2,3) row_current_other [OF only] by (auto simp: image_iff)
  have dist: "distinct (map lr_id rows)" "lr_id row \<notin> lr_id ` set rows" using Cons.prems(2) by auto
  let ?rep = "case q of Inr _ \<Rightarrow> rep\<lparr>rep_recovered := rep_recovered rep + 1\<rparr> | Inl _ \<Rightarrow> rep\<lparr>rep_failed := rep_failed rep + 1\<rparr>"
  have rest: "recover_rows co ?rep rows w1 = (r, w')"
    using Cons.prems(4) participants_for_current [OF cur] q by (cases q) (simp_all add: act_match_def)
  from Cons.IH [OF inv1 dist(1) cur1 rest] obtain rep' where IH: "r = Ok rep'" "tx_inv co v (w', opens)"
    "rep_failed ?rep \<le> rep_failed rep'"
    "rep_recovered rep' + rep_failed rep' = rep_recovered ?rep + rep_failed ?rep + length rows"
    "\<forall>i. i \<notin> lr_id ` set rows \<longrightarrow> tv_log v w' i = tv_log v w1 i"
    "rep_failed rep' = rep_failed ?rep \<longrightarrow> (\<forall>row \<in> set rows. tx_settled v w' (lr_id row))" by blast
  have "rep_failed rep \<le> rep_failed rep'" using IH(3) by (cases q) auto
  moreover have "rep_recovered rep' + rep_failed rep' = rep_recovered rep + rep_failed rep + length (row # rows)"
    using IH(4) by (cases q) auto
  moreover have "\<forall>i. i \<notin> lr_id ` set (row # rows) \<longrightarrow> tv_log v w' i = tv_log v w i"
    using IH(5) only by (auto simp: only_tx_def)
  moreover have "\<forall>row' \<in> set (row # rows). tx_settled v w' (lr_id row')" if same: "rep_failed rep' = rep_failed rep"
  proof -
    have ok: "is_ok q" using same IH(3) by (cases q) auto
    then have "rep_failed rep' = rep_failed ?rep" using same by (cases q) auto
    moreover have "tx_settled v w1 (lr_id row)"
      using rec ok by (auto simp: row_recovered_def tx_at_def tx_settled_def)
    then have "tx_settled v w' (lr_id row)" using IH(5) dist(2) by (simp add: tx_settled_def)
    ultimately show ?thesis using IH(6) by simp
  qed
  ultimately show ?case using IH(1,2) by blast
qed

text \<open>The rows recovery reads are the unsettled transactions, decoded.\<close>

definition decoded_row :: "'w coordinator \<Rightarrow> 'w tx_view \<Rightarrow> 'w \<Rightarrow> string \<Rightarrow> log_row" where
  "decoded_row co v w i = (case the (tv_log v w i) of (st, t, dec) \<Rightarrow>
     \<lparr>lr_id = i, lr_status = st, lr_participants = projr (co_names_from_text co t), lr_decision = dec\<rparr>)"

lemma row_to_log_decoded:
  assumes "tv_ok v w" "tx_good co v w i" "tv_log v w i = Some e" "recoverable (fst e)"
  shows "row_to_log co (log_db_row i (the (tv_log v w i))) = Ok (decoded_row co v w i)"
    and "row_current co v w (decoded_row co v w i)"
proof -
  obtain st t dec where e: "e = (st, t, dec)" by (cases e)
  then obtain ns where ns: "names_ok co t ns (\<lambda>n. tv_branch v w n i)" "phase_ok st dec ns (\<lambda>n. tv_branch v w n i)"
    using assms(2,3) by (auto simp: tx_good_def)
  have f: "co_names_from_text co t = Ok ns" using ns(1) by (simp add: names_ok_def)
  show "row_to_log co (log_db_row i (the (tv_log v w i))) = Ok (decoded_row co v w i)"
    using assms(3) e f
    by (cases dec) (simp_all add: row_to_log_def log_db_row_def decoded_row_def row_text_def row_get_def as_str_def
        nullable_text_def)
  show "row_current co v w (decoded_row co v w i)"
    using assms(1,3,4) e f ns by (auto simp: row_current_def decoded_row_def tx_at_def)
qed

lemma recoverable_logs_law:
  assumes "tx_contract co v" "tv_ok v w" "\<forall>i. tx_good co v w i" "recoverable_logs co w = (r, w')"
  shows "nothing_changed v w w' \<and> (\<forall>rows. r = Ok rows \<longrightarrow> distinct (map lr_id rows) \<and>
     lr_id ` set rows = {i. \<exists>e. tv_log v w i = Some e \<and> recoverable (fst e)} \<and>
     (\<forall>row \<in> set rows. row_current co v w row))"
proof (cases "ex_dialect (co_db co) = Mssql")
  case True
  then show ?thesis using assms by (auto simp: recoverable_logs_def state_dialect_def nothing_changed_def)
next
  case False
  obtain q where q: "ex_query_with (co_db co) (recoverable_sql (ex_dialect (co_db co))) recoverable_params w = (q, w')"
    "r = (case q of Inl e \<Rightarrow> Err (xa_db_error e) | Inr rows \<Rightarrow> collect_results (row_to_log co) rows)"
    using False assms(4)
    by (auto simp: recoverable_logs_def state_dialect_def act_bind_def act_map_err_def map_err_def
        split: prod.splits sum.splits)
  note law = log_recoverable [OF contract_parts(2) [OF assms(1)] assms(2) q(1)]
  show ?thesis
  proof (intro conjI allI impI)
    show "nothing_changed v w w'" using law by blast
    fix rows assume r: "r = Ok rows"
    then obtain raw where raw: "q = Ok raw" using q(2) by (cases q) auto
    with law obtain ids where ids: "distinct ids" "set ids = {i. \<exists>e. tv_log v w i = Some e \<and> recoverable (fst e)}"
      "raw = map (\<lambda>i. log_db_row i (the (tv_log v w i))) ids" by blast
    have dec: "\<forall>i \<in> set ids. row_to_log co (log_db_row i (the (tv_log v w i))) = Ok (decoded_row co v w i) \<and>
        row_current co v w (decoded_row co v w i)"
      using row_to_log_decoded [OF assms(2)] assms(3) ids(2) by auto
    have c: "collect_results (row_to_log co) raw = Inr rows" using r raw q(2) by simp
    have rows: "rows = map (decoded_row co v w) ids"
      using c dec unfolding collect_results_Inr_iff ids(3) by (auto intro!: nth_equalityI)
    have idr: "lr_id (decoded_row co v w i) = i" for i by (simp add: decoded_row_def split: prod.split)
    show "distinct (map lr_id rows)" using ids(1) idr by (simp add: rows comp_def)
    show "lr_id ` set rows = {i. \<exists>e. tv_log v w i = Some e \<and> recoverable (fst e)}"
      using ids(2) idr by (simp add: rows image_image)
    show "\<forall>row \<in> set rows. row_current co v w row" using dec by (auto simp: rows)
  qed
qed

lemma tx_inv_nothing: "tx_inv co v (w, opens) \<Longrightarrow> nothing_changed v w w' \<Longrightarrow> tx_inv co v (w', opens)"
  using tx_good_cong [of v w' _ w co] nothing_at [of co v w]
  unfolding tx_inv_def tx_open_def nothing_changed_def fst_conv snd_conv by (metis (no_types, lifting))

lemma recover_locked_law:
  assumes "tx_contract co v" "tx_inv co v (w, opens)" "recover_locked co w = (r, w')"
  shows "tx_inv co v (w', opens) \<and> (\<forall>rep. r = Ok rep \<longrightarrow> rep_failed rep = 0 \<longrightarrow> (\<forall>i. tx_settled v w' i))"
proof -
  obtain q w1 where q: "recoverable_logs co w = (q, w1)" by (cases "recoverable_logs co w")
  have ok: "tv_ok v w" "\<forall>i. tx_good co v w i" using assms(2) by (auto simp: tx_inv_def)
  note law = recoverable_logs_law [OF assms(1) ok q]
  have inv1: "tx_inv co v (w1, opens)" using tx_inv_nothing [OF assms(2)] law by blast
  show ?thesis
  proof (cases q)
    case (Inl e)
    then show ?thesis using assms(3) q inv1 by (auto simp: recover_locked_def act_bind_def)
  next
    case (Inr rows)
    let ?rep0 = "\<lparr>rep_recovered = 0, rep_failed = 0\<rparr>"
    have rest: "recover_rows co ?rep0 rows w1 = (r, w')"
      using assms(3) q Inr by (simp add: recover_locked_def act_bind_def)
    have rows: "distinct (map lr_id rows)" "lr_id ` set rows = {i. \<exists>e. tv_log v w i = Some e \<and> recoverable (fst e)}"
      "\<forall>row \<in> set rows. row_current co v w1 row"
      using law Inr row_current_nothing [of co v w _ w1] by simp_all
    from recover_rows_law [OF assms(1) inv1 rows(1,3) rest] obtain rep' where R: "r = Ok rep'" "tx_inv co v (w', opens)"
      "\<forall>i. i \<notin> lr_id ` set rows \<longrightarrow> tv_log v w' i = tv_log v w1 i"
      "rep_failed rep' = rep_failed ?rep0 \<longrightarrow> (\<forall>row \<in> set rows. tx_settled v w' (lr_id row))" by blast
    have "tx_settled v w' i" if "rep_failed rep' = 0" for i
    proof (cases "i \<in> lr_id ` set rows")
      case True
      then show ?thesis using R(4) that by auto
    next
      case False
      then have "tv_log v w' i = tv_log v w i" using R(3) law by (simp add: nothing_changed_def)
      then show ?thesis using False rows(2) by (auto simp: tx_settled_def)
    qed
    then show ?thesis using R by auto
  qed
qed

lemma fence_laws:
  assumes "tx_contract co v" "tv_ok v w"
  shows "acquire_fence co w = (r, w') \<Longrightarrow> nothing_changed v w w'"
    and "release_fence co g w = (q, w') \<Longrightarrow> nothing_changed v w w'"
proof -
  have f: "\<And>f. co_fence co = Some f \<Longrightarrow>
     (\<forall>k ttl w r w'. tv_ok v w \<longrightarrow> fence_acquire f k ttl w = (r, w') \<longrightarrow> nothing_changed v w w') \<and>
     (\<forall>k token w r w'. tv_ok v w \<longrightarrow> fence_release f k token w = (r, w') \<longrightarrow> nothing_changed v w w')"
    using contract_parts(3) [OF assms(1)] unfolding fence_contract_def by blast
  have same: "nothing_changed v w w" using assms(2) by (simp add: nothing_changed_def)
  show "nothing_changed v w w'" if a: "acquire_fence co w = (r, w')"
  proof (cases "co_fence co")
    case None
    then show ?thesis using a same by (simp add: acquire_fence_def)
  next
    case (Some s)
    obtain q where "fence_acquire s (fence_key s) (fence_ttl s) w = (q, w')"
      using a Some by (auto simp: acquire_fence_def act_bind_def act_map_err_def map_err_def
          split: prod.splits sum.splits option.splits)
    then show ?thesis using f [OF Some] assms(2) by blast
  qed
  show "nothing_changed v w w'" if a: "release_fence co g w = (q, w')"
  proof (cases "\<exists>s token. co_fence co = Some s \<and> g = Some token")
    case False
    then show ?thesis using a same by (auto simp: release_fence_def split: option.splits)
  next
    case True
    then obtain s token where s: "co_fence co = Some s" "g = Some token" by blast
    obtain q' where "fence_release s (fence_key s) token w = (q', w')"
      using a s by (auto simp: release_fence_def act_map_err_def split: prod.splits)
    then show ?thesis using f [OF s(1)] assms(2) by blast
  qed
qed

text \<open>Recovery keeps the invariant; a report without failures means that everything is settled.\<close>

lemma tx_recover_law:
  assumes "tx_contract co v" "tx_inv co v (w, opens)" "tx_recover co w = (r, w')"
  shows "tx_inv co v (w', opens) \<and> (\<forall>rep. r = Ok rep \<longrightarrow> rep_failed rep = 0 \<longrightarrow> (\<forall>i. tx_settled v w' i))"
proof -
  have ok: "tv_ok v w" using assms(2) by (simp add: tx_inv_def)
  obtain q1 w1 where q1: "tx_ensure_schema co w = (q1, w1)" by (cases "tx_ensure_schema co w")
  have n1: "nothing_changed v w w1" by (rule ensure_schema_law [OF assms(1) ok q1])
  have inv1: "tx_inv co v (w1, opens)" and ok1: "tv_ok v w1"
    using tx_inv_nothing [OF assms(2) n1] n1 by (auto simp: nothing_changed_def)
  obtain q2 w2 where q2: "acquire_fence co w1 = (q2, w2)" by (cases "acquire_fence co w1")
  have n2: "nothing_changed v w1 w2" by (rule fence_laws(1) [OF assms(1) ok1 q2])
  have inv2: "tx_inv co v (w2, opens)" using tx_inv_nothing [OF inv1 n2] .
  obtain q3 w3 where q3: "recover_locked co w2 = (q3, w3)" by (cases "recover_locked co w2")
  note law = recover_locked_law [OF assms(1) inv2 q3]
  have ok3: "tv_ok v w3" using law by (simp add: tx_inv_def)
  show ?thesis
  proof (cases "is_ok q1 \<and> is_ok q2")
    case False
    then have "\<not> is_ok r \<and> (w' = w1 \<or> w' = w2)"
      using assms(3) q1 q2 by (cases q1; cases q2; auto simp: tx_recover_def act_bind_def)
    then show ?thesis using inv1 inv2 by auto
  next
    case True
    then obtain u g where ug: "q1 = Inr u" "q2 = Inr g" by (cases q1; cases q2; auto)
    obtain q4 w4 where q4: "release_fence co g w3 = (q4, w4)" by (cases "release_fence co g w3")
    have n4: "nothing_changed v w3 w4" by (rule fence_laws(2) [OF assms(1) ok3 q4])
    have "w' = w4" "\<And>rep. r = Ok rep \<Longrightarrow> q3 = Ok rep"
      using assms(3) q1 q2 q3 q4 ug
      by (cases q3; cases q4; simp add: tx_recover_def act_bind_def act_match_def act_ignore_def)+
    moreover have "tx_inv co v (w4, opens)" using tx_inv_nothing [OF _ n4] law by blast
    moreover have "tx_settled v w4 i = tx_settled v w3 i" for i
      using n4 by (simp add: tx_settled_def nothing_changed_def)
    ultimately show ?thesis using law by blast
  qed
qed

section \<open>All calls, crashes and lost connections\<close>

text \<open>
  The participants may lose connections at any time, which rolls back what is not prepared.
\<close>

definition connections_lost :: "'w tx_view \<Rightarrow> 'w \<Rightarrow> 'w \<Rightarrow> bool" where
  "connections_lost v w w' \<longleftrightarrow> tv_ok v w' \<and> tv_log v w' = tv_log v w \<and>
     (\<forall>n i. tv_branch v w' n i = tv_branch v w n i \<or>
        tv_branch v w n i \<in> {Active, Idle} \<and> tv_branch v w' n i = BranchRolledBack)"

text \<open>
  The state is the world and the transactions begun and not yet ended by their owner. \<^verbatim>\<open>begin\<close>
  takes a new identifier and registered participants; \<^verbatim>\<open>commit\<close> and \<^verbatim>\<open>rollback\<close> consume the
  transaction; a crash drops any of them; recovery may run at any time between calls. Each call
  runs through, with any of its calls to the world failing, which covers a crash inside it.
\<close>

inductive tx_step :: "'w coordinator \<Rightarrow> 'w tx_view \<Rightarrow> 'w \<times> 'w distributed_tx set \<Rightarrow> 'w \<times> 'w distributed_tx set \<Rightarrow> bool"
  for co v where
  step_begin: "tv_log v w i = None \<Longrightarrow>
    \<forall>(n, p) \<in> set ps. co_participants co n = None \<or> co_participants co n = Some p \<Longrightarrow>
    tx_begin co i ps w = (r, w') \<Longrightarrow>
    tx_step co v (w, opens) (w', case r of Inr tx \<Rightarrow> insert tx opens | Inl _ \<Rightarrow> opens)"
| step_execute: "tx \<in> opens \<Longrightarrow> tx_execute tx n sql params w = (q, w') \<Longrightarrow> tx_step co v (w, opens) (w', opens)"
| step_commit: "tx \<in> opens \<Longrightarrow> tx_commit co tx w = (u, w') \<Longrightarrow> tx_step co v (w, opens) (w', opens - {tx})"
| step_rollback: "tx \<in> opens \<Longrightarrow> tx_rollback co tx w = (u, w') \<Longrightarrow> tx_step co v (w, opens) (w', opens - {tx})"
| step_crash: "opens' \<subseteq> opens \<Longrightarrow> tx_step co v (w, opens) (w, opens')"
| step_recover: "tx_recover co w = (t, w') \<Longrightarrow> tx_step co v (w, opens) (w', opens)"
| step_lost: "connections_lost v w w' \<Longrightarrow> tx_step co v (w, opens) (w', opens)"

definition tx_init :: "'w tx_view \<Rightarrow> 'w \<times> 'w distributed_tx set \<Rightarrow> bool" where
  "tx_init v s \<longleftrightarrow> tv_ok v (fst s) \<and> (\<forall>i. tv_log v (fst s) i = None) \<and>
     (\<forall>n i. tv_branch v (fst s) n i = NoBranch) \<and> snd s = {}"

lemma lost_at:
  assumes "tx_at co v w i st t dec ns" "connections_lost v w w'"
  shows "tx_at co v w' i st t dec ns"
proof -
  have moves: "tv_branch v w' n i = tv_branch v w n i \<or>
      tv_branch v w n i \<in> {Active, Idle} \<and> tv_branch v w' n i = BranchRolledBack" for n
    using assms(2) unfolding connections_lost_def by blast
  have "phase_ok st dec ns (\<lambda>n. tv_branch v w' n i)"
    using assms(1) moves unfolding tx_at_def phase_ok_def by (smt (verit) branch.distinct insertE singletonD)
  moreover have "names_ok co t ns (\<lambda>n. tv_branch v w' n i)"
    using assms(1) moves unfolding tx_at_def names_ok_def by (metis branch.distinct(1,3) insertE singletonD)
  ultimately show ?thesis using assms by (simp add: tx_at_def connections_lost_def)
qed

lemma lost_inv:
  assumes "tx_inv co v (w, opens)" "connections_lost v w w'"
  shows "tx_inv co v (w', opens)"
proof -
  have "tx_good co v w' i" for i
  proof (cases "tv_log v w i")
    case None
    then have "tv_branch v w n i = NoBranch" for n using assms(1) by (auto simp: tx_inv_def tx_good_def dest: spec [of _ i])
    then have "tv_branch v w' n i = NoBranch" for n
      using assms(2) unfolding connections_lost_def by (metis branch.distinct(1,3) insertE singletonD)
    then show ?thesis using None assms(2) by (simp add: tx_good_def connections_lost_def)
  next
    case (Some e)
    obtain st t dec where e: "e = (st, t, dec)" by (cases e)
    have "tx_good co v w i" "tv_ok v w" using assms(1) by (auto simp: tx_inv_def)
    then obtain ns where "tx_at co v w i st t dec ns"
      using Some e by (auto simp: tx_good_def tx_at_def)
    from lost_at [OF this assms(2)] show ?thesis by (rule tx_at_good)
  qed
  moreover have "tx_open co v w' tx" if "tx \<in> opens" for tx
  proof -
    have "tx_open co v w tx" using assms(1) that by (simp add: tx_inv_def)
    then show ?thesis unfolding tx_open_def using lost_at [OF _ assms(2)] by metis
  qed
  ultimately show ?thesis using assms by (simp add: tx_inv_def connections_lost_def)
qed

lemma tx_execute_law:
  assumes "tx_contract co v" "tx_open co v w tx" "tx_execute tx n sql params w = (r, w')"
  shows "tx_kept co v (dtx_id tx) w w' \<and> tx_open co v w' tx"
proof -
  let ?i = "dtx_id tx"
  obtain st t dec where at: "tx_at co v w ?i st t dec (map fst (dtx_participants tx))"
    and st: "st = ''started'' \<or> st = ''rolled_back''" and reg: "registered co (dtx_participants tx)"
    using assms(2) unfolding tx_open_def by blast
  have ok: "tv_ok v w" using at by (simp add: tx_at_def)
  have "only_tx v ?i w w' \<and> tx_at co v w' ?i st t dec (map fst (dtx_participants tx))"
  proof (cases "map_of (dtx_participants tx) n")
    case None
    then show ?thesis using assms(3) at ok by (simp add: tx_execute_def only_tx_refl)
  next
    case (Some p)
    then have p: "co_participants co n = Some p" using reg map_of_SomeD by (fastforce simp: registered_def)
    have e: "xa_execute p ?i sql params w = (r, w')" using assms(3) Some by (simp add: tx_execute_def)
    have law: "only_branch v n ?i w w'" "xa_moves CallExecute (is_ok r) (tv_branch v w n ?i) (tv_branch v w' n ?i)"
      using participant_laws(2) [OF contract_parts(1) [OF assms(1)] p ok e] by auto
    have "goes_down (tv_branch v w m ?i) (tv_branch v w' m ?i)" for m
      using law by (cases "m = n") (auto simp: goes_down_def only_branch_def)
    moreover have "only_tx v ?i w w'" "tv_log v w' ?i = tv_log v w ?i"
      using law(1) by (auto simp: only_branch_def intro: only_tx_only_branch)
    ultimately show ?thesis using down_at [OF at] st by blast
  qed
  then show ?thesis using reg st unfolding tx_open_def by (blast intro: tx_at_kept)
qed

lemma tx_invariant:
  assumes "tx_contract co v"
  shows "inductive_invariant (tx_init v) (tx_step co v) (tx_inv co v)"
proof (unfold_locales, goal_cases)
  case (1 s)
  then show ?case by (auto simp: tx_init_def tx_inv_def tx_good_def)
next
  case (2 s t)
  from 2(2,1) show ?case
  proof (induction rule: tx_step.induct)
    case (step_begin w i ps r w' opens)
    have "\<forall>n. tv_branch v w n i = NoBranch" "tv_ok v w"
      using step_begin(1,4) by (auto simp: tx_inv_def tx_good_def dest: spec [of _ i])
    from tx_begin_law [OF assms this(2) step_begin(1) this(1) step_begin(2,3)]
    have law: "tx_kept co v i w w'" "\<And>tx. r = Ok tx \<Longrightarrow> dtx_id tx = i \<and> tx_open co v w' tx" by auto
    have new: "dtx_id tx \<noteq> i" if "tx \<in> opens" for tx
      using step_begin(1,4) that by (auto simp: tx_inv_def tx_open_def tx_at_def)
    have inv: "tx_inv co v (w', opens)"
      by (rule tx_inv_after [OF step_begin(4) law(1) order_refl]) (use new in blast)
    show ?case
    proof (cases r)
      case (Inr tx)
      have "inj_on dtx_id (insert tx opens)" using inv new law(2) [OF Inr] by (force simp: tx_inv_def)
      then show ?thesis using Inr inv law(2) [OF Inr] by (simp add: tx_inv_def)
    qed (use inv in simp)
  next
    case (step_execute tx opens n sql params w q w')
    have "tx_open co v w tx" using step_execute by (simp add: tx_inv_def)
    note law = tx_execute_law [OF assms this step_execute(2)]
    have "tx' = tx" if "tx' \<in> opens" "dtx_id tx' = dtx_id tx" for tx'
      using step_execute(1,3) that by (auto simp: tx_inv_def inj_on_def)
    then show ?case using tx_inv_after [OF step_execute(3) law [THEN conjunct1] order_refl] law by blast
  next
    case (step_commit tx opens w u w')
    have "tx_open co v w tx" using step_commit by (simp add: tx_inv_def)
    from tx_commit_kept [OF assms this] step_commit(2) have kept: "tx_kept co v (dtx_id tx) w w'" by simp
    have "dtx_id tx' \<noteq> dtx_id tx" if "tx' \<in> opens - {tx}" for tx'
      using step_commit(1,3) that by (auto simp: tx_inv_def inj_on_def)
    then show ?case using tx_inv_after [OF step_commit(3) kept Diff_subset] by blast
  next
    case (step_rollback tx opens w u w')
    have "tx_open co v w tx" using step_rollback by (simp add: tx_inv_def)
    from tx_rollback_kept [OF assms this] step_rollback(2) have kept: "tx_kept co v (dtx_id tx) w w'" by simp
    have "dtx_id tx' \<noteq> dtx_id tx" if "tx' \<in> opens - {tx}" for tx'
      using step_rollback(1,3) that by (auto simp: tx_inv_def inj_on_def)
    then show ?case using tx_inv_after [OF step_rollback(3) kept Diff_subset] by blast
  next
    case (step_crash opens' opens w)
    then show ?case by (auto simp: tx_inv_def intro: inj_on_subset)
  next
    case (step_recover w t w' opens)
    then show ?case using tx_recover_law [OF assms] by blast
  next
    case (step_lost w w' opens)
    then show ?case by (intro lost_inv [OF step_lost(2,1)])
  qed
qed

lemmas tx_reachable_inv = inductive_invariant.reachable_invar [OF tx_invariant]

lemma tx_inv_phase:
  assumes "tx_inv co v (w, opens)" "tv_branch v w n i \<noteq> NoBranch"
  obtains st t dec ns where "tx_at co v w i st t dec ns" "n \<in> set ns"
proof -
  have g: "tx_good co v w i" "tv_ok v w" using assms(1) by (auto simp: tx_inv_def)
  show ?thesis
  proof (cases "tv_log v w i")
    case None
    then show ?thesis using g assms(2) by (simp add: tx_good_def)
  next
    case (Some e)
    obtain st t dec where "e = (st, t, dec)" by (cases e)
    then obtain ns where "tx_at co v w i st t dec ns" using g Some by (auto simp: tx_good_def tx_at_def)
    moreover from this have "n \<in> set ns" using assms(2) by (auto simp: tx_at_def names_ok_def)
    ultimately show ?thesis by (rule that)
  qed
qed

text \<open>A world in which the calls of recovery do not fail and no other recovery holds the fence.\<close>

definition recovery_reliable :: "'w coordinator \<Rightarrow> bool" where
  "recovery_reliable co \<longleftrightarrow> ex_dialect (co_db co) \<noteq> Mssql \<and>
     (\<forall>sql w. is_ok (fst (ex_execute (co_db co) sql w))) \<and>
     (\<forall>sql ps w. is_ok (fst (ex_execute_with (co_db co) sql ps w)) \<and> is_ok (fst (ex_query_with (co_db co) sql ps w))) \<and>
     (\<forall>n p i w. co_participants co n = Some p \<longrightarrow>
        is_ok (fst (xa_commit p i w)) \<and> is_ok (fst (xa_rollback p i w))) \<and>
     (\<forall>f. co_fence co = Some f \<longrightarrow>
        (\<forall>k ttl w. \<exists>token w'. fence_acquire f k ttl w = (Ok (Some token), w')) \<and>
        (\<forall>k token w. is_ok (fst (fence_release f k token w))))"

lemma is_ok_simple:
  "is_ok (fst (act_map_err g f s)) = is_ok (fst (f s))" "is_ok (fst (act_ignore f s))" "is_ok (fst (act_ok x s))"
  by (auto simp: act_map_err_def map_err_def act_ignore_def split: prod.splits sum.splits)

lemma reliable_loops:
  assumes "recovery_reliable co" "\<forall>n \<in> set ns. co_participants co n \<noteq> None"
  shows "is_ok (fst (recover_commit_loop i cc (map (\<lambda>n. the (co_participants co n)) ns) w))"
    and "is_ok (fst (recover_rollback_loop i cc (map (\<lambda>n. the (co_participants co n)) ns) w))"
proof -
  have res: "is_ok (fst (already_resolved p i u))" for p :: "'a xa_participant" and u
    by (auto simp: already_resolved_def act_match_def split: prod.split sum.split)
  have one: "is_ok (fst (xa_commit p i u))" "is_ok (fst (xa_rollback p i u))"
    if "co_participants co n = Some p" for n p u
    using assms(1) that unfolding recovery_reliable_def by blast+
  show "is_ok (fst (recover_commit_loop i cc (map (\<lambda>n. the (co_participants co n)) ns) w))"
    using assms(2)
  proof (induction ns arbitrary: w)
    case (Cons n ns)
    then obtain p where "co_participants co n = Some p" by auto
    then show ?case using Cons one(1) by (auto intro!: is_ok_bind res)
  qed simp
  show "is_ok (fst (recover_rollback_loop i cc (map (\<lambda>n. the (co_participants co n)) ns) w))"
    using assms(2)
  proof (induction ns arbitrary: w)
    case (Cons n ns)
    then obtain p where "co_participants co n = Some p" by auto
    then show ?case using Cons one(2) by (auto intro!: is_ok_bind res simp: is_ok_simple)
  qed simp
qed

lemma reliable_set_log: "recovery_reliable co \<Longrightarrow> is_ok (fst (set_log co i st dec w))"
  by (auto simp: set_log_def state_dialect_def recovery_reliable_def is_ok_simple intro!: is_ok_bind)

lemma reliable_recover_rows:
  assumes "recovery_reliable co" "\<forall>row \<in> set rows. \<forall>n \<in> set (lr_participants row). co_participants co n \<noteq> None"
  shows "\<exists>rep'. fst (recover_rows co rep rows w) = Ok rep' \<and> rep_failed rep' = rep_failed rep"
  using assms(2)
proof (induction rows arbitrary: rep w)
  case (Cons row rows)
  let ?ps = "map (\<lambda>n. the (co_participants co n)) (lr_participants row)"
  have reg: "\<forall>n \<in> set (lr_participants row). co_participants co n \<noteq> None"
    "\<forall>n \<in> set (rev (lr_participants row)). co_participants co n \<noteq> None" using Cons.prems by auto
  have "is_ok (fst (recover_row co row ?ps w))"
    using reliable_loops(1) [OF assms(1) reg(1)] reliable_loops(2) [OF assms(1) reg(2)] reliable_set_log [OF assms(1)]
    by (auto simp: recover_row_def recover_commit_def recover_rollback_def Let_def rev_map intro!: is_ok_bind)
  then obtain w1 where w1: "recover_row co row ?ps w = (Inr (), w1)"
    by (cases "recover_row co row ?ps w") (auto simp: is_ok_unit)
  have pf: "participants_for co (lr_participants row) = Some ?ps"
    using reg(1) by (simp add: participants_for_def)
  have rest: "\<forall>row \<in> set rows. \<forall>n \<in> set (lr_participants row). co_participants co n \<noteq> None" using Cons.prems by simp
  show ?case
    using Cons.IH [OF rest, of "rep\<lparr>rep_recovered := rep_recovered rep + 1\<rparr>" w1] w1 pf
    by (simp add: act_match_def)
qed simp

lemma reliable_recoverable_logs:
  assumes "recovery_reliable co" "tx_contract co v" "tx_inv co v (w, opens)"
  shows "\<exists>rows w'. recoverable_logs co w = (Ok rows, w')"
proof -
  have ok: "tv_ok v w" "\<forall>i. tx_good co v w i" using assms(3) by (auto simp: tx_inv_def)
  obtain q w' where q: "ex_query_with (co_db co) (recoverable_sql (ex_dialect (co_db co))) recoverable_params w = (q, w')"
    by (cases "ex_query_with (co_db co) (recoverable_sql (ex_dialect (co_db co))) recoverable_params w")
  have "is_ok q" using assms(1) q unfolding recovery_reliable_def by (metis fst_conv)
  then obtain raw where raw: "q = Ok raw" by (cases q) auto
  with log_recoverable [OF contract_parts(2) [OF assms(2)] ok(1) q] obtain ids where
    ids: "set ids = {i. \<exists>e. tv_log v w i = Some e \<and> recoverable (fst e)}"
      "raw = map (\<lambda>i. log_db_row i (the (tv_log v w i))) ids" by blast
  have "row_to_log co (log_db_row i (the (tv_log v w i))) = Ok (decoded_row co v w i)" if "i \<in> set ids" for i
    using row_to_log_decoded(1) [OF ok(1)] ok(2) ids(1) that by auto
  then have "collect_results (row_to_log co) raw = Ok (map (decoded_row co v w) ids)"
    unfolding collect_results_Inr_iff ids(2) by simp
  then show ?thesis
    using q raw assms(1)
    by (auto simp: recoverable_logs_def state_dialect_def recovery_reliable_def act_bind_def act_map_err_def)
qed

lemma reliable_recover:
  assumes "recovery_reliable co" "tx_contract co v" "tx_inv co v (w, opens)"
  shows "\<exists>rep w'. tx_recover co w = (Ok rep, w') \<and> rep_failed rep = 0"
proof -
  have ok: "tv_ok v w" using assms(3) by (simp add: tx_inv_def)
  have "is_ok (fst (tx_ensure_schema co w))"
    using assms(1) by (auto simp: tx_ensure_schema_def state_dialect_def recovery_reliable_def is_ok_simple intro!: is_ok_bind)
  then obtain w1 where w1: "tx_ensure_schema co w = (Ok (), w1)" by (cases "tx_ensure_schema co w") (auto simp: is_ok_unit)
  have inv1: "tx_inv co v (w1, opens)" by (rule tx_inv_nothing [OF assms(3) ensure_schema_law [OF assms(2) ok w1]])
  have ok1: "tv_ok v w1" using inv1 by (simp add: tx_inv_def)
  obtain g w2 where w2: "acquire_fence co w1 = (Ok g, w2)"
  proof (cases "co_fence co")
    case None
    then show ?thesis using that by (simp add: acquire_fence_def)
  next
    case (Some f)
    then obtain token w' where "fence_acquire f (fence_key f) (fence_ttl f) w1 = (Ok (Some token), w')"
      using assms(1) unfolding recovery_reliable_def by blast
    then show ?thesis using that Some by (simp add: acquire_fence_def act_bind_def act_map_err_def)
  qed
  have inv2: "tx_inv co v (w2, opens)" by (rule tx_inv_nothing [OF inv1 fence_laws(1) [OF assms(2) ok1 w2]])
  have ok2: "tv_ok v w2" "\<forall>i. tx_good co v w2 i" using inv2 by (auto simp: tx_inv_def)
  obtain rows w3 where w3: "recoverable_logs co w2 = (Ok rows, w3)"
    using reliable_recoverable_logs [OF assms(1,2) inv2] by blast
  have "\<forall>row \<in> set rows. row_current co v w2 row" using recoverable_logs_law [OF assms(2) ok2 w3] by blast
  then have "\<forall>row \<in> set rows. \<forall>n \<in> set (lr_participants row). co_participants co n \<noteq> None"
    by (auto simp: row_current_def tx_at_def names_ok_def)
  from reliable_recover_rows [OF assms(1) this, of "\<lparr>rep_recovered = 0, rep_failed = 0\<rparr>" w3]
  obtain rep w4 where w4: "recover_rows co \<lparr>rep_recovered = 0, rep_failed = 0\<rparr> rows w3 = (Ok rep, w4)" "rep_failed rep = 0"
    by (cases "recover_rows co \<lparr>rep_recovered = 0, rep_failed = 0\<rparr> rows w3") auto
  have "is_ok (fst (release_fence co g w4))"
    using assms(1) by (auto simp: release_fence_def recovery_reliable_def is_ok_simple split: option.split)
  then obtain w5 where "release_fence co g w4 = (Ok (), w5)" by (cases "release_fence co g w4") (auto simp: is_ok_unit)
  then show ?thesis
    using w1 w2 w3 w4 by (simp add: tx_recover_def recover_locked_def act_bind_def act_match_def)
qed

section \<open>Properties\<close>



text \<open>
  C13. Recovery finishes what crashes left: from any reachable state, if its own calls do not fail, it
  reports no failure, and then every transaction of the log is \<^verbatim>\<open>committed\<close> or \<^verbatim>\<open>rolled_back\<close>
  and no participant is left with a prepared branch. (A report without failures means the same
  when calls do fail.)
\<close>

theorem recovery_settles_every_transaction:
  assumes "tx_contract co v" "reachable_from (tx_init v) (tx_step co v) (w, opens)" "recovery_reliable co"
  shows "\<exists>rep w'. tx_recover co w = (Ok rep, w') \<and> rep_failed rep = 0 \<and>
     (\<forall>i e. tv_log v w' i = Some e \<longrightarrow> fst e = ''committed'' \<or> fst e = ''rolled_back'') \<and>
     (\<forall>n i. tv_branch v w' n i \<noteq> Prepared)"
proof -
  have inv: "tx_inv co v (w, opens)" using tx_reachable_inv [OF assms(1,2)] .
  obtain rep w' where r: "tx_recover co w = (Ok rep, w')" "rep_failed rep = 0"
    using reliable_recover [OF assms(3,1) inv] by blast
  from tx_recover_law [OF assms(1) inv r(1)] r(2) have inv': "tx_inv co v (w', opens)" and s: "tx_settled v w' i" for i
    by auto
  have fin: "fst e = ''committed'' \<or> fst e = ''rolled_back''" if log: "tv_log v w' i = Some e" for i e
  proof -
    have "tx_good co v w' i" using inv' by (simp add: tx_inv_def)
    then obtain ns where "phase_ok (fst e) (snd (snd e)) ns (\<lambda>n. tv_branch v w' n i)"
      using log by (cases e) (auto simp: tx_good_def)
    then show ?thesis using s [of i] log unfolding tx_settled_def recoverable_def phase_ok_def by auto
  qed
  have "tv_branch v w' n i \<noteq> Prepared" for n i
  proof
    assume p: "tv_branch v w' n i = Prepared"
    then obtain st t dec ns where at: "tx_at co v w' i st t dec ns" "n \<in> set ns"
      using tx_inv_phase [OF inv', of n i] by (metis branch.distinct(5))
    then have "st = ''committed'' \<or> st = ''rolled_back''" using fin [of i] by (auto simp: tx_at_def)
    then show False using at p by (auto simp: tx_at_def phase_ok_simps)
  qed
  then show ?thesis using r fin by blast
qed

section \<open>Witnesses\<close>

text \<open>
  A small world that keeps the contract: the identifiers in the log in order of insertion, the log
  and the branches of two participants. Its calls do not fail.
\<close>

record example_world =
  ew_ids :: "string list"
  ew_log :: "string \<Rightarrow> log_entry option"
  ew_branch :: "string \<Rightarrow> string \<Rightarrow> branch"

definition ew_ok :: "example_world \<Rightarrow> bool" where
  "ew_ok w \<longleftrightarrow> distinct (ew_ids w) \<and> (\<forall>i. ew_log w i \<noteq> None \<longleftrightarrow> i \<in> set (ew_ids w)) \<and>
     (\<forall>n i. ew_branch w n i \<noteq> NoBranch \<longrightarrow> i \<in> set (ew_ids w))"

definition ew_move :: "string \<Rightarrow> string \<Rightarrow> (branch \<Rightarrow> branch) \<Rightarrow> (xa_error, example_world, unit) act" where
  "ew_move n i f w = (Ok (), w\<lparr>ew_branch := (ew_branch w)(n := (ew_branch w n)(i := f (ew_branch w n i)))\<rparr>)"

definition ew_participant :: "string \<Rightarrow> example_world xa_participant" where
  "ew_participant n =
     \<lparr>xa_start = (\<lambda>i w. if i \<in> set (ew_ids w) then ew_move n i (\<lambda>b. if b = NoBranch then Active else b) w
                        else (Err (XaUnknownXid i), w)),
      xa_end = (\<lambda>i. ew_move n i (\<lambda>b. if b = Active then Idle else b)),
      xa_prepare = (\<lambda>i w. if ew_branch w n i \<in> {Active, Idle} then ew_move n i (\<lambda>_. Prepared) w
                          else (Err (XaUnknownXid i), w)),
      xa_commit = (\<lambda>i. ew_move n i (\<lambda>b. if b = Prepared then BranchCommitted else b)),
      xa_rollback = (\<lambda>i. ew_move n i (\<lambda>b. if b \<in> {Active, Idle, Prepared} then BranchRolledBack else b)),
      xa_recover = (\<lambda>w. (Ok (filter (\<lambda>i. ew_branch w n i = Prepared) (ew_ids w)), w)),
      xa_execute = (\<lambda>i sql ps w. (Ok 1, w))\<rparr>"

definition ew_text :: "json_value \<Rightarrow> string option" where
  "ew_text v = (case v of JString s \<Rightarrow> Some s | _ \<Rightarrow> None)"

definition ew_str :: "json_value \<Rightarrow> string" where
  "ew_str v = (case v of JString s \<Rightarrow> s | _ \<Rightarrow> [])"

definition ew_db :: "example_world sql_executor" where
  "ew_db = \<lparr>ex_execute = (\<lambda>_ w. (Ok 0, w)), ex_query = (\<lambda>_ w. (Ok [], w)),
     ex_execute_with = (\<lambda>sql ps w.
       if length ps = 5 then
         let i = ew_str (ps ! 0) in
         if i \<in> set (ew_ids w) then (Ok 0, w)
         else (Ok 1, w\<lparr>ew_ids := ew_ids w @ [i],
                 ew_log := (ew_log w)(i \<mapsto> (ew_str (ps ! 1), ew_str (ps ! 2), ew_text (ps ! 3)))\<rparr>)
       else
         let i = ew_str (ps ! 2) in
         (Ok 1, w\<lparr>ew_log := (ew_log w)(i := map_option (\<lambda>e. (ew_str (ps ! 0), fst (snd e), ew_text (ps ! 1))) (ew_log w i))\<rparr>)),
     ex_query_with = (\<lambda>sql ps w.
       if length ps = 1 then
         (Ok (case ew_log w (ew_str (ps ! 0)) of None \<Rightarrow> []
            | Some e \<Rightarrow> [\<lparr>row_columns = [''status''], row_values = [JString (fst e)]\<rparr>]), w)
       else (Ok (map (\<lambda>i. log_db_row i (the (ew_log w i)))
                 (filter (\<lambda>i. recoverable (fst (the (ew_log w i)))) (ew_ids w))), w)),
     ex_query_write = (\<lambda>_ _ w. (Ok [], w)), ex_execute_then_query = (\<lambda>_ _ _ w. (Ok [], w)), ex_dialect = Sqlite\<rparr>"

lemma ew_text_nullable [simp]: "ew_text (nullable_text d) = d"
  by (cases d) (simp_all add: ew_text_def nullable_text_def)

lemma ew_str_JString [simp]: "ew_str (JString s) = s"
  by (simp add: ew_str_def)

definition ew_coordinator :: "example_world coordinator" where
  "ew_coordinator = \<lparr>co_db = ew_db,
     co_participants = [''a'' \<mapsto> ew_participant ''a'', ''b'' \<mapsto> ew_participant ''b''], co_fence = None,
     co_clock = (\<lambda>_. Ok ''2026-01-01T00:00:00Z''),
     co_names_to_text = (\<lambda>ns. if ns = [''a'', ''b''] then Ok ''ab'' else Err ''unsupported''),
     co_names_from_text = (\<lambda>_. Ok [''a'', ''b''])\<rparr>"

definition ew_view :: "example_world tx_view" where
  "ew_view = \<lparr>tv_ok = ew_ok, tv_log = ew_log, tv_branch = ew_branch\<rparr>"

lemma ew_move_law:
  assumes "ew_ok w" "ew_move n i f w = (r, w')" "f NoBranch = NoBranch \<or> i \<in> set (ew_ids w)"
  shows "only_branch ew_view n i w w' \<and> ew_branch w' n i = f (ew_branch w n i) \<and> r = Ok ()"
proof -
  have w': "w' = w\<lparr>ew_branch := (ew_branch w)(n := (ew_branch w n)(i := f (ew_branch w n i)))\<rparr>" "r = Ok ()"
    using assms(2) by (simp_all add: ew_move_def)
  have "i \<in> set (ew_ids w)" if "f (ew_branch w n i) \<noteq> NoBranch"
    using that assms(1,3) by (cases "ew_branch w n i = NoBranch") (auto simp: ew_ok_def)
  then have "ew_ok w'" using assms(1) unfolding w' ew_ok_def by auto
  then show ?thesis using w' by (auto simp: only_branch_def ew_view_def)
qed

lemma ew_calls:
  assumes "ew_ok w" "xa_call_act c (ew_participant n) i w = (r, w')"
  shows "only_branch ew_view n i w w' \<and> xa_moves c (is_ok r) (ew_branch w n i) (ew_branch w' n i)"
proof -
  have same: "only_branch ew_view n i w w" using assms(1) by (simp add: only_branch_def ew_view_def)
  show ?thesis
  proof (cases c)
    case CallStart
    then show ?thesis using assms(2) same ew_move_law [OF assms(1), of n i "\<lambda>b. if b = NoBranch then Active else b" r w']
      by (auto simp: ew_participant_def split: if_splits)
  next
    case CallPrepare
    have "i \<in> set (ew_ids w)" if "ew_branch w n i \<in> {Active, Idle}"
      using assms(1) that unfolding ew_ok_def by (metis branch.distinct(1,3) insertE singletonD)
    then show ?thesis using CallPrepare assms(2) same ew_move_law [OF assms(1), of n i "\<lambda>_. Prepared" r w']
      by (auto simp: ew_participant_def split: if_splits)
  qed (use assms same ew_move_law [OF assms(1), of n i _ r w'] in \<open>auto simp: ew_participant_def split: if_splits\<close>)
qed

lemma ew_participants_contract: "participants_contract ew_coordinator ew_view"
  unfolding participants_contract_def
proof (intro allI impI conjI)
  have p: "p = ew_participant n" if "co_participants ew_coordinator n = Some p" for n p
    using that by (auto simp: ew_coordinator_def split: if_splits)
  {
    fix n p c i w and r :: "(xa_error, unit) result" and w'
    assume a: "co_participants ew_coordinator n = Some p" "tv_ok ew_view w" "xa_call_act c p i w = (r, w')"
    show "only_branch ew_view n i w w'" "xa_moves c (is_ok r) (tv_branch ew_view w n i) (tv_branch ew_view w' n i)"
      using p [OF a(1)] a(2,3) ew_calls [of w c n i r w'] by (auto simp: ew_view_def)
  next
    fix n p i sql ps w and r :: "(xa_error, nat) result" and w'
    assume a: "co_participants ew_coordinator n = Some p" "tv_ok ew_view w" "xa_execute p i sql ps w = (r, w')"
    show "only_branch ew_view n i w w'"
      "xa_moves CallExecute (is_ok r) (tv_branch ew_view w n i) (tv_branch ew_view w' n i)"
      using p [OF a(1)] a(2,3) by (simp_all add: ew_participant_def only_branch_def)
  next
    fix n p w and r :: "(xa_error, string list) result" and w'
    assume a: "co_participants ew_coordinator n = Some p" "tv_ok ew_view w" "xa_recover p w = (r, w')"
    show "nothing_changed ew_view w w'" using p [OF a(1)] a(2,3) by (simp add: ew_participant_def nothing_changed_def)
    fix xs i assume "r = Ok xs" "tv_branch ew_view w n i = Prepared"
    then show "i \<in> set xs" using p [OF a(1)] a(2,3)
      by (auto simp: ew_participant_def ew_view_def ew_ok_def) (metis branch.distinct(5))
  }
qed

lemma ew_log_contract: "log_contract ew_coordinator ew_view"
  unfolding log_contract_def
proof (intro conjI, goal_cases)
  case 1
  then show ?case by (simp add: ew_coordinator_def ew_db_def nothing_changed_def)
next
  case 2
  then show ?case
    by (auto simp: ew_coordinator_def ew_db_def ew_view_def ew_ok_def only_log_def Let_def numeral_eq_Suc)
next
  case 3
  then show ?case
    by (auto simp: ew_coordinator_def ew_db_def ew_view_def ew_ok_def only_log_def Let_def numeral_eq_Suc) metis
next
  case 4
  then show ?case by (auto simp: ew_coordinator_def ew_db_def nothing_changed_def ew_view_def)
next
  case 5
  show ?case
  proof (intro allI impI)
    fix w r w'
    assume ok: "tv_ok ew_view w" and
      q: "ex_query_with (co_db ew_coordinator) (recoverable_sql (ex_dialect (co_db ew_coordinator))) recoverable_params w = (r, w')"
    let ?ids = "filter (\<lambda>i. recoverable (fst (the (ew_log w i)))) (ew_ids w)"
    have r: "r = Ok (map (\<lambda>i. log_db_row i (the (ew_log w i))) ?ids)" "w' = w"
      using q by (auto simp: ew_coordinator_def ew_db_def recoverable_params_def)
    have ids: "i \<in> set (ew_ids w) \<longleftrightarrow> ew_log w i \<noteq> None" for i
      using ok by (simp add: ew_view_def ew_ok_def)
    have "set ?ids = {i. \<exists>e. ew_log w i = Some e \<and> recoverable (fst e)}"
      using ids by force
    moreover have "distinct ?ids" using ok by (simp add: ew_view_def ew_ok_def)
    ultimately have "\<exists>ids. distinct ids \<and> set ids = {i. \<exists>e. tv_log ew_view w i = Some e \<and> recoverable (fst e)} \<and>
        map (\<lambda>i. log_db_row i (the (ew_log w i))) ?ids = map (\<lambda>i. log_db_row i (the (tv_log ew_view w i))) ids"
      by (intro exI [of _ ?ids]) (simp add: ew_view_def)
    then show "nothing_changed ew_view w w' \<and> (\<forall>rows. r = Ok rows \<longrightarrow> (\<exists>ids. distinct ids \<and>
           set ids = {i. \<exists>e. tv_log ew_view w i = Some e \<and> recoverable (fst e)} \<and>
           rows = map (\<lambda>i. log_db_row i (the (tv_log ew_view w i))) ids))"
      using r ok by (simp add: nothing_changed_def)
  qed
qed

lemma ew_contract: "tx_contract ew_coordinator ew_view"
  using ew_participants_contract ew_log_contract
  by (simp add: tx_contract_def fence_contract_def ew_coordinator_def)

definition ew_start :: example_world where
  "ew_start = \<lparr>ew_ids = [], ew_log = (\<lambda>_. None), ew_branch = (\<lambda>_ _. NoBranch)\<rparr>"

definition ew_tx :: "example_world distributed_tx" where
  "ew_tx = \<lparr>dtx_id = ''x'', dtx_participants = [(''a'', ew_participant ''a''), (''b'', ew_participant ''b'')]\<rparr>"

definition ew_begun :: example_world where
  "ew_begun = \<lparr>ew_ids = [''x''], ew_log = [''x'' \<mapsto> (''started'', ''ab'', None)],
     ew_branch = (\<lambda>n i. if i = ''x'' \<and> n \<in> {''a'', ''b''} then Active else NoBranch)\<rparr>"


lemma ew_begin: "tx_begin ew_coordinator ''x'' (dtx_participants ew_tx) ew_start = (Ok ew_tx, ew_begun)"
  by (simp add: tx_begin_def ew_tx_def ew_coordinator_def ew_db_def ew_participant_def ew_start_def ew_begun_def
      tx_ensure_schema_def state_dialect_def insert_log_def xa_now_def act_bind_def act_map_err_def act_match_def
      ew_move_def nullable_text_def ew_text_def fun_eq_iff Let_def)


lemma ew_reach_begun: "reachable_from (tx_init ew_view) (tx_step ew_coordinator ew_view) (ew_begun, {ew_tx})"
proof (rule reach_step)
  show "reachable_from (tx_init ew_view) (tx_step ew_coordinator ew_view) (ew_start, {})"
    by (rule reach_init) (simp add: tx_init_def ew_view_def ew_start_def ew_ok_def)
  have "\<forall>(n, p) \<in> set (dtx_participants ew_tx). co_participants ew_coordinator n = None \<or> co_participants ew_coordinator n = Some p"
    by (simp add: ew_tx_def ew_coordinator_def)
  from step_begin [OF _ this ew_begin, of ew_view "{}"]
  show "tx_step ew_coordinator ew_view (ew_start, {}) (ew_begun, {ew_tx})"
    by (simp add: ew_view_def ew_start_def)
qed




text \<open>Recovery of a transaction whose owner stopped right after \<^verbatim>\<open>begin\<close>.\<close>

theorem recovery_settles_every_transaction_witness:
  "\<exists>rep w'. tx_recover ew_coordinator ew_begun = (Ok rep, w') \<and> rep_failed rep = 0 \<and>
     map_option fst (ew_log w' ''x'') \<in> {None, Some ''committed'', Some ''rolled_back''} \<and>
     ew_branch w' ''a'' ''x'' \<noteq> Prepared \<and> ew_branch w' ''b'' ''x'' \<noteq> Prepared"
proof -
  have "recovery_reliable ew_coordinator"
    by (auto simp: recovery_reliable_def ew_coordinator_def ew_db_def ew_participant_def ew_move_def Let_def)
  from recovery_settles_every_transaction [OF ew_contract ew_reach_begun this]
  obtain rep w' where r: "tx_recover ew_coordinator ew_begun = (Ok rep, w')" "rep_failed rep = 0"
    and l: "\<forall>i e. tv_log ew_view w' i = Some e \<longrightarrow> fst e = ''committed'' \<or> fst e = ''rolled_back''"
    and b: "\<forall>n i. tv_branch ew_view w' n i \<noteq> Prepared"
    by blast
  have "map_option fst (ew_log w' ''x'') \<in> {None, Some ''committed'', Some ''rolled_back''}"
    using l [THEN spec, of "''x''"] by (cases "ew_log w' ''x''") (auto simp: ew_view_def)
  then show ?thesis using r b by (auto simp: ew_view_def)
qed

end
