(* ===== verification/Catalog.thy ===== *)
theory Catalog
  imports Rdbms "HOL-Library.Char_ord" "HOL-Library.List_Lexorder"
begin

unbundle bit_operations_syntax

text \<open>
  \<^verbatim>\<open>ecat-data-sharding\<close>: the shard catalog with its validation, stable hash and routing
  (\<^verbatim>\<open>catalog.rs\<close>), the deployment configuration (\<^verbatim>\<open>config.rs\<close>), the connection budget
  (\<^verbatim>\<open>budget.rs\<close>) and the key router with its bound client (\<^verbatim>\<open>router.rs\<close>, \<^verbatim>\<open>client.rs\<close>).
  Text is compared byte by byte, as Rust compares strings.
\<close>

section \<open>Catalog data and errors (catalog.rs)\<close>

datatype shard_algorithm = HashMod u32 | RangeBoundaries "int list"

record shard_endpoint =
  ep_name :: string
  ep_url :: "string option"

record shard_table =
  tbl_name :: string
  tbl_key :: string
  tbl_pk :: string
  tbl_algorithm :: shard_algorithm
  tbl_shards :: "shard_endpoint list"

record shard_catalog =
  cat_tables :: "shard_table list"

datatype shard_error =
    ShardConfig string
  | MissingKey
  | UnknownTable string
  | ShardCountMismatch
  | PartialFailure "string list"
  | ClockRollback
  | IdOutOfRange
  | ShardUnsupportedDialect
  | ShardDatabase string

text \<open>\<^verbatim>\<open>From<RdbmsError> for ShardError\<close> (\<^verbatim>\<open>outbox.rs\<close>).\<close>

definition outbox_db_error :: "rdbms_error \<Rightarrow> shard_error" where
  "outbox_db_error e = ShardDatabase (rdbms_error_text e)"

section \<open>Stable hashing (catalog.rs)\<close>

text \<open>\<^verbatim>\<open>fnv1a64\<close> folds the bytes with wrapping multiplication.\<close>

definition fnv1a64 :: "string \<Rightarrow> u64" where
  "fnv1a64 bytes =
     foldl (\<lambda>h c. (h XOR of_nat (of_char c)) * 0x00000100000001b3) 0xcbf29ce484222325 bytes"

text \<open>
  \<^verbatim>\<open>write_canonical\<close>, returning what it appends. The texts of a number and of a string are
  \<^verbatim>\<open>serde_json\<close>'s and parameters.
\<close>

record json_text =
  number_text :: "json_number \<Rightarrow> string"
  string_text :: "string \<Rightarrow> string"

function write_canonical :: "json_text \<Rightarrow> json_value \<Rightarrow> string" where
  "write_canonical J JNull = ''null''"
| "write_canonical J (JBool b) = (if b then ''true'' else ''false'')"
| "write_canonical J (JNumber n) = number_text J n"
| "write_canonical J (JString s) = string_text J s"
| "write_canonical J (JArray items) = ''['' @ str_join '','' (map (write_canonical J) items) @ '']''"
| "write_canonical J (JObject ms) =
     ''{'' @ str_join '','' (map (\<lambda>kv. string_text J (fst kv) @ '':'' @ write_canonical J (snd kv)) (sort_key fst ms)) @ ''}''"
  by pat_completeness auto

termination
proof (relation "measure (size \<circ> snd)", goal_cases)
  case 1
  then show ?case by simp
next
  case (2 J items z)
  then show ?case by (simp add: size_list_estimation' less_Suc_eq_le)
next
  case (3 J ms z)
  then have "z \<in> set ms" by simp
  then show ?case by (induction ms) (auto simp: less_Suc_eq_le)
qed

definition stable_hash64 :: "json_text \<Rightarrow> json_value \<Rightarrow> (shard_error, u64) result" where
  "stable_hash64 J key = (case key of
       JNull \<Rightarrow> Err MissingKey
     | JString text \<Rightarrow> Ok (fnv1a64 text)
     | other \<Rightarrow> Ok (fnv1a64 (write_canonical J other)))"

section \<open>Validation and routing (catalog.rs)\<close>

text \<open>\<^verbatim>\<open>boundaries.windows(2).any(|p| p[0] >= p[1])\<close>.\<close>

fun any_window_ge :: "int list \<Rightarrow> bool" where
  "any_window_ge (a # b # xs) = (a \<ge> b \<or> any_window_ge (b # xs))"
| "any_window_ge xs = False"

definition check_algorithm :: "string \<Rightarrow> shard_algorithm \<Rightarrow> nat \<Rightarrow> (shard_error, unit) result" where
  "check_algorithm table algorithm endpoints = (case algorithm of
       HashMod shards \<Rightarrow>
         if shards = 0 \<or> unat shards \<noteq> endpoints then Err ShardCountMismatch else Ok ()
     | RangeBoundaries boundaries \<Rightarrow>
         if length boundaries + 1 \<noteq> endpoints then Err ShardCountMismatch
         else if any_window_ge boundaries
           then Err (ShardConfig (''table `'' @ table @ ''` range boundaries must be strictly increasing''))
         else Ok ())"

text \<open>The loops of \<^verbatim>\<open>validate\<close> with their sets of names seen so far.\<close>

fun check_shard_names :: "string \<Rightarrow> string list \<Rightarrow> shard_endpoint list \<Rightarrow> (shard_error, unit) result" where
  "check_shard_names table seen [] = Ok ()"
| "check_shard_names table seen (s # ss) =
     (if ep_name s \<in> set seen
      then Err (ShardConfig (''table `'' @ table @ ''` has duplicate shard name `'' @ ep_name s @ ''`''))
      else check_shard_names table (ep_name s # seen) ss)"

fun validate_tables :: "string list \<Rightarrow> shard_table list \<Rightarrow> (shard_error, unit) result" where
  "validate_tables seen [] = Ok ()"
| "validate_tables seen (t # ts) =
     (if \<exists>f \<in> set [tbl_name t, tbl_key t, tbl_pk t]. str_trim f = []
      then Err (ShardConfig (''table `'' @ tbl_name t @ ''` has an empty name, key, or pk''))
      else if tbl_name t \<in> set seen
      then Err (ShardConfig (''duplicate table name `'' @ tbl_name t @ ''`''))
      else if tbl_shards t = []
      then Err (ShardConfig (''table `'' @ tbl_name t @ ''` has no shards''))
      else try_bind (check_shard_names (tbl_name t) [] (tbl_shards t)) (\<lambda>_.
           try_bind (check_algorithm (tbl_name t) (tbl_algorithm t) (length (tbl_shards t))) (\<lambda>_.
           validate_tables (tbl_name t # seen) ts)))"

definition validate :: "shard_catalog \<Rightarrow> (shard_error, unit) result" where
  "validate c = validate_tables [] (cat_tables c)"

definition catalog_table :: "shard_catalog \<Rightarrow> string \<Rightarrow> (shard_error, shard_table) result" where
  "catalog_table c name = ok_or (UnknownTable name) (find (\<lambda>t. tbl_name t = name) (cat_tables c))"

text \<open>
  \<^verbatim>\<open>partition_point\<close>: the length of the longest prefix that satisfies the predicate, for a slice
  partitioned by it (which the check before it ensures).
\<close>

definition partition_point :: "('a \<Rightarrow> bool) \<Rightarrow> 'a list \<Rightarrow> nat" where
  "partition_point P xs = length (takeWhile P xs)"

definition shard_for :: "json_text \<Rightarrow> shard_catalog \<Rightarrow> string \<Rightarrow> json_value \<Rightarrow> (shard_error, nat) result" where
  "shard_for J c table key =
     try_bind (catalog_table c table) (\<lambda>t.
     try_bind (check_algorithm (tbl_name t) (tbl_algorithm t) (length (tbl_shards t))) (\<lambda>_.
     if is_null key then Err MissingKey else
     case tbl_algorithm t of
       HashMod shards \<Rightarrow>
         try_bind (stable_hash64 J key) (\<lambda>h. Ok (unat (h mod ucast shards)))
     | RangeBoundaries boundaries \<Rightarrow> (case as_i64 key of
         None \<Rightarrow> if is_u64 key then Err IdOutOfRange
                 else Err (ShardConfig (''table `'' @ tbl_name t @ ''` range shard key must be an integer''))
       | Some i \<Rightarrow> Ok (partition_point (\<lambda>b. b \<le> i) boundaries))))"

section \<open>Deployment mode and connection budget (config.rs, budget.rs)\<close>

datatype sharding_mode = Proxy | Client

record sharding_config =
  sc_mode :: sharding_mode
  sc_catalog :: shard_catalog

definition check_endpoint_url :: "sharding_mode \<Rightarrow> string \<Rightarrow> shard_endpoint \<Rightarrow> (shard_error, unit) result" where
  "check_endpoint_url mode table s =
     (let has_url = (case ep_url s of None \<Rightarrow> False | Some url \<Rightarrow> str_trim url \<noteq> []) in
      if mode = Proxy \<and> has_url
      then Err (ShardConfig (''table `'' @ table @ ''` shard `'' @ ep_name s @ ''`: proxy mode forbids per-shard urls''))
      else if mode = Client \<and> \<not> has_url
      then Err (ShardConfig (''table `'' @ table @ ''` shard `'' @ ep_name s @ ''`: client mode requires a url''))
      else Ok ())"

definition config_validate :: "sharding_config \<Rightarrow> (shard_error, unit) result" where
  "config_validate cfg =
     try_bind (validate (sc_catalog cfg)) (\<lambda>_.
     for_each (\<lambda>t. for_each (check_endpoint_url (sc_mode cfg) (tbl_name t)) (tbl_shards t))
       (cat_tables (sc_catalog cfg)))"

text \<open>
  \<^verbatim>\<open>validate_pool_budget\<close>, over the pool sizes the clients report. The sums and the product are
  64-bit and wrap.
\<close>

fun pool_total :: "u64 \<Rightarrow> nat \<Rightarrow> u32 option list \<Rightarrow> u64 \<times> nat" where
  "pool_total acc unknown [] = (acc, unknown)"
| "pool_total acc unknown (Some n # ns) = pool_total (acc + ucast n) unknown ns"
| "pool_total acc unknown (None # ns) = pool_total acc (unknown + 1) ns"

definition validate_pool_budget :: "u32 option list \<Rightarrow> u32 \<Rightarrow> u32 \<Rightarrow> (shard_error, unit) result" where
  "validate_pool_budget sizes instances budget =
     (let (known, unknown) = pool_total 0 0 sizes; needed = known * ucast instances in
      if needed > ucast budget then
        Err (ShardConfig (''connection pool budget exceeded: '' @ dec_nat (unat needed) @ '' > '' @ dec_nat (unat budget)
          @ (if unknown = 0 then [] else '' ('' @ dec_nat unknown @ '' client(s) skipped: unknown pool size)'')))
      else Ok ())"

section \<open>The router (router.rs, client.rs)\<close>

text \<open>
  \<open>'c\<close> stands for the shared database clients. \<^verbatim>\<open>for_key_with_shard\<close> indexes the endpoints with
  \<^verbatim>\<open>shards[index]\<close>, which panics out of range: the outer \<open>None\<close> is that panic.
\<close>

record 'c shard_router =
  rt_catalog :: shard_catalog
  rt_clients :: "string \<rightharpoonup> 'c"

record 'c keyed_client =
  kc_client :: 'c
  kc_table :: string

definition validate_clients :: "shard_catalog \<Rightarrow> (string \<rightharpoonup> 'c) \<Rightarrow> (shard_error, unit) result" where
  "validate_clients c clients =
     for_each (\<lambda>t. for_each (\<lambda>s. if clients (ep_name s) = None
       then Err (ShardConfig (''table `'' @ tbl_name t @ ''` shard `'' @ ep_name s @ ''` has no client''))
       else Ok ()) (tbl_shards t)) (cat_tables c)"

definition router_new :: "shard_catalog \<Rightarrow> (string \<rightharpoonup> 'c) \<Rightarrow> (shard_error, 'c shard_router) result" where
  "router_new c clients =
     try_bind (validate c) (\<lambda>_. try_bind (validate_clients c clients) (\<lambda>_.
       Ok \<lparr>rt_catalog = c, rt_clients = clients\<rparr>))"

definition router_reload :: "shard_catalog \<Rightarrow> (shard_error, 'c shard_router, unit) act" where
  "router_reload c r =
     act_bind (act_lift (validate c)) (\<lambda>_.
     act_bind (act_lift (validate_clients c (rt_clients r))) (\<lambda>_ r'. (Ok (), r'\<lparr>rt_catalog := c\<rparr>))) r"

definition for_key_with_shard ::
  "json_text \<Rightarrow> 'c shard_router \<Rightarrow> string \<Rightarrow> json_value \<Rightarrow> (shard_error, string \<times> 'c keyed_client) result option" where
  "for_key_with_shard J r table key = (case shard_for J (rt_catalog r) table key of
       Inl e \<Rightarrow> Some (Err e)
     | Inr index \<Rightarrow> (case catalog_table (rt_catalog r) table of
           Inl e \<Rightarrow> Some (Err e)
         | Inr t \<Rightarrow> if index \<ge> length (tbl_shards t) then None
             else let name = ep_name (tbl_shards t ! index) in
               Some (case rt_clients r name of
                   None \<Rightarrow> Err (ShardConfig (''shard `'' @ name @ ''` has no client''))
                 | Some client \<Rightarrow> Ok (name, \<lparr>kc_client = client, kc_table = table\<rparr>))))"

definition for_key ::
  "json_text \<Rightarrow> 'c shard_router \<Rightarrow> string \<Rightarrow> json_value \<Rightarrow> (shard_error, 'c keyed_client) result option" where
  "for_key J r table key = map_option (map_sum id snd) (for_key_with_shard J r table key)"

text \<open>The bound client hands every call to the client it was bound to.\<close>

definition keyed_executor :: "'d sql_executor keyed_client \<Rightarrow> 'd sql_executor" where
  "keyed_executor k =
     \<lparr>ex_execute = (\<lambda>sql. ex_execute (kc_client k) sql), ex_query = (\<lambda>sql. ex_query (kc_client k) sql),
      ex_execute_with = (\<lambda>sql ps. ex_execute_with (kc_client k) sql ps),
      ex_query_with = (\<lambda>sql ps. ex_query_with (kc_client k) sql ps),
      ex_query_write = (\<lambda>sql ps. ex_query_write (kc_client k) sql ps),
      ex_execute_then_query = (\<lambda>f ps s. ex_execute_then_query (kc_client k) f ps s),
      ex_dialect = ex_dialect (kc_client k)\<rparr>"

section \<open>What validation gives\<close>

lemma any_window_ge_sorted: "\<not> any_window_ge bs \<longleftrightarrow> sorted_wrt (<) bs"
  by (induction bs rule: any_window_ge.induct) force+

definition algorithm_ok :: "shard_table \<Rightarrow> bool" where
  "algorithm_ok t \<longleftrightarrow> (case tbl_algorithm t of
       HashMod n \<Rightarrow> n \<noteq> 0 \<and> unat n = length (tbl_shards t)
     | RangeBoundaries bs \<Rightarrow> length bs + 1 = length (tbl_shards t) \<and> sorted_wrt (<) bs)"

lemma check_algorithm_Ok:
  "check_algorithm n (tbl_algorithm t) (length (tbl_shards t)) = Ok u \<longleftrightarrow> algorithm_ok t"
  by (auto simp: check_algorithm_def algorithm_ok_def any_window_ge_sorted [symmetric]
      split: shard_algorithm.splits)

lemma check_shard_names_Ok:
  "check_shard_names n seen ss = Ok u \<longleftrightarrow>
     distinct (map ep_name ss) \<and> set seen \<inter> ep_name ` set ss = {}"
  by (induction n seen ss rule: check_shard_names.induct) auto

text \<open>A valid table has proper names, at least one shard, distinct shard names and a fitting algorithm.\<close>

definition table_ok :: "shard_table \<Rightarrow> bool" where
  "table_ok t \<longleftrightarrow> str_trim (tbl_name t) \<noteq> [] \<and> str_trim (tbl_key t) \<noteq> [] \<and> str_trim (tbl_pk t) \<noteq> [] \<and>
     tbl_shards t \<noteq> [] \<and> distinct (map ep_name (tbl_shards t)) \<and> algorithm_ok t"

lemma validate_tables_Ok:
  "validate_tables seen ts = Ok u \<longleftrightarrow>
     (\<forall>t \<in> set ts. table_ok t) \<and> distinct (map tbl_name ts) \<and> set seen \<inter> tbl_name ` set ts = {}"
proof (induction seen ts rule: validate_tables.induct)
  case (2 seen t ts)
  then show ?case
    by (auto simp: try_bind_Inr_iff check_shard_names_Ok check_algorithm_Ok table_ok_def)
qed simp

lemma validate_Ok:
  "validate c = Ok u \<longleftrightarrow> (\<forall>t \<in> set (cat_tables c). table_ok t) \<and> distinct (map tbl_name (cat_tables c))"
  by (simp add: validate_def validate_tables_Ok)

lemma validate_clients_Ok:
  "validate_clients c clients = Ok u \<longleftrightarrow>
     (\<forall>t \<in> set (cat_tables c). \<forall>s \<in> set (tbl_shards t). clients (ep_name s) \<noteq> None)"
  by (auto simp: validate_clients_def for_each_Inr_iff)

lemma catalog_table_Ok:
  assumes "distinct (map tbl_name (cat_tables c))"
  shows "catalog_table c n = Ok t \<longleftrightarrow> t \<in> set (cat_tables c) \<and> tbl_name t = n"
proof -
  have "find (\<lambda>t. tbl_name t = n) ts = Some t \<longleftrightarrow> t \<in> set ts \<and> tbl_name t = n"
    if "distinct (map tbl_name ts)" for ts
    using that by (induction ts) auto
  with assms show ?thesis by (simp add: catalog_table_def ok_or_Inr_iff)
qed


lemma partition_point_le: "partition_point P xs \<le> length xs"
  by (simp add: partition_point_def length_takeWhile_le)

lemma unat_mod_shards:
  assumes "n \<noteq> (0 :: u32)"
  shows "unat ((h :: u64) mod ucast n) < unat n"
proof -
  have "unat n < 2 ^ 32" using unsigned_less [of n, where ?'a = nat] by simp
  then have "unat (ucast n :: u64) = unat n" by (simp add: unsigned_ucast_eq take_bit_eq_mod)
  moreover have "unat n \<noteq> 0" using assms by (simp add: unat_eq_0)
  ultimately show ?thesis by (simp add: unat_mod_distrib)
qed

section \<open>The router's invariant\<close>

definition router_init :: "'c shard_router \<Rightarrow> bool" where
  "router_init r \<longleftrightarrow> (\<exists>c clients. router_new c clients = Ok r)"

definition router_step :: "'c shard_router \<Rightarrow> 'c shard_router \<Rightarrow> bool" where
  "router_step r r' \<longleftrightarrow> (\<exists>c. r' = snd (router_reload c r))"

definition router_ok :: "'c shard_router \<Rightarrow> bool" where
  "router_ok r \<longleftrightarrow> validate (rt_catalog r) = Ok () \<and> validate_clients (rt_catalog r) (rt_clients r) = Ok ()"

lemma router_new_ok: "router_new c clients = Ok r \<Longrightarrow> router_ok r"
  by (auto simp: router_new_def router_ok_def try_bind_Inr_iff)

lemma router_reload_cases:
  "router_reload c r = (Ok (), r\<lparr>rt_catalog := c\<rparr>) \<and> validate c = Ok () \<and> validate_clients c (rt_clients r) = Ok () \<or>
   (\<exists>e. router_reload c r = (Err e, r))"
  by (cases "validate c"; cases "validate_clients c (rt_clients r)") (auto simp: router_reload_def act_bind_def)

lemma router_reload_ok: "router_ok r \<Longrightarrow> router_ok (snd (router_reload c r))"
  using router_reload_cases [of c r] by (auto simp: router_ok_def)

interpretation router: inductive_invariant router_init router_step router_ok
  by unfold_locales (auto simp: router_init_def router_step_def intro: router_new_ok router_reload_ok)

lemma shard_for_bound:
  assumes "validate c = Ok ()" "catalog_table c table = Ok t" "shard_for J c table key = Ok i"
  shows "i < length (tbl_shards t)"
proof -
  have "table_ok t" using assms(1,2) by (auto simp: validate_Ok catalog_table_Ok)
  then have a: "algorithm_ok t" by (simp add: table_ok_def)
  show ?thesis
  proof (cases "tbl_algorithm t")
    case (HashMod n)
    then show ?thesis
      using a assms(2,3) unat_mod_shards [of n] by (auto simp: shard_for_def algorithm_ok_def try_bind_Inr_iff split: if_splits)
  next
    case (RangeBoundaries bs)
    then show ?thesis
      using a assms(2,3) partition_point_le [of _ bs]
      by (auto simp: shard_for_def algorithm_ok_def try_bind_Inr_iff less_Suc_eq_le split: if_splits option.splits)
        (metis Suc_leI le_imp_less_Suc partition_point_le)+
  qed
qed

section \<open>Member order does not matter\<close>

text \<open>Two values that differ in the order of object members only, at any depth.\<close>

inductive json_same :: "json_value \<Rightarrow> json_value \<Rightarrow> bool" where
  same_refl: "json_same v v"
| same_array: "list_all2 json_same xs ys \<Longrightarrow> json_same (JArray xs) (JArray ys)"
| same_object: "distinct (map fst ms) \<Longrightarrow> mset ps = mset ms \<Longrightarrow>
    list_all2 (\<lambda>kv kw. fst kv = fst kw \<and> json_same (snd kv) (snd kw)) ps ns \<Longrightarrow> json_same (JObject ms) (JObject ns)"

lemma sort_key_map_snd:
  "sort_key fst (map (\<lambda>kv. (fst kv, f (snd kv))) xs) = map (\<lambda>kv. (fst kv, f (snd kv))) (sort_key fst xs)"
proof (induction xs)
  case (Cons x xs)
  have "insort_key fst (fst x, f (snd x)) (map (\<lambda>kv. (fst kv, f (snd kv))) ys)
      = map (\<lambda>kv. (fst kv, f (snd kv))) (insort_key fst x ys)" for ys
    by (induction ys) auto
  then show ?case using Cons by simp
qed simp

lemma sort_key_same_keys:
  assumes "distinct (map fst ms)" "mset ps = mset ms"
  shows "sort_key fst ps = sort_key fst ms"
proof (rule sort_key_inj_key_eq)
  show "mset ps = mset (sort_key fst ms)" using assms(2) by simp
  have "distinct (map fst ps)" using assms by (metis mset_map distinct_count_atmost_1 mset_eq_imp_distinct_iff)
  then show "inj_on fst (set ps)" by (simp add: distinct_map)
  show "sorted (map fst (sort_key fst ms))" by simp
qed

lemma write_canonical_object:
  "write_canonical J (JObject ms) = ''{'' @ str_join '','' (map (\<lambda>kt. string_text J (fst kt) @ '':'' @ snd kt)
     (sort_key fst (map (\<lambda>kv. (fst kv, write_canonical J (snd kv))) ms))) @ ''}''"
  unfolding sort_key_map_snd by (simp add: comp_def)

lemma write_canonical_same: "json_same v w \<Longrightarrow> write_canonical J v = write_canonical J w"
proof (induction rule: json_same.induct)
  case (same_array xs ys)
  then have "map (write_canonical J) xs = map (write_canonical J) ys"
    by (induction rule: list_all2_induct) auto
  then show ?case by simp
next
  case (same_object ms ps ns)
  have "map (\<lambda>kv. (fst kv, write_canonical J (snd kv))) ps = map (\<lambda>kv. (fst kv, write_canonical J (snd kv))) ns"
    using same_object(3) by (induction rule: list_all2_induct) auto
  moreover have "sort_key fst (map (\<lambda>kv. (fst kv, write_canonical J (snd kv))) ms)
      = sort_key fst (map (\<lambda>kv. (fst kv, write_canonical J (snd kv))) ps)"
    by (simp add: sort_key_map_snd sort_key_same_keys [OF same_object(1,2)])
  ultimately show ?case unfolding write_canonical_object by simp
qed simp

section \<open>Properties\<close>


text \<open>
  C17. A router built by \<^verbatim>\<open>new\<close>, after any sequence of reloads (accepted or refused): \<^verbatim>\<open>for_key\<close>
  never panics and never misses a client; it fails exactly when \<^verbatim>\<open>shard_for\<close> fails, and
  otherwise returns the client registered under the name of the shard that \<^verbatim>\<open>shard_for\<close> chose.
  A refused reload changes nothing.
\<close>

theorem router_never_misroutes:
  fixes r :: "'c shard_router"
  assumes "reachable_from router_init router_step r"
  shows "(case shard_for J (rt_catalog r) table key of
            Inl e \<Rightarrow> for_key J r table key = Some (Err e)
          | Inr i \<Rightarrow> \<exists>t client. catalog_table (rt_catalog r) table = Ok t \<and> i < length (tbl_shards t) \<and>
              rt_clients r (ep_name (tbl_shards t ! i)) = Some client \<and>
              for_key J r table key = Some (Ok \<lparr>kc_client = client, kc_table = table\<rparr>)) \<and>
         (\<forall>c. is_ok (fst (router_reload c r)) \<or> snd (router_reload c r) = r)"
proof -
  have ok: "router_ok r" using router.reachable_invar [OF assms] .
  have reload: "is_ok (fst (router_reload c r)) \<or> snd (router_reload c r) = r" for c
    using router_reload_cases [of c r] by auto
  show ?thesis
  proof (cases "shard_for J (rt_catalog r) table key")
    case (Inl e)
    then show ?thesis using reload by (simp add: for_key_def for_key_with_shard_def)
  next
    case (Inr i)
    then obtain t where t: "catalog_table (rt_catalog r) table = Ok t"
      by (auto simp: shard_for_def try_bind_Inr_iff)
    have val: "validate (rt_catalog r) = Ok ()" using ok by (simp add: router_ok_def)
    have i: "i < length (tbl_shards t)" by (rule shard_for_bound [OF val t Inr])
    have "t \<in> set (cat_tables (rt_catalog r))" using val t by (auto simp: validate_Ok catalog_table_Ok)
    then obtain client where "rt_clients r (ep_name (tbl_shards t ! i)) = Some client"
      using ok nth_mem [OF i] unfolding router_ok_def validate_clients_Ok by blast
    then show ?thesis using Inr t i reload by (simp add: for_key_def for_key_with_shard_def)
  qed
qed

text \<open>
  The hash of a key does not depend on the order in which the members of its objects, at any
  depth, were written, and so neither does the shard it is routed to.
\<close>

theorem hash_ignores_member_order:
  assumes "json_same v w"
  shows "stable_hash64 J v = stable_hash64 J w \<and> shard_for J c table v = shard_for J c table w"
proof -
  have same: "is_null v = is_null w" "as_i64 v = as_i64 w" "is_u64 v = is_u64 w"
    using assms by (cases; auto simp: is_null_def as_i64_def is_u64_def)+
  have hash: "stable_hash64 J v = stable_hash64 J w"
    using assms write_canonical_same [OF assms, of J] by (cases) (auto simp: stable_hash64_def)
  show ?thesis by (simp only: shard_for_def same hash)
qed

section \<open>Witnesses\<close>

definition example_text :: json_text where
  "example_text =
     \<lparr>number_text = (\<lambda>n. case n of PosInt k \<Rightarrow> dec_nat k | NegInt i \<Rightarrow> dec_int i | Float _ \<Rightarrow> ''0.0''),
      string_text = (\<lambda>s. CHR 0x22 # s @ [CHR 0x22])\<rparr>"

definition example_endpoint :: "string \<Rightarrow> shard_endpoint" where
  "example_endpoint n = \<lparr>ep_name = n, ep_url = None\<rparr>"

definition example_table :: shard_table where
  "example_table = \<lparr>tbl_name = ''orders'', tbl_key = ''user_id'', tbl_pk = ''id'',
     tbl_algorithm = RangeBoundaries [100, 200],
     tbl_shards = [example_endpoint ''s0'', example_endpoint ''s1'', example_endpoint ''s2'']\<rparr>"

definition example_catalog :: shard_catalog where
  "example_catalog = \<lparr>cat_tables = [example_table]\<rparr>"

definition example_clients :: "string \<rightharpoonup> nat" where
  "example_clients = [''s0'' \<mapsto> 0, ''s1'' \<mapsto> 1, ''s2'' \<mapsto> 2]"

lemma example_valid: "validate example_catalog = Ok ()" "catalog_table example_catalog ''orders'' = Ok example_table"
  by (simp_all add: example_catalog_def validate_def example_table_def example_endpoint_def str_trim_def is_space_def
      check_algorithm_def catalog_table_def)


theorem router_never_misroutes_witness:
  "let r = \<lparr>rt_catalog = example_catalog, rt_clients = example_clients\<rparr> in
   router_new example_catalog example_clients = Ok r \<and>
   for_key example_text r ''orders'' (json_int 250) = Some (Ok \<lparr>kc_client = 2, kc_table = ''orders''\<rparr>)"
proof -
  let ?r = "\<lparr>rt_catalog = example_catalog, rt_clients = example_clients\<rparr>"
  have new: "router_new example_catalog example_clients = Ok ?r"
    by (simp add: router_new_def example_valid(1) validate_clients_def example_clients_def) 
      (simp add: example_catalog_def example_table_def example_endpoint_def)
  have "reachable_from router_init router_step ?r"
    by (rule reach_init) (use new in \<open>auto simp: router_init_def\<close>)
  note key = router_never_misroutes [OF this, of example_text "''orders''" "json_int 250"]
  have s: "shard_for example_text example_catalog ''orders'' (json_int 250) = Ok 2"
    by (simp add: shard_for_def example_valid(2)) (simp add: example_table_def check_algorithm_def
      example_endpoint_def json_int_def is_null_def as_i64_def number_as_i64_def i64_max_def partition_point_def)
  have "for_key example_text ?r ''orders'' (json_int 250) = Some (Ok \<lparr>kc_client = 2, kc_table = ''orders''\<rparr>)"
    using key by (simp add: s example_valid(2)) (simp add: example_table_def example_endpoint_def example_clients_def numeral_eq_Suc)
  then show ?thesis using new by simp
qed

theorem hash_ignores_member_order_witness:
  "stable_hash64 example_text (JObject [(''b'', JNull), (''a'', JBool True)])
     = stable_hash64 example_text (JObject [(''a'', JBool True), (''b'', JNull)])"
proof -
  have "json_same (JObject [(''b'', JNull), (''a'', JBool True)]) (JObject [(''a'', JBool True), (''b'', JNull)])"
    by (rule same_object [where ps = "[(''a'', JBool True), (''b'', JNull)]"]) (auto intro: same_refl)
  from hash_ignores_member_order [OF this, of example_text example_catalog "''orders''"] show ?thesis by simp
qed

end
