(* ===== verification/Snowflake.thy ===== *)
theory Snowflake
  imports Catalog
begin

text \<open>
  The Snowflake generator of \<^verbatim>\<open>ecat-data-sharding/src/id.rs\<close>. One round of the loop of
  \<^verbatim>\<open>next_id\<close>, from the load of the state to the compare-and-swap, is \<open>next_id_round\<close>; the
  step relation \<open>snow_step\<close> interleaves the loads, clock readings and compare-and-swaps of any
  number of threads, and \<open>next_id\<close> is the call of a single thread on the clock readings it makes.
  The clock is the environment's. Its difference to the epoch wraps as in a build without
  overflow checks.
\<close>

unbundle bit_operations_syntax

section \<open>The generator (id.rs)\<close>

definition WORKER_BITS :: nat where "WORKER_BITS = 10"
definition MAX_WORKER_ID :: u64 where "MAX_WORKER_ID = push_bit WORKER_BITS 1 - 1"
definition SEQUENCE_BITS :: nat where "SEQUENCE_BITS = 12"
definition MAX_SEQUENCE :: u64 where "MAX_SEQUENCE = push_bit SEQUENCE_BITS 1 - 1"
definition MAX_TIMESTAMP :: int where "MAX_TIMESTAMP = push_bit 41 1 - 1"
definition STATE_UNSET :: u64 where "STATE_UNSET = - 1"

record snowflake =
  sf_worker_id :: u64
  sf_epoch_ms :: int
  sf_state :: u64

text \<open>The epoch is given by its \<^verbatim>\<open>unix_timestamp_nanos\<close>.\<close>

definition with_clock :: "u64 \<Rightarrow> int \<Rightarrow> (shard_error, snowflake) result" where
  "with_clock worker_id epoch_nanos =
     (if worker_id > MAX_WORKER_ID then Err IdOutOfRange
      else let epoch_ms = epoch_nanos div 1000000 in
        if \<not> is_i64 epoch_ms then Err IdOutOfRange
        else Ok \<lparr> sf_worker_id = worker_id, sf_epoch_ms = epoch_ms, sf_state = STATE_UNSET \<rparr>)"

definition compose_id :: "u64 \<Rightarrow> u64 \<Rightarrow> u64 \<Rightarrow> int" where
  "compose_id timestamp worker_id sequence =
     sint ((push_bit (WORKER_BITS + SEQUENCE_BITS) timestamp OR push_bit SEQUENCE_BITS worker_id) OR sequence)"

text \<open>What one round leads to: an error, another round, or a compare-and-swap of the loaded
  state against a new one for a timestamp and a sequence number.\<close>

datatype id_round = RoundErr shard_error | RoundAgain | RoundSwap u64 int u64

definition i64_wrap :: "int \<Rightarrow> int" where
  "i64_wrap x = sint (word_of_int x :: u64)"

definition next_id_round :: "snowflake \<Rightarrow> u64 \<Rightarrow> int \<Rightarrow> id_round" where
  "next_id_round sf state clock =
     (let now = i64_wrap (clock - sf_epoch_ms sf);
          last_ms = (if state = STATE_UNSET then None else Some (sint (drop_bit SEQUENCE_BITS state)))
      in if (case last_ms of None \<Rightarrow> False | Some lst \<Rightarrow> now < lst) then RoundErr ClockRollback
         else if \<not> (0 \<le> now \<and> now \<le> MAX_TIMESTAMP) then RoundErr IdOutOfRange
         else if last_ms = Some now then
           (let sequence = state AND MAX_SEQUENCE in
            if sequence = MAX_SEQUENCE then RoundAgain
            else RoundSwap (push_bit SEQUENCE_BITS (word_of_int now) OR (sequence + 1)) now (sequence + 1))
         else RoundSwap (push_bit SEQUENCE_BITS (word_of_int now) OR 0) now 0)"

text \<open>A call that no other thread disturbs, on the clock readings of its rounds: \<open>None\<close> when
  it has not returned after the last of them.\<close>

fun next_id :: "snowflake \<Rightarrow> int list \<Rightarrow> ((shard_error, int) result \<times> snowflake) option" where
  "next_id sf [] = None"
| "next_id sf (clock # clocks) =
     (case next_id_round sf (sf_state sf) clock of
        RoundErr e \<Rightarrow> Some (Err e, sf)
      | RoundAgain \<Rightarrow> next_id sf clocks
      | RoundSwap nxt now sequence \<Rightarrow>
          Some (Ok (compose_id (word_of_int now) (sf_worker_id sf) sequence), sf\<lparr>sf_state := nxt\<rparr>))"

text \<open>
  Threads of one generator: outside a call, at the head of the loop, with a loaded state, or
  about to swap. \<open>ss_returned\<close> lists the results of the finished calls in the order in which
  they were decided.
\<close>

datatype snow_pc = Outside | LoopHead | Loaded u64 | Swapping u64 u64 int u64

record snow_sys =
  ss_gen :: snowflake
  ss_clock :: int
  ss_pc :: "nat \<Rightarrow> snow_pc"
  ss_returned :: "(shard_error, int) result list"

definition snow_return :: "nat \<Rightarrow> (shard_error, int) result \<Rightarrow> snow_sys \<Rightarrow> snow_sys" where
  "snow_return t r sys = sys\<lparr>ss_pc := (ss_pc sys)(t := Outside), ss_returned := ss_returned sys @ [r]\<rparr>"

definition snow_goto :: "nat \<Rightarrow> snow_pc \<Rightarrow> snow_sys \<Rightarrow> snow_sys" where
  "snow_goto t pc sys = sys\<lparr>ss_pc := (ss_pc sys)(t := pc)\<rparr>"

text \<open>The clock reading that ends the first half of a round.\<close>

definition snow_read :: "nat \<Rightarrow> u64 \<Rightarrow> snow_sys \<Rightarrow> snow_sys" where
  "snow_read t state sys =
     (case next_id_round (ss_gen sys) state (ss_clock sys) of
        RoundErr e \<Rightarrow> snow_return t (Err e) sys
      | RoundAgain \<Rightarrow> snow_goto t LoopHead sys
      | RoundSwap nxt now sequence \<Rightarrow> snow_goto t (Swapping state nxt now sequence) sys)"

definition snow_swap :: "nat \<Rightarrow> u64 \<Rightarrow> u64 \<Rightarrow> int \<Rightarrow> u64 \<Rightarrow> snow_sys \<Rightarrow> snow_sys" where
  "snow_swap t state nxt now sequence sys =
     (if sf_state (ss_gen sys) = state
      then snow_return t (Ok (compose_id (word_of_int now) (sf_worker_id (ss_gen sys)) sequence))
             (sys\<lparr>ss_gen := (ss_gen sys)\<lparr>sf_state := nxt\<rparr>\<rparr>)
      else snow_goto t LoopHead sys)"

inductive snow_step :: "(int \<Rightarrow> int \<Rightarrow> bool) \<Rightarrow> snow_sys \<Rightarrow> snow_sys \<Rightarrow> bool" for tick where
  snow_tick: "tick (ss_clock sys) c \<Longrightarrow> snow_step tick sys (sys\<lparr>ss_clock := c\<rparr>)"
| snow_call: "ss_pc sys t = Outside \<Longrightarrow> snow_step tick sys (snow_goto t LoopHead sys)"
| snow_load: "ss_pc sys t = LoopHead \<Longrightarrow> snow_step tick sys (snow_goto t (Loaded (sf_state (ss_gen sys))) sys)"
| snow_clock: "ss_pc sys t = Loaded state \<Longrightarrow> snow_step tick sys (snow_read t state sys)"
| snow_cas: "ss_pc sys t = Swapping state nxt now sequence \<Longrightarrow>
     snow_step tick sys (snow_swap t state nxt now sequence sys)"

text \<open>A generator as \<^verbatim>\<open>with_clock\<close> makes it, before the first call.\<close>

definition snow_init :: "u64 \<Rightarrow> int \<Rightarrow> int \<Rightarrow> snow_sys \<Rightarrow> bool" where
  "snow_init worker_id epoch_nanos clock sys \<longleftrightarrow>
     (case with_clock worker_id epoch_nanos of
        Inl e \<Rightarrow> False
      | Inr sf \<Rightarrow> sys = \<lparr> ss_gen = sf, ss_clock = clock, ss_pc = (\<lambda>_. Outside), ss_returned = [] \<rparr>)"

text \<open>A clock that never runs backwards and whose distance to the epoch is an \<^verbatim>\<open>i64\<close>.\<close>

definition steady_clock :: "int \<Rightarrow> int \<Rightarrow> int \<Rightarrow> bool" where
  "steady_clock epoch_nanos c c' \<longleftrightarrow> c \<le> c' \<and> is_i64 (c' - epoch_nanos div 1000000)"

text \<open>The identifiers handed out, and the worker bits of one.\<close>

fun issued :: "(shard_error, int) result list \<Rightarrow> int list" where
  "issued [] = []"
| "issued (Inr i # rs) = i # issued rs"
| "issued (Inl e # rs) = issued rs"

definition id_worker :: "int \<Rightarrow> int" where
  "id_worker i = (i div 4096) mod 1024"

section \<open>Bit layout\<close>

lemma snow_consts:
  "MAX_WORKER_ID = 1023" "MAX_SEQUENCE = 4095" "MAX_TIMESTAMP = 2199023255551" "WORKER_BITS = 10" "SEQUENCE_BITS = 12"
  by (simp_all add: MAX_WORKER_ID_def MAX_SEQUENCE_def MAX_TIMESTAMP_def WORKER_BITS_def SEQUENCE_BITS_def)

lemma or_push_int:
  fixes x s :: int
  assumes "0 \<le> s" "s < 2 ^ n"
  shows "push_bit n x OR s = x * 2 ^ n + s"
proof -
  have "take_bit n s = s" using assms by (simp add: take_bit_int_eq_self)
  then have nb: "\<not> bit s m" if "n \<le> m" for m using that by (metis bit_take_bit_iff leD)
  have "push_bit n x OR s = push_bit n x + s"
    by (rule disjunctive_add_eq_or [symmetric]) (auto intro!: bit_eqI simp: bit_simps dest: nb)
  then show ?thesis by (simp add: push_bit_eq_mult)
qed

lemma uint_or_push:
  fixes x s :: u64
  assumes "uint x < 2 ^ k" "uint s < 2 ^ n" "k + n \<le> 64"
  shows "uint (push_bit n x OR s) = uint x * 2 ^ n + uint s"
proof -
  have "uint x * 2 ^ n < 2 ^ k * 2 ^ n" using assms(1) by simp
  also have "\<dots> \<le> (2 :: int) ^ 64" unfolding power_add [symmetric] using assms(3) by (rule power_increasing) simp
  finally have "take_bit 64 (push_bit n (uint x)) = push_bit n (uint x)"
    by (intro take_bit_int_eq_self) (auto simp: push_bit_eq_mult)
  then show ?thesis using or_push_int [of "uint s" n "uint x"] assms(2)
    by (simp add: unsigned_or_eq unsigned_push_bit_eq)
qed

lemma sint_small: "uint (x :: u64) < 2 ^ 63 \<Longrightarrow> sint x = uint x"
  by (subst sint_uint, intro signed_take_bit_int_eq_self) (simp_all add: order_trans [OF _ uint_ge_0])

lemma compose_id_value:
  assumes "uint ts < 2 ^ 41" "uint w < 2 ^ 10" "uint s < 2 ^ 12"
  shows "compose_id ts w s = uint ts * 2 ^ 22 + uint w * 2 ^ 12 + uint s"
proof -
  have "push_bit 22 ts OR push_bit 12 w = push_bit 12 (push_bit 10 ts OR w)"
    by (simp add: push_bit_or)
  moreover have hi: "uint (push_bit 10 ts OR w) = uint ts * 2 ^ 10 + uint w"
    using uint_or_push [OF assms(1,2)] by simp
  moreover have "uint (push_bit 10 ts OR w) < 2 ^ 51" unfolding hi using assms by simp
  ultimately have "uint ((push_bit 22 ts OR push_bit 12 w) OR s) = uint ts * 2 ^ 22 + uint w * 2 ^ 12 + uint s"
    using uint_or_push [of "push_bit 10 ts OR w" 51 s 12] assms(3) by (simp add: algebra_simps)
  then show ?thesis using assms by (simp add: compose_id_def snow_consts sint_small)
qed

text \<open>A packed state is the number \<open>ms * 4096 + sequence\<close>; \<open>id_of\<close> is the identifier it stands for.\<close>

definition state_ok :: "u64 \<Rightarrow> bool" where
  "state_ok s \<longleftrightarrow> s = STATE_UNSET \<or> uint s < 2 ^ 53"

definition id_of :: "int \<Rightarrow> int \<Rightarrow> int" where
  "id_of w p = p div 4096 * 2 ^ 22 + w * 4096 + p mod 4096"

lemma id_of_mono:
  assumes "p < q"
  shows "id_of w p < id_of w q"
proof -
  have "a * 2 ^ 22 + w * 4096 + r < b * 2 ^ 22 + w * 4096 + s"
    if lt: "a * 4096 + r < b * 4096 + s" and rs: "0 \<le> r" "r < 4096" "0 \<le> s" "s < 4096" for a b r s :: int
  proof -
    consider "a = b" | "a + 1 \<le> b" using lt rs by linarith
    then show ?thesis using lt rs by cases simp_all
  qed
  from this [of "p div 4096" "p mod 4096" "q div 4096" "q mod 4096"] assms show ?thesis by (simp add: id_of_def)
qed

lemma id_of_bounds:
  assumes "0 \<le> p" "p < 2 ^ 53" "0 \<le> w" "w < 1024"
  shows "0 \<le> id_of w p" "id_of w p \<le> i64_max" "id_worker (id_of w p) = w"
proof -
  have m: "0 \<le> p mod 4096" "p mod 4096 < 4096" by simp_all
  have d: "0 \<le> p div 4096" using assms(1) by (simp add: pos_imp_zdiv_nonneg_iff)
  have "p div 4096 < 2 ^ 41" using assms(2) by simp
  then show "0 \<le> id_of w p" "id_of w p \<le> i64_max" using m d assms by (simp_all add: id_of_def i64_max_def)
  have "id_of w p = (p div 4096 * 1024 + w) * 4096 + p mod 4096" by (simp add: id_of_def)
  then have "id_of w p div 4096 = p div 4096 * 1024 + w" by simp
  then show "id_worker (id_of w p) = w" using assms(3,4) by (simp add: id_worker_def)
qed

lemma state_fields:
  "sint (drop_bit 12 (s :: u64)) = uint s div 4096" "uint (s AND 4095) = uint s mod 4096"
proof -
  have d: "uint (drop_bit 12 s) = uint s div 4096" by (simp add: uint_div drop_bit_eq_div)
  have "uint s < 2 ^ 64" by (rule order_less_le_trans [OF uint_lt2p]) simp
  then have "uint s div 4096 < 2 ^ 63" by simp
  then show "sint (drop_bit 12 s) = uint s div 4096" using d by (simp add: sint_small)
  have "s AND 4095 = take_bit 12 s" by (simp add: take_bit_eq_mask mask_eq_exp_minus_1)
  then show "uint (s AND 4095) = uint s mod 4096" by (simp add: uint_mod take_bit_eq_mod)
qed

definition swap_ok :: "u64 \<Rightarrow> u64 \<Rightarrow> u64 \<Rightarrow> int \<Rightarrow> u64 \<Rightarrow> bool" where
  "swap_ok w s nxt now sq \<longleftrightarrow>
     uint nxt < 2 ^ 53 \<and> uint nxt div 4096 = now \<and> (s \<noteq> STATE_UNSET \<longrightarrow> uint s < uint nxt) \<and>
     compose_id (word_of_int now) w sq = id_of (uint w) (uint nxt)"

lemma pack_fields:
  assumes "0 \<le> now" "now \<le> MAX_TIMESTAMP" "uint sq < 4096" "uint w < 1024"
  shows "uint (push_bit 12 (word_of_int now) OR sq :: u64) = now * 4096 + uint sq"
    "compose_id (word_of_int now) w sq = id_of (uint w) (now * 4096 + uint sq)"
proof -
  have n: "uint (word_of_int now :: u64) = now" "now < 2 ^ 41"
    using assms(1,2) by (simp_all add: snow_consts uint_word_of_int)
  then show "uint (push_bit 12 (word_of_int now) OR sq :: u64) = now * 4096 + uint sq"
    using uint_or_push [of "word_of_int now" 41 sq 12] assms(3) by simp
  show "compose_id (word_of_int now) w sq = id_of (uint w) (now * 4096 + uint sq)"
    using compose_id_value [of "word_of_int now" w sq] n assms(3,4) by (simp add: id_of_def)
qed

lemma next_id_round_swap:
  assumes r: "next_id_round sf s c = RoundSwap nxt now sq"
    and w: "uint (sf_worker_id sf) < 1024" and s: "state_ok s"
  shows "swap_ok (sf_worker_id sf) s nxt now sq" "now = i64_wrap (c - sf_epoch_ms sf)"
proof -
  have now: "0 \<le> now" "now \<le> MAX_TIMESTAMP" and eq: "now = i64_wrap (c - sf_epoch_ms sf)"
    using r by (auto simp: next_id_round_def Let_def split: if_splits)
  have step: "uint sq < 4096 \<and> nxt = push_bit 12 (word_of_int now) OR sq \<and>
    (s \<noteq> STATE_UNSET \<longrightarrow> uint s < now * 4096 + uint sq)"
  proof (cases "s \<noteq> STATE_UNSET \<and> uint s div 4096 = now")
    case True
    then have sq: "sq = (s AND 4095) + 1" "s AND 4095 \<noteq> 4095" "nxt = push_bit 12 (word_of_int now) OR sq"
      using r by (auto simp: next_id_round_def Let_def snow_consts state_fields split: if_splits)
    have "uint (s AND 4095) < 4096" by (simp add: state_fields)
    moreover have "uint (s AND 4095) \<noteq> 4095" using sq(2) by (simp add: word_uint_eq_iff)
    ultimately have "uint (s AND 4095) < 4095" by simp
    then have "uint sq = uint s mod 4096 + 1" by (simp add: sq(1) uint_plus_if' state_fields)
    moreover have "uint s = now * 4096 + uint s mod 4096" using True by auto
    ultimately show ?thesis using sq(3) \<open>uint (s AND 4095) < 4095\<close> by (simp add: state_fields)
  next
    case False
    then have "sq = 0" "nxt = push_bit 12 (word_of_int now) OR sq"
      "s \<noteq> STATE_UNSET \<longrightarrow> uint s div 4096 < now"
      using r eq by (auto simp: next_id_round_def Let_def snow_consts state_fields split: if_splits)
    moreover have "uint s < now * 4096" if "uint s div 4096 < now" using that by linarith
    ultimately show ?thesis by auto
  qed
  then have "uint nxt = now * 4096 + uint sq" using pack_fields(1) [OF now _ w] by simp
  then show "swap_ok (sf_worker_id sf) s nxt now sq"
    using step now pack_fields(2) [OF now _ w] by (auto simp: swap_ok_def snow_consts)
  show "now = i64_wrap (c - sf_epoch_ms sf)" by (rule eq)
qed

section \<open>Every interleaving hands out increasing identifiers\<close>

lemma issued_snoc [simp]: "issued (rs @ [Inr i]) = issued rs @ [i]" "issued (rs @ [Inl e]) = issued rs"
  by (induction rs rule: issued.induct) simp_all

fun pc_ok :: "u64 \<Rightarrow> snow_pc \<Rightarrow> bool" where
  "pc_ok w (Loaded s) \<longleftrightarrow> state_ok s"
| "pc_ok w (Swapping s nxt now sq) \<longleftrightarrow> swap_ok w s nxt now sq"
| "pc_ok w _ \<longleftrightarrow> True"

text \<open>\<open>ps\<close>: the states published so far, the last of them being the current one.\<close>

definition published :: "snow_sys \<Rightarrow> int list \<Rightarrow> bool" where
  "published sys ps \<longleftrightarrow>
     issued (ss_returned sys) = map (id_of (uint (sf_worker_id (ss_gen sys)))) ps \<and> sorted_wrt (<) ps \<and>
     (\<forall>p \<in> set ps. 0 \<le> p \<and> p < 2 ^ 53) \<and>
     (if ps = [] then sf_state (ss_gen sys) = STATE_UNSET else uint (sf_state (ss_gen sys)) = last ps)"

definition snow_inv :: "snowflake \<Rightarrow> snow_sys \<Rightarrow> bool" where
  [inv_defs]: "snow_inv sf sys \<longleftrightarrow>
     sf_worker_id (ss_gen sys) = sf_worker_id sf \<and> sf_epoch_ms (ss_gen sys) = sf_epoch_ms sf \<and>
     uint (sf_worker_id sf) < 1024 \<and> (\<exists>ps. published sys ps) \<and> (\<forall>t. pc_ok (sf_worker_id sf) (ss_pc sys t))"

lemma state_unset_max: "uint STATE_UNSET = 18446744073709551615"
  by (simp add: STATE_UNSET_def unsigned_minus_1_eq_mask mask_eq_exp_minus_1)

lemma published_state_ok: "published sys ps \<Longrightarrow> state_ok (sf_state (ss_gen sys))"
  by (auto simp: published_def state_ok_def split: if_splits)

lemma published_cong:
  "ss_gen sys' = ss_gen sys \<Longrightarrow> issued (ss_returned sys') = issued (ss_returned sys) \<Longrightarrow>
   published sys' ps = published sys ps"
  by (simp add: published_def)

lemmas snow_defs = snow_goto_def snow_return_def

lemma snow_inv_goto: "snow_inv sf sys \<Longrightarrow> pc_ok (sf_worker_id sf) pc \<Longrightarrow> snow_inv sf (snow_goto t pc sys)"
  by (auto simp: snow_inv_def snow_defs published_def)

lemma snow_inv_err: "snow_inv sf sys \<Longrightarrow> snow_inv sf (snow_return t (Err e) sys)"
  by (auto simp: snow_inv_def snow_defs published_def)

lemma snow_inv_state_ok: "snow_inv sf sys \<Longrightarrow> state_ok (sf_state (ss_gen sys))"
  by (auto simp: snow_inv_def dest: published_state_ok)

lemma snow_inv_read:
  assumes "snow_inv sf sys" "ss_pc sys t = Loaded s"
  shows "snow_inv sf (snow_read t s sys)"
proof -
  have s: "state_ok s" using assms unfolding snow_inv_def by (metis pc_ok.simps(1))
  have w: "sf_worker_id (ss_gen sys) = sf_worker_id sf" "uint (sf_worker_id sf) < 1024" using assms(1) by (auto simp: snow_inv_def)
  show ?thesis
    using assms(1) next_id_round_swap(1) [of "ss_gen sys" s "ss_clock sys"] s w
    by (auto simp: snow_read_def snow_inv_err snow_inv_goto split: id_round.split)
qed

lemma published_swap:
  assumes "published sys ps" "sf_state (ss_gen sys) = s" "swap_ok (sf_worker_id (ss_gen sys)) s nxt now sq"
  shows "published (snow_swap t s nxt now sq sys) (ps @ [uint nxt])"
proof -
  have "p < uint nxt" if p: "p \<in> set ps" for p
  proof -
    have ne: "ps \<noteq> []" using p by auto
    then have l: "uint s = last ps" "last ps \<in> set ps" using assms(1,2) by (auto simp: published_def)
    then have "uint s < 2 ^ 53" using assms(1) by (auto simp: published_def)
    then have "s \<noteq> STATE_UNSET" by (auto simp: state_unset_max)
    then have "last ps < uint nxt" using assms(3) l by (auto simp: swap_ok_def)
    moreover have "p \<le> last ps"
      using assms(1) p ne by (cases ps rule: rev_cases) (auto simp: published_def sorted_wrt_append less_imp_le)
    ultimately show ?thesis by simp
  qed
  then show ?thesis using assms
    by (auto simp: published_def snow_swap_def snow_defs sorted_wrt_append swap_ok_def)
qed

lemma snow_inv_swap:
  assumes "snow_inv sf sys" "ss_pc sys t = Swapping s nxt now sq"
  shows "snow_inv sf (snow_swap t s nxt now sq sys)"
proof (cases "sf_state (ss_gen sys) = s")
  case True
  have sw: "swap_ok (sf_worker_id sf) s nxt now sq" using assms unfolding snow_inv_def by (metis pc_ok.simps(2))
  moreover obtain ps where "published sys ps" using assms(1) by (auto simp: snow_inv_def)
  ultimately have "published (snow_swap t s nxt now sq sys) (ps @ [uint nxt])"
    using published_swap True assms(1) by (auto simp: snow_inv_def)
  then show ?thesis using assms(1) True by (auto simp: snow_inv_def snow_swap_def snow_defs)
next
  case False
  then show ?thesis using assms(1) by (simp add: snow_swap_def snow_inv_goto)
qed

lemma snow_inv_step:
  assumes "snow_inv sf sys" "snow_step tick sys sys'"
  shows "snow_inv sf sys'"
  using assms(2)
proof cases
  case (snow_tick c)
  then show ?thesis using assms(1) by (auto simp: snow_inv_def published_def)
qed (use assms(1) in \<open>auto intro!: snow_inv_goto snow_inv_read snow_inv_swap simp: snow_inv_state_ok\<close>)

lemma with_clock_fields:
  "with_clock w e = Ok sf \<Longrightarrow> sf = \<lparr> sf_worker_id = w, sf_epoch_ms = e div 1000000, sf_state = STATE_UNSET \<rparr> \<and> uint w < 1024"
  by (auto simp: with_clock_def Let_def snow_consts word_le_def not_less split: if_splits)

definition snow_invar :: "u64 \<Rightarrow> int \<Rightarrow> snow_sys \<Rightarrow> bool" where
  [inv_defs]: "snow_invar w e sys \<longleftrightarrow> (\<exists>sf. with_clock w e = Ok sf \<and> snow_inv sf sys)"

interpretation snow: inductive_invariant "snow_init w e c" "snow_step tick" "snow_invar w e" for w e c tick
proof
  show "snow_invar w e s" if "snow_init w e c s" for s
    using that with_clock_fields [of w e]
    by (auto simp: snow_invar_def snow_inv_def snow_init_def published_def split: sum.splits)
qed (auto simp: snow_invar_def intro: snow_inv_step)

text \<open>A worker's identifiers are positive, carry its number, and grow in the order of the swaps.\<close>

lemma snow_inv_issued:
  assumes "snow_invar w e sys"
  shows "sorted_wrt (<) (issued (ss_returned sys))"
    "i \<in> set (issued (ss_returned sys)) \<Longrightarrow> 0 \<le> i \<and> i \<le> i64_max \<and> id_worker i = uint w"
proof -
  obtain sf ps where "with_clock w e = Ok sf" "snow_inv sf sys" and p: "published sys ps"
    using assms by (auto simp: snow_invar_def snow_inv_def)
  then have w: "sf_worker_id (ss_gen sys) = w" "uint w < 1024"
    using with_clock_fields [of w e sf] by (auto simp: snow_inv_def)
  then show "sorted_wrt (<) (issued (ss_returned sys))"
    using p by (auto simp: published_def sorted_wrt_map intro: sorted_wrt_mono_rel id_of_mono)
  show "0 \<le> i \<and> i \<le> i64_max \<and> id_worker i = uint w" if "i \<in> set (issued (ss_returned sys))"
    using that p w by (auto simp: published_def intro!: id_of_bounds)
qed

section \<open>A steady clock is never taken for one that ran backwards\<close>

definition behind :: "int \<Rightarrow> u64 \<Rightarrow> bool" where
  "behind d s \<longleftrightarrow> s \<noteq> STATE_UNSET \<longrightarrow> uint s div 4096 \<le> d"

fun pc_behind :: "int \<Rightarrow> snow_pc \<Rightarrow> bool" where
  "pc_behind d (Loaded s) \<longleftrightarrow> behind d s"
| "pc_behind d (Swapping s nxt now sq) \<longleftrightarrow> behind d nxt"
| "pc_behind d _ \<longleftrightarrow> True"

definition rollback_free :: "int \<Rightarrow> snow_sys \<Rightarrow> bool" where
  [inv_defs]: "rollback_free e sys \<longleftrightarrow>
     is_i64 (ss_clock sys - e div 1000000) \<and> behind (ss_clock sys - e div 1000000) (sf_state (ss_gen sys)) \<and>
     (\<forall>t. pc_behind (ss_clock sys - e div 1000000) (ss_pc sys t)) \<and> Err ClockRollback \<notin> set (ss_returned sys)"

lemma i64_wrap_id: "is_i64 x \<Longrightarrow> i64_wrap x = x"
  by (simp add: i64_wrap_def is_i64_def i64_min_def i64_max_def signed_take_bit_int_eq_self signed_of_int)

lemma pc_behind_mono: "pc_behind d pc \<Longrightarrow> d \<le> d' \<Longrightarrow> pc_behind d' pc"
  by (cases pc) (auto simp: behind_def)

lemma rollback_free_state: "rollback_free e sys \<Longrightarrow> behind (ss_clock sys - e div 1000000) (sf_state (ss_gen sys))"
  by (simp add: rollback_free_def)

lemma rollback_free_goto:
  "rollback_free e sys \<Longrightarrow> pc_behind (ss_clock sys - e div 1000000) pc \<Longrightarrow> rollback_free e (snow_goto t pc sys)"
  by (simp add: rollback_free_def snow_defs)

lemma rollback_free_read:
  assumes inv: "snow_invar w e sys" and free: "rollback_free e sys" and pc: "ss_pc sys t = Loaded s"
  shows "rollback_free e (snow_read t s sys)"
proof -
  obtain sf where sf: "with_clock w e = Ok sf" "snow_inv sf sys" using inv by (auto simp: snow_invar_def)
  then have w: "sf_epoch_ms (ss_gen sys) = e div 1000000" "uint (sf_worker_id (ss_gen sys)) < 1024" "state_ok s"
    using with_clock_fields [of w e sf] pc unfolding snow_inv_def by (auto, metis pc_ok.simps(1))
  have b: "behind (ss_clock sys - e div 1000000) s" "is_i64 (ss_clock sys - e div 1000000)"
    using free pc unfolding rollback_free_def by (metis pc_behind.simps(1), blast)
  then have "next_id_round (ss_gen sys) s (ss_clock sys) \<noteq> RoundErr ClockRollback"
    using w(1) by (auto simp: next_id_round_def Let_def behind_def i64_wrap_id snow_consts state_fields)
  moreover have "behind (ss_clock sys - e div 1000000) nxt"
    if "next_id_round (ss_gen sys) s (ss_clock sys) = RoundSwap nxt now sq" for nxt now sq
    using next_id_round_swap [OF that w(2,3)] w(1) b(2) by (auto simp: behind_def swap_ok_def i64_wrap_id)
  ultimately show ?thesis
    using free by (auto simp: snow_read_def rollback_free_def snow_defs split: id_round.split)
qed

lemma rollback_free_swap:
  assumes "rollback_free e sys" "ss_pc sys t = Swapping s nxt now sq"
  shows "rollback_free e (snow_swap t s nxt now sq sys)"
proof -
  have "behind (ss_clock sys - e div 1000000) nxt" using assms unfolding rollback_free_def by (metis pc_behind.simps(2))
  then show ?thesis using assms(1) by (auto simp: rollback_free_def snow_swap_def snow_defs)
qed

lemma rollback_free_step:
  assumes "snow_invar w e sys" "rollback_free e sys" "snow_step (steady_clock e) sys sys'"
  shows "rollback_free e sys'"
  using assms(3)
proof cases
  case (snow_tick c)
  then show ?thesis using assms(2)
    by (auto simp: rollback_free_def steady_clock_def behind_def intro: pc_behind_mono)
qed (use assms(1,2) in \<open>auto intro!: rollback_free_goto rollback_free_read rollback_free_swap simp: rollback_free_state\<close>)

interpretation steady: inductive_invariant
  "\<lambda>sys. is_i64 (c - e div 1000000) \<and> snow_init w e c sys" "snow_step (steady_clock e)"
  "\<lambda>sys. snow_invar w e sys \<and> rollback_free e sys" for w e c
proof
  show "snow_invar w e s \<and> rollback_free e s" if "is_i64 (c - e div 1000000) \<and> snow_init w e c s" for s
    using that snow.init_invar [of w e c s] with_clock_fields [of w e]
    by (auto simp: snow_init_def rollback_free_def behind_def split: sum.splits)
qed (auto intro: snow.step_invar rollback_free_step)

text \<open>A call of \<open>next_id\<close> by a thread that is alone is a run of the step relation.\<close>

lemma next_id_is_run:
  assumes reach: "reachable_from is_init (snow_step tick) sys" and out: "ss_pc sys t = Outside"
    and r: "next_id (ss_gen sys) [ss_clock sys] = Some (r, sf')"
  shows "reachable_from is_init (snow_step tick) (sys\<lparr>ss_gen := sf', ss_returned := ss_returned sys @ [r]\<rparr>)"
proof -
  let ?load = "snow_goto t (Loaded (sf_state (ss_gen sys))) sys"
  have out_again: "(ss_pc sys)(t := Outside) = ss_pc sys" using out by auto
  have "reachable_from is_init (snow_step tick) (snow_goto t LoopHead sys)"
    using reach_step [OF reach snow_call [OF out]] .
  from reach_step [OF this snow_load [of _ t]] have l: "reachable_from is_init (snow_step tick) ?load"
    by (simp add: snow_defs)
  from reach_step [OF this snow_clock [of _ t "sf_state (ss_gen sys)"]]
  have c: "reachable_from is_init (snow_step tick) (snow_read t (sf_state (ss_gen sys)) ?load)"
    by (simp add: snow_defs)
  show ?thesis
  proof (cases "next_id_round (ss_gen sys) (sf_state (ss_gen sys)) (ss_clock sys)")
    case (RoundErr e)
    then show ?thesis using c r out_again by (auto simp: snow_read_def snow_defs)
  next
    case RoundAgain
    then show ?thesis using r by simp
  next
    case (RoundSwap nxt now sq)
    then show ?thesis
      using reach_step [OF c snow_cas [of _ t "sf_state (ss_gen sys)" nxt now sq]] r out_again
      by (auto simp: snow_read_def snow_defs snow_swap_def)
  qed
qed

section \<open>Properties\<close>

text \<open>
  C18. Identifiers are unique: however the threads of a generator interleave and whatever the clock
  does, the identifiers it hands out grow strictly, are positive \<^verbatim>\<open>i64\<close> values and carry the
  worker number; so two generators with different worker numbers never hand out the same one.
\<close>

theorem snowflake_ids_are_unique:
  assumes "reachable_from (snow_init w e c) (snow_step tick) sys"
    and "reachable_from (snow_init w' e' c') (snow_step tick') sys'" and "w \<noteq> w'"
  shows "sorted_wrt (<) (issued (ss_returned sys)) \<and>
    (\<forall>i \<in> set (issued (ss_returned sys)). 0 \<le> i \<and> i \<le> i64_max \<and> id_worker i = uint w) \<and>
    set (issued (ss_returned sys)) \<inter> set (issued (ss_returned sys')) = {}"
proof -
  note inv = snow.reachable_invar [OF assms(1)] snow.reachable_invar [OF assms(2)]
  have "uint w \<noteq> uint w'" using assms(3) by (simp add: word_uint_eq_iff)
  then show ?thesis using snow_inv_issued [OF inv(1)] snow_inv_issued(2) [OF inv(2)] by (metis disjoint_iff)
qed

text \<open>
  The order of the load and the clock reading in \<^verbatim>\<open>next_id\<close> is right: while the clock does not
  run backwards, no call of any thread reports \<^verbatim>\<open>ClockRollback\<close>.
\<close>

theorem steady_clock_never_reports_rollback:
  assumes "is_i64 (c - e div 1000000)"
    and "reachable_from (snow_init w e c) (snow_step (steady_clock e)) sys"
  shows "Err ClockRollback \<notin> set (ss_returned sys)"
proof -
  have "reachable_from (\<lambda>sys. is_i64 (c - e div 1000000) \<and> snow_init w e c sys) (snow_step (steady_clock e)) sys"
    using assms(2) by (rule reachable_from_mono) (simp add: assms(1))
  from steady.reachable_invar [OF this] show ?thesis by (simp add: rollback_free_def)
qed

lemma next_id_returns_at:
  assumes w: "uint (sf_worker_id sf) < 1024" "state_ok (sf_state sf)"
    and c: "\<forall>c \<in> set cs. sf_epoch_ms sf + ms \<le> c \<and> c \<le> sf_epoch_ms sf + MAX_TIMESTAMP"
    and ms: "behind ms (sf_state sf)" "0 \<le> ms" "cs \<noteq> []" "sf_epoch_ms sf + ms < last cs"
  shows "\<exists>nxt now sq. next_id sf cs = Some (Ok (compose_id (word_of_int now) (sf_worker_id sf) sq), sf\<lparr>sf_state := nxt\<rparr>) \<and>
     swap_ok (sf_worker_id sf) (sf_state sf) nxt now sq"
  using c ms(3,4)
proof (induction cs)
  case (Cons c cs)
  have d: "ms \<le> c - sf_epoch_ms sf" "c - sf_epoch_ms sf \<le> MAX_TIMESTAMP" using Cons.prems(1) by auto
  then have wrap: "i64_wrap (c - sf_epoch_ms sf) = c - sf_epoch_ms sf" using ms(2)
    by (intro i64_wrap_id) (auto simp: is_i64_def i64_min_def i64_max_def snow_consts)
  show ?case
  proof (cases "next_id_round sf (sf_state sf) c")
    case (RoundErr e)
    then show ?thesis using d ms(1,2) wrap
      by (auto simp: next_id_round_def Let_def behind_def snow_consts state_fields split: if_splits)
  next
    case RoundAgain
    then have "c - sf_epoch_ms sf \<le> ms" using ms(1) wrap
      by (auto simp: next_id_round_def Let_def behind_def snow_consts state_fields split: if_splits)
    then have "cs \<noteq> []" using Cons.prems(3) by auto
    then show ?thesis using Cons RoundAgain by auto
  next
    case (RoundSwap nxt now sq)
    then show ?thesis using next_id_round_swap(1) [OF RoundSwap w] by auto
  qed
qed simp

text \<open>
  C19. A call returns once the clock passes the millisecond of the last identifier: for a thread that
  is alone, on readings that do not run backwards and stay in the range of the timestamp, it
  returns an identifier greater than every earlier one, also when the sequence numbers of the
  millisecond are used up and it has to spin.
\<close>

theorem next_id_returns_fresh_id:
  assumes "reachable_from (snow_init w e c) (snow_step tick) sys"
    and "sorted (ms # map (\<lambda>r. r - e div 1000000) cs)" "cs \<noteq> []" "0 \<le> ms" "behind ms (sf_state (ss_gen sys))"
    and "ms < last cs - e div 1000000" "last cs - e div 1000000 \<le> MAX_TIMESTAMP"
  shows "\<exists>i sf'. next_id (ss_gen sys) cs = Some (Ok i, sf') \<and> (\<forall>j \<in> set (issued (ss_returned sys)). j < i)"
proof -
  obtain sf ps where sf: "with_clock w e = Ok sf" "snow_inv sf sys" and p: "published sys ps"
    using snow.reachable_invar [OF assms(1)] by (auto simp: snow_invar_def snow_inv_def)
  then have w: "uint (sf_worker_id (ss_gen sys)) < 1024" "sf_epoch_ms (ss_gen sys) = e div 1000000"
    using with_clock_fields [of w e sf] by (auto simp: snow_inv_def)
  have "r \<le> last cs" if "r \<in> set cs" for r
    using assms(2) that by (cases cs rule: rev_cases) (auto simp: sorted_append)
  then have "\<forall>r \<in> set cs. sf_epoch_ms (ss_gen sys) + ms \<le> r \<and> r \<le> sf_epoch_ms (ss_gen sys) + MAX_TIMESTAMP"
    using assms(2,7) w(2) by force
  from next_id_returns_at [OF w(1) snow_inv_state_ok [OF sf(2)] this assms(5,4,3)] assms(6) w(2)
  obtain nxt now sq where r: "next_id (ss_gen sys) cs =
      Some (Ok (compose_id (word_of_int now) (sf_worker_id (ss_gen sys)) sq), (ss_gen sys)\<lparr>sf_state := nxt\<rparr>)"
    and sw: "swap_ok (sf_worker_id (ss_gen sys)) (sf_state (ss_gen sys)) nxt now sq"
    by auto
  have "sorted_wrt (<) (ps @ [uint nxt])" using published_swap [OF p refl sw, of 0] by (simp add: published_def)
  then have "\<forall>j \<in> set (issued (ss_returned sys)). j < id_of (uint (sf_worker_id (ss_gen sys))) (uint nxt)"
    using p by (auto simp: published_def sorted_wrt_append intro!: id_of_mono)
  with r sw show ?thesis by (auto simp: swap_ok_def)
qed

section \<open>Examples\<close>

text \<open>Workers 1 and 2 with epoch 0, five seconds later, after one call each.\<close>

definition ex_gen :: "u64 \<Rightarrow> u64 \<Rightarrow> snowflake" where
  "ex_gen w s = \<lparr> sf_worker_id = w, sf_epoch_ms = 0, sf_state = s \<rparr>"

definition ex_sys :: "u64 \<Rightarrow> u64 \<Rightarrow> int list \<Rightarrow> snow_sys" where
  "ex_sys w s is = \<lparr> ss_gen = ex_gen w s, ss_clock = 5000, ss_pc = (\<lambda>_. Outside), ss_returned = map Inr is \<rparr>"

lemma ex_start: "w \<in> {1, 2} \<Longrightarrow> reachable_from (snow_init w 0 5000) (snow_step tick) (ex_sys w STATE_UNSET [])"
  by (rule reach_init)
    (auto simp: snow_init_def with_clock_def snow_consts is_i64_def i64_min_def i64_max_def ex_sys_def ex_gen_def)

lemma ex_gen_sel:
  "sf_state (ex_gen w s) = s" "sf_worker_id (ex_gen w s) = w" "(ex_gen w s)\<lparr>sf_state := s'\<rparr> = ex_gen w s'"
  by (simp_all add: ex_gen_def)

lemma ex_round: "next_id_round (ex_gen w STATE_UNSET) STATE_UNSET 5000 = RoundSwap 20480000 5000 0"
  by (simp add: next_id_round_def ex_gen_def i64_wrap_def snow_consts push_bit_eq_mult)

lemma ex_call:
  assumes "w \<in> {1, 2}"
  shows "reachable_from (snow_init w 0 5000) (snow_step tick) (ex_sys w 20480000 [compose_id 5000 w 0])"
proof -
  have "next_id (ss_gen (ex_sys w STATE_UNSET [])) [ss_clock (ex_sys w STATE_UNSET [])] =
      Some (Ok (compose_id 5000 w 0), ex_gen w 20480000)"
    by (simp add: ex_sys_def ex_gen_sel ex_round)
  from next_id_is_run [OF ex_start [OF assms] _ this, of 0] show ?thesis by (simp add: ex_sys_def)
qed

lemma ex_ids: "compose_id 5000 1 0 = 20971524096" "compose_id 5000 2 0 = 20971528192"
  by (simp_all add: compose_id_value)

theorem snowflake_ids_are_unique_witness:
  "issued (ss_returned (ex_sys 1 20480000 [20971524096])) = [20971524096] \<and>
   id_worker 20971524096 = 1 \<and>
   set (issued (ss_returned (ex_sys 1 20480000 [20971524096]))) \<inter>
   set (issued (ss_returned (ex_sys 2 20480000 [20971528192]))) = {}"
proof -
  have "reachable_from (snow_init 1 0 5000) (snow_step (steady_clock 0)) (ex_sys 1 20480000 [20971524096])"
    "reachable_from (snow_init 2 0 5000) (snow_step (steady_clock 0)) (ex_sys 2 20480000 [20971528192])"
    using ex_call [of 1 "steady_clock 0"] ex_call [of 2 "steady_clock 0"] by (simp_all add: ex_ids)
  from snowflake_ids_are_unique [OF this] show ?thesis by (simp add: ex_sys_def)
qed

theorem steady_clock_never_reports_rollback_witness:
  "Err ClockRollback \<notin> set (ss_returned (ex_sys 1 20480000 [20971524096]))"
  using steady_clock_never_reports_rollback [of 5000 0 1 "ex_sys 1 20480000 [20971524096]"]
    ex_call [of 1 "steady_clock 0"]
  by (simp add: ex_ids is_i64_def i64_min_def i64_max_def)

text \<open>The next call reads the same millisecond first; it returns sequence number 1.\<close>

theorem next_id_returns_fresh_id_witness:
  "\<exists>i sf'. next_id (ex_gen 1 20480000) [5000, 5001] = Some (Ok i, sf') \<and> 20971524096 < i"
proof -
  have "behind 5000 (sf_state (ss_gen (ex_sys 1 20480000 [20971524096])))"
    by (simp add: behind_def ex_sys_def ex_gen_def)
  then show ?thesis
    using next_id_returns_fresh_id [of 1 0 5000 "steady_clock 0" "ex_sys 1 20480000 [20971524096]" 5000 "[5000, 5001]"]
      ex_call [of 1 "steady_clock 0"]
    by (simp add: ex_ids snow_consts ex_sys_def)
qed

end
