(* ===== verification/Outbox.thy ===== *)
theory Outbox
  imports Catalog
begin

text \<open>
  The outbox store and its relay, \<^verbatim>\<open>ecat-data-sharding/src/outbox.rs\<close> and
  \<^verbatim>\<open>outbox/relay.rs\<close>. The database, the clock, the \<^verbatim>\<open>time\<close> and \<^verbatim>\<open>base64\<close> crates and the
  handler are parameters. \<open>outbox_contract\<close> states what the SQL statements of the store do to the
  table; a claim's transaction is isolated, as its row locks (PostgreSQL, MySQL) or the single
  writer (SQLite) make it. The step relation \<open>outbox_step\<close> interleaves appends, claims,
  deliveries and crashes of any number of relays.
\<close>

section \<open>The store (outbox.rs)\<close>

definition TABLE :: string where "TABLE = ''ecat_outbox''"
definition COLS :: string where "COLS = ''id, aggregate, payload, status, attempts, next_attempt_at''"

text \<open>Times and durations are nanoseconds.\<close>

definition duration_seconds :: "int \<Rightarrow> int" where
  "duration_seconds s = s * 1000000000"

definition STALE_BACKOFF :: int where "STALE_BACKOFF = duration_seconds 30"

datatype outbox_status = ObPending | ObProcessing | ObDone | ObFailed

fun outbox_status_as_str :: "outbox_status \<Rightarrow> string" where
  "outbox_status_as_str ObPending = ''pending''"
| "outbox_status_as_str ObProcessing = ''processing''"
| "outbox_status_as_str ObDone = ''done''"
| "outbox_status_as_str ObFailed = ''failed''"

definition outbox_status_parse :: "string \<Rightarrow> (shard_error, outbox_status) result" where
  "outbox_status_parse s =
     (if s = ''pending'' then Ok ObPending
      else if s = ''processing'' then Ok ObProcessing
      else if s = ''done'' then Ok ObDone
      else if s = ''failed'' then Ok ObFailed
      else Err (ShardDatabase (''unknown outbox status `'' @ s @ ''`'')))"

record outbox_record =
  rec_id :: string
  rec_aggregate :: string
  rec_payload :: "u8 list"
  rec_status :: outbox_status
  rec_attempts :: nat
  rec_next_attempt_at :: int

text \<open>
  The store with the code it calls: the database client with its transactions (\<open>os_drop\<close> is what
  dropping an open one does), the clock, the range and the two text forms of a timestamp, base64.
\<close>

record 'd outbox_store =
  os_db :: "'d sql_executor"
  os_begin :: "(rdbms_error, 'd, 'd transaction_inner) act"
  os_drop :: "'d \<Rightarrow> 'd"
  os_now :: "'d \<Rightarrow> int"
  os_in_range :: "int \<Rightarrow> bool"
  os_fmt :: "int \<Rightarrow> (string, string) result"
  os_parse :: "string \<Rightarrow> (string, int) result"
  os_encode :: "u8 list \<Rightarrow> string"
  os_decode :: "string \<Rightarrow> (string, u8 list) result"

definition outbox_dialect :: "'d outbox_store \<Rightarrow> (shard_error, dialect) result" where
  "outbox_dialect s =
     (if ex_dialect (os_db s) = Mssql then Err ShardUnsupportedDialect else Ok (ex_dialect (os_db s)))"

definition fmt_ts :: "'d outbox_store \<Rightarrow> int \<Rightarrow> (shard_error, string) result" where
  "fmt_ts s ts = map_err (\<lambda>e. ShardDatabase (''failed to format outbox timestamp: '' @ e)) (os_fmt s ts)"

definition parse_ts :: "'d outbox_store \<Rightarrow> string \<Rightarrow> (shard_error, int) result" where
  "parse_ts s txt = map_err (\<lambda>e. ShardDatabase (''outbox timestamp is not RFC3339: '' @ e)) (os_parse s txt)"

text \<open>\<^verbatim>\<open>checked_add\<close> and \<^verbatim>\<open>checked_sub\<close>, whose sum or difference is \<open>ts\<close>.\<close>

definition checked_ts :: "'d outbox_store \<Rightarrow> int \<Rightarrow> int option" where
  "checked_ts s ts = (if os_in_range s ts then Some ts else None)"

definition bad_column :: "string \<Rightarrow> shard_error" where
  "bad_column col = ShardDatabase (''outbox column `'' @ col @ ''` missing or of unexpected type'')"

definition outbox_text :: "db_row \<Rightarrow> string \<Rightarrow> (shard_error, string) result" where
  "outbox_text row col = ok_or (bad_column col) (Option.bind (row_get row col) as_str)"

definition outbox_int :: "db_row \<Rightarrow> string \<Rightarrow> (shard_error, int) result" where
  "outbox_int row col = ok_or (bad_column col) (Option.bind (row_get row col) as_i64)"

definition from_row :: "'d outbox_store \<Rightarrow> db_row \<Rightarrow> (shard_error, outbox_record) result" where
  "from_row s row =
     try_bind (outbox_text row ''id'') (\<lambda>i.
     try_bind (outbox_text row ''aggregate'') (\<lambda>aggregate.
     try_bind (outbox_text row ''payload'') (\<lambda>encoded.
     try_bind (map_err (\<lambda>e. ShardDatabase (''outbox payload is not base64: '' @ e)) (os_decode s encoded)) (\<lambda>payload.
     try_bind (outbox_text row ''status'') (\<lambda>st_text.
     try_bind (outbox_status_parse st_text) (\<lambda>status.
     try_bind (outbox_int row ''attempts'') (\<lambda>n.
     if n < 0 \<or> n > int u32_max then Err (ShardDatabase ''outbox attempts out of range'') else
     try_bind (outbox_text row ''next_attempt_at'') (\<lambda>next_text.
     try_bind (parse_ts s next_text) (\<lambda>next_at.
     Ok \<lparr> rec_id = i, rec_aggregate = aggregate, rec_payload = payload, rec_status = status,
          rec_attempts = nat n, rec_next_attempt_at = next_at \<rparr>)))))))))"

text \<open>The statement without the line breaks and the indentation of the source.\<close>

definition outbox_schema_sql :: "dialect \<Rightarrow> string" where
  "outbox_schema_sql d =
     ''CREATE TABLE IF NOT EXISTS '' @ TABLE @ '' (''
     @ (if d = MySql then
          ''id VARCHAR(255) PRIMARY KEY, aggregate VARCHAR(255) NOT NULL, payload BLOB NOT NULL, ''
          @ ''status VARCHAR(16) NOT NULL, attempts INT NOT NULL, ''
          @ ''next_attempt_at VARCHAR(64) NOT NULL, claimed_at VARCHAR(64)''
        else if d = Postgres then
          ''id TEXT PRIMARY KEY, aggregate TEXT NOT NULL, payload BYTEA NOT NULL, ''
          @ ''status TEXT NOT NULL, attempts BIGINT NOT NULL, ''
          @ ''next_attempt_at TEXT NOT NULL, claimed_at TEXT''
        else
          ''id TEXT PRIMARY KEY, aggregate TEXT NOT NULL, payload BLOB NOT NULL, ''
          @ ''status TEXT NOT NULL, attempts INTEGER NOT NULL, ''
          @ ''next_attempt_at TEXT NOT NULL, claimed_at TEXT'')
     @ '')''"

definition outbox_ensure_schema :: "'d outbox_store \<Rightarrow> (shard_error, 'd, unit) act" where
  "outbox_ensure_schema s =
     act_bind (act_lift (outbox_dialect s)) (\<lambda>d.
     act_bind (act_map_err outbox_db_error (ex_execute (os_db s) (outbox_schema_sql d))) (\<lambda>_. act_ok ()))"

definition append_sql :: "dialect \<Rightarrow> string" where
  "append_sql d =
     (let payload = (if d = Postgres then ''decode('' @ placeholder d 3 @ '', '' @ [CHR 0x27] @ ''base64'' @ [CHR 0x27] @ '')''
                     else if d = MySql then ''FROM_BASE64('' @ placeholder d 3 @ '')''
                     else placeholder d 3)
      in ''INSERT INTO '' @ TABLE @ '' (id, aggregate, payload, status, attempts, next_attempt_at, claimed_at) ''
         @ ''VALUES ('' @ placeholder d 1 @ '', '' @ placeholder d 2 @ '', '' @ payload @ '', '' @ placeholder d 4
         @ '', '' @ placeholder d 5 @ '', '' @ placeholder d 6 @ '', NULL)'')"

definition outbox_append :: "'d outbox_store \<Rightarrow> outbox_record \<Rightarrow> (shard_error, 'd, unit) act" where
  "outbox_append s r =
     (if rec_status r \<noteq> ObPending then
        act_err (ShardConfig (''outbox append requires Pending status, got `'' @ outbox_status_as_str (rec_status r) @ ''`''))
      else
        act_bind (act_lift (outbox_dialect s)) (\<lambda>d.
        act_bind (act_lift (fmt_ts s (rec_next_attempt_at r))) (\<lambda>next_text.
        act_bind (act_map_err outbox_db_error (ex_execute_with (os_db s) (append_sql d)
          [JString (rec_id r), JString (rec_aggregate r), JString (os_encode s (rec_payload r)),
           JString (outbox_status_as_str (rec_status r)), json_int (int (rec_attempts r)), JString next_text])) (\<lambda>_.
        act_ok ()))))"

definition quoted :: "string \<Rightarrow> string" where
  "quoted s = [CHR 0x27] @ s @ [CHR 0x27]"

definition reclaim_sql :: "dialect \<Rightarrow> string" where
  "reclaim_sql d = ''UPDATE '' @ TABLE @ '' SET status = '' @ quoted ''pending'' @ '', claimed_at = NULL, attempts = attempts + 1, ''
     @ ''next_attempt_at = '' @ placeholder d 1 @ '' WHERE status = '' @ quoted ''processing'' @ '' AND claimed_at < ''
     @ placeholder d 2"

definition select_sql :: "dialect \<Rightarrow> string" where
  "select_sql d = ''SELECT '' @ COLS @ '' FROM '' @ TABLE @ '' WHERE status IN ('' @ quoted ''pending'' @ '', ''
     @ quoted ''failed'' @ '') AND next_attempt_at <= '' @ placeholder d 1 @ '' ORDER BY next_attempt_at, id LIMIT ''
     @ placeholder d 2 @ (if d = Postgres \<or> d = MySql then '' FOR UPDATE SKIP LOCKED'' else [])"

definition claim_sql :: "dialect \<Rightarrow> nat \<Rightarrow> string" where
  "claim_sql d n = ''UPDATE '' @ TABLE @ '' SET status = '' @ quoted ''processing'' @ '', claimed_at = '' @ placeholder d 1
     @ '' WHERE id IN ('' @ str_join '', '' (map (\<lambda>i. placeholder d (i + 2)) [0..<n]) @ '')''"

text \<open>The transaction of a claim: selecting and marking the due rows, after the stale ones are reclaimed.\<close>

definition claim_due ::
  "'d outbox_store \<Rightarrow> dialect \<Rightarrow> u32 \<Rightarrow> int \<Rightarrow> 'd transaction \<Rightarrow> (shard_error, 'd, outbox_record list) act" where
  "claim_due s d limit now tx =
     act_bind (act_lift (fmt_ts s now)) (\<lambda>now_text.
     act_bind (act_map_err outbox_db_error (ex_query_with (transaction_executor tx) (select_sql d)
       [JString now_text, json_int (uint limit)])) (\<lambda>rows.
     act_bind (act_lift (collect_results (from_row s) rows)) (\<lambda>records.
     if records = [] then
       act_bind (act_map_err outbox_db_error (fst (transaction_commit tx))) (\<lambda>_. act_ok [])
     else
       act_bind (act_lift (fmt_ts s now)) (\<lambda>now_text.
       act_bind (act_map_err outbox_db_error (ex_execute_with (transaction_executor tx) (claim_sql d (length records))
         (JString now_text # map (\<lambda>r. JString (rec_id r)) records))) (\<lambda>_.
       act_bind (act_map_err outbox_db_error (fst (transaction_commit tx))) (\<lambda>_.
       act_ok (map (\<lambda>r. r\<lparr>rec_status := ObProcessing\<rparr>) records)))))))"

definition claim_in_tx ::
  "'d outbox_store \<Rightarrow> dialect \<Rightarrow> u32 \<Rightarrow> int \<Rightarrow> int \<Rightarrow> 'd transaction \<Rightarrow> (shard_error, 'd, outbox_record list) act" where
  "claim_in_tx s d limit now cutoff tx =
     act_bind (act_lift (ok_or (ShardConfig ''outbox stale backoff out of range'') (checked_ts s (now + STALE_BACKOFF)))) (\<lambda>stale_next.
     act_bind (act_lift (fmt_ts s stale_next)) (\<lambda>stale_text.
     act_bind (act_lift (fmt_ts s cutoff)) (\<lambda>cutoff_text.
     act_bind (act_map_err outbox_db_error (ex_execute_with (transaction_executor tx) (reclaim_sql d)
       [JString stale_text, JString cutoff_text])) (\<lambda>_.
     claim_due s d limit now tx))))"

text \<open>The transaction is dropped where the body returns early.\<close>

definition dropping :: "('d \<Rightarrow> 'd) \<Rightarrow> (shard_error, 'd, 'a) act \<Rightarrow> (shard_error, 'd, 'a) act" where
  "dropping drp f d = (case f d of (Inl e, d') \<Rightarrow> (Inl e, drp d') | (Inr x, d') \<Rightarrow> (Inr x, d'))"

definition outbox_claim :: "'d outbox_store \<Rightarrow> u32 \<Rightarrow> int \<Rightarrow> (shard_error, 'd, outbox_record list) act" where
  "outbox_claim s limit lease =
     (if limit = 0 then act_ok []
      else act_bind (act_lift (outbox_dialect s)) (\<lambda>d.
           act_bind (\<lambda>w. (Ok (os_now s w), w)) (\<lambda>now.
           act_bind (act_lift (ok_or (ShardConfig ''outbox lease out of range'') (checked_ts s (now - lease)))) (\<lambda>cutoff.
           act_bind (act_map_err outbox_db_error (os_begin s)) (\<lambda>inner.
           dropping (os_drop s) (claim_in_tx s d limit now cutoff (transaction_with_inner inner)))))))"

definition mark_done_sql :: "dialect \<Rightarrow> string" where
  "mark_done_sql d = ''UPDATE '' @ TABLE @ '' SET status = '' @ quoted ''done'' @ '' WHERE id = '' @ placeholder d 1
     @ '' AND status = '' @ quoted ''processing''"

definition mark_done :: "'d outbox_store \<Rightarrow> string \<Rightarrow> (shard_error, 'd, unit) act" where
  "mark_done s i =
     act_bind (act_lift (outbox_dialect s)) (\<lambda>d.
     act_bind (act_map_err outbox_db_error (ex_execute_with (os_db s) (mark_done_sql d) [JString i])) (\<lambda>_. act_ok ()))"

definition mark_failed_sql :: "dialect \<Rightarrow> string" where
  "mark_failed_sql d = ''UPDATE '' @ TABLE @ '' SET status = '' @ quoted ''failed'' @ '', attempts = attempts + 1, ''
     @ ''next_attempt_at = '' @ placeholder d 1 @ '', claimed_at = NULL WHERE id = '' @ placeholder d 2
     @ '' AND status = '' @ quoted ''processing''"

definition mark_failed :: "'d outbox_store \<Rightarrow> string \<Rightarrow> int \<Rightarrow> (shard_error, 'd, unit) act" where
  "mark_failed s i retry_after =
     act_bind (act_lift (outbox_dialect s)) (\<lambda>d.
     act_bind (\<lambda>w. (Ok (os_now s w), w)) (\<lambda>now.
     act_bind (act_lift (ok_or (ShardConfig ''outbox retry_after out of range'') (checked_ts s (now + retry_after)))) (\<lambda>nxt.
     act_bind (act_lift (fmt_ts s nxt)) (\<lambda>next_text.
     act_bind (act_map_err outbox_db_error (ex_execute_with (os_db s) (mark_failed_sql d) [JString next_text, JString i])) (\<lambda>_.
     act_ok ())))))"

definition pending_count :: "'d outbox_store \<Rightarrow> (shard_error, 'd, nat) act" where
  "pending_count s =
     act_bind (act_map_err outbox_db_error (ex_query (os_db s)
       (''SELECT COUNT(*) AS n FROM '' @ TABLE @ '' WHERE status <> '' @ quoted ''done''))) (\<lambda>rows.
     act_lift (ok_or (ShardDatabase ''outbox count returned no row'')
       (case rows of [] \<Rightarrow> None
        | row # _ \<Rightarrow> Option.bind (Option.bind (row_get row ''n'') as_i64) (\<lambda>n. if 0 \<le> n then Some (nat n) else None))))"

section \<open>The relay (relay.rs)\<close>

definition DEFAULT_BATCH :: u32 where "DEFAULT_BATCH = 32"
definition DEFAULT_LEASE :: int where "DEFAULT_LEASE = duration_seconds 60"
definition DEFAULT_INTERVAL :: int where "DEFAULT_INTERVAL = duration_seconds 5"
definition BASE_BACKOFF :: int where "BASE_BACKOFF = duration_seconds 1"
definition MAX_BACKOFF :: int where "MAX_BACKOFF = duration_seconds 3600"

record relay_report =
  rr_claimed :: nat
  rr_done :: nat
  rr_failed :: nat

text \<open>\<^verbatim>\<open>OutboxOps\<close>, and the store as its implementation.\<close>

record 'w outbox_ops =
  oo_claim :: "u32 \<Rightarrow> int \<Rightarrow> (shard_error, 'w, outbox_record list) act"
  oo_mark_done :: "string \<Rightarrow> (shard_error, 'w, unit) act"
  oo_mark_failed :: "string \<Rightarrow> int \<Rightarrow> (shard_error, 'w, unit) act"

definition store_ops :: "'w outbox_store \<Rightarrow> 'w outbox_ops" where
  "store_ops s = \<lparr> oo_claim = outbox_claim s, oo_mark_done = mark_done s, oo_mark_failed = mark_failed s \<rparr>"

record 'w outbox_relay =
  rl_store :: "'w outbox_ops"
  rl_handler :: "outbox_record \<Rightarrow> (string, 'w, unit) act"
  rl_batch :: u32
  rl_lease :: int
  rl_interval :: int

definition relay_new :: "'w outbox_store \<Rightarrow> (outbox_record \<Rightarrow> (string, 'w, unit) act) \<Rightarrow> 'w outbox_relay" where
  "relay_new s h = \<lparr> rl_store = store_ops s, rl_handler = h, rl_batch = DEFAULT_BATCH, rl_lease = DEFAULT_LEASE,
                     rl_interval = DEFAULT_INTERVAL \<rparr>"

definition duration_checked_mul :: "int \<Rightarrow> int \<Rightarrow> int option" where
  "duration_checked_mul d k = (if is_i64 (d * k div 1000000000) then Some (d * k) else None)"

definition relay_backoff :: "nat \<Rightarrow> int" where
  "relay_backoff attempts =
     (let factor = 2 ^ min attempts 20
      in min (case duration_checked_mul BASE_BACKOFF factor of None \<Rightarrow> MAX_BACKOFF | Some d \<Rightarrow> d) MAX_BACKOFF)"

text \<open>One record: hand it over, then record the outcome.\<close>

definition deliver :: "'w outbox_relay \<Rightarrow> outbox_record \<Rightarrow> relay_report \<Rightarrow> (shard_error, 'w, relay_report) act" where
  "deliver rl r rep =
     act_match (rl_handler rl r)
       (\<lambda>_. act_bind (oo_mark_done (rl_store rl) (rec_id r)) (\<lambda>_. act_ok (rep\<lparr>rr_done := rr_done rep + 1\<rparr>)))
       (\<lambda>_. act_bind (oo_mark_failed (rl_store rl) (rec_id r) (relay_backoff (rec_attempts r))) (\<lambda>_.
            act_ok (rep\<lparr>rr_failed := rr_failed rep + 1\<rparr>)))"

fun deliver_all :: "'w outbox_relay \<Rightarrow> outbox_record list \<Rightarrow> relay_report \<Rightarrow> (shard_error, 'w, relay_report) act" where
  "deliver_all rl [] rep = act_ok rep"
| "deliver_all rl (r # rs) rep = act_bind (deliver rl r rep) (\<lambda>rep'. deliver_all rl rs rep')"

definition run_once :: "'w outbox_relay \<Rightarrow> (shard_error, 'w, relay_report) act" where
  "run_once rl =
     (if rl_batch rl = 0 then act_err (ShardConfig ''outbox relay batch must be > 0'')
      else if rl_lease rl = 0 then act_err (ShardConfig ''outbox relay lease must be > 0'')
      else act_bind (oo_claim (rl_store rl) (rl_batch rl) (rl_lease rl)) (\<lambda>records.
           deliver_all rl records \<lparr> rr_claimed = min (length records) u32_max, rr_done = 0, rr_failed = 0 \<rparr>))"

text \<open>The background loop on what its \<^verbatim>\<open>select!\<close> sees: \<open>None\<close> while it keeps running.\<close>

datatype relay_event = ShutdownSeen | TickSeen

fun run_loop :: "'w outbox_relay \<Rightarrow> relay_event list \<Rightarrow> 'w \<Rightarrow> (shard_error, unit) result option \<times> 'w" where
  "run_loop rl [] w = (None, w)"
| "run_loop rl (ShutdownSeen # es) w = (Some (Ok ()), w)"
| "run_loop rl (TickSeen # es) w =
     (case run_once rl w of (Inl e, w') \<Rightarrow> (Some (Err e), w') | (Inr _, w') \<Rightarrow> run_loop rl es w')"

definition run_until :: "'w outbox_relay \<Rightarrow> relay_event list \<Rightarrow> 'w \<Rightarrow> (shard_error, unit) result option \<times> 'w" where
  "run_until rl es w =
     (if rl_interval rl = 0 then (Some (Err (ShardConfig ''outbox relay interval must be > 0'')), w)
      else run_loop rl es w)"


section \<open>What the statements do to the table\<close>

record outbox_row =
  ob_aggregate :: string
  ob_payload :: string
  ob_status :: string
  ob_attempts :: int
  ob_next :: string
  ob_claimed :: "string option"

type_synonym outbox_table = "string \<Rightarrow> outbox_row option"

text \<open>Timestamps are compared as text, byte by byte.\<close>

fun str_lt :: "string \<Rightarrow> string \<Rightarrow> bool" where
  "str_lt [] [] \<longleftrightarrow> False"
| "str_lt [] (b # bs) \<longleftrightarrow> True"
| "str_lt (a # as) [] \<longleftrightarrow> False"
| "str_lt (a # as) (b # bs) \<longleftrightarrow>
     (of_char a :: nat) < of_char b \<or> a = b \<and> str_lt as bs"

definition stale :: "string \<Rightarrow> outbox_row \<Rightarrow> bool" where
  "stale cutoff r \<longleftrightarrow> ob_status r = ''processing'' \<and> (case ob_claimed r of None \<Rightarrow> False | Some c \<Rightarrow> str_lt c cutoff)"

definition reclaim_table :: "string \<Rightarrow> string \<Rightarrow> outbox_table \<Rightarrow> outbox_table" where
  "reclaim_table nxt cutoff T i =
     map_option (\<lambda>r. if stale cutoff r
       then r\<lparr>ob_status := ''pending'', ob_claimed := None, ob_attempts := ob_attempts r + 1, ob_next := nxt\<rparr> else r) (T i)"

definition due :: "outbox_table \<Rightarrow> string \<Rightarrow> string \<Rightarrow> bool" where
  "due T now i \<longleftrightarrow> (case T i of None \<Rightarrow> False
     | Some r \<Rightarrow> (ob_status r = ''pending'' \<or> ob_status r = ''failed'') \<and> \<not> str_lt now (ob_next r))"

definition next_of :: "outbox_table \<Rightarrow> string \<Rightarrow> string" where
  "next_of T i = (case T i of None \<Rightarrow> [] | Some r \<Rightarrow> ob_next r)"

definition selects :: "outbox_table \<Rightarrow> string \<Rightarrow> nat \<Rightarrow> string list \<Rightarrow> bool" where
  "selects T now limit ids \<longleftrightarrow>
     (\<exists>all_due. distinct all_due \<and> set all_due = {i. due T now i} \<and>
        sorted_wrt (\<lambda>i j. \<not> str_lt (next_of T j) (next_of T i)) all_due \<and> ids = take limit all_due)"

definition claim_table :: "string \<Rightarrow> string list \<Rightarrow> outbox_table \<Rightarrow> outbox_table" where
  "claim_table now ids T i =
     (if i \<in> set ids then map_option (\<lambda>r. r\<lparr>ob_status := ''processing'', ob_claimed := Some now\<rparr>) (T i) else T i)"

definition settle :: "(outbox_row \<Rightarrow> outbox_row) \<Rightarrow> string \<Rightarrow> outbox_table \<Rightarrow> outbox_table" where
  "settle f i T = (case T i of None \<Rightarrow> T
     | Some r \<Rightarrow> if ob_status r = ''processing'' then T(i \<mapsto> f r) else T)"

abbreviation set_done :: "outbox_row \<Rightarrow> outbox_row" where
  "set_done r \<equiv> r\<lparr>ob_status := ''done''\<rparr>"

abbreviation set_failed :: "string \<Rightarrow> outbox_row \<Rightarrow> outbox_row" where
  "set_failed nxt r \<equiv> r\<lparr>ob_status := ''failed'', ob_attempts := ob_attempts r + 1, ob_next := nxt, ob_claimed := None\<rparr>"

definition row_image :: "string \<Rightarrow> outbox_row \<Rightarrow> db_row \<Rightarrow> bool" where
  "row_image i r row \<longleftrightarrow>
     row_get row ''id'' = Some (JString i) \<and> row_get row ''aggregate'' = Some (JString (ob_aggregate r)) \<and>
     row_get row ''payload'' = Some (JString (ob_payload r)) \<and> row_get row ''status'' = Some (JString (ob_status r)) \<and>
     row_get row ''attempts'' = Some (json_int (ob_attempts r)) \<and> row_get row ''next_attempt_at'' = Some (JString (ob_next r))"

text \<open>
  How a world shows the committed table, the working copy of the open transaction, and the
  records a handler has accepted.
\<close>

record 'w outbox_view =
  ov_table :: "'w \<Rightarrow> outbox_table"
  ov_work :: "'w \<Rightarrow> outbox_table"
  ov_accepted :: "'w \<Rightarrow> string set"

text \<open>A statement outside a transaction: a failed one may or may not have been carried out.\<close>

definition statement :: "'w outbox_view \<Rightarrow> ('e, 'w, 'a) act \<Rightarrow> (outbox_table \<Rightarrow> outbox_table) \<Rightarrow> bool" where
  "statement v f apply_to \<longleftrightarrow> (\<forall>w. ov_accepted v (snd (f w)) = ov_accepted v w \<and>
     (ov_table v (snd (f w)) = apply_to (ov_table v w) \<or>
      \<not> is_ok (fst (f w)) \<and> ov_table v (snd (f w)) = ov_table v w))"

text \<open>A statement of the open transaction.\<close>

definition tx_statement :: "'w outbox_view \<Rightarrow> ('e, 'w, 'a) act \<Rightarrow> ('a \<Rightarrow> outbox_table \<Rightarrow> outbox_table \<Rightarrow> bool) \<Rightarrow> bool" where
  "tx_statement v f effect \<longleftrightarrow> (\<forall>w. ov_accepted v (snd (f w)) = ov_accepted v w \<and>
     ov_table v (snd (f w)) = ov_table v w \<and>
     (\<forall>x. fst (f w) = Ok x \<longrightarrow> effect x (ov_work v w) (ov_work v (snd (f w)))))"

definition inner_laws :: "'w outbox_view \<Rightarrow> dialect \<Rightarrow> 'w transaction_inner \<Rightarrow> bool" where
  "inner_laws v d inner \<longleftrightarrow>
     (\<forall>nxt cutoff. tx_statement v (in_execute_with inner (reclaim_sql d) [JString nxt, JString cutoff])
        (\<lambda>_ T T'. T' = reclaim_table nxt cutoff T)) \<and>
     (\<forall>now (limit :: u32). tx_statement v (in_query_with inner (select_sql d) [JString now, json_int (uint limit)])
        (\<lambda>rows T T'. T' = T \<and> (\<exists>ids. selects T now (unat limit) ids \<and>
           list_all2 (\<lambda>i row. \<exists>r. T i = Some r \<and> row_image i r row) ids rows))) \<and>
     (\<forall>now ids. tx_statement v (in_execute_with inner (claim_sql d (length ids)) (JString now # map JString ids))
        (\<lambda>_ T T'. T' = claim_table now ids T)) \<and>
     (\<forall>w. ov_accepted v (snd (in_commit inner w)) = ov_accepted v w \<and>
        (ov_table v (snd (in_commit inner w)) = ov_work v w \<or>
         \<not> is_ok (fst (in_commit inner w)) \<and> ov_table v (snd (in_commit inner w)) = ov_table v w))"

definition store_laws :: "'w outbox_view \<Rightarrow> 'w outbox_store \<Rightarrow> bool" where
  "store_laws v s \<longleftrightarrow>
     (\<forall>w inner w'. os_begin s w = (Ok inner, w') \<longrightarrow>
        ov_work v w' = ov_table v w \<and> inner_laws v (ex_dialect (os_db s)) inner) \<and>
     (\<forall>w. ov_table v (snd (os_begin s w)) = ov_table v w \<and> ov_accepted v (snd (os_begin s w)) = ov_accepted v w) \<and>
     (\<forall>w. ov_table v (os_drop s w) = ov_table v w \<and> ov_accepted v (os_drop s w) = ov_accepted v w) \<and>
     (\<forall>i. statement v (ex_execute_with (os_db s) (mark_done_sql (ex_dialect (os_db s))) [JString i]) (settle set_done i)) \<and>
     (\<forall>i nxt. statement v (ex_execute_with (os_db s) (mark_failed_sql (ex_dialect (os_db s))) [JString nxt, JString i])
        (settle (set_failed nxt) i)) \<and>
     (\<forall>i ag pl st n nxt w r w'. ex_execute_with (os_db s) (append_sql (ex_dialect (os_db s)))
          [JString i, JString ag, JString pl, JString st, json_int n, JString nxt] w = (r, w') \<longrightarrow>
        ov_accepted v w' = ov_accepted v w \<and>
        (ov_table v w i = None \<and>
           ov_table v w' = (ov_table v w)(i \<mapsto> \<lparr> ob_aggregate = ag, ob_payload = pl, ob_status = st, ob_attempts = n,
                                                ob_next = nxt, ob_claimed = None \<rparr>) \<or>
         \<not> is_ok r \<and> ov_table v w' = ov_table v w))"

text \<open>Fixed-width timestamps sort as the times they stand for and are read back.\<close>

definition time_laws :: "'w outbox_store \<Rightarrow> bool" where
  "time_laws s \<longleftrightarrow>
     (\<forall>a b x y. os_fmt s a = Ok x \<longrightarrow> os_fmt s b = Ok y \<longrightarrow> (str_lt x y \<longleftrightarrow> a < b)) \<and>
     (\<forall>a x. os_fmt s a = Ok x \<longrightarrow> os_parse s x = Ok a)"

definition handler_laws :: "'w outbox_view \<Rightarrow> (outbox_record \<Rightarrow> (string, 'w, unit) act) \<Rightarrow> bool" where
  "handler_laws v h \<longleftrightarrow> (\<forall>r w. ov_table v (snd (h r w)) = ov_table v w \<and>
     ov_accepted v w \<subseteq> ov_accepted v (snd (h r w)) \<and>
     (is_ok (fst (h r w)) \<longrightarrow> rec_id r \<in> ov_accepted v (snd (h r w))))"

section \<open>Interleaved relays\<close>

text \<open>
  The world with the records every relay has claimed and not yet delivered. A relay that meets
  an error abandons the rest of its batch, as \<^verbatim>\<open>run_once\<close> returns; so does one that crashes.
\<close>

inductive outbox_step ::
  "'w outbox_view \<Rightarrow> 'w outbox_store \<Rightarrow> 'w outbox_relay \<Rightarrow> 'w \<times> (nat \<Rightarrow> outbox_record list) \<Rightarrow>
   'w \<times> (nat \<Rightarrow> outbox_record list) \<Rightarrow> bool" for v s rl where
  step_append: "outbox_append s r w = (x, w') \<Longrightarrow> outbox_step v s rl (w, bs) (w', bs)"
| step_claim: "bs p = [] \<Longrightarrow> outbox_claim s limit lease w = (Inr rs, w') \<Longrightarrow> outbox_step v s rl (w, bs) (w', bs(p := rs))"
| step_claim_err: "bs p = [] \<Longrightarrow> outbox_claim s limit lease w = (Inl e, w') \<Longrightarrow> outbox_step v s rl (w, bs) (w', bs)"
| step_deliver: "bs p = r # rs \<Longrightarrow> deliver rl r rep w = (Inr rep', w') \<Longrightarrow> outbox_step v s rl (w, bs) (w', bs(p := rs))"
| step_deliver_err: "bs p = r # rs \<Longrightarrow> deliver rl r rep w = (Inl e, w') \<Longrightarrow> outbox_step v s rl (w, bs) (w', bs(p := []))"
| step_crash: "outbox_step v s rl (w, bs) (w, bs(p := []))"
| step_other: "ov_table v w' = ov_table v w \<Longrightarrow> ov_accepted v w \<subseteq> ov_accepted v w' \<Longrightarrow> outbox_step v s rl (w, bs) (w', bs)"

definition outbox_init :: "'w outbox_view \<Rightarrow> 'w \<times> (nat \<Rightarrow> outbox_record list) \<Rightarrow> bool" where
  "outbox_init v st \<longleftrightarrow> ov_table v (fst st) = Map.empty \<and> snd st = (\<lambda>_. [])"


section \<open>What each call does\<close>

text \<open>\<open>record_image\<close>: the record a claim returns for a row.\<close>

definition record_image :: "'w outbox_store \<Rightarrow> string \<Rightarrow> outbox_row \<Rightarrow> outbox_record \<Rightarrow> bool" where
  "record_image s i r rec \<longleftrightarrow> rec_id rec = i \<and> rec_aggregate rec = ob_aggregate r \<and>
     os_decode s (ob_payload r) = Ok (rec_payload rec) \<and> int (rec_attempts rec) = ob_attempts r \<and>
     os_parse s (ob_next r) = Ok (rec_next_attempt_at rec)"

definition claims :: "'w outbox_store \<Rightarrow> u32 \<Rightarrow> int \<Rightarrow> int \<Rightarrow> outbox_table \<Rightarrow> string list \<Rightarrow> outbox_table \<Rightarrow> bool" where
  "claims s limit now cutoff T ids T' \<longleftrightarrow> (\<exists>now_text stale_text cutoff_text.
     os_fmt s now = Ok now_text \<and> os_fmt s (now + STALE_BACKOFF) = Ok stale_text \<and> os_fmt s cutoff = Ok cutoff_text \<and>
     selects (reclaim_table stale_text cutoff_text T) now_text (unat limit) ids \<and>
     T' = claim_table now_text ids (reclaim_table stale_text cutoff_text T))"

lemma tx_statement_bind:
  assumes "tx_statement v f effect"
    and "\<And>e w'. ov_accepted v w' = ov_accepted v w \<Longrightarrow> ov_table v w' = ov_table v w \<Longrightarrow> Q (Inl e) w'"
    and "\<And>x w'. ov_accepted v w' = ov_accepted v w \<Longrightarrow> ov_table v w' = ov_table v w \<Longrightarrow>
      effect x (ov_work v w) (ov_work v w') \<Longrightarrow> act_post (k x) Q w'"
  shows "act_post (act_bind (act_map_err g f) k) Q w"
proof -
  obtain r w' where "f w = (r, w')" by (cases "f w")
  then show ?thesis using assms(1) assms(2,3) [of w']
    by (cases r) (auto simp: tx_statement_def act_post_def act_bind_def act_map_err_def dest!: spec [of _ w])
qed

lemma fmt_ts_Ok: "fmt_ts s a = Inr x \<longleftrightarrow> os_fmt s a = Ok x"
  by (cases "os_fmt s a") (auto simp: fmt_ts_def)

lemma from_row_image:
  assumes "from_row s row = Inr rec" "row_image i r row"
  shows "record_image s i r (rec\<lparr>rec_status := st\<rparr>)" "rec_id rec = i"
  using assms
  by (auto simp: from_row_def row_image_def record_image_def outbox_text_def outbox_int_def try_bind_Inr_iff
      ok_or_Inr_iff as_str_def parse_ts_def map_err_def as_i64_def number_as_i64_def json_int_def
      split: if_splits sum.splits)

lemma tx_with_inner [simp]:
  "ex_execute_with (transaction_executor (transaction_with_inner inner)) = in_execute_with inner"
  "ex_query_with (transaction_executor (transaction_with_inner inner)) = in_query_with inner"
  "fst (transaction_commit (transaction_with_inner inner)) = in_commit inner"
  by (auto simp: transaction_executor_def transaction_with_inner_def with_backing_def transaction_commit_def Let_def)

lemma inner_lawsD:
  assumes "inner_laws v d inner"
  shows "tx_statement v (in_execute_with inner (reclaim_sql d) [JString nxt, JString cutoff])
      (\<lambda>_ T T'. T' = reclaim_table nxt cutoff T)"
    "tx_statement v (in_query_with inner (select_sql d) [JString now, json_int (uint limit)])
      (\<lambda>rows T T'. T' = T \<and> (\<exists>ids. selects T now (unat (limit :: u32)) ids \<and>
         list_all2 (\<lambda>i row. \<exists>r. T i = Some r \<and> row_image i r row) ids rows))"
    "tx_statement v (in_execute_with inner (claim_sql d (length ids)) (JString now # map JString ids))
      (\<lambda>_ T T'. T' = claim_table now ids T)"
    "ov_accepted v (snd (in_commit inner w)) = ov_accepted v w"
    "ov_table v (snd (in_commit inner w)) = ov_work v w \<or>
       \<not> is_ok (fst (in_commit inner w)) \<and> ov_table v (snd (in_commit inner w)) = ov_table v w"
  using assms by (simp_all add: inner_laws_def)

text \<open>The outcome of a claim on the table \<open>T\<close>.\<close>

definition claim_post ::
  "'w outbox_view \<Rightarrow> 'w outbox_store \<Rightarrow> u32 \<Rightarrow> int \<Rightarrow> int \<Rightarrow> outbox_table \<Rightarrow> string set \<Rightarrow>
   (shard_error, outbox_record list) result \<Rightarrow> 'w \<Rightarrow> bool" where
  "claim_post v s limit now cutoff T acc r w' \<longleftrightarrow> ov_accepted v w' = acc \<and>
     (\<not> is_ok r \<and> ov_table v w' = T \<or>
      (\<exists>ids. claims s limit now cutoff T ids (ov_table v w') \<and>
         (\<forall>rs. r = Ok rs \<longrightarrow> list_all2 (\<lambda>i rec. \<exists>row. ov_table v w' i = Some row \<and> record_image s i row rec \<and>
            rec_status rec = ObProcessing) ids rs)))"

lemma commit_post:
  assumes "inner_laws v d inner" "claims s limit now cutoff T ids (ov_work v w)" "ov_table v w = T" "ov_accepted v w = acc"
    and "list_all2 (\<lambda>i rec. \<exists>row. ov_work v w i = Some row \<and> record_image s i row rec \<and> rec_status rec = ObProcessing) ids rs"
  shows "act_post (act_bind (act_map_err outbox_db_error (in_commit inner)) (\<lambda>_. act_ok rs))
     (claim_post v s limit now cutoff T acc) w"
proof -
  obtain c w' where c: "in_commit inner w = (c, w')" by (cases "in_commit inner w")
  have "claim_post v s limit now cutoff T acc (case c of Inl e \<Rightarrow> Inl (outbox_db_error e) | Inr _ \<Rightarrow> Inr rs) w'"
    using inner_lawsD(4,5) [OF assms(1), of w] assms(2-) c by (cases c) (auto simp: claim_post_def)
  then show ?thesis using c by (cases c) (simp_all add: act_post_def act_bind_def act_map_err_def)
qed

lemma from_rows_images:
  assumes "collect_results (from_row s) rows = Inr recs"
    and "list_all2 (\<lambda>i row. \<exists>r. T i = Some r \<and> row_image i r row) ids rows"
  shows "map rec_id recs = ids"
    "list_all2 (\<lambda>i rec. \<exists>row. claim_table now ids T i = Some row \<and> record_image s i row rec \<and> rec_status rec = ObProcessing)
       ids (map (\<lambda>r. r\<lparr>rec_status := ObProcessing\<rparr>) recs)"
proof -
  have len: "length recs = length rows" "length ids = length rows"
    using assms by (auto simp: collect_results_Inr_iff dest: list_all2_lengthD)
  have at: "\<exists>r. T (ids ! k) = Some r \<and> rec_id (recs ! k) = ids ! k \<and>
      record_image s (ids ! k) r ((recs ! k)\<lparr>rec_status := ObProcessing\<rparr>)" if "k < length ids" for k
    using that assms from_row_image [of s "rows ! k" "recs ! k" "ids ! k"]
    by (auto simp: collect_results_Inr_iff list_all2_conv_all_nth)
  then show "map rec_id recs = ids" using len by (auto simp: list_eq_iff_nth_eq simp del: length_greater_0_conv)
  show "list_all2 (\<lambda>i rec. \<exists>row. claim_table now ids T i = Some row \<and> record_image s i row rec \<and> rec_status rec = ObProcessing)
       ids (map (\<lambda>r. r\<lparr>rec_status := ObProcessing\<rparr>) recs)"
    unfolding list_all2_conv_all_nth
  proof (intro conjI allI impI)
    fix k assume k: "k < length ids"
    then obtain r where "T (ids ! k) = Some r" "record_image s (ids ! k) r ((recs ! k)\<lparr>rec_status := ObProcessing\<rparr>)"
      using at by blast
    then show "\<exists>row. claim_table now ids T (ids ! k) = Some row \<and>
        record_image s (ids ! k) row (map (\<lambda>r. r\<lparr>rec_status := ObProcessing\<rparr>) recs ! k) \<and>
        rec_status (map (\<lambda>r. r\<lparr>rec_status := ObProcessing\<rparr>) recs ! k) = ObProcessing"
      using k len by (simp add: claim_table_def record_image_def)
  qed (use len in simp)
qed

lemma claim_table_Nil [simp]: "claim_table now [] T = T"
  by (auto simp: claim_table_def)

lemma claim_due_post:
  assumes inner: "inner_laws v d inner"
    and work: "ov_work v w = reclaim_table st ct (ov_table v w)"
    and f: "os_fmt s (now + STALE_BACKOFF) = Ok st" "os_fmt s cutoff = Ok ct"
  shows "act_post (claim_due s d limit now (transaction_with_inner inner))
     (claim_post v s limit now cutoff (ov_table v w) (ov_accepted v w)) w"
  unfolding claim_due_def tx_with_inner
proof (rule act_post_liftI, goal_cases)
  case n: (2 nt)
  show ?case
  proof (rule tx_statement_bind [OF inner_lawsD(2) [OF inner]], goal_cases)
    case s: (2 rows w2)
    show ?case
    proof (rule act_post_liftI, goal_cases)
      case c: (2 recs)
      obtain ids where ids: "selects (ov_work v w) nt (unat limit) ids"
        "list_all2 (\<lambda>i row. \<exists>r. ov_work v w i = Some r \<and> row_image i r row) ids rows"
        using s by blast
      note im = from_rows_images [OF c ids(2)]
      have cl: "claims s limit now cutoff (ov_table v w) ids (claim_table nt ids (ov_work v w))"
        using ids(1) f n work by (auto simp: claims_def fmt_ts_Ok)
      show ?case
      proof (cases "recs = []")
        case True
        then have "ids = []" using im(1) by simp
        then show ?thesis using True cl s by (simp add: commit_post [OF inner, where ids = "[]"])
      next
        case False
        have len: "length recs = length ids" "map (\<lambda>r. JString (rec_id r)) recs = map JString ids"
          unfolding im(1) [symmetric] by simp_all
        show ?thesis
          unfolding len if_not_P [OF False] n act_bind_lift
          by (rule tx_statement_bind [OF inner_lawsD(3) [OF inner]])
            (use s cl im(2) commit_post [OF inner] in \<open>simp_all add: claim_post_def\<close>)
      qed
    qed (use s in \<open>simp add: claim_post_def\<close>)
  qed (simp add: claim_post_def)
qed (simp add: claim_post_def)

lemma claim_in_tx_post:
  assumes inner: "inner_laws v d inner" and w: "ov_work v w = ov_table v w"
  shows "act_post (claim_in_tx s d limit now cutoff (transaction_with_inner inner))
     (claim_post v s limit now cutoff (ov_table v w) (ov_accepted v w)) w"
  unfolding claim_in_tx_def tx_with_inner
proof (intro act_post_liftI tx_statement_bind [OF inner_lawsD(1) [OF inner]], goal_cases)
  case (5 t st ct _ w')
  then have "t = now + STALE_BACKOFF" by (auto simp: ok_or_Inr_iff checked_ts_def split: if_splits)
  then show ?case using claim_due_post [OF inner, of w' st ct s now cutoff limit] 5 w by (simp add: fmt_ts_Ok)
qed (simp_all add: claim_post_def)

lemma store_lawsD:
  assumes "store_laws v s"
  shows "os_begin s w = (Ok inner, w') \<Longrightarrow> ov_work v w' = ov_table v w \<and> inner_laws v (ex_dialect (os_db s)) inner"
    "ov_table v (snd (os_begin s w)) = ov_table v w" "ov_accepted v (snd (os_begin s w)) = ov_accepted v w"
    "ov_table v (os_drop s w) = ov_table v w" "ov_accepted v (os_drop s w) = ov_accepted v w"
    "statement v (ex_execute_with (os_db s) (mark_done_sql (ex_dialect (os_db s))) [JString i]) (settle set_done i)"
    "statement v (ex_execute_with (os_db s) (mark_failed_sql (ex_dialect (os_db s))) [JString nxt, JString i])
       (settle (set_failed nxt) i)"
    "ex_execute_with (os_db s) (append_sql (ex_dialect (os_db s)))
       [JString i, JString ag, JString pl, JString st, json_int n, JString nxt] w = (r, w') \<Longrightarrow>
     ov_accepted v w' = ov_accepted v w \<and>
     (ov_table v w i = None \<and>
        ov_table v w' = (ov_table v w)(i \<mapsto> \<lparr> ob_aggregate = ag, ob_payload = pl, ob_status = st, ob_attempts = n,
                                             ob_next = nxt, ob_claimed = None \<rparr>) \<or>
      \<not> is_ok r \<and> ov_table v w' = ov_table v w)"
  using assms by (simp_all add: store_laws_def)

lemma statementD:
  assumes "statement v f g" "f w = (r, w')"
  shows "ov_accepted v w' = ov_accepted v w" "ov_table v w' = g (ov_table v w) \<or> \<not> is_ok r \<and> ov_table v w' = ov_table v w"
  using assms(1) [unfolded statement_def, THEN spec, of w] assms(2) by simp_all

lemma dropping_post:
  assumes "act_post f (claim_post v s limit now cutoff T acc) w"
    and "\<And>w. ov_table v (drp w) = ov_table v w" "\<And>w. ov_accepted v (drp w) = ov_accepted v w"
  shows "act_post (dropping drp f) (claim_post v s limit now cutoff T acc) w"
proof -
  obtain r w' where "f w = (r, w')" by (cases "f w")
  with assms show ?thesis by (cases r) (auto simp: act_post_def dropping_def claim_post_def)
qed

lemma outbox_claim_post:
  assumes laws: "store_laws v s" and limit: "limit \<noteq> 0"
  shows "act_post (outbox_claim s limit lease)
     (claim_post v s limit (os_now s w) (os_now s w - lease) (ov_table v w) (ov_accepted v w)) w"
proof -
  let ?Q = "claim_post v s limit (os_now s w) (os_now s w - lease) (ov_table v w) (ov_accepted v w)"
  have "act_post (act_bind (act_map_err outbox_db_error (os_begin s)) (\<lambda>inner.
      dropping (os_drop s) (claim_in_tx s (ex_dialect (os_db s)) limit (os_now s w) (os_now s w - lease)
        (transaction_with_inner inner)))) ?Q w"
  proof (cases "os_begin s w")
    case (Pair r w')
    then have same: "ov_table v w' = ov_table v w" "ov_accepted v w' = ov_accepted v w"
      using store_lawsD(2,3) [OF laws, of w] by simp_all
    show ?thesis
    proof (cases r)
      case (Inl e)
      then show ?thesis using Pair same by (simp add: act_post_def act_bind_def act_map_err_def claim_post_def)
    next
      case (Inr inner)
      then have "ov_work v w' = ov_table v w'" "inner_laws v (ex_dialect (os_db s)) inner"
        using store_lawsD(1) [OF laws, of w inner w'] Pair same by simp_all
      then have "act_post (dropping (os_drop s) (claim_in_tx s (ex_dialect (os_db s)) limit (os_now s w) (os_now s w - lease)
        (transaction_with_inner inner))) ?Q w'"
        using claim_in_tx_post same store_lawsD(4,5) [OF laws] by (metis dropping_post)
      then show ?thesis using Pair Inr by (simp add: act_post_def act_bind_def act_map_err_def)
    qed
  qed
  then show ?thesis using limit
    by (auto simp: outbox_claim_def outbox_dialect_def checked_ts_def act_post_def act_bind_def claim_post_def)
qed

section \<open>What happens to a row\<close>

definition row_ok :: "outbox_row \<Rightarrow> bool" where
  "row_ok r \<longleftrightarrow> ob_status r \<in> {''pending'', ''processing'', ''done'', ''failed''} \<and>
     (ob_status r = ''processing'' \<longrightarrow> ob_claimed r \<noteq> None)"

text \<open>
  \<open>row_moves acc\<close>: a row is never deleted, keeps its content, is left alone once it is done, and
  becomes done only if \<open>acc\<close>; a new row is not done.
\<close>

definition row_moves :: "bool \<Rightarrow> outbox_row option \<Rightarrow> outbox_row option \<Rightarrow> bool" where
  "row_moves acc x y \<longleftrightarrow> (case x of
       None \<Rightarrow> (case y of None \<Rightarrow> True | Some r' \<Rightarrow> row_ok r' \<and> ob_status r' \<noteq> ''done'')
     | Some r \<Rightarrow> (case y of None \<Rightarrow> False | Some r' \<Rightarrow>
         ob_aggregate r' = ob_aggregate r \<and> ob_payload r' = ob_payload r \<and> ob_attempts r \<le> ob_attempts r' \<and>
         (row_ok r \<longrightarrow> row_ok r') \<and> (ob_status r = ''done'' \<longrightarrow> r' = r) \<and>
         (ob_status r' = ''done'' \<longrightarrow> ob_status r = ''done'' \<or> acc)))"

lemma row_moves_refl [simp]: "row_moves acc x x" if "x \<noteq> None"
  using that by (auto simp: row_moves_def)

lemma row_moves_same: "x = y \<Longrightarrow> row_moves acc x y"
  by (cases x) (auto simp: row_moves_def)

lemma claims_moves:
  assumes "claims s limit now cutoff T ids T'"
  shows "row_moves acc (T i) (T' i)"
proof -
  obtain nt st ct where sel: "selects (reclaim_table st ct T) nt (unat limit) ids"
    and T': "T' = claim_table nt ids (reclaim_table st ct T)"
    using assms by (auto simp: claims_def)
  have "due (reclaim_table st ct T) nt i" if "i \<in> set ids"
    using sel that by (auto simp: selects_def dest: in_set_takeD)
  then show ?thesis
    by (cases "T i") (auto simp: T' row_moves_def claim_table_def reclaim_table_def stale_def row_ok_def due_def)
qed

lemma settle_moves:
  "row_moves (i = j) (T j) (settle set_done i T j)"
  "row_moves acc (T j) (settle (set_failed nxt) i T j)"
  by (cases "T j"; auto simp: settle_def row_moves_def row_ok_def split: option.split)+

definition world_moves :: "'w outbox_view \<Rightarrow> 'w \<Rightarrow> 'w \<Rightarrow> bool" where
  "world_moves v w w' \<longleftrightarrow> ov_accepted v w \<subseteq> ov_accepted v w' \<and>
     (\<forall>i. row_moves (i \<in> ov_accepted v w') (ov_table v w i) (ov_table v w' i))"

lemma world_moves_same: "ov_table v w' = ov_table v w \<Longrightarrow> ov_accepted v w \<subseteq> ov_accepted v w' \<Longrightarrow> world_moves v w w'"
  by (simp add: world_moves_def row_moves_same)

lemma claim_moves:
  assumes "store_laws v s" "outbox_claim s limit lease w = (r, w')"
  shows "world_moves v w w'"
proof (cases "limit = 0")
  case True
  then show ?thesis using assms(2) by (simp add: outbox_claim_def world_moves_same)
next
  case False
  from act_postD [OF outbox_claim_post [OF assms(1) False] assms(2)] show ?thesis
    by (auto simp: claim_post_def world_moves_def row_moves_same claims_moves)
qed

lemma mark_done_run:
  assumes "mark_done s i w = (r, w')"
  shows "w' = w \<and> \<not> is_ok r \<or> (\<exists>q. is_ok q = is_ok r \<and>
     ex_execute_with (os_db s) (mark_done_sql (ex_dialect (os_db s))) [JString i] w = (q, w'))"
  using assms
  by (auto simp: mark_done_def outbox_dialect_def act_bind_def act_map_err_def map_err_def
      split: if_splits prod.splits sum.splits)

lemma mark_failed_run:
  assumes "mark_failed s i retry w = (r, w')"
  shows "w' = w \<and> \<not> is_ok r \<or> (\<exists>nxt q. os_fmt s (os_now s w + retry) = Ok nxt \<and> is_ok q = is_ok r \<and>
     ex_execute_with (os_db s) (mark_failed_sql (ex_dialect (os_db s))) [JString nxt, JString i] w = (q, w'))"
  using assms
  by (auto simp: mark_failed_def outbox_dialect_def checked_ts_def fmt_ts_def act_bind_def act_map_err_def map_err_def
      split: if_splits prod.splits sum.splits)

lemma mark_done_effect:
  assumes "store_laws v s" "mark_done s i w = (r, w')"
  shows "ov_accepted v w' = ov_accepted v w \<and>
    (ov_table v w' = settle set_done i (ov_table v w) \<or> \<not> is_ok r \<and> ov_table v w' = ov_table v w)"
  using mark_done_run [OF assms(2)] statementD [OF store_lawsD(6) [OF assms(1)]] by blast

lemma mark_failed_effect:
  assumes "store_laws v s" "mark_failed s i retry w = (r, w')"
  shows "ov_accepted v w' = ov_accepted v w \<and>
    ((\<exists>nxt. os_fmt s (os_now s w + retry) = Ok nxt \<and> ov_table v w' = settle (set_failed nxt) i (ov_table v w)) \<or>
     \<not> is_ok r \<and> ov_table v w' = ov_table v w)"
  using mark_failed_run [OF assms(2)] statementD [OF store_lawsD(7) [OF assms(1)]] by blast

lemma insert_moves: "ob_status r = ''pending'' \<Longrightarrow> row_moves acc None (Some r)"
  by (simp add: row_moves_def row_ok_def)

lemma append_moves:
  assumes "store_laws v s" "outbox_append s rec w = (r, w')"
  shows "world_moves v w w'"
proof (cases "rec_status rec = ObPending \<and> ex_dialect (os_db s) \<noteq> Mssql \<and> is_ok (os_fmt s (rec_next_attempt_at rec))")
  case False
  then have "w' = w"
    using assms(2) by (auto simp: outbox_append_def outbox_dialect_def fmt_ts_def act_bind_def map_err_def
        split: if_splits sum.splits)
  then show ?thesis by (simp add: world_moves_same)
next
  case True
  then obtain nt where nt: "os_fmt s (rec_next_attempt_at rec) = Ok nt" by (cases "os_fmt s (rec_next_attempt_at rec)") auto
  let ?stmt = "ex_execute_with (os_db s) (append_sql (ex_dialect (os_db s)))
    [JString (rec_id rec), JString (rec_aggregate rec), JString (os_encode s (rec_payload rec)), JString ''pending'',
     json_int (int (rec_attempts rec)), JString nt]"
  have w': "w' = snd (?stmt w)"
    using assms(2) True nt
    by (auto simp: outbox_append_def outbox_dialect_def fmt_ts_def act_bind_def act_map_err_def map_err_def
        split: prod.splits sum.splits)
  obtain q w2 where q: "?stmt w = (q, w2)" by (cases "?stmt w")
  then have "w' = w2" using w' by simp
  then show ?thesis using store_lawsD(8) [OF assms(1) q]
    by (auto simp: world_moves_def row_moves_same insert_moves)
qed

lemma deliver_moves:
  assumes "store_laws v s" "handler_laws v (rl_handler rl)" "rl_store rl = store_ops s" "deliver rl rec rep w = (r, w')"
  shows "world_moves v w w'"
proof -
  obtain hr w1 where h: "rl_handler rl rec w = (hr, w1)" by (cases "rl_handler rl rec w")
  then have h': "ov_table v w1 = ov_table v w" "ov_accepted v w \<subseteq> ov_accepted v w1"
    "is_ok hr \<Longrightarrow> rec_id rec \<in> ov_accepted v w1"
    using assms(2) unfolding handler_laws_def by (metis fst_conv snd_conv)+
  show ?thesis
  proof (cases hr)
    case (Inr u)
    then obtain q where "mark_done s (rec_id rec) w1 = (q, w')"
      using assms(3,4) h by (auto simp: deliver_def act_match_def act_bind_def store_ops_def split: prod.splits sum.splits)
    note e = mark_done_effect [OF assms(1) this]
    have "row_moves (j \<in> ov_accepted v w') (ov_table v w j) (settle set_done (rec_id rec) (ov_table v w) j)" for j
      using settle_moves(1) [of "rec_id rec" j "ov_table v w"] h'(3) Inr e(1) by (auto simp: row_moves_def split: option.splits)
    then show ?thesis using e h'(1,2) by (auto simp: world_moves_def row_moves_same)
  next
    case (Inl er)
    then obtain q where "mark_failed s (rec_id rec) (relay_backoff (rec_attempts rec)) w1 = (q, w')"
      using assms(3,4) h by (auto simp: deliver_def act_match_def act_bind_def store_ops_def split: prod.splits sum.splits)
    from mark_failed_effect [OF assms(1) this] show ?thesis
      using h' by (auto simp: world_moves_def row_moves_same settle_moves(2))
  qed
qed

section \<open>Nothing is lost\<close>

definition outbox_contract :: "'w outbox_view \<Rightarrow> 'w outbox_store \<Rightarrow> 'w outbox_relay \<Rightarrow> bool" where
  "outbox_contract v s rl \<longleftrightarrow> store_laws v s \<and> handler_laws v (rl_handler rl) \<and> rl_store rl = store_ops s"

lemma outbox_step_moves:
  assumes "outbox_contract v s rl" "outbox_step v s rl (w, bs) (w', bs')"
  shows "world_moves v w w'"
  using assms(2)
proof cases
  case step_crash
  then show ?thesis by (simp add: world_moves_same)
qed (use assms(1) in \<open>auto simp: outbox_contract_def intro: append_moves claim_moves deliver_moves world_moves_same\<close>)

definition outbox_inv :: "'w outbox_view \<Rightarrow> 'w \<Rightarrow> bool" where
  [inv_defs]: "outbox_inv v w \<longleftrightarrow> (\<forall>i r. ov_table v w i = Some r \<longrightarrow>
     row_ok r \<and> (ob_status r = ''done'' \<longrightarrow> i \<in> ov_accepted v w))"

lemma outbox_inv_moves:
  assumes "outbox_inv v w" "world_moves v w w'"
  shows "outbox_inv v w'"
  unfolding outbox_inv_def
proof (intro allI impI)
  fix i r' assume r': "ov_table v w' i = Some r'"
  have m: "row_moves (i \<in> ov_accepted v w') (ov_table v w i) (Some r')" and sub: "ov_accepted v w \<subseteq> ov_accepted v w'"
    using assms(2) r' by (auto simp: world_moves_def dest: spec [of _ i])
  show "row_ok r' \<and> (ob_status r' = ''done'' \<longrightarrow> i \<in> ov_accepted v w')"
    using m sub assms(1) by (cases "ov_table v w i") (auto simp: row_moves_def outbox_inv_def)
qed

interpretation outbox: inductive_invariant
  "\<lambda>st. outbox_contract v s rl \<and> outbox_init v st" "outbox_step v s rl"
  "\<lambda>st. outbox_contract v s rl \<and> outbox_inv v (fst st)" for v s rl
proof
  show "outbox_contract v s rl \<and> outbox_inv v (fst st')"
    if "outbox_contract v s rl \<and> outbox_inv v (fst st)" "outbox_step v s rl st st'" for st st'
    using that outbox_step_moves [of v s rl "fst st" "snd st" "fst st'" "snd st'"] outbox_inv_moves by auto
qed (auto simp: outbox_init_def outbox_inv_def)

text \<open>What holds of a row from one state to any later one.\<close>

definition row_kept :: "outbox_row \<Rightarrow> outbox_row \<Rightarrow> bool" where
  "row_kept r r' \<longleftrightarrow> ob_aggregate r' = ob_aggregate r \<and> ob_payload r' = ob_payload r \<and>
     ob_attempts r \<le> ob_attempts r' \<and> (ob_status r = ''done'' \<longrightarrow> r' = r)"

lemma kept_moves: "row_kept r r1 \<Longrightarrow> row_moves acc (Some r1) y \<Longrightarrow> \<exists>r'. y = Some r' \<and> row_kept r r'"
  by (cases y) (auto simp: row_moves_def row_kept_def)

lemma outbox_star_kept:
  assumes "outbox_contract v s rl" "(outbox_step v s rl)\<^sup>*\<^sup>* st st'" "ov_table v (fst st) i = Some r"
  shows "\<exists>r'. ov_table v (fst st') i = Some r' \<and> row_kept r r'"
  using assms(2)
proof (induction rule: rtranclp_induct)
  case base
  then show ?case using assms(3) by (auto simp: row_kept_def)
next
  case (step y z)
  then obtain r1 where r1: "ov_table v (fst y) i = Some r1" "row_kept r r1" by blast
  have "world_moves v (fst y) (fst z)"
    using outbox_step_moves [OF assms(1), of "fst y" "snd y" "fst z" "snd z"] step(2) by simp
  then have "row_moves (i \<in> ov_accepted v (fst z)) (Some r1) (ov_table v (fst z) i)"
    using r1(1) unfolding world_moves_def by metis
  from kept_moves [OF r1(2) this] show ?case .
qed

section \<open>A claim takes the due rows\<close>

lemma reclaimed_not_due:
  assumes "time_laws s" "os_fmt s now = Ok nt" "os_fmt s (now + STALE_BACKOFF) = Ok st"
  shows "due (reclaim_table st ct T) nt i \<longleftrightarrow> due T nt i"
    "due T nt i \<Longrightarrow> reclaim_table st ct T i = T i"
proof -
  have "now < now + STALE_BACKOFF" by (simp add: STALE_BACKOFF_def duration_seconds_def)
  then have "str_lt nt st" using assms unfolding time_laws_def by blast
  then show "due (reclaim_table st ct T) nt i \<longleftrightarrow> due T nt i" "due T nt i \<Longrightarrow> reclaim_table st ct T i = T i"
    by (cases "T i"; auto simp: due_def reclaim_table_def stale_def)+
qed

lemma selects_reclaimed:
  assumes "time_laws s" "os_fmt s now = Ok nt" "os_fmt s (now + STALE_BACKOFF) = Ok st"
    and "selects (reclaim_table st ct T) nt n ids"
  shows "selects T nt n ids"
proof -
  note same = reclaimed_not_due [OF assms(1-3), where ct = ct and T = T]
  obtain xs where xs: "distinct xs" "set xs = {i. due T nt i}" "ids = take n xs"
    "sorted_wrt (\<lambda>i j. \<not> str_lt (next_of (reclaim_table st ct T) j) (next_of (reclaim_table st ct T) i)) xs"
    using assms(4) same(1) by (auto simp: selects_def)
  have "sorted_wrt (\<lambda>i j. \<not> str_lt (next_of T j) (next_of T i)) xs"
    by (rule sorted_wrt_mono_rel [OF _ xs(4)]) (use xs(2) same(2) in \<open>auto simp: next_of_def\<close>)
  then show ?thesis using xs by (auto simp: selects_def)
qed

lemma selects_due: "selects T nt n ids \<Longrightarrow> i \<in> set ids \<Longrightarrow> due T nt i"
  by (auto simp: selects_def dest: in_set_takeD)


section \<open>A round settles its batch\<close>







lemma claimed_images:
  assumes "list_all2 (\<lambda>i rec. \<exists>row. T i = Some row \<and> record_image s i row rec \<and> rec_status rec = ObProcessing) ids rs"
  shows "map rec_id rs = ids \<and> (\<forall>rec \<in> set rs. \<exists>row. T (rec_id rec) = Some row \<and> record_image s (rec_id rec) row rec \<and>
     rec_status rec = ObProcessing)"
  using assms by (induction rule: list_all2_induct) (auto simp: record_image_def)

section \<open>Properties\<close>

text \<open>
  C20. Nothing is lost: however relays, appends, crashes and failing statements interleave, a row that
  was ever stored stays stored with its content, its number of attempts never decreases, a row
  that is done is never touched again, a row that becomes done was accepted by the handler, and
  one that is being processed has the timestamp by which its lease can run out.
\<close>

theorem outbox_loses_nothing:
  assumes "outbox_contract v s rl" "reachable_from (outbox_init v) (outbox_step v s rl) st"
    and "(outbox_step v s rl)\<^sup>*\<^sup>* st st'" "ov_table v (fst st) i = Some r"
  shows "\<exists>r'. ov_table v (fst st') i = Some r' \<and>
     ob_aggregate r' = ob_aggregate r \<and> ob_payload r' = ob_payload r \<and> ob_attempts r \<le> ob_attempts r' \<and>
     (ob_status r = ''done'' \<longrightarrow> r' = r) \<and> (ob_status r' = ''done'' \<longrightarrow> i \<in> ov_accepted v (fst st')) \<and>
     (ob_status r' = ''processing'' \<longrightarrow> ob_claimed r' \<noteq> None)"
proof -
  obtain r' where r': "ov_table v (fst st') i = Some r'" "row_kept r r'"
    using outbox_star_kept [OF assms(1,3,4)] by blast
  have "reachable_from (\<lambda>st. outbox_contract v s rl \<and> outbox_init v st) (outbox_step v s rl) st'"
    by (rule reachable_from_mono [OF reachable_star [OF assms(2,3)]]) (simp add: assms(1))
  from outbox.reachable_invar [OF this] r' show ?thesis
    by (auto simp: outbox_inv_def row_kept_def row_ok_def)
qed

text \<open>
  C21. A claim takes exactly what is due: it returns the rows that are pending or failed and whose next
  attempt has come, the earliest first and at most \<open>limit\<close> of them, each with its content and now
  marked as being processed since \<open>now\<close>; rows whose lease has run out go back to pending with one
  more attempt and the stale backoff; every other row is left alone. In particular a row whose
  lease is still running is neither returned nor changed.
\<close>

theorem claim_takes_the_due_rows:
  assumes "store_laws v s" "time_laws s" "limit \<noteq> 0" "outbox_claim s limit lease w = (Ok rs, w')"
  shows "\<exists>now_text cutoff_text stale_text. os_fmt s (os_now s w) = Ok now_text \<and>
     os_fmt s (os_now s w - lease) = Ok cutoff_text \<and> os_fmt s (os_now s w + STALE_BACKOFF) = Ok stale_text \<and>
     selects (ov_table v w) now_text (unat limit) (map rec_id rs) \<and>
     (\<forall>rec \<in> set rs. \<exists>row. ov_table v w (rec_id rec) = Some row \<and> record_image s (rec_id rec) row rec \<and>
        rec_status rec = ObProcessing \<and>
        ov_table v w' (rec_id rec) = Some (row\<lparr>ob_status := ''processing'', ob_claimed := Some now_text\<rparr>)) \<and>
     (\<forall>i. i \<notin> rec_id ` set rs \<longrightarrow> ov_table v w' i = reclaim_table stale_text cutoff_text (ov_table v w) i) \<and>
     (\<forall>i row t claimed_text. ov_table v w i = Some row \<and> ob_status row = ''processing'' \<and>
        ob_claimed row = Some claimed_text \<and> os_fmt s t = Ok claimed_text \<and> os_now s w - t \<le> lease \<longrightarrow>
        i \<notin> rec_id ` set rs \<and> ov_table v w' i = ov_table v w i)"
proof -
  let ?T = "ov_table v w"
  from act_postD [OF outbox_claim_post [OF assms(1,3)] assms(4)] obtain ids where
    cl: "claims s limit (os_now s w) (os_now s w - lease) ?T ids (ov_table v w')"
    and im: "list_all2 (\<lambda>i rec. \<exists>row. ov_table v w' i = Some row \<and> record_image s i row rec \<and> rec_status rec = ObProcessing) ids rs"
    by (auto simp: claim_post_def)
  from cl obtain nt st ct where f: "os_fmt s (os_now s w) = Ok nt" "os_fmt s (os_now s w + STALE_BACKOFF) = Ok st"
      "os_fmt s (os_now s w - lease) = Ok ct"
    and T': "ov_table v w' = claim_table nt ids (reclaim_table st ct ?T)"
    and sel: "selects (reclaim_table st ct ?T) nt (unat limit) ids"
    by (auto simp: claims_def)
  note ids = claimed_images [OF im, THEN conjunct1] and row_of = claimed_images [OF im, THEN conjunct2]
  have sel': "selects ?T nt (unat limit) ids" by (rule selects_reclaimed [OF assms(2) f(1,2) sel])
  note due = selects_due [OF sel']
  have same: "reclaim_table st ct ?T i = ?T i" if "i \<in> set ids" for i
    using reclaimed_not_due(2) [OF assms(2) f(1,2) due [OF that]] .
  have recs: "\<exists>row. ?T (rec_id rec) = Some row \<and> record_image s (rec_id rec) row rec \<and> rec_status rec = ObProcessing \<and>
      ov_table v w' (rec_id rec) = Some (row\<lparr>ob_status := ''processing'', ob_claimed := Some nt\<rparr>)" if rec: "rec \<in> set rs" for rec
  proof -
    have i: "rec_id rec \<in> set ids" unfolding ids [symmetric] using rec by simp
    obtain row' where r: "ov_table v w' (rec_id rec) = Some row'" "record_image s (rec_id rec) row' rec" "rec_status rec = ObProcessing"
      using row_of rec by blast
    have "ov_table v w' (rec_id rec) = map_option (\<lambda>r. r\<lparr>ob_status := ''processing'', ob_claimed := Some nt\<rparr>) (?T (rec_id rec))"
      using i same [OF i] by (simp add: T' claim_table_def)
    then obtain row where "?T (rec_id rec) = Some row" "row' = row\<lparr>ob_status := ''processing'', ob_claimed := Some nt\<rparr>"
      using r(1) by (cases "?T (rec_id rec)") simp_all
    then show ?thesis using r by (simp add: record_image_def)
  qed
  have leased: "i \<notin> set ids \<and> ov_table v w' i = ?T i"
    if "?T i = Some row" "ob_status row = ''processing''" "ob_claimed row = Some x" "os_fmt s t = Ok x" "os_now s w - t \<le> lease"
    for i row t x
  proof -
    have "i \<notin> set ids" using due [of i] that(1,2) by (auto simp: due_def)
    moreover have "\<not> str_lt x ct" using assms(2) that(4,5) f(3) unfolding time_laws_def by force
    ultimately show ?thesis using that(1-3) T' by (simp add: claim_table_def reclaim_table_def stale_def)
  qed
  have set_ids: "set ids = rec_id ` set rs" unfolding ids [symmetric] by simp
  have rest: "ov_table v w' i = reclaim_table st ct ?T i" if "i \<notin> set ids" for i
    using that by (simp add: T' claim_table_def)
  show ?thesis
  proof (intro exI conjI)
    show "os_fmt s (os_now s w) = Ok nt" "os_fmt s (os_now s w - lease) = Ok ct" "os_fmt s (os_now s w + STALE_BACKOFF) = Ok st"
      by (rule f)+
    show "selects ?T nt (unat limit) (map rec_id rs)" unfolding ids by (rule sel')
    show "\<forall>rec \<in> set rs. \<exists>row. ?T (rec_id rec) = Some row \<and> record_image s (rec_id rec) row rec \<and>
        rec_status rec = ObProcessing \<and>
        ov_table v w' (rec_id rec) = Some (row\<lparr>ob_status := ''processing'', ob_claimed := Some nt\<rparr>)"
      using recs by (intro ballI)
    show "\<forall>i. i \<notin> rec_id ` set rs \<longrightarrow> ov_table v w' i = reclaim_table st ct ?T i"
      using rest unfolding set_ids by (intro allI impI)
    show "\<forall>i row t x. ?T i = Some row \<and> ob_status row = ''processing'' \<and> ob_claimed row = Some x \<and> os_fmt s t = Ok x \<and>
        os_now s w - t \<le> lease \<longrightarrow> i \<notin> rec_id ` set rs \<and> ov_table v w' i = ?T i"
      using leased unfolding set_ids by blast
  qed
qed


section \<open>Example\<close>

text \<open>
  A SQLite database with one pending message, and a handler that accepts everything. Timestamps
  are written in unary, which keeps their order; the clock shows 100.
\<close>

record ex_world =
  xw_table :: outbox_table
  xw_work :: outbox_table
  xw_accepted :: "string set"

definition ex_txt :: "int \<Rightarrow> string" where
  "ex_txt t = replicate (nat t) (CHR ''x'')"

definition ex_row :: outbox_row where
  "ex_row = \<lparr> ob_aggregate = ''order'', ob_payload = ''p'', ob_status = ''pending'', ob_attempts = 0, ob_next = ex_txt 0,
     ob_claimed = None \<rparr>"

definition ex_db_row :: db_row where
  "ex_db_row = \<lparr> row_columns = [''id'', ''aggregate'', ''payload'', ''status'', ''attempts'', ''next_attempt_at''],
     row_values = [JString ''m'', JString ''order'', JString ''p'', JString ''pending'', json_int 0, JString (ex_txt 0)] \<rparr>"

definition ex_execute :: "string \<Rightarrow> json_value list \<Rightarrow> (rdbms_error, ex_world, nat) act" where
  "ex_execute sql ps w =
     (if sql = mark_done_sql Sqlite then (case ps of
        [JString i] \<Rightarrow> (Ok 1, w\<lparr>xw_table := settle set_done i (xw_table w)\<rparr>) | _ \<Rightarrow> (Err NoAvailableReplica, w))
      else if sql = mark_failed_sql Sqlite then (case ps of
        [JString nxt, JString i] \<Rightarrow> (Ok 1, w\<lparr>xw_table := settle (set_failed nxt) i (xw_table w)\<rparr>)
        | _ \<Rightarrow> (Err NoAvailableReplica, w))
      else (case ps of
        [JString i, JString ag, JString pl, JString st, n, JString nxt] \<Rightarrow> (case (as_i64 n, xw_table w i) of
            (Some k, None) \<Rightarrow> (Ok 1, w\<lparr>xw_table := (xw_table w)(i \<mapsto> \<lparr> ob_aggregate = ag, ob_payload = pl,
               ob_status = st, ob_attempts = k, ob_next = nxt, ob_claimed = None \<rparr>)\<rparr>)
          | _ \<Rightarrow> (Err NoAvailableReplica, w))
        | _ \<Rightarrow> (Err NoAvailableReplica, w)))"

definition ex_inner :: "ex_world transaction_inner" where
  "ex_inner = \<lparr> in_execute = (\<lambda>_. act_err NoAvailableReplica), in_query = (\<lambda>_. act_err NoAvailableReplica),
     in_execute_with = (\<lambda>sql ps w. case ps of
        JString a # rest \<Rightarrow>
          (if sql = reclaim_sql Sqlite then (case rest of
             [JString c] \<Rightarrow> (Ok 1, w\<lparr>xw_work := reclaim_table a c (xw_work w)\<rparr>) | _ \<Rightarrow> (Err NoAvailableReplica, w))
           else (Ok 1, w\<lparr>xw_work := claim_table a (map (\<lambda>v. case as_str v of Some i \<Rightarrow> i | None \<Rightarrow> []) rest) (xw_work w)\<rparr>))
        | _ \<Rightarrow> (Err NoAvailableReplica, w)),
     in_query_with = (\<lambda>sql ps w.
        if ps = [JString (ex_txt 100), json_int 32] \<and> xw_work w = [''m'' \<mapsto> ex_row] then (Ok [ex_db_row], w)
        else (Err NoAvailableReplica, w)),
     in_dialect = Sqlite, in_commit = (\<lambda>w. (Ok (), w\<lparr>xw_table := xw_work w\<rparr>)), in_rollback = act_ok () \<rparr>"

definition ex_store :: "ex_world outbox_store" where
  "ex_store = \<lparr> os_db = (default_executor (\<lambda>_. act_err NoAvailableReplica) (\<lambda>_. act_err NoAvailableReplica) Sqlite)
       \<lparr> ex_execute_with := ex_execute \<rparr>,
     os_begin = (\<lambda>w. (Ok ex_inner, w\<lparr>xw_work := xw_table w\<rparr>)), os_drop = (\<lambda>w. w), os_now = (\<lambda>_. 100),
     os_in_range = (\<lambda>_. True), os_fmt = (\<lambda>t. if t < 0 then Err [] else Ok (ex_txt t)),
     os_parse = (\<lambda>x. Ok (int (length x))), os_encode = (\<lambda>_. ''p''), os_decode = (\<lambda>_. Ok []) \<rparr>"

definition ex_relay :: "ex_world outbox_relay" where
  "ex_relay = (relay_new ex_store (\<lambda>r w. (Ok (), w\<lparr>xw_accepted := insert (rec_id r) (xw_accepted w)\<rparr>)))\<lparr>rl_lease := 50\<rparr>"

definition ex_view :: "ex_world outbox_view" where
  "ex_view = \<lparr> ov_table = xw_table, ov_work = xw_work, ov_accepted = xw_accepted \<rparr>"

definition ex_start :: ex_world where
  "ex_start = \<lparr> xw_table = [''m'' \<mapsto> ex_row], xw_work = Map.empty, xw_accepted = {} \<rparr>"

lemma ex_txt_lt: "0 \<le> a \<Longrightarrow> 0 \<le> b \<Longrightarrow> str_lt (ex_txt a) (ex_txt b) \<longleftrightarrow> a < b"
proof -
  have "str_lt (replicate m c) (replicate n c) \<longleftrightarrow> m < n" for m n :: nat and c
    by (induction m arbitrary: n) (case_tac n; simp)+
  then show "0 \<le> a \<Longrightarrow> 0 \<le> b \<Longrightarrow> ?thesis" by (auto simp: ex_txt_def)
qed

lemma ex_time: "time_laws ex_store"
  by (auto simp: time_laws_def ex_store_def ex_txt_lt split: if_splits) (simp add: ex_txt_def)

lemma ex_sql:
  "mark_failed_sql d \<noteq> mark_done_sql d" "append_sql d \<noteq> mark_done_sql d" "append_sql d \<noteq> mark_failed_sql d"
  "claim_sql d n \<noteq> reclaim_sql d"
  by (simp_all add: mark_failed_sql_def mark_done_sql_def append_sql_def claim_sql_def reclaim_sql_def quoted_def Let_def)

lemma ex_due: "due [''m'' \<mapsto> ex_row] (ex_txt 100) i \<longleftrightarrow> i = ''m''"
  by (simp add: due_def ex_row_def ex_txt_lt)

lemma ex_selects: "selects [''m'' \<mapsto> ex_row] (ex_txt 100) 32 [''m'']"
  unfolding selects_def by (rule exI [of _ "[''m'']"]) (auto simp: ex_due)

lemma ex_db_row_image: "row_image ''m'' ex_row ex_db_row"
  by (simp add: row_image_def ex_row_def ex_db_row_def row_get_def)

lemma ex_inner_laws: "inner_laws ex_view Sqlite ex_inner"
proof -
  have "json_int (uint limit) = json_int 32 \<longleftrightarrow> unat limit = 32" for limit :: u32
    by (auto simp: json_int_def)
  then show ?thesis
    using ex_selects ex_db_row_image
    by (auto simp: inner_laws_def tx_statement_def ex_view_def ex_inner_def ex_sql comp_def as_str_def)
qed

lemma ex_json_int: "as_i64 (json_int n) = Some k \<Longrightarrow> k = n"
  by (auto simp: as_i64_def json_int_def number_as_i64_def split: if_splits)

lemma ex_contract: "outbox_contract ex_view ex_store ex_relay"
  using ex_inner_laws
  by (auto simp: outbox_contract_def store_laws_def handler_laws_def statement_def ex_relay_def relay_new_def
      ex_store_def default_executor_def ex_execute_def ex_view_def ex_sql ex_sql [symmetric]
      split: option.splits dest!: ex_json_int)

definition ex_claimed :: ex_world where
  "ex_claimed = \<lparr> xw_table = claim_table (ex_txt 100) [''m''] [''m'' \<mapsto> ex_row],
     xw_work = claim_table (ex_txt 100) [''m''] [''m'' \<mapsto> ex_row], xw_accepted = {} \<rparr>"

definition ex_message :: outbox_record where
  "ex_message = \<lparr> rec_id = ''m'', rec_aggregate = ''order'', rec_payload = [], rec_status = ObProcessing, rec_attempts = 0,
     rec_next_attempt_at = 0 \<rparr>"

lemma ex_reclaim: "reclaim_table st ct [''m'' \<mapsto> ex_row] = [''m'' \<mapsto> ex_row]"
  by (auto simp: reclaim_table_def stale_def ex_row_def)

lemma ex_from_row: "from_row ex_store ex_db_row = Ok (ex_message\<lparr>rec_status := ObPending\<rparr>)"
  by (simp add: from_row_def ex_store_def ex_db_row_def outbox_text_def outbox_int_def row_get_def as_str_def
      outbox_status_parse_def as_i64_json_int is_i64_def i64_min_def i64_max_def parse_ts_def ex_message_def ex_txt_def)

lemma ex_claim: "outbox_claim ex_store 32 50 ex_start = (Ok [ex_message], ex_claimed)"
proof -
  have "claim_due ex_store Sqlite 32 100 (transaction_with_inner ex_inner)
      (ex_start\<lparr>xw_work := [''m'' \<mapsto> ex_row]\<rparr>) = (Ok [ex_message], ex_claimed)"
    using ex_from_row
    by (simp add: claim_due_def act_bind_def act_map_err_def fmt_ts_def ex_inner_def ex_sql ex_store_def ex_start_def
        ex_claimed_def ex_message_def as_str_def)
  then show ?thesis
    by (simp add: outbox_claim_def claim_in_tx_def act_bind_def act_map_err_def fmt_ts_def outbox_dialect_def checked_ts_def
        dropping_def ex_store_def default_executor_def ex_inner_def ex_start_def STALE_BACKOFF_def duration_seconds_def ex_reclaim)
qed


definition ex_empty :: ex_world where
  "ex_empty = \<lparr> xw_table = Map.empty, xw_work = Map.empty, xw_accepted = {} \<rparr>"

lemma ex_append: "outbox_append ex_store (ex_message\<lparr>rec_status := ObPending\<rparr>) ex_empty = (Ok (), ex_start)"
  by (simp add: outbox_append_def ex_message_def outbox_dialect_def ex_store_def default_executor_def fmt_ts_def act_bind_def
      act_map_err_def ex_execute_def ex_sql as_i64_json_int is_i64_def i64_min_def i64_max_def ex_empty_def ex_start_def ex_row_def)

definition ex_done :: ex_world where
  "ex_done = ex_claimed\<lparr>xw_table := settle set_done ''m'' (xw_table ex_claimed), xw_accepted := {''m''}\<rparr>"

lemma ex_deliver:
  "deliver ex_relay ex_message rep ex_claimed = (Ok (rep\<lparr>rr_done := rr_done rep + 1\<rparr>), ex_done)"
  by (simp add: deliver_def act_match_def act_bind_def act_map_err_def ex_relay_def relay_new_def store_ops_def mark_done_def
      outbox_dialect_def ex_store_def default_executor_def ex_execute_def ex_message_def ex_done_def ex_claimed_def)

theorem outbox_loses_nothing_witness:
  "\<exists>r'. xw_table ex_done ''m'' = Some r' \<and> ob_status r' = ''done'' \<and> ob_payload r' = ''p'' \<and> ''m'' \<in> xw_accepted ex_done"
proof -
  let ?step = "outbox_step ex_view ex_store ex_relay"
  have "reachable_from (outbox_init ex_view) ?step (ex_empty, \<lambda>_. [])"
    by (rule reach_init) (simp add: outbox_init_def ex_view_def ex_empty_def)
  from reach_step [OF this step_append [OF ex_append]]
  have r: "reachable_from (outbox_init ex_view) ?step (ex_start, \<lambda>_. [])" .
  have "?step (ex_start, \<lambda>_. []) (ex_claimed, (\<lambda>_. [])(0 := [ex_message]))"
    by (rule step_claim [OF _ ex_claim]) simp
  moreover have "?step (ex_claimed, (\<lambda>_. [])(0 := [ex_message])) (ex_done, ((\<lambda>_. [])(0 := [ex_message]))(0 := []))"
    by (rule step_deliver [OF _ ex_deliver]) simp
  ultimately have "?step\<^sup>*\<^sup>* (ex_start, \<lambda>_. []) (ex_done, ((\<lambda>_. [])(0 := [ex_message]))(0 := []))" by auto
  from outbox_loses_nothing [OF ex_contract r this, of "''m''" ex_row]
  obtain r' where "xw_table ex_done ''m'' = Some r'" "ob_payload r' = ''p''"
    "ob_status r' = ''done'' \<longrightarrow> ''m'' \<in> xw_accepted ex_done"
    by (auto simp: ex_view_def ex_start_def ex_row_def)
  moreover have "map_option ob_status (xw_table ex_done ''m'') = Some ''done''"
    by (simp add: ex_done_def ex_claimed_def settle_def claim_table_def)
  ultimately show ?thesis by auto
qed

theorem claim_takes_the_due_rows_witness:
  "selects (xw_table ex_start) (ex_txt 100) 32 [''m''] \<and>
   map_option ob_claimed (xw_table ex_claimed ''m'') = Some (Some (ex_txt 100))"
proof -
  have laws: "store_laws ex_view ex_store" using ex_contract by (simp add: outbox_contract_def)
  from claim_takes_the_due_rows [OF laws ex_time _ ex_claim] obtain nt where
    n: "os_fmt ex_store 100 = Ok nt" and s: "selects (xw_table ex_start) nt 32 [''m'']"
    and c: "\<exists>row. xw_table ex_claimed ''m'' = Some (row\<lparr>ob_status := ''processing'', ob_claimed := Some nt\<rparr>)"
    by (auto simp: ex_view_def ex_message_def ex_store_def)
  have "nt = ex_txt 100" using n by (simp add: ex_store_def)
  then show ?thesis using s c by auto
qed


end
