(* ===== verification/MigratePlan.thy ===== *)
theory MigratePlan
  imports Catalog
begin

text \<open>
  \<^verbatim>\<open>ecat-data-sharding/src/migrate/plan.rs\<close>: the plan of moves between two topologies. Keys are
  \<^verbatim>\<open>i64\<close> values, boundaries too.
\<close>

section \<open>Plans (plan.rs)\<close>

record key_range =
  kr_low :: "int option"
  kr_high :: "int option"

record shard_move =
  mv_table :: string
  mv_from :: string
  mv_to :: string
  mv_range :: "key_range option"

record shard_plan =
  plan_moves :: "shard_move list"

definition same_shard_names :: "shard_table \<Rightarrow> shard_table \<Rightarrow> bool" where
  "same_shard_names a b \<longleftrightarrow> map ep_name (tbl_shards a) = map ep_name (tbl_shards b)"

definition full_copy_moves :: "shard_table \<Rightarrow> shard_table \<Rightarrow> shard_move list" where
  "full_copy_moves old new =
     concat (map (\<lambda>f. map (\<lambda>t. \<lparr>mv_table = tbl_name old, mv_from = ep_name f, mv_to = ep_name t, mv_range = None\<rparr>)
       (tbl_shards new)) (tbl_shards old))"

definition range_index :: "shard_algorithm \<Rightarrow> int \<Rightarrow> (shard_error, nat) result" where
  "range_index algorithm key = (case algorithm of
       RangeBoundaries boundaries \<Rightarrow> Ok (partition_point (\<lambda>b. b \<le> key) boundaries)
     | HashMod _ \<Rightarrow> Err (ShardConfig ''range_index called on a hash algorithm''))"

text \<open>The intervals between the boundaries, each with a key that stands for it.\<close>

fun intervals :: "int option \<Rightarrow> int list \<Rightarrow> (int option \<times> int option \<times> int) list" where
  "intervals low [] = [(low, None, case low of None \<Rightarrow> 0 | Some l \<Rightarrow> l)]"
| "intervals low (b # bs) =
     (if b > i64_min then (low, Some b, b - 1) # intervals (Some b) bs else intervals (Some b) bs)"

definition get_shard_name :: "shard_table \<Rightarrow> nat \<Rightarrow> (shard_error, string) result" where
  "get_shard_name t i = (if i < length (tbl_shards t) then Ok (ep_name (tbl_shards t ! i)) else Err ShardCountMismatch)"

text \<open>One round of the loop that pushes a move or widens the last one.\<close>

definition push_move :: "string \<Rightarrow> shard_move list \<Rightarrow> int option \<Rightarrow> int option \<Rightarrow> string \<Rightarrow> string \<Rightarrow> shard_move list" where
  "push_move table moves low high from to =
     (if from = to then moves
      else if moves \<noteq> [] \<and> mv_from (last moves) = from \<and> mv_to (last moves) = to \<and>
        (case mv_range (last moves) of Some r \<Rightarrow> kr_high r = low | None \<Rightarrow> False)
      then butlast moves @ [(last moves)\<lparr>mv_range := map_option (\<lambda>r. r\<lparr>kr_high := high\<rparr>) (mv_range (last moves))\<rparr>]
      else moves @ [\<lparr>mv_table = table, mv_from = from, mv_to = to, mv_range = Some \<lparr>kr_low = low, kr_high = high\<rparr>\<rparr>])"

fun range_loop ::
  "shard_table \<Rightarrow> shard_table \<Rightarrow> shard_move list \<Rightarrow> (int option \<times> int option \<times> int) list \<Rightarrow>
   (shard_error, shard_move list) result" where
  "range_loop old new moves [] = Ok moves"
| "range_loop old new moves ((low, high, representative) # rest) =
     try_bind (range_index (tbl_algorithm old) representative) (\<lambda>old_index.
     try_bind (range_index (tbl_algorithm new) representative) (\<lambda>new_index.
     try_bind (get_shard_name old old_index) (\<lambda>from.
     try_bind (get_shard_name new new_index) (\<lambda>to.
       range_loop old new (push_move (tbl_name old) moves low high from to) rest))))"

definition range_moves :: "shard_table \<Rightarrow> shard_table \<Rightarrow> (shard_error, shard_move list) result" where
  "range_moves old new = (case (tbl_algorithm old, tbl_algorithm new) of
       (RangeBoundaries ob, RangeBoundaries nb) \<Rightarrow>
         range_loop old new [] (intervals None (remdups_adj (sort (ob @ nb))))
     | _ \<Rightarrow> Err (ShardConfig ''range_moves called on a non-range algorithm''))"

definition table_moves :: "shard_table \<Rightarrow> shard_table \<Rightarrow> (shard_error, shard_move list) result" where
  "table_moves old new =
     (if tbl_key old \<noteq> tbl_key new \<or> tbl_pk old \<noteq> tbl_pk new
      then Err (ShardConfig (''table `'' @ tbl_name new @ ''` changes key/pk; migration is unsupported''))
      else case (tbl_algorithm old, tbl_algorithm new) of
          (RangeBoundaries _, RangeBoundaries _) \<Rightarrow> range_moves old new
        | (HashMod _, HashMod _) \<Rightarrow> Ok (if same_shard_names old new then [] else full_copy_moves old new)
        | _ \<Rightarrow> Ok (full_copy_moves old new))"

fun diff_tables :: "shard_table list \<Rightarrow> shard_move list \<Rightarrow> shard_table list \<Rightarrow> (shard_error, shard_move list) result" where
  "diff_tables olds moves [] = Ok moves"
| "diff_tables olds moves (new # news) = (case find (\<lambda>t. tbl_name t = tbl_name new) olds of
       None \<Rightarrow> diff_tables olds moves news
     | Some old \<Rightarrow> try_bind (table_moves old new) (\<lambda>ms. diff_tables olds (moves @ ms) news))"

definition plan_diff :: "shard_catalog \<Rightarrow> shard_catalog \<Rightarrow> (shard_error, shard_plan) result" where
  "plan_diff old new =
     try_bind (validate old) (\<lambda>_. try_bind (validate new) (\<lambda>_.
     try_bind (diff_tables (cat_tables old) [] (cat_tables new)) (\<lambda>moves. Ok \<lparr>plan_moves = moves\<rparr>)))"

definition plan_is_empty :: "shard_plan \<Rightarrow> bool" where
  "plan_is_empty p \<longleftrightarrow> plan_moves p = []"

section \<open>What a range plan covers\<close>

text \<open>\<open>covers\<close>: the key lies in the move's range. \<open>range_name\<close>: the shard a range table keeps it in.\<close>

definition in_interval :: "int option \<Rightarrow> int option \<Rightarrow> int \<Rightarrow> bool" where
  "in_interval low high k \<longleftrightarrow> (case low of None \<Rightarrow> True | Some l \<Rightarrow> l \<le> k) \<and> (case high of None \<Rightarrow> True | Some h \<Rightarrow> k < h)"

definition covers :: "int \<Rightarrow> shard_move \<Rightarrow> bool" where
  "covers k m \<longleftrightarrow> (case mv_range m of None \<Rightarrow> True | Some r \<Rightarrow> in_interval (kr_low r) (kr_high r) k)"

definition range_boundaries :: "shard_table \<Rightarrow> int list" where
  "range_boundaries t = (case tbl_algorithm t of RangeBoundaries bs \<Rightarrow> bs | HashMod _ \<Rightarrow> [])"

definition range_name :: "shard_table \<Rightarrow> int \<Rightarrow> string" where
  "range_name t k = ep_name (tbl_shards t ! partition_point (\<lambda>b. b \<le> k) (range_boundaries t))"

text \<open>Boundaries that do not separate two keys keep them in the same shard.\<close>

lemma partition_point_same:
  assumes "\<forall>b \<in> set bs. b \<le> k \<longleftrightarrow> b \<le> k'"
  shows "partition_point (\<lambda>b. b \<le> k) bs = partition_point (\<lambda>b. b \<le> k') bs"
  unfolding partition_point_def using assms by (auto intro: arg_cong [of _ _ length] takeWhile_cong)

text \<open>\<open>below cur\<close>: the keys already dealt with when the loop has reached the lower bound \<open>cur\<close>.\<close>

definition below :: "int option \<Rightarrow> int \<Rightarrow> bool" where
  "below cur k \<longleftrightarrow> (case cur of None \<Rightarrow> False | Some l \<Rightarrow> k < l)"

definition exact_for :: "shard_table \<Rightarrow> shard_table \<Rightarrow> shard_move list \<Rightarrow> int \<Rightarrow> bool" where
  "exact_for old new moves k \<longleftrightarrow>
     (if range_name old k = range_name new k then filter (covers k) moves = []
      else \<exists>m. filter (covers k) moves = [m] \<and> mv_table m = tbl_name old \<and>
             mv_from m = range_name old k \<and> mv_to m = range_name new k)"

definition moves_upto :: "shard_table \<Rightarrow> shard_table \<Rightarrow> shard_move list \<Rightarrow> int option \<Rightarrow> bool" where
  "moves_upto old new moves cur \<longleftrightarrow>
     (\<forall>k. is_i64 k \<longrightarrow> (if below cur k then exact_for old new moves k else filter (covers k) moves = [])) \<and>
     (\<forall>m \<in> set moves. \<exists>r. mv_range m = Some r \<and> mv_table m = tbl_name old \<and>
        (\<forall>l. kr_low r = Some l \<longrightarrow> below cur l))"

lemma push_move_upto:
  assumes inv: "moves_upto old new moves low"
    and lt: "\<And>l. low = Some l \<Longrightarrow> \<exists>h. high = None \<or> high = Some h \<and> l < h"
    and names: "\<And>k. is_i64 k \<Longrightarrow> in_interval low high k \<Longrightarrow> range_name old k = from \<and> range_name new k = to"
    and "moves' = push_move (tbl_name old) moves low high from to"
  shows "(\<forall>k. is_i64 k \<longrightarrow> (if below low k \<or> in_interval low high k then exact_for old new moves' k
            else filter (covers k) moves' = [])) \<and>
         (\<forall>m \<in> set moves'. \<exists>r. mv_range m = Some r \<and> mv_table m = tbl_name old \<and>
            (\<forall>l. kr_low r = Some l \<longrightarrow> below low l \<or> low = Some l))"
proof -
  have disj: "\<not> (below low k \<and> in_interval low high k)" for k
    by (auto simp: below_def in_interval_def split: option.splits)
  have base: "is_i64 k \<Longrightarrow> (if below low k then exact_for old new moves k else filter (covers k) moves = [])" for k
    using inv by (simp add: moves_upto_def)
  have ranges: "\<forall>m \<in> set moves. \<exists>r. mv_range m = Some r \<and> mv_table m = tbl_name old \<and>
      (\<forall>l. kr_low r = Some l \<longrightarrow> below low l)"
    using inv by (simp add: moves_upto_def)
  let ?widen = "moves \<noteq> [] \<and> mv_from (last moves) = from \<and> mv_to (last moves) = to \<and>
        (case mv_range (last moves) of Some r \<Rightarrow> kr_high r = low | None \<Rightarrow> False)"
  consider "from = to" | "from \<noteq> to" ?widen | "from \<noteq> to" "\<not> ?widen" by blast
  then show ?thesis
  proof cases
    case 1
    then have "moves' = moves" using assms(4) by (simp add: push_move_def)
    moreover have "if below low k \<or> in_interval low high k then exact_for old new moves k else filter (covers k) moves = []"
      if k: "is_i64 k" for k
      using base [OF k] names [OF k] disj [of k] 1 by (cases "in_interval low high k") (auto simp: exact_for_def)
    ultimately show ?thesis using ranges by blast
  next
    case 2
    obtain ms m where ms: "moves = ms @ [m]" using 2(2) by (metis rev_exhaust)
    then obtain r where r: "mv_range m = Some r" "kr_high r = low" "mv_from m = from" "mv_to m = to"
      using 2(2) by (auto split: option.splits)
    have mt: "mv_table m = tbl_name old" "\<And>l. kr_low r = Some l \<Longrightarrow> below low l" using ranges ms r by auto
    let ?m = "m\<lparr>mv_range := Some (r\<lparr>kr_high := high\<rparr>)\<rparr>"
    have m': "moves' = ms @ [?m]" using assms(4) 2 ms r by (simp add: push_move_def)
    obtain b where b: "low = Some b"
    proof (cases low)
      case None
      have "filter (covers 0) moves = []" using base [of 0] None by (simp add: below_def is_i64_def i64_min_def i64_max_def)
      moreover have "kr_low r = None" using mt(2) None by (cases "kr_low r") (auto simp: below_def)
      ultimately have False using ms r None by (simp add: covers_def in_interval_def)
      then show ?thesis ..
    qed
    have bh: "high = Some h \<Longrightarrow> b < h" for h using lt [OF b] by auto
    have cov: "covers k ?m = (if k < b then covers k m else in_interval low high k)" for k
      using r b bh mt(2) by (auto simp: covers_def in_interval_def below_def split: option.splits)
    have "if below low k \<or> in_interval low high k then exact_for old new moves' k else filter (covers k) moves' = []"
      if k: "is_i64 k" for k
    proof (cases "k < b")
      case True
      then have "exact_for old new moves k" using base [OF k] b by (simp add: below_def)
      moreover have "exact_for old new moves' k" if "exact_for old new moves k"
      proof (cases "covers k m")
        case True
        then show ?thesis using that ms m' cov [of k] \<open>k < b\<close>
          by (auto simp: exact_for_def append_eq_Cons_conv split: if_splits)
      next
        case False
        then show ?thesis using that ms m' cov [of k] \<open>k < b\<close> by (auto simp: exact_for_def)
      qed
      ultimately show ?thesis using True b by (simp add: below_def)
    next
      case False
      then have none: "filter (covers k) ms = []" using base [OF k] b ms by (auto simp: below_def split: if_splits)
      have nb: "\<not> below low k" using False b by (simp add: below_def)
      show ?thesis
      proof (cases "in_interval low high k")
        case True
        then have "filter (covers k) moves' = [?m]" using none m' cov [of k] False by simp
        moreover have "range_name old k = from" "range_name new k = to" using names [OF k True] by auto
        ultimately have "exact_for old new moves' k" using 2(1) mt(1) r by (simp add: exact_for_def)
        then show ?thesis using True by simp
      next
        case out: False
        then show ?thesis using none m' cov [of k] False nb by simp
      qed
    qed
    moreover have "\<exists>r. mv_range x = Some r \<and> mv_table x = tbl_name old \<and> (\<forall>l. kr_low r = Some l \<longrightarrow> below low l \<or> low = Some l)"
      if "x \<in> set moves'" for x
      using that m' ms ranges r mt by auto
    ultimately show ?thesis by blast
  next
    case 3
    let ?m = "\<lparr>mv_table = tbl_name old, mv_from = from, mv_to = to, mv_range = Some \<lparr>kr_low = low, kr_high = high\<rparr>\<rparr>"
    have m': "moves' = moves @ [?m]" using assms(4) 3 by (simp only: push_move_def if_False)
    have cov: "covers k ?m = in_interval low high k" for k by (simp add: covers_def)
    have "if below low k \<or> in_interval low high k then exact_for old new moves' k else filter (covers k) moves' = []"
      if k: "is_i64 k" for k
    proof (cases "in_interval low high k")
      case True
      then have "filter (covers k) moves = []" using base [OF k] disj [of k] by auto
      then have "filter (covers k) moves' = [?m]" using m' cov True by simp
      then have "exact_for old new moves' k" using names [OF k True] 3(1) by (simp add: exact_for_def)
      then show ?thesis using True by simp
    next
      case False
      then show ?thesis using base [OF k] m' cov by (auto simp: exact_for_def split: if_splits)
    qed
    moreover have "\<exists>r. mv_range x = Some r \<and> mv_table x = tbl_name old \<and> (\<forall>l. kr_low r = Some l \<longrightarrow> below low l \<or> low = Some l)"
      if "x \<in> set moves'" for x
      using that m' ranges by auto
    ultimately show ?thesis by blast
  qed
qed

definition range_table_ok :: "shard_table \<Rightarrow> bool" where
  "range_table_ok t \<longleftrightarrow> (\<exists>bs. tbl_algorithm t = RangeBoundaries bs) \<and> algorithm_ok t"

lemma range_shard_name:
  assumes "range_table_ok t"
  shows "try_bind (range_index (tbl_algorithm t) k) (get_shard_name t) = Ok (range_name t k)"
proof -
  obtain bs where bs: "tbl_algorithm t = RangeBoundaries bs" "length bs + 1 = length (tbl_shards t)"
    using assms by (auto simp: range_table_ok_def algorithm_ok_def)
  have "partition_point (\<lambda>b. b \<le> k) bs < length (tbl_shards t)"
    using partition_point_le [of "\<lambda>b. b \<le> k" bs] bs(2) by linarith
  then show ?thesis using bs(1) by (simp add: range_index_def get_shard_name_def range_name_def range_boundaries_def)
qed

lemma range_loop_step:
  assumes "range_table_ok old" "range_table_ok new"
  shows "range_loop old new moves ((low, high, k) # rest)
    = range_loop old new (push_move (tbl_name old) moves low high (range_name old k) (range_name new k)) rest"
proof -
  obtain oi ni where "range_index (tbl_algorithm old) k = Ok oi" "range_index (tbl_algorithm new) k = Ok ni"
    using assms by (auto simp: range_table_ok_def range_index_def)
  moreover from this have "get_shard_name old oi = Ok (range_name old k)" "get_shard_name new ni = Ok (range_name new k)"
    using range_shard_name [OF assms(1), of k] range_shard_name [OF assms(2), of k] by auto
  ultimately show ?thesis by simp
qed

lemma range_name_same:
  assumes "\<forall>b \<in> set (range_boundaries t). b \<le> k \<longleftrightarrow> b \<le> k'"
  shows "range_name t k = range_name t k'"
  using partition_point_same [OF assms] by (simp add: range_name_def)

text \<open>The boundaries of both tables are the ones still to come or lie at or under the lower bound.\<close>

definition bounds_split :: "shard_table \<Rightarrow> shard_table \<Rightarrow> int option \<Rightarrow> int list \<Rightarrow> bool" where
  "bounds_split old new low bs \<longleftrightarrow> sorted_wrt (<) bs \<and> (\<forall>b \<in> set bs. is_i64 b) \<and>
     (\<forall>l. low = Some l \<longrightarrow> (\<forall>b \<in> set bs. l < b)) \<and>
     (\<forall>b \<in> set (range_boundaries old @ range_boundaries new). b \<in> set bs \<or> (\<exists>l. low = Some l \<and> b \<le> l))"

lemma bounds_split_Cons: "bounds_split old new low (b # bs) \<Longrightarrow> bounds_split old new (Some b) bs"
  by (force simp: bounds_split_def)

lemma range_loop_exact:
  assumes "range_table_ok old" "range_table_ok new" "bounds_split old new low bs" "moves_upto old new moves low"
  shows "\<exists>ms. range_loop old new moves (intervals low bs) = Ok ms \<and>
     (\<forall>k. is_i64 k \<longrightarrow> exact_for old new ms k) \<and> (\<forall>m \<in> set ms. mv_table m = tbl_name old)"
  using assms(3,4)
proof (induction low bs arbitrary: moves rule: intervals.induct)
  case (1 low)
  let ?k = "case low of None \<Rightarrow> 0 | Some l \<Rightarrow> l"
  let ?ms = "push_move (tbl_name old) moves low None (range_name old ?k) (range_name new ?k)"
  have same: "range_name old k = range_name old ?k \<and> range_name new k = range_name new ?k"
    if "in_interval low None k" for k
    using that 1(1)
    by (intro conjI range_name_same) (force simp: in_interval_def bounds_split_def split: option.splits)+
  have all: "below low k \<or> in_interval low None k" for k
    by (auto simp: below_def in_interval_def split: option.split)
  have "\<forall>k. is_i64 k \<longrightarrow> (if below low k \<or> in_interval low None k then exact_for old new ?ms k else filter (covers k) ?ms = [])"
    and tabs: "\<forall>m \<in> set ?ms. mv_table m = tbl_name old"
    using push_move_upto [OF 1(2) _ same refl] by (blast, blast)
  then show ?case using all by (simp del: range_loop.simps(2) add: range_loop_step [OF assms(1,2)] tabs)
next
  case (2 low b bs)
  have split: "bounds_split old new (Some b) bs" by (rule bounds_split_Cons [OF 2(3)])
  show ?case
  proof (cases "b > i64_min")
    case False
    then have b: "b = i64_min" using 2(3) by (auto simp: bounds_split_def is_i64_def)
    have nb: "\<not> below low k" "\<not> below (Some b) k" if "is_i64 k" for k
      using that 2(3) b by (auto simp: below_def is_i64_def bounds_split_def split: option.split)
    have "below low l \<Longrightarrow> below (Some b) l" for l
      using 2(3) by (auto simp: below_def bounds_split_def split: option.splits)
    then have "moves_upto old new moves (Some b)"
      using 2(4) nb unfolding moves_upto_def by (metis (no_types, lifting))
    from 2(2) [OF False split this] show ?thesis using False by simp
  next
    case True
    let ?ms = "push_move (tbl_name old) moves low (Some b) (range_name old (b - 1)) (range_name new (b - 1))"
    have lt: "low = Some l \<Longrightarrow> l < b" for l using 2(3) by (auto simp: bounds_split_def)
    have same: "range_name old k = range_name old (b - 1) \<and> range_name new k = range_name new (b - 1)"
      if "in_interval low (Some b) k" for k
    proof (intro conjI range_name_same ballI)
      have sep: "c \<le> k \<longleftrightarrow> c \<le> b - 1" if "c \<in> set (range_boundaries old @ range_boundaries new)" for c
      proof -
        have "c = b \<or> b < c \<or> (\<exists>l. low = Some l \<and> c \<le> l)"
          using 2(3) that by (auto simp: bounds_split_def)
        then show ?thesis using \<open>in_interval low (Some b) k\<close> lt by (auto simp: in_interval_def split: option.splits)
      qed
      show "c \<le> k \<longleftrightarrow> c \<le> b - 1" if "c \<in> set (range_boundaries old)" for c using sep that by simp
      show "c \<le> k \<longleftrightarrow> c \<le> b - 1" if "c \<in> set (range_boundaries new)" for c using sep that by simp
    qed
    have upto: "below (Some b) k \<longleftrightarrow> below low k \<or> in_interval low (Some b) k" for k
      using lt by (auto simp: below_def in_interval_def split: option.split dest: order.strict_trans)
    have pm: "(\<forall>k. is_i64 k \<longrightarrow> (if below low k \<or> in_interval low (Some b) k then exact_for old new ?ms k
            else filter (covers k) ?ms = [])) \<and>
         (\<forall>m \<in> set ?ms. \<exists>r. mv_range m = Some r \<and> mv_table m = tbl_name old \<and>
            (\<forall>l. kr_low r = Some l \<longrightarrow> below low l \<or> low = Some l))"
      by (rule push_move_upto [OF 2(4)]) (use lt same in auto)
    have low_b: "below (Some b) l" if "below low l \<or> low = Some l" for l
      using that lt upto by (auto simp: below_def)
    have "moves_upto old new ?ms (Some b)"
      unfolding moves_upto_def upto using pm low_b unfolding upto by (metis (no_types, lifting))
    from 2(1) [OF True split this] show ?thesis using True by (simp del: range_loop.simps(2) add: range_loop_step [OF assms(1,2)])
  qed
qed

lemma sorted_remdups_adj_less:
  fixes xs :: "int list"
  shows "sorted xs \<Longrightarrow> sorted_wrt (<) (remdups_adj xs)"
proof (induction xs rule: remdups_adj.induct)
  case (3 x y xs)
  then show ?case by (auto simp: order.order_iff_strict dest: order.strict_trans)
qed auto

lemma range_moves_exact:
  assumes "range_table_ok old" "range_table_ok new"
    and "\<forall>b \<in> set (range_boundaries old @ range_boundaries new). is_i64 b"
  shows "\<exists>ms. range_moves old new = Ok ms \<and> (\<forall>k. is_i64 k \<longrightarrow> exact_for old new ms k) \<and>
     (\<forall>m \<in> set ms. mv_table m = tbl_name old)"
proof -
  obtain ob nb where alg: "tbl_algorithm old = RangeBoundaries ob" "tbl_algorithm new = RangeBoundaries nb"
    using assms(1,2) by (auto simp: range_table_ok_def)
  let ?bs = "remdups_adj (sort (ob @ nb))"
  have "bounds_split old new None ?bs"
    using assms(3) alg sorted_remdups_adj_less [of "sort (ob @ nb)"]
    by (auto simp: bounds_split_def range_boundaries_def)
  moreover have "moves_upto old new [] None" by (simp add: moves_upto_def below_def)
  ultimately show ?thesis
    using range_loop_exact [OF assms(1,2)] alg by (simp add: range_moves_def)
qed

section \<open>Plans over whole catalogs\<close>

lemma table_moves_table:
  assumes "table_moves old new = Ok ms" "tbl_name old = tbl_name new" "table_ok old" "table_ok new"
    and "\<forall>b \<in> set (range_boundaries old @ range_boundaries new). is_i64 b"
  shows "\<forall>m \<in> set ms. mv_table m = tbl_name new"
proof (cases "range_table_ok old \<and> range_table_ok new")
  case True
  then show ?thesis
    using assms(1,2) range_moves_exact [OF _ _ assms(5)]
    by (auto simp: table_moves_def range_table_ok_def split: if_splits)
next
  case False
  then show ?thesis
    using assms by (auto simp: table_moves_def range_table_ok_def full_copy_moves_def table_ok_def
        split: if_splits shard_algorithm.splits)
qed

definition catalog_i64 :: "shard_catalog \<Rightarrow> bool" where
  "catalog_i64 c \<longleftrightarrow> (\<forall>t \<in> set (cat_tables c). \<forall>b \<in> set (range_boundaries t). is_i64 b)"

definition tables_fit :: "shard_table list \<Rightarrow> bool" where
  "tables_fit ts \<longleftrightarrow> (\<forall>t \<in> set ts. table_ok t \<and> (\<forall>b \<in> set (range_boundaries t). is_i64 b))"

lemma found_table_moves:
  assumes "tables_fit olds" "tables_fit news" "n \<in> set news" "find (\<lambda>t. tbl_name t = tbl_name n) olds = Some old"
    and "table_moves old n = Ok tm"
  shows "\<forall>m \<in> set tm. mv_table m = tbl_name n"
proof -
  have "old \<in> set olds" "tbl_name old = tbl_name n" using assms(4) by (auto simp: find_Some_iff)
  then show ?thesis
    using table_moves_table [OF assms(5)] assms(1-3) by (auto simp: tables_fit_def)
qed

lemma diff_tables_other:
  assumes "diff_tables olds moves news = Ok ms" "x \<notin> tbl_name ` set news" "tables_fit olds" "tables_fit news"
  shows "filter (\<lambda>m. mv_table m = x) ms = filter (\<lambda>m. mv_table m = x) moves"
  using assms(1,2,4)
proof (induction news arbitrary: moves)
  case (Cons n ns)
  show ?case
  proof (cases "find (\<lambda>t. tbl_name t = tbl_name n) olds")
    case None
    then show ?thesis using Cons by (simp add: tables_fit_def)
  next
    case (Some o1)
    then obtain tm where tm: "table_moves o1 n = Ok tm" "diff_tables olds (moves @ tm) ns = Ok ms"
      using Cons.prems(1) by (auto simp: try_bind_Inr_iff)
    have "filter (\<lambda>m. mv_table m = x) tm = []"
      using found_table_moves [OF assms(3) Cons.prems(3) _ Some tm(1)] Cons.prems(2) by (auto simp: filter_empty_conv)
    moreover have "x \<notin> tbl_name ` set ns" "tables_fit ns" using Cons.prems(2,3) by (auto simp: tables_fit_def)
    ultimately show ?thesis using Cons.IH [OF tm(2)] by simp
  qed
qed simp

lemma diff_tables_filter:
  assumes "diff_tables olds moves news = Ok ms" "distinct (map tbl_name news)" "new \<in> set news"
    and "find (\<lambda>t. tbl_name t = tbl_name new) olds = Some old" "tables_fit olds" "tables_fit news"
  shows "\<exists>tm. table_moves old new = Ok tm \<and>
     filter (\<lambda>m. mv_table m = tbl_name new) ms = filter (\<lambda>m. mv_table m = tbl_name new) moves @ tm"
  using assms(1,2,3,6)
proof (induction news arbitrary: moves)
  case (Cons n ns)
  have fit: "tables_fit ns" using Cons.prems(4) by (simp add: tables_fit_def)
  show ?case
  proof (cases "n = new")
    case True
    then obtain tm where tm: "table_moves old new = Ok tm" "diff_tables olds (moves @ tm) ns = Ok ms"
      using Cons.prems(1) assms(4) by (auto simp: try_bind_Inr_iff)
    have "filter (\<lambda>m. mv_table m = tbl_name new) tm = tm"
      using found_table_moves [OF assms(5) Cons.prems(4,3) assms(4) tm(1)] by (simp add: filter_id_conv)
    moreover have "tbl_name new \<notin> tbl_name ` set ns" using Cons.prems(2) True by simp
    ultimately show ?thesis using diff_tables_other [OF tm(2) _ assms(5) fit] tm(1) by simp
  next
    case False
    then have new: "new \<in> set ns" "tbl_name n \<noteq> tbl_name new" using Cons.prems(2,3) by auto
    have dist: "distinct (map tbl_name ns)" using Cons.prems(2) by simp
    show ?thesis
    proof (cases "find (\<lambda>t. tbl_name t = tbl_name n) olds")
      case None
      then show ?thesis using Cons.IH [OF _ dist new(1) fit] Cons.prems(1) by simp
    next
      case (Some o1)
      then obtain tm where tm: "table_moves o1 n = Ok tm" "diff_tables olds (moves @ tm) ns = Ok ms"
        using Cons.prems(1) by (auto simp: try_bind_Inr_iff)
      have "filter (\<lambda>m. mv_table m = tbl_name new) tm = []"
        using found_table_moves [OF assms(5) Cons.prems(4) _ Some tm(1)] new(2) by (auto simp: filter_empty_conv)
      then show ?thesis using Cons.IH [OF tm(2) dist new(1) fit] by simp
    qed
  qed
qed simp

lemma plan_diff_parts:
  assumes "plan_diff old new = Ok plan" "catalog_table old n = Ok ot" "catalog_table new n = Ok nt"
    and "catalog_i64 old" "catalog_i64 new"
  shows "table_ok ot" "table_ok nt" "tbl_name ot = n" "tbl_name nt = n"
    "\<forall>b \<in> set (range_boundaries ot @ range_boundaries nt). is_i64 b"
    "table_moves ot nt = Ok (filter (\<lambda>m. mv_table m = n) (plan_moves plan))"
    "validate old = Ok ()" "validate new = Ok ()"
proof -
  obtain ms where ms: "diff_tables (cat_tables old) [] (cat_tables new) = Ok ms" "plan_moves plan = ms"
    using assms(1) by (auto simp: plan_diff_def try_bind_Inr_iff)
  show v: "validate old = Ok ()" "validate new = Ok ()" using assms(1) by (auto simp: plan_diff_def try_bind_Inr_iff)
  then have ot: "ot \<in> set (cat_tables old)" "tbl_name ot = n" and nt: "nt \<in> set (cat_tables new)" "tbl_name nt = n"
    using assms(2,3) by (auto simp: validate_Ok catalog_table_Ok)
  have fit: "tables_fit (cat_tables old)" "tables_fit (cat_tables new)"
    using v assms(4,5) by (auto simp: validate_Ok tables_fit_def catalog_i64_def)
  show "table_ok ot" "table_ok nt" "tbl_name ot = n" "tbl_name nt = n"
    "\<forall>b \<in> set (range_boundaries ot @ range_boundaries nt). is_i64 b"
    using ot nt fit by (auto simp: tables_fit_def)
  have "find (\<lambda>t. tbl_name t = tbl_name nt) (cat_tables old) = Some ot"
    using assms(2) nt(2) by (simp add: catalog_table_def ok_or_Inr_iff)
  from diff_tables_filter [OF ms(1) _ nt(1) this fit] v(2) nt(2) ms(2)
  show "table_moves ot nt = Ok (filter (\<lambda>m. mv_table m = n) (plan_moves plan))"
    by (auto simp: validate_Ok)
qed


lemma shard_for_Ok_cases:
  assumes "catalog_table c n = Ok t" "shard_for J c n key = Ok i"
  shows "tbl_algorithm t = HashMod a \<Longrightarrow> \<exists>h. stable_hash64 J key = Ok h \<and> i = unat (h mod ucast a)"
    and "tbl_algorithm t = RangeBoundaries bs \<Longrightarrow> \<exists>k. as_i64 key = Some k \<and> i = partition_point (\<lambda>b. b \<le> k) bs"
  using assms by (auto simp: shard_for_def try_bind_Inr_iff split: if_splits option.splits)

section \<open>Properties\<close>


text \<open>
  An empty plan is safe to skip: a table that is in both catalogs routes every key to a shard
  of the same name before and after, whatever the sharding algorithms.
\<close>

theorem empty_plan_keeps_routing:
  assumes "plan_diff old new = Ok plan" "plan_is_empty plan"
    and "catalog_table old n = Ok ot" "catalog_table new n = Ok nt"
    and "catalog_i64 old" "catalog_i64 new"
    and "shard_for J old n key = Ok i" "shard_for J new n key = Ok j" "scalar_ok key"
  shows "ep_name (tbl_shards ot ! i) = ep_name (tbl_shards nt ! j)"
proof -
  note parts = plan_diff_parts [OF assms(1,3,4,5,6)]
  have empty: "table_moves ot nt = Ok []" using parts(6) assms(2) by (simp add: plan_is_empty_def)
  have ne: "full_copy_moves ot nt \<noteq> []"
    using parts(1,2) by (auto simp: full_copy_moves_def table_ok_def neq_Nil_conv)
  show ?thesis
  proof (cases "tbl_algorithm ot")
    case (HashMod a)
    then obtain b where b: "tbl_algorithm nt = HashMod b" and same: "same_shard_names ot nt"
      using empty ne by (auto simp: table_moves_def split: if_splits shard_algorithm.splits)
    have len: "length (tbl_shards ot) = length (tbl_shards nt)"
      by (rule map_eq_imp_length_eq [OF same [unfolded same_shard_names_def]])
    then have "unat a = unat b" using HashMod b parts(1,2) by (simp add: table_ok_def algorithm_ok_def)
    then have "a = b" by (rule unsigned_word_eqI)
    then have "i = j"
      using shard_for_Ok_cases(1) [OF assms(3,7) HashMod] shard_for_Ok_cases(1) [OF assms(4,8) b] by auto
    moreover have "i < length (tbl_shards ot)" by (rule shard_for_bound [OF parts(7) assms(3,7)])
    moreover have "map ep_name (tbl_shards ot) ! i = map ep_name (tbl_shards nt) ! i"
      using same by (simp add: same_shard_names_def)
    ultimately show ?thesis using len by simp
  next
    case (RangeBoundaries ob)
    then obtain nb where nb: "tbl_algorithm nt = RangeBoundaries nb"
      using empty ne by (auto simp: table_moves_def split: if_splits shard_algorithm.splits)
    obtain k where k: "as_i64 key = Some k" "i = partition_point (\<lambda>b. b \<le> k) ob" "j = partition_point (\<lambda>b. b \<le> k) nb"
      using shard_for_Ok_cases(2) [OF assms(3,7) RangeBoundaries] shard_for_Ok_cases(2) [OF assms(4,8) nb] by auto
    have ok: "range_table_ok ot" "range_table_ok nt"
      using parts(1,2) RangeBoundaries nb by (auto simp: range_table_ok_def table_ok_def)
    have "is_i64 k" by (rule as_i64_is_i64 [OF assms(9) k(1)])
    moreover have "range_moves ot nt = Ok []" using empty RangeBoundaries nb by (simp add: table_moves_def split: if_splits)
    ultimately have "exact_for ot nt [] k" using range_moves_exact [OF ok parts(5)] by auto
    then show ?thesis using k RangeBoundaries nb by (auto simp: exact_for_def range_name_def range_boundaries_def split: if_splits)
  qed
qed

section \<open>Witnesses\<close>

text \<open>The example catalog with its second boundary moved from 200 to 150.\<close>

definition example_table2 :: shard_table where
  "example_table2 = example_table\<lparr>tbl_algorithm := RangeBoundaries [100, 150]\<rparr>"

definition example_catalog2 :: shard_catalog where
  "example_catalog2 = \<lparr>cat_tables = [example_table2]\<rparr>"


lemma example_valid2: "validate example_catalog2 = Ok ()" "catalog_table example_catalog2 ''orders'' = Ok example_table2"
  by (simp_all add: example_catalog2_def validate_def example_table2_def example_table_def example_endpoint_def str_trim_def
      is_space_def check_algorithm_def catalog_table_def)


lemma example_i64: "catalog_i64 example_catalog" "catalog_i64 example_catalog2"
  by (simp_all add: catalog_i64_def example_catalog_def example_catalog2_def example_table2_def example_table_def
      range_boundaries_def is_i64_def i64_min_def i64_max_def)

lemma example_shards:
  "shard_for example_text example_catalog ''orders'' (json_int 160) = Ok 1"
  "shard_for example_text example_catalog2 ''orders'' (json_int 160) = Ok 2"
  by (simp_all add: shard_for_def example_valid(2) example_valid2(2))
    (simp_all add: example_table2_def example_table_def check_algorithm_def example_endpoint_def json_int_def is_null_def
      as_i64_def number_as_i64_def i64_max_def partition_point_def)


theorem empty_plan_keeps_routing_witness:
  "plan_diff example_catalog example_catalog = Ok \<lparr>plan_moves = []\<rparr> \<and>
   ep_name (tbl_shards example_table ! 1) = ep_name (tbl_shards example_table ! 1)"
proof -
  have d: "plan_diff example_catalog example_catalog = Ok \<lparr>plan_moves = []\<rparr>"
    by (simp add: plan_diff_def example_valid)
      (simp add: example_catalog_def example_table_def table_moves_def range_moves_def
        i64_min_def range_index_def get_shard_name_def partition_point_def push_move_def example_endpoint_def)
  have ok: "scalar_ok (json_int 160)" by (simp add: scalar_ok_def json_int_def number_ok_def u64_max_def)
  from empty_plan_keeps_routing [OF d _ example_valid(2) example_valid(2) example_i64(1,1) example_shards(1,1) ok] d
  show ?thesis by (simp add: plan_is_empty_def)
qed

end
