(* ===== verification/Migrator.thy ===== *)
theory Migrator
  imports MigratePlan "HOL-Library.Product_Lexorder" "HOL-Library.AList"
begin

unbundle bit_operations_syntax

text \<open>
  The executor of a shard migration, \<^verbatim>\<open>ecat-data-sharding/src/migrate/\<close>: job states
  (\<^verbatim>\<open>mod.rs\<close>), the schema check before anything is copied (\<^verbatim>\<open>schema.rs\<close>), the backfill
  (\<^verbatim>\<open>backfill.rs\<close>), its verification (\<^verbatim>\<open>verify.rs\<close>), the switch of the router and its
  rollback (\<^verbatim>\<open>cutover.rs\<close>). Databases, lock, clock and \<^verbatim>\<open>serde_json\<close> are parameters. The scan
  loops carry fuel, the rounds in \<open>en_rounds\<close>; one round more than a table has rows is enough.
\<close>

section \<open>Jobs and the migrator (mod.rs)\<close>

definition JOB_TABLE :: string where "JOB_TABLE = ''shard_migration_jobs''"
definition DEFAULT_CHUNK_SIZE :: nat where "DEFAULT_CHUNK_SIZE = 1000"

record migration_report =
  mr_moved_rows :: nat
  mr_chunks :: nat
  mr_verified :: bool

datatype mig_phase = PhPending | PhBackfilling | PhVerified | PhCutover | PhDone | PhRolledBack

fun mig_phase_as_str :: "mig_phase \<Rightarrow> string" where
  "mig_phase_as_str PhPending = ''pending''"
| "mig_phase_as_str PhBackfilling = ''backfilling''"
| "mig_phase_as_str PhVerified = ''verified''"
| "mig_phase_as_str PhCutover = ''cutover''"
| "mig_phase_as_str PhDone = ''done''"
| "mig_phase_as_str PhRolledBack = ''rolled_back''"

definition mig_phase_parse :: "string \<Rightarrow> (shard_error, mig_phase) result" where
  "mig_phase_parse s =
     (if s = ''pending'' then Ok PhPending
      else if s = ''backfilling'' then Ok PhBackfilling
      else if s = ''verified'' then Ok PhVerified
      else if s = ''cutover'' then Ok PhCutover
      else if s = ''done'' then Ok PhDone
      else if s = ''rolled_back'' then Ok PhRolledBack
      else Err (ShardDatabase (''unknown migration phase `'' @ s @ ''`'')))"

record job_state =
  job_phase :: mig_phase
  job_cursor :: "string option"
  job_rows :: nat
  job_checksum :: u64

text \<open>\<^verbatim>\<open>FencedLock\<close> with the key and the time to live; the token of the guard is what the code uses.\<close>

record 'w mig_fence =
  mf_acquire :: "string \<Rightarrow> nat \<Rightarrow> (string, 'w, string option) act"
  mf_renew :: "string \<Rightarrow> string \<Rightarrow> nat \<Rightarrow> (string, 'w, unit) act"
  mf_release :: "string \<Rightarrow> string \<Rightarrow> (string, 'w, unit) act"
  mf_key :: string
  mf_ttl :: nat

text \<open>The code the executor calls: \<^verbatim>\<open>serde_json\<close> and the formatted clock; and the fuel.\<close>

record 'w mig_env =
  en_text :: json_text
  en_from_str :: "string \<Rightarrow> (string, json_value) result"
  en_to_string :: "json_value \<Rightarrow> (string, string) result"
  en_now :: "'w \<Rightarrow> (string, string) result"
  en_rounds :: nat

record 'w migrator =
  mg_plan :: shard_plan
  mg_clients :: "string \<Rightarrow> 'w sql_executor option"
  mg_state :: "'w sql_executor"
  mg_old :: shard_catalog
  mg_new :: shard_catalog
  mg_chunk_size :: nat
  mg_fence :: "'w mig_fence option"
  mg_env :: "'w mig_env"

definition check_move ::
  "shard_catalog \<Rightarrow> shard_catalog \<Rightarrow> (string \<Rightarrow> 'w sql_executor option) \<Rightarrow> shard_move \<Rightarrow> (shard_error, unit) result" where
  "check_move old new clients mv =
     try_bind (catalog_table old (mv_table mv)) (\<lambda>ot.
     try_bind (catalog_table new (mv_table mv)) (\<lambda>nt.
     if tbl_key ot \<noteq> tbl_key nt \<or> tbl_pk ot \<noteq> tbl_pk nt
     then Err (ShardConfig (''table `'' @ mv_table mv @ ''` changes key/pk; migration is unsupported''))
     else if \<not> list_ex (\<lambda>s. ep_name s = mv_from mv) (tbl_shards ot)
     then Err (ShardConfig (''move source shard `'' @ mv_from mv @ ''` is not in the old catalog''))
     else if \<not> list_ex (\<lambda>s. ep_name s = mv_to mv) (tbl_shards nt)
     then Err (ShardConfig (''move target shard `'' @ mv_to mv @ ''` is not in the new catalog''))
     else for_each (\<lambda>shard. if clients shard = None
            then Err (ShardConfig (''move references shard `'' @ shard @ ''` without a client'')) else Ok ())
          [mv_from mv, mv_to mv]))"

definition migrator_new ::
  "'w mig_env \<Rightarrow> shard_plan \<Rightarrow> (string \<Rightarrow> 'w sql_executor option) \<Rightarrow> 'w sql_executor \<Rightarrow> shard_catalog \<Rightarrow> shard_catalog \<Rightarrow>
   (shard_error, 'w migrator) result" where
  "migrator_new env plan clients state old new =
     try_bind (validate old) (\<lambda>_. try_bind (validate new) (\<lambda>_.
     try_bind (for_each (check_move old new clients) (plan_moves plan)) (\<lambda>_.
     Ok \<lparr> mg_plan = plan, mg_clients = clients, mg_state = state, mg_old = old, mg_new = new,
          mg_chunk_size = DEFAULT_CHUNK_SIZE, mg_fence = None, mg_env = env \<rparr>)))"

definition with_chunk_size :: "'w migrator \<Rightarrow> nat \<Rightarrow> 'w migrator" where
  "with_chunk_size mg n = mg\<lparr>mg_chunk_size := max n 1\<rparr>"

definition with_fence :: "'w migrator \<Rightarrow> 'w mig_fence \<Rightarrow> 'w migrator" where
  "with_fence mg f = mg\<lparr>mg_fence := Some f\<rparr>"

definition mig_dialect :: "'w migrator \<Rightarrow> (shard_error, dialect) result" where
  "mig_dialect mg = (if ex_dialect (mg_state mg) = Mssql then Err ShardUnsupportedDialect else Ok (ex_dialect (mg_state mg)))"

text \<open>A line break of the statement with the indentation of the source.\<close>

definition sql_line :: "nat \<Rightarrow> string" where
  "sql_line k = CHR 0x0A # replicate k (CHR '' '')"

definition job_table_sql :: "dialect \<Rightarrow> string" where
  "job_table_sql d =
     (let id_type = (if d = MySql then ''VARCHAR(512)'' else ''TEXT'');
          rows_type = (if d = MySql then ''BIGINT'' else ''INTEGER'')
      in ''CREATE TABLE IF NOT EXISTS '' @ JOB_TABLE @ '' (''
         @ concat (map (\<lambda>l. sql_line 16 @ l)
             [''move_id '' @ id_type @ '' PRIMARY KEY,'', ''table_name TEXT NOT NULL,'', ''from_shard TEXT NOT NULL,'',
              ''to_shard TEXT NOT NULL,'', ''key_low TEXT,'', ''key_high TEXT,'', ''phase TEXT NOT NULL,'', ''cursor TEXT,'',
              ''rows_moved '' @ rows_type @ '' NOT NULL,'', ''checksum TEXT NOT NULL,'', ''updated_at TEXT NOT NULL''])
         @ sql_line 12 @ '')'')"

definition ensure_schema :: "'w migrator \<Rightarrow> (shard_error, 'w, unit) act" where
  "ensure_schema mg =
     act_bind (act_lift (mig_dialect mg)) (\<lambda>d.
     act_bind (act_map_err outbox_db_error (ex_execute (mg_state mg) (job_table_sql d))) (\<lambda>_. act_ok ()))"

definition mig_client :: "'w migrator \<Rightarrow> string \<Rightarrow> (shard_error, 'w sql_executor) result" where
  "mig_client mg shard = ok_or (ShardConfig (''no client for shard `'' @ shard @ ''`'')) (mg_clients mg shard)"

definition bound_text :: "int option \<Rightarrow> string" where
  "bound_text b = (case b of None \<Rightarrow> ''*'' | Some v \<Rightarrow> dec_int v)"

definition move_id :: "shard_move \<Rightarrow> string" where
  "move_id mv = mv_table mv @ ''|'' @ mv_from mv @ ''|'' @ mv_to mv @ ''|''
     @ (case mv_range mv of Some r \<Rightarrow> bound_text (kr_low r) @ '':'' @ bound_text (kr_high r) | None \<Rightarrow> ''none'')"

definition now_rfc3339 :: "'w migrator \<Rightarrow> (shard_error, 'w, string) act" where
  "now_rfc3339 mg w = (map_err (\<lambda>e. ShardDatabase (''failed to format migration timestamp: '' @ e)) (en_now (mg_env mg) w), w)"

definition mig_text :: "db_row \<Rightarrow> string \<Rightarrow> (shard_error, string) result" where
  "mig_text row col = ok_or (ShardDatabase (''migration row missing text column `'' @ col @ ''`''))
     (Option.bind (row_get row col) as_str)"

definition mig_int :: "db_row \<Rightarrow> string \<Rightarrow> (shard_error, int) result" where
  "mig_int row col = ok_or (ShardDatabase (''migration row missing integer column `'' @ col @ ''`''))
     (Option.bind (row_get row col) as_i64)"

definition load_sql :: "dialect \<Rightarrow> string" where
  "load_sql d = ''SELECT phase, cursor, rows_moved, checksum FROM '' @ JOB_TABLE @ '' WHERE move_id = '' @ placeholder d 1"

definition job_of_row :: "db_row \<Rightarrow> (shard_error, job_state) result" where
  "job_of_row row =
     try_bind (mig_int row ''rows_moved'') (\<lambda>n.
     if n < 0 then Err (ShardDatabase ''migration rows_moved out of range'') else
     try_bind (mig_text row ''checksum'') (\<lambda>ct.
     try_bind (map_err (\<lambda>e. ShardDatabase (''migration checksum is invalid: '' @ e)) (parse_uint u64_max ct)) (\<lambda>c.
     try_bind (mig_text row ''phase'') (\<lambda>pt.
     try_bind (mig_phase_parse pt) (\<lambda>p.
     Ok \<lparr> job_phase = p, job_cursor = Option.bind (row_get row ''cursor'') as_str, job_rows = nat n, job_checksum = of_nat c \<rparr>)))))"

definition load_job :: "'w migrator \<Rightarrow> string \<Rightarrow> (shard_error, 'w, job_state option) act" where
  "load_job mg i =
     act_bind (act_lift (mig_dialect mg)) (\<lambda>d.
     act_bind (act_map_err outbox_db_error (ex_query_with (mg_state mg) (load_sql d) [JString i])) (\<lambda>rows.
     case rows of [] \<Rightarrow> act_ok None
     | row # _ \<Rightarrow> act_bind (act_lift (job_of_row row)) (\<lambda>job. act_ok (Some job))))"

definition insert_job_sql :: "dialect \<Rightarrow> string" where
  "insert_job_sql d =
     (let ps = str_join '', '' (map (placeholder d) [1..<12]) in
      if d = MySql then ''INSERT IGNORE INTO '' @ JOB_TABLE @ '' VALUES ('' @ ps @ '')''
      else ''INSERT INTO '' @ JOB_TABLE @ '' VALUES ('' @ ps @ '')'' @ '' ON CONFLICT(move_id) DO NOTHING'')"

definition bound_value :: "int option \<Rightarrow> json_value" where
  "bound_value b = (case b of None \<Rightarrow> JNull | Some v \<Rightarrow> JString (dec_int v))"

definition job_params :: "shard_move \<Rightarrow> string \<Rightarrow> json_value list" where
  "job_params mv now =
     [JString (move_id mv), JString (mv_table mv), JString (mv_from mv), JString (mv_to mv),
      bound_value (Option.bind (mv_range mv) kr_low), bound_value (Option.bind (mv_range mv) kr_high),
      JString (mig_phase_as_str PhPending), JNull, json_int 0, JString ''0'', JString now]"

definition ensure_job :: "'w migrator \<Rightarrow> shard_move \<Rightarrow> (shard_error, 'w, job_state) act" where
  "ensure_job mg mv =
     act_bind (load_job mg (move_id mv)) (\<lambda>found.
     case found of Some job \<Rightarrow> act_ok job
     | None \<Rightarrow>
         act_bind (act_lift (mig_dialect mg)) (\<lambda>d.
         act_bind (now_rfc3339 mg) (\<lambda>now.
         act_bind (act_map_err outbox_db_error (ex_execute_with (mg_state mg) (insert_job_sql d) (job_params mv now))) (\<lambda>_.
         act_bind (load_job mg (move_id mv)) (\<lambda>again.
         act_lift (ok_or (ShardDatabase ''migration job vanished after insert'') again))))))"

definition save_sql :: "dialect \<Rightarrow> string" where
  "save_sql d = ''UPDATE '' @ JOB_TABLE @ '' SET phase = '' @ placeholder d 1 @ '', cursor = '' @ placeholder d 2
     @ '', rows_moved = '' @ placeholder d 3 @ '', checksum = '' @ placeholder d 4 @ '', updated_at = '' @ placeholder d 5
     @ '' WHERE move_id = '' @ placeholder d 6"

definition save_job :: "'w migrator \<Rightarrow> shard_move \<Rightarrow> job_state \<Rightarrow> (shard_error, 'w, unit) act" where
  "save_job mg mv job =
     act_bind (act_lift (mig_dialect mg)) (\<lambda>d.
     act_bind (act_lift (if int (job_rows job) > i64_max then Err (ShardDatabase ''migration rows_moved out of range'')
       else Ok (int (job_rows job)))) (\<lambda>n.
     act_bind (now_rfc3339 mg) (\<lambda>now.
     act_bind (act_map_err outbox_db_error (ex_execute_with (mg_state mg) (save_sql d)
       [JString (mig_phase_as_str (job_phase job)), (case job_cursor job of None \<Rightarrow> JNull | Some c \<Rightarrow> JString c),
        json_int n, JString (dec_nat (unat (job_checksum job))), JString now, JString (move_id mv)])) (\<lambda>_. act_ok ()))))"

definition mig_lock_error :: "string \<Rightarrow> shard_error" where
  "mig_lock_error e = ShardConfig (''migration lock: lock error: '' @ e)"

definition mig_acquire :: "'w migrator \<Rightarrow> (shard_error, 'w, string option) act" where
  "mig_acquire mg = (case mg_fence mg of
       None \<Rightarrow> act_ok None
     | Some f \<Rightarrow> act_bind (act_map_err mig_lock_error (mf_acquire f (mf_key f) (mf_ttl f))) (\<lambda>g.
         case g of None \<Rightarrow> act_err (ShardConfig ''another migration holds the fence'') | Some t \<Rightarrow> act_ok (Some t)))"

definition mig_check_fence :: "'w migrator \<Rightarrow> string option \<Rightarrow> (shard_error, 'w, unit) act" where
  "mig_check_fence mg guard = (case (mg_fence mg, guard) of
       (Some f, Some t) \<Rightarrow> act_map_err mig_lock_error (mf_renew f (mf_key f) t (mf_ttl f))
     | _ \<Rightarrow> act_ok ())"

definition mig_release :: "'w migrator \<Rightarrow> string option \<Rightarrow> (shard_error, 'w, unit) act" where
  "mig_release mg guard = (case (mg_fence mg, guard) of
       (Some f, Some t) \<Rightarrow> act_map_err mig_lock_error (mf_release f (mf_key f) t)
     | _ \<Rightarrow> act_ok ())"

section \<open>Schema check (schema.rs)\<close>

definition unsupported_name :: "string \<Rightarrow> string" where
  "unsupported_name table = ''migration preflight: table name `'' @ table
     @ ''` is not supported; only unquoted `table` or two-part `schema.table` / `db.table` names can be inspected. ''
     @ ''Three-part `db.schema.table` names and quoted identifiers containing dots are not supported; refusing to copy.''"

definition split_table :: "string \<Rightarrow> (shard_error, string option \<times> string) result" where
  "split_table table =
     (let dots = length (filter (\<lambda>c. c = CHR ''.'') table);
          quoted_name = list_ex (\<lambda>c. c \<in> {CHR 0x22, CHR 0x60, CHR ''['', CHR '']''}) table
      in if dots > 1 \<or> (quoted_name \<and> dots > 0) then Err (ShardConfig (unsupported_name table))
         else if dots = 0 then Ok (None, table)
         else Ok (Some (takeWhile (\<lambda>c. c \<noteq> CHR ''.'') table), tl (dropWhile (\<lambda>c. c \<noteq> CHR ''.'') table)))"

text \<open>The metadata query of a dialect with its parameters.\<close>

fun dialect_debug :: "dialect \<Rightarrow> string" where
  "dialect_debug Standard = ''Standard''"
| "dialect_debug Sqlite = ''Sqlite''"
| "dialect_debug Postgres = ''Postgres''"
| "dialect_debug MySql = ''MySql''"
| "dialect_debug Mssql = ''Mssql''"

definition columns_sql :: "dialect \<Rightarrow> string option \<Rightarrow> string \<Rightarrow> (shard_error, string \<times> json_value list) result" where
  "columns_sql d schema name = (case d of
       MySql \<Rightarrow> (case schema of
           Some s \<Rightarrow> Ok (''SELECT COLUMN_NAME AS name, DATA_TYPE AS data_type FROM information_schema.COLUMNS ''
             @ ''WHERE TABLE_SCHEMA = ? AND TABLE_NAME = ?'', [JString s, JString name])
         | None \<Rightarrow> Ok (''SELECT COLUMN_NAME AS name, DATA_TYPE AS data_type FROM information_schema.COLUMNS ''
             @ ''WHERE TABLE_SCHEMA = DATABASE() AND TABLE_NAME = ?'', [JString name]))
     | Postgres \<Rightarrow> (case schema of
           Some s \<Rightarrow> Ok (''SELECT column_name AS name, data_type AS data_type FROM information_schema.columns ''
             @ ''WHERE table_schema = $1 AND table_name = $2'', [JString s, JString name])
         | None \<Rightarrow> Ok (''SELECT column_name AS name, data_type AS data_type FROM information_schema.columns ''
             @ ''WHERE table_name = $1 AND table_schema = ANY (current_schemas(false))'', [JString name]))
     | Sqlite \<Rightarrow> (case schema of
           Some s \<Rightarrow> Ok (''SELECT name, type AS data_type FROM pragma_table_info(?, ?)'', [JString name, JString s])
         | None \<Rightarrow> Ok (''SELECT name, type AS data_type FROM pragma_table_info(?)'', [JString name]))
     | _ \<Rightarrow> Err (ShardConfig (''migration preflight: dialect `'' @ dialect_debug d
           @ ''` cannot be inspected for binary columns; refusing to copy'')))"

definition column_of_row :: "db_row \<Rightarrow> (shard_error, string \<times> string) result" where
  "column_of_row row = try_bind (mig_text row ''name'') (\<lambda>n. try_bind (mig_text row ''data_type'') (\<lambda>t. Ok (n, t)))"

definition source_columns :: "'w sql_executor \<Rightarrow> string \<Rightarrow> (shard_error, 'w, (string \<times> string) list) act" where
  "source_columns client table =
     act_bind (act_lift (split_table table)) (\<lambda>(schema, name).
     act_bind (act_lift (columns_sql (ex_dialect client) schema name)) (\<lambda>(sql, ps).
     act_bind (act_map_err outbox_db_error (ex_query_with client sql ps)) (\<lambda>rows.
     if rows = [] then act_err (ShardConfig (''migration preflight: cannot inspect source schema for table `'' @ table
       @ ''`; refusing to copy without column metadata''))
     else act_lift (collect_results column_of_row rows))))"

definition is_binary_type :: "dialect \<Rightarrow> string \<Rightarrow> bool" where
  "is_binary_type d type_name =
     (let t = map ascii_lower (str_trim type_name) in case d of
        MySql \<Rightarrow> t \<in> {''binary'', ''varbinary'', ''tinyblob'', ''blob'', ''mediumblob'', ''longblob'', ''bit'', ''geometry'',
          ''point'', ''linestring'', ''polygon'', ''multipoint'', ''multilinestring'', ''multipolygon'',
          ''geometrycollection'', ''geomcollection'', ''vector''}
      | Postgres \<Rightarrow> t = ''bytea''
      | Sqlite \<Rightarrow> t = [] \<or> str_contains ''blob'' t \<or> str_contains ''binary'' t
      | _ \<Rightarrow> False)"

definition binary_column :: "string \<Rightarrow> string \<Rightarrow> string \<Rightarrow> string" where
  "binary_column table column type_name = ''migration preflight: binary column `'' @ table @ ''`.`'' @ column @ ''` has type `''
     @ type_name @ ''`; BLOB/BYTEA would be copied as base64 text and corrupted. ''
     @ ''Refusing to copy; use a native dump/restore tool for this table.''"

fun preflight_moves :: "'w migrator \<Rightarrow> (string \<times> string) list \<Rightarrow> shard_move list \<Rightarrow> (shard_error, 'w, unit) act" where
  "preflight_moves mg inspected [] = act_ok ()"
| "preflight_moves mg inspected (mv # mvs) =
     (if (mv_from mv, mv_table mv) \<in> set inspected then preflight_moves mg inspected mvs
      else act_bind (act_lift (mig_client mg (mv_from mv))) (\<lambda>source.
           act_bind (source_columns source (mv_table mv)) (\<lambda>cols.
           act_bind (act_lift (for_each (\<lambda>(column, type_name). if is_binary_type (ex_dialect source) type_name
               then Err (ShardConfig (binary_column (mv_table mv) column type_name)) else Ok ()) cols)) (\<lambda>_.
           preflight_moves mg ((mv_from mv, mv_table mv) # inspected) mvs))))"

definition preflight_schema :: "'w migrator \<Rightarrow> (shard_error, 'w, unit) act" where
  "preflight_schema mg = preflight_moves mg [] (plan_moves (mg_plan mg))"

section \<open>Backfill (backfill.rs)\<close>

definition parse_cursor :: "'w migrator \<Rightarrow> string \<Rightarrow> (shard_error, json_value) result" where
  "parse_cursor mg t = map_err (\<lambda>e. ShardDatabase (''migration cursor is invalid JSON: '' @ e)) (en_from_str (mg_env mg) t)"

definition row_value :: "db_row \<Rightarrow> string \<Rightarrow> (shard_error, json_value) result" where
  "row_value row column = ok_or (ShardDatabase (''migration row missing column `'' @ column @ ''`'')) (row_get row column)"

text \<open>Collecting into a map: a later column of the same name replaces an earlier one.\<close>

definition row_object :: "db_row \<Rightarrow> json_value" where
  "row_object row = JObject (foldl (\<lambda>m (c, v). AList.update c v m) [] (row_iter row))"

definition row_checksum :: "json_text \<Rightarrow> db_row \<Rightarrow> (shard_error, u64) result" where
  "row_checksum J row = stable_hash64 J (row_object row)"

text \<open>\<open>scan_sql\<close>: the statement and its parameters; each bound value takes the next placeholder.\<close>

definition scan_conds :: "shard_table \<Rightarrow> key_range option \<Rightarrow> json_value option \<Rightarrow> (string \<times> json_value) list" where
  "scan_conds t rng cursor =
     (case cursor of None \<Rightarrow> [] | Some c \<Rightarrow> [(tbl_pk t @ '' > '', c)])
     @ (case rng of None \<Rightarrow> [] | Some r \<Rightarrow>
          (case kr_low r of None \<Rightarrow> [] | Some low \<Rightarrow> [(tbl_key t @ '' >= '', json_int low)])
          @ (case kr_high r of None \<Rightarrow> [] | Some high \<Rightarrow> [(tbl_key t @ '' < '', json_int high)]))"

definition scan_sql :: "dialect \<Rightarrow> shard_table \<Rightarrow> key_range option \<Rightarrow> json_value option \<Rightarrow> nat \<Rightarrow> string" where
  "scan_sql d t rng cursor n =
     (let conds = scan_conds t rng cursor in
      ''SELECT * FROM '' @ tbl_name t @ '' WHERE 1 = 1''
      @ concat (map (\<lambda>(i, c, _). '' AND '' @ c @ placeholder d (i + 1)) (enumerate 0 conds))
      @ '' ORDER BY '' @ tbl_pk t @ '' LIMIT '' @ dec_nat n)"

definition scan_params :: "shard_table \<Rightarrow> key_range option \<Rightarrow> json_value option \<Rightarrow> json_value list" where
  "scan_params t rng cursor = map snd (scan_conds t rng cursor)"

definition scan_chunk ::
  "'w migrator \<Rightarrow> 'w sql_executor \<Rightarrow> shard_table \<Rightarrow> key_range option \<Rightarrow> json_value option \<Rightarrow> (shard_error, 'w, db_row list) act" where
  "scan_chunk mg client t rng cursor =
     act_map_err outbox_db_error
       (ex_query_with client (scan_sql (ex_dialect client) t rng cursor (mg_chunk_size mg)) (scan_params t rng cursor))"

text \<open>The index of a valid catalog is never out of range, where \<^verbatim>\<open>table.shards[index]\<close> would panic.\<close>

definition routes_to :: "'w migrator \<Rightarrow> shard_move \<Rightarrow> db_row \<Rightarrow> (shard_error, bool) result" where
  "routes_to mg mv row =
     (if mv_range mv \<noteq> None then Ok True
      else try_bind (catalog_table (mg_new mg) (mv_table mv)) (\<lambda>t.
           try_bind (row_value row (tbl_key t)) (\<lambda>key.
           try_bind (shard_for (en_text (mg_env mg)) (mg_new mg) (mv_table mv) key) (\<lambda>index.
           if index < length (tbl_shards t) then Ok (ep_name (tbl_shards t ! index) = mv_to mv)
           else Err (ShardConfig ''index out of bounds'')))))"

definition upsert_sql :: "dialect \<Rightarrow> string \<Rightarrow> string \<Rightarrow> string list \<Rightarrow> string" where
  "upsert_sql d table pk columns =
     (let assign = (\<lambda>c. if d = MySql then c @ '' = ecat_new.'' @ c else c @ '' = EXCLUDED.'' @ c);
          updates = map assign (filter (\<lambda>c. c \<noteq> pk) columns);
          update = (if updates = [] then assign pk else str_join '', '' updates)
      in ''INSERT INTO '' @ table @ '' ('' @ str_join '', '' columns @ '') VALUES (''
         @ str_join '', '' (map (placeholder d) [1..<length columns + 1]) @ '')''
         @ (if d = MySql then '' AS ecat_new ON DUPLICATE KEY UPDATE '' @ update
            else '' ON CONFLICT ('' @ pk @ '') DO UPDATE SET '' @ update))"

definition upsert_row :: "'w migrator \<Rightarrow> 'w sql_executor \<Rightarrow> shard_move \<Rightarrow> db_row \<Rightarrow> (shard_error, 'w, unit) act" where
  "upsert_row mg target mv row =
     (if ex_dialect target = Mssql then act_err ShardUnsupportedDialect
      else act_bind (act_lift (catalog_table (mg_new mg) (mv_table mv))) (\<lambda>t.
        if row_columns row = [] then act_err (ShardDatabase (''row from `'' @ mv_table mv @ ''` has no columns''))
        else act_bind (act_map_err outbox_db_error (ex_execute_with target
               (upsert_sql (ex_dialect target) (mv_table mv) (tbl_pk t) (row_columns row)) (row_values row))) (\<lambda>_. act_ok ())))"

text \<open>The rows of a batch; the second component counts the copied ones.\<close>

fun copy_rows ::
  "'w migrator \<Rightarrow> shard_move \<Rightarrow> 'w sql_executor \<Rightarrow> db_row list \<Rightarrow> job_state \<times> nat \<Rightarrow> (shard_error, 'w, job_state \<times> nat) act" where
  "copy_rows mg mv target [] acc = act_ok acc"
| "copy_rows mg mv target (row # rows) (job, copied) =
     act_bind (act_lift (routes_to mg mv row)) (\<lambda>here.
     if \<not> here then copy_rows mg mv target rows (job, copied)
     else act_bind (upsert_row mg target mv row) (\<lambda>_.
       if job_rows job + 1 > u64_max then act_err (ShardDatabase ''migration row count overflow'')
       else act_bind (act_lift (row_checksum (en_text (mg_env mg)) row)) (\<lambda>c.
         copy_rows mg mv target rows
           (job\<lparr>job_rows := job_rows job + 1, job_checksum := job_checksum job XOR c\<rparr>, copied + 1))))"

definition loop_cut :: shard_error where
  "loop_cut = ShardConfig ''out of rounds''"

definition saturating_add_u64 :: "nat \<Rightarrow> nat \<Rightarrow> nat" where
  "saturating_add_u64 a b = min (a + b) u64_max"

definition encode_cursor :: "'w migrator \<Rightarrow> json_value \<Rightarrow> (shard_error, string) result" where
  "encode_cursor mg v = map_err (\<lambda>e. ShardDatabase (''failed to encode migration cursor: '' @ e)) (en_to_string (mg_env mg) v)"

fun backfill_loop ::
  "'w migrator \<Rightarrow> shard_move \<Rightarrow> shard_table \<Rightarrow> 'w sql_executor \<Rightarrow> 'w sql_executor \<Rightarrow> string option \<Rightarrow> nat \<Rightarrow>
   json_value option \<Rightarrow> job_state \<Rightarrow> migration_report \<Rightarrow> (shard_error, 'w, migration_report) act" where
  "backfill_loop mg mv t source target guard 0 cursor job report = act_err loop_cut"
| "backfill_loop mg mv t source target guard (Suc n) cursor job report =
     act_bind (mig_check_fence mg guard) (\<lambda>_.
     act_bind (scan_chunk mg source t (mv_range mv) cursor) (\<lambda>batch.
     if batch = [] then act_ok report
     else act_bind (copy_rows mg mv target batch (job, 0)) (\<lambda>(job', copied).
       act_bind (act_lift (row_value (last batch) (tbl_pk t))) (\<lambda>last_pk.
       act_bind (act_lift (encode_cursor mg last_pk)) (\<lambda>txt.
       let job'' = job'\<lparr>job_cursor := Some txt, job_phase := PhBackfilling\<rparr> in
       act_bind (save_job mg mv job'') (\<lambda>_.
       backfill_loop mg mv t source target guard n (Some last_pk) job''
         (report\<lparr>mr_moved_rows := saturating_add_u64 (mr_moved_rows report) copied, mr_chunks := mr_chunks report + 1\<rparr>)))))))"

definition backfill_move ::
  "'w migrator \<Rightarrow> string option \<Rightarrow> shard_move \<Rightarrow> migration_report \<Rightarrow> (shard_error, 'w, migration_report) act" where
  "backfill_move mg guard mv report =
     act_bind (ensure_job mg mv) (\<lambda>job0.
     if job_phase job0 = PhVerified \<or> job_phase job0 = PhCutover \<or> job_phase job0 = PhDone then act_ok report
     else
       act_bind (if job_phase job0 = PhRolledBack
         then act_bind (save_job mg mv (job0\<lparr>job_phase := PhBackfilling\<rparr>)) (\<lambda>_. act_ok (job0\<lparr>job_phase := PhBackfilling\<rparr>))
         else act_ok job0) (\<lambda>job.
       act_bind (act_lift (mig_client mg (mv_from mv))) (\<lambda>source.
       act_bind (act_lift (mig_client mg (mv_to mv))) (\<lambda>target.
       act_bind (act_lift (catalog_table (mg_new mg) (mv_table mv))) (\<lambda>t.
       act_bind (act_lift (case job_cursor job of None \<Rightarrow> Ok None
         | Some c \<Rightarrow> try_bind (parse_cursor mg c) (\<lambda>v. Ok (Some v)))) (\<lambda>cursor.
       backfill_loop mg mv t source target guard (en_rounds (mg_env mg)) cursor job report))))))"

fun run_backfill ::
  "'w migrator \<Rightarrow> string option \<Rightarrow> shard_move list \<Rightarrow> migration_report \<Rightarrow> (shard_error, 'w, migration_report) act" where
  "run_backfill mg guard [] report = act_ok report"
| "run_backfill mg guard (mv # mvs) report =
     act_bind (backfill_move mg guard mv report) (\<lambda>report'. run_backfill mg guard mvs report')"

definition backfill :: "'w migrator \<Rightarrow> (shard_error, 'w, migration_report) act" where
  "backfill mg =
     act_bind (preflight_schema mg) (\<lambda>_.
     act_bind (ensure_schema mg) (\<lambda>_.
     act_bind (mig_acquire mg) (\<lambda>guard w.
       (case run_backfill mg guard (plan_moves (mg_plan mg)) \<lparr> mr_moved_rows = 0, mr_chunks = 0, mr_verified = False \<rparr> w of
          (outcome, w1) \<Rightarrow> (case mig_release mg guard w1 of
            (released, w2) \<Rightarrow> (try_bind outcome (\<lambda>report. try_bind released (\<lambda>_. Ok report)), w2))))))"

section \<open>Verification (verify.rs)\<close>

text \<open>The rows of a batch that count, and the scan that adds them up.\<close>

fun add_stats ::
  "(db_row \<Rightarrow> (shard_error, bool) result) \<Rightarrow> json_text \<Rightarrow> db_row list \<Rightarrow> nat \<times> u64 \<Rightarrow> (shard_error, nat \<times> u64) result" where
  "add_stats in_scope J [] acc = Ok acc"
| "add_stats in_scope J (row # rows) (n, c) =
     try_bind (in_scope row) (\<lambda>here.
     if \<not> here then add_stats in_scope J rows (n, c)
     else try_bind (row_checksum J row) (\<lambda>h. add_stats in_scope J rows (saturating_add_u64 n 1, c XOR h)))"

fun scan_stats ::
  "'w migrator \<Rightarrow> 'w sql_executor \<Rightarrow> shard_table \<Rightarrow> key_range option \<Rightarrow> (db_row \<Rightarrow> (shard_error, bool) result) \<Rightarrow> nat \<Rightarrow>
   json_value option \<Rightarrow> nat \<times> u64 \<Rightarrow> (shard_error, 'w, nat \<times> u64) act" where
  "scan_stats mg client t rng in_scope 0 cursor acc = act_err loop_cut"
| "scan_stats mg client t rng in_scope (Suc n) cursor acc =
     act_bind (scan_chunk mg client t rng cursor) (\<lambda>batch.
     if batch = [] then act_ok acc
     else act_bind (act_lift (add_stats in_scope (en_text (mg_env mg)) batch acc)) (\<lambda>acc'.
       act_bind (act_lift (row_value (last batch) (tbl_pk t))) (\<lambda>pk.
       scan_stats mg client t rng in_scope n (Some pk) acc')))"

definition scan_move_stats :: "'w migrator \<Rightarrow> 'w sql_executor \<Rightarrow> shard_table \<Rightarrow> shard_move \<Rightarrow> (shard_error, 'w, nat \<times> u64) act" where
  "scan_move_stats mg client t mv =
     scan_stats mg client t (mv_range mv) (routes_to mg mv) (en_rounds (mg_env mg)) None (0, 0)"

fun row_in_any_scope :: "'w migrator \<Rightarrow> shard_table \<Rightarrow> shard_move list \<Rightarrow> db_row \<Rightarrow> (shard_error, bool) result" where
  "row_in_any_scope mg t [] row = Ok False"
| "row_in_any_scope mg t (mv # mvs) row =
     try_bind (case mv_range mv of
         None \<Rightarrow> routes_to mg mv row
       | Some r \<Rightarrow> try_bind (row_value row (tbl_key t)) (\<lambda>v.
           try_bind (ok_or (ShardDatabase (''range migration key in `'' @ mv_table mv @ ''` is not an integer'')) (as_i64 v)) (\<lambda>key.
           Ok ((case kr_low r of None \<Rightarrow> True | Some low \<Rightarrow> key \<ge> low) \<and> (case kr_high r of None \<Rightarrow> True | Some high \<Rightarrow> key < high)))))
       (\<lambda>here. if here then Ok True else row_in_any_scope mg t mvs row)"

definition scan_target_stats ::
  "'w migrator \<Rightarrow> 'w sql_executor \<Rightarrow> shard_table \<Rightarrow> shard_move list \<Rightarrow> (shard_error, 'w, nat \<times> u64) act" where
  "scan_target_stats mg client t moves =
     scan_stats mg client t None (row_in_any_scope mg t moves) (en_rounds (mg_env mg)) None (0, 0)"

definition mig_groups :: "shard_move list \<Rightarrow> ((string \<times> string) \<times> shard_move list) list" where
  "mig_groups moves =
     map (\<lambda>k. (k, filter (\<lambda>mv. (mv_table mv, mv_to mv) = k) moves))
       (sort (remdups (map (\<lambda>mv. (mv_table mv, mv_to mv)) moves)))"

definition arrow :: string where "arrow = [CHR 0xE2, CHR 0x86, CHR 0x92]"

definition job_label :: "shard_move \<Rightarrow> string" where
  "job_label mv = ''migration job for '' @ mv_table mv @ '' '' @ mv_from mv @ arrow @ mv_to mv"

text \<open>The jobs of a group with their totals and whether all are settled.\<close>

fun group_jobs ::
  "'w migrator \<Rightarrow> shard_move list \<Rightarrow> job_state list \<times> nat \<times> u64 \<times> bool \<Rightarrow>
   (shard_error, 'w, job_state list \<times> nat \<times> u64 \<times> bool) act" where
  "group_jobs mg [] acc = act_ok acc"
| "group_jobs mg (mv # mvs) (jobs, n, c, settled) =
     act_bind (load_job mg (move_id mv)) (\<lambda>found.
     act_bind (act_lift (ok_or (ShardConfig (job_label mv @ '' is missing; run backfill first'')) found)) (\<lambda>job.
     group_jobs mg mvs (jobs @ [job], saturating_add_u64 n (job_rows job), c XOR job_checksum job,
       settled \<and> (job_phase job = PhDone \<or> job_phase job = PhRolledBack))))"

fun source_stats :: "'w migrator \<Rightarrow> shard_table \<Rightarrow> shard_move list \<Rightarrow> nat \<times> u64 \<Rightarrow> (shard_error, 'w, nat \<times> u64) act" where
  "source_stats mg t [] acc = act_ok acc"
| "source_stats mg t (mv # mvs) (n, c) =
     act_bind (act_lift (mig_client mg (mv_from mv))) (\<lambda>source.
     act_bind (scan_move_stats mg source t mv) (\<lambda>(rows, checksum).
     source_stats mg t mvs (saturating_add_u64 n rows, c XOR checksum)))"

text \<open>\<^verbatim>\<open>{:016x}\<close>.\<close>

definition hex_char :: "nat \<Rightarrow> char" where
  "hex_char d = (if d < 10 then char_of (48 + d) else char_of (87 + d))"

definition hex16 :: "u64 \<Rightarrow> string" where
  "hex16 w = map (\<lambda>i. hex_char (unat w div 16 ^ (15 - i) mod 16)) [0..<16]"

definition stats_text :: "string \<Rightarrow> nat \<times> u64 \<Rightarrow> string" where
  "stats_text who s = who @ '' '' @ dec_nat (fst s) @ ''/'' @ hex16 (snd s)"

fun mark_verified :: "'w migrator \<Rightarrow> (shard_move \<times> job_state) list \<Rightarrow> (shard_error, 'w, unit) act" where
  "mark_verified mg [] = act_ok ()"
| "mark_verified mg ((mv, job) # rest) =
     act_bind (save_job mg mv (job\<lparr>job_phase := PhVerified\<rparr>)) (\<lambda>_. mark_verified mg rest)"

definition verify_group :: "'w migrator \<Rightarrow> (string \<times> string) \<times> shard_move list \<Rightarrow> (shard_error, 'w, unit) act" where
  "verify_group mg g =
     (let table_name = fst (fst g); target_shard = snd (fst g); moves = snd g in
      act_bind (act_lift (catalog_table (mg_new mg) table_name)) (\<lambda>t.
      act_bind (group_jobs mg moves ([], 0, 0, True)) (\<lambda>(jobs, n, c, settled).
      if settled then act_ok ()
      else
        act_bind (source_stats mg t moves (0, 0)) (\<lambda>src.
        act_bind (act_lift (mig_client mg target_shard)) (\<lambda>target.
        act_bind (scan_target_stats mg target t moves) (\<lambda>tgt.
        if src \<noteq> (n, c) then
          act_err (ShardConfig (''backfill incomplete for table `'' @ table_name @ ''` target `'' @ target_shard @ ''`: ''
            @ stats_text ''source'' src @ '', '' @ stats_text ''job'' (n, c)))
        else if src \<noteq> tgt then
          act_err (ShardConfig (''verify mismatch for table `'' @ table_name @ ''` target `'' @ target_shard @ ''`: ''
            @ stats_text ''source'' src @ '', '' @ stats_text ''target'' tgt))
        else mark_verified mg (zip moves jobs)))))))"

fun verify_groups :: "'w migrator \<Rightarrow> ((string \<times> string) \<times> shard_move list) list \<Rightarrow> (shard_error, 'w, unit) act" where
  "verify_groups mg [] = act_ok ()"
| "verify_groups mg (g # gs) = act_bind (verify_group mg g) (\<lambda>_. verify_groups mg gs)"

definition verify :: "'w migrator \<Rightarrow> (shard_error, 'w, unit) act" where
  "verify mg = act_bind (preflight_schema mg) (\<lambda>_. verify_groups mg (mig_groups (plan_moves (mg_plan mg))))"

section \<open>Cutover and rollback (cutover.rs)\<close>

text \<open>An action on the right component of a product state, here the router.\<close>

definition on_snd :: "('e, 't, 'a) act \<Rightarrow> ('e, 's \<times> 't, 'a) act" where
  "on_snd f st = (case f (snd st) of (r, t') \<Rightarrow> (r, (fst st, t')))"

fun check_verified :: "'w migrator \<Rightarrow> shard_move list \<Rightarrow> (shard_error, 'w, unit) act" where
  "check_verified mg [] = act_ok ()"
| "check_verified mg (mv # mvs) =
     act_bind (load_job mg (move_id mv)) (\<lambda>found.
     act_bind (act_lift (ok_or (ShardConfig (job_label mv @ '' is missing'')) found)) (\<lambda>job.
     if job_phase job = PhVerified \<or> job_phase job = PhDone then check_verified mg mvs
     else act_err (ShardConfig (job_label mv @ '' is not verified (phase `'' @ mig_phase_as_str (job_phase job) @ ''`)''))))"

fun mark_moves :: "'w migrator \<Rightarrow> mig_phase \<Rightarrow> shard_move list \<Rightarrow> (shard_error, 'w, unit) act" where
  "mark_moves mg ph [] = act_ok ()"
| "mark_moves mg ph (mv # mvs) =
     act_bind (load_job mg (move_id mv)) (\<lambda>found.
     act_bind (case found of None \<Rightarrow> act_ok () | Some job \<Rightarrow> save_job mg mv (job\<lparr>job_phase := ph\<rparr>)) (\<lambda>_.
     mark_moves mg ph mvs))"

definition cutover :: "'w migrator \<Rightarrow> shard_catalog \<Rightarrow> (shard_error, 'w \<times> 'c shard_router, unit) act" where
  "cutover mg new_catalog =
     act_bind (on_fst (preflight_schema mg)) (\<lambda>_.
     act_bind (on_fst (check_verified mg (plan_moves (mg_plan mg)))) (\<lambda>_.
     act_bind (on_snd (router_reload new_catalog)) (\<lambda>_.
     on_fst (mark_moves mg PhDone (plan_moves (mg_plan mg))))))"

definition mig_rollback :: "'w migrator \<Rightarrow> (shard_error, 'w \<times> 'c shard_router, unit) act" where
  "mig_rollback mg =
     act_bind (on_snd (router_reload (mg_old mg))) (\<lambda>_.
     on_fst (mark_moves mg PhRolledBack (plan_moves (mg_plan mg))))"

end
