(* ===== verification/MigrationProofs.thy ===== *)
theory MigrationProofs
  imports Migrator
begin

text \<open>
  What the migration executor achieves: the meaning of its statements on a view of the databases,
  what its scans read, when verification accepts, and what backfill, verification and cutover do
  together.
\<close>

section \<open>What the statements do\<close>

text \<open>
  How a world shows the rows of a shard's table, in the order of the primary key, and the job
  table. \<open>tv_less\<close> is the order of the primary keys of a shard's table, \<open>tv_key\<close> their type.
\<close>

record 'w mig_view =
  tv_rows :: "'w \<Rightarrow> string \<Rightarrow> string \<Rightarrow> db_row list"
  tv_jobs :: "'w \<Rightarrow> string \<Rightarrow> job_state option"
  tv_less :: "string \<Rightarrow> string \<Rightarrow> json_value \<Rightarrow> json_value \<Rightarrow> bool"
  tv_key :: "json_value \<Rightarrow> bool"

definition has_key :: "'w mig_view \<Rightarrow> shard_table \<Rightarrow> db_row \<Rightarrow> bool" where
  "has_key v t row \<longleftrightarrow> (\<exists>p. row_get row (tbl_pk t) = Some p \<and> tv_key v p)"

definition same_view :: "'w mig_view \<Rightarrow> 'w \<Rightarrow> 'w \<Rightarrow> bool" where
  "same_view v w w' \<longleftrightarrow> tv_rows v w' = tv_rows v w \<and> tv_jobs v w' = tv_jobs v w"

definition int_key :: "shard_table \<Rightarrow> db_row \<Rightarrow> bool" where
  "int_key t row \<longleftrightarrow> Option.bind (row_get row (tbl_key t)) as_i64 \<noteq> None"

definition in_rng :: "shard_table \<Rightarrow> key_range option \<Rightarrow> db_row \<Rightarrow> bool" where
  "in_rng t rng row = (case rng of None \<Rightarrow> True
     | Some r \<Rightarrow> (case Option.bind (row_get row (tbl_key t)) as_i64 of
         None \<Rightarrow> False | Some k \<Rightarrow> in_interval (kr_low r) (kr_high r) k))"

definition after_cursor :: "'w mig_view \<Rightarrow> string \<Rightarrow> shard_table \<Rightarrow> json_value option \<Rightarrow> db_row \<Rightarrow> bool" where
  "after_cursor v s t cursor row = (case cursor of None \<Rightarrow> True
     | Some c \<Rightarrow> (case row_get row (tbl_pk t) of None \<Rightarrow> False | Some p \<Rightarrow> tv_less v s (tbl_name t) c p))"

definition scanned :: "'w mig_view \<Rightarrow> string \<Rightarrow> shard_table \<Rightarrow> key_range option \<Rightarrow> json_value option \<Rightarrow> db_row \<Rightarrow> bool" where
  "scanned v s t rng cursor row \<longleftrightarrow> in_rng t rng row \<and> after_cursor v s t cursor row"

text \<open>The image of a job in the answer to the query.\<close>

definition job_image :: "job_state \<Rightarrow> db_row \<Rightarrow> bool" where
  "job_image job row \<longleftrightarrow>
     row_get row ''phase'' = Some (JString (mig_phase_as_str (job_phase job))) \<and>
     row_get row ''cursor'' = Some (case job_cursor job of None \<Rightarrow> JNull | Some c \<Rightarrow> JString c) \<and>
     row_get row ''rows_moved'' = Some (json_int (int (job_rows job))) \<and>
     row_get row ''checksum'' = Some (JString (dec_nat (unat (job_checksum job))))"

text \<open>The primary keys of a table are strictly increasing in the order of the database.\<close>

definition pk_lt :: "'w mig_view \<Rightarrow> string \<Rightarrow> shard_table \<Rightarrow> db_row \<Rightarrow> db_row \<Rightarrow> bool" where
  "pk_lt v s t a b \<longleftrightarrow> (case (row_get a (tbl_pk t), row_get b (tbl_pk t)) of
     (Some x, Some y) \<Rightarrow> tv_less v s (tbl_name t) x y | _ \<Rightarrow> False)"

definition order_laws :: "'w mig_view \<Rightarrow> bool" where
  "order_laws v \<longleftrightarrow> (\<forall>s n x. \<not> tv_less v s n x x) \<and>
     (\<forall>s n x y z. tv_less v s n x y \<longrightarrow> tv_less v s n y z \<longrightarrow> tv_less v s n x z)"

definition plan_table :: "'w migrator \<Rightarrow> shard_table \<Rightarrow> bool" where
  "plan_table mg t \<longleftrightarrow> catalog_table (mg_new mg) (tbl_name t) = Ok t"

definition plan_rngs :: "'w migrator \<Rightarrow> key_range option set" where
  "plan_rngs mg = insert None (mv_range ` set (plan_moves (mg_plan mg)))"

definition table_laws :: "'w mig_view \<Rightarrow> 'w migrator \<Rightarrow> 'w \<Rightarrow> bool" where
  "table_laws v mg w \<longleftrightarrow> (\<forall>s t. plan_table mg t \<longrightarrow>
     sorted_wrt (pk_lt v s t) (tv_rows v w s (tbl_name t)) \<and>
     (\<forall>row \<in> set (tv_rows v w s (tbl_name t)). has_key v t row))"

text \<open>
  Queries change nothing; a scan answers with the next rows after the cursor, in the order of the
  primary key; the job query with the job. A failed statement answers nothing.
\<close>

definition read_laws :: "'w mig_view \<Rightarrow> 'w migrator \<Rightarrow> bool" where
  "read_laws v mg \<longleftrightarrow>
     (\<forall>s cl sql ps w. mg_clients mg s = Some cl \<longrightarrow> same_view v w (snd (ex_query_with cl sql ps w))) \<and>
     (\<forall>sql ps w. same_view v w (snd (ex_query_with (mg_state mg) sql ps w))) \<and>
     (\<forall>s cl t rng cursor w rows w'. mg_clients mg s = Some cl \<longrightarrow> plan_table mg t \<longrightarrow> rng \<in> plan_rngs mg \<longrightarrow>
        (rng = None \<or> (\<forall>row \<in> set (tv_rows v w s (tbl_name t)). int_key t row)) \<longrightarrow>
        ex_query_with cl (scan_sql (ex_dialect cl) t rng cursor (mg_chunk_size mg)) (scan_params t rng cursor) w = (Ok rows, w') \<longrightarrow>
        rows = take (mg_chunk_size mg) (filter (scanned v s t rng cursor) (tv_rows v w s (tbl_name t)))) \<and>
     (\<forall>i w rows w'. ex_query_with (mg_state mg) (load_sql (ex_dialect (mg_state mg))) [JString i] w = (Ok rows, w') \<longrightarrow>
        (case tv_jobs v w i of None \<Rightarrow> rows = [] | Some job \<Rightarrow> rows \<noteq> [] \<and> job_image job (hd rows)))"

text \<open>
  The writes: a new job, the update of a job, the upsert of a row (the tables of a move have the
  same columns and no unique key but the primary one). A failed one may have been carried out.
\<close>

definition fresh_job :: job_state where
  "fresh_job = \<lparr> job_phase = PhPending, job_cursor = None, job_rows = 0, job_checksum = 0 \<rparr>"

definition save_params :: "job_state \<Rightarrow> string \<Rightarrow> string \<Rightarrow> json_value list" where
  "save_params job now i =
     [JString (mig_phase_as_str (job_phase job)), (case job_cursor job of None \<Rightarrow> JNull | Some c \<Rightarrow> JString c),
      json_int (int (job_rows job)), JString (dec_nat (unat (job_checksum job))), JString now, JString i]"

definition job_write :: "'w mig_view \<Rightarrow> ('e, 'w, 'a) act \<Rightarrow> ((string \<Rightarrow> job_state option) \<Rightarrow> string \<Rightarrow> job_state option) \<Rightarrow> bool" where
  "job_write v f upd \<longleftrightarrow> (\<forall>w. tv_rows v (snd (f w)) = tv_rows v w \<and>
     (tv_jobs v (snd (f w)) = upd (tv_jobs v w) \<or> \<not> is_ok (fst (f w)) \<and> tv_jobs v (snd (f w)) = tv_jobs v w))"

definition insert_job :: "string \<Rightarrow> (string \<Rightarrow> job_state option) \<Rightarrow> string \<Rightarrow> job_state option" where
  "insert_job i jobs = (if jobs i = None then jobs(i \<mapsto> fresh_job) else jobs)"

definition update_job :: "string \<Rightarrow> job_state \<Rightarrow> (string \<Rightarrow> job_state option) \<Rightarrow> string \<Rightarrow> job_state option" where
  "update_job i job jobs = (if jobs i = None then jobs else jobs(i \<mapsto> job))"

definition job_laws :: "'w mig_view \<Rightarrow> 'w migrator \<Rightarrow> bool" where
  "job_laws v mg \<longleftrightarrow>
     (\<forall>mv now. job_write v (ex_execute_with (mg_state mg) (insert_job_sql (ex_dialect (mg_state mg))) (job_params mv now))
        (insert_job (move_id mv))) \<and>
     (\<forall>job now i. job_write v (ex_execute_with (mg_state mg) (save_sql (ex_dialect (mg_state mg))) (save_params job now i))
        (update_job i job))"

section \<open>Scans\<close>

lemma same_view_refl [simp]: "same_view v w w"
  by (simp add: same_view_def)

lemma read_lawsD:
  assumes "read_laws v mg"
  shows "mg_clients mg s = Some cl \<Longrightarrow> same_view v w (snd (ex_query_with cl sql ps w))"
    "same_view v w (snd (ex_query_with (mg_state mg) sql ps w))"
    "mg_clients mg s = Some cl \<Longrightarrow> plan_table mg t \<Longrightarrow> rng \<in> plan_rngs mg \<Longrightarrow>
       rng = None \<or> (\<forall>row \<in> set (tv_rows v w s (tbl_name t)). int_key t row) \<Longrightarrow>
       ex_query_with cl (scan_sql (ex_dialect cl) t rng cursor (mg_chunk_size mg)) (scan_params t rng cursor) w = (Ok rows, w') \<Longrightarrow>
       rows = take (mg_chunk_size mg) (filter (scanned v s t rng cursor) (tv_rows v w s (tbl_name t)))"
    "ex_query_with (mg_state mg) (load_sql (ex_dialect (mg_state mg))) [JString i] w = (Ok rows, w') \<Longrightarrow>
       (case tv_jobs v w i of None \<Rightarrow> rows = [] | Some job \<Rightarrow> rows \<noteq> [] \<and> job_image job (hd rows))"
  using assms unfolding read_laws_def by blast+

text \<open>What a scan has yet to read when it has read up to the primary key of a row.\<close>

lemma pk_lt_strict:
  assumes "order_laws v"
  shows "\<not> pk_lt v s t a a" "pk_lt v s t a b \<Longrightarrow> pk_lt v s t b c \<Longrightarrow> pk_lt v s t a c"
  using assms unfolding pk_lt_def order_laws_def by (auto split: option.splits; blast)+

lemma sorted_filter_after:
  assumes "\<And>a. \<not> lt a a" "\<And>a b c. lt a b \<Longrightarrow> lt b c \<Longrightarrow> lt a c" "sorted_wrt lt (xs @ r # ys)"
  shows "filter (lt r) (xs @ r # ys) = ys"
proof -
  have "\<not> lt r x" if "x \<in> set xs" for x
    using assms(1) [of r] assms(2) [of r x r] assms(3) that by (auto simp: sorted_wrt_append)
  moreover have "lt r y" if "y \<in> set ys" for y using assms(3) that by (auto simp: sorted_wrt_append)
  ultimately have "filter (lt r) xs = []" "filter (lt r) ys = ys" by (simp_all add: filter_empty_conv)
  then show ?thesis using assms(1) by simp
qed

lemma scan_continues:
  assumes ord: "order_laws v" and srt: "sorted_wrt (pk_lt v s t) rows"
    and batch: "take n (filter (scanned v s t rng cursor) rows) = batch" "batch \<noteq> []"
    and pk: "row_get (last batch) (tbl_pk t) = Some p"
  shows "filter (scanned v s t rng (Some p)) rows = drop n (filter (scanned v s t rng cursor) rows)"
proof -
  let ?L = "filter (scanned v s t rng cursor) rows" and ?r = "last batch"
  have r: "?r \<in> set ?L" using batch last_in_set in_set_takeD by metis
  have L: "?L = butlast batch @ ?r # drop n ?L"
    using batch append_take_drop_id [of n ?L] by (metis append.assoc append_Cons append_Nil append_butlast_last_id)
  have after: "after_cursor v s t (Some p) x \<longleftrightarrow> pk_lt v s t ?r x" for x
    using pk by (simp add: after_cursor_def pk_lt_def split: option.split)
  have "after_cursor v s t cursor x" if "pk_lt v s t ?r x" for x
  proof (cases cursor)
    case (Some c)
    have "after_cursor v s t cursor ?r" using r by (simp add: scanned_def)
    then show ?thesis using that ord Some pk
      by (auto simp: after_cursor_def pk_lt_def order_laws_def split: option.splits)
  qed (simp add: after_cursor_def)
  then have "filter (scanned v s t rng (Some p)) rows = filter (pk_lt v s t ?r) ?L"
    unfolding filter_filter by (intro filter_cong) (auto simp: scanned_def after)
  also have "\<dots> = filter (pk_lt v s t ?r) (butlast batch @ ?r # drop n ?L)" using L by simp
  also have "\<dots> = drop n ?L"
  proof (rule sorted_filter_after)
    show "\<not> pk_lt v s t a a" for a by (rule pk_lt_strict(1) [OF ord])
    show "pk_lt v s t a b \<Longrightarrow> pk_lt v s t b c \<Longrightarrow> pk_lt v s t a c" for a b c by (rule pk_lt_strict(2) [OF ord])
    show "sorted_wrt (pk_lt v s t) (butlast batch @ ?r # drop n ?L)"
      using srt L sorted_wrt_filter by metis
  qed
  finally show ?thesis .
qed

lemma add_stats_append:
  "add_stats sc J (xs @ ys) acc = try_bind (add_stats sc J xs acc) (add_stats sc J ys)"
proof (induction sc J xs acc rule: add_stats.induct)
  case (2 sc J row rows n c)
  then show ?case by (cases "sc row"; cases "row_checksum J row") auto
qed simp

interpretation sv: kept_relation "same_view v" for v
  by unfold_locales (simp_all add: same_view_def)

lemma query_keeps:
  assumes "read_laws v mg"
  shows "keeps (same_view v) (ex_query_with (mg_state mg) sql ps)"
    "mg_clients mg s = Some cl \<Longrightarrow> keeps (same_view v) (ex_query_with cl sql ps)"
  using read_lawsD [OF assms] by (simp_all add: keeps_def)

lemma scan_chunk_keeps:
  "read_laws v mg \<Longrightarrow> mg_clients mg s = Some cl \<Longrightarrow> keeps (same_view v) (scan_chunk mg cl t rng cursor)"
  unfolding scan_chunk_def by (intro keeps_map_err query_keeps)

text \<open>A table a scan may read by a range of keys has integer keys.\<close>

definition readable :: "'w mig_view \<Rightarrow> 'w \<Rightarrow> string \<Rightarrow> shard_table \<Rightarrow> key_range option \<Rightarrow> bool" where
  "readable v w s t rng \<longleftrightarrow> rng = None \<or> (\<forall>row \<in> set (tv_rows v w s (tbl_name t)). int_key t row)"

lemma scan_chunk_rows:
  assumes "read_laws v mg" "mg_clients mg s = Some cl" "plan_table mg t" "rng \<in> plan_rngs mg" "readable v w s t rng"
    and "scan_chunk mg cl t rng cursor w = (Inr batch, w')"
  shows "batch = take (mg_chunk_size mg) (filter (scanned v s t rng cursor) (tv_rows v w s (tbl_name t)))"
proof -
  have "ex_query_with cl (scan_sql (ex_dialect cl) t rng cursor (mg_chunk_size mg)) (scan_params t rng cursor) w = (Inr batch, w')"
    using assms(6) by (auto simp: scan_chunk_def act_map_err_def map_err_def split: prod.splits sum.splits)
  then show ?thesis using read_lawsD(3) [OF assms(1-4)] assms(5) unfolding readable_def by blast
qed

lemma scan_stats_rows:
  assumes laws: "read_laws v mg" "order_laws v" "mg_clients mg s = Some cl" "plan_table mg t" "rng \<in> plan_rngs mg"
    "mg_chunk_size mg > 0"
  shows "table_laws v mg w \<Longrightarrow> readable v w s t rng \<Longrightarrow> scan_stats mg cl t rng sc n cursor acc w = (Inr acc', w') \<Longrightarrow>
    same_view v w w' \<and> add_stats sc (en_text (mg_env mg)) (filter (scanned v s t rng cursor) (tv_rows v w s (tbl_name t))) acc = Inr acc'"
proof (induction n arbitrary: cursor acc w)
  case (Suc n)
  let ?rows = "tv_rows v w s (tbl_name t)" and ?J = "en_text (mg_env mg)"
  let ?L = "filter (scanned v s t rng cursor) ?rows"
  obtain batch w1 where b: "scan_chunk mg cl t rng cursor w = (Inr batch, w1)"
    and rest: "(if batch = [] then act_ok acc else act_bind (act_lift (add_stats sc ?J batch acc)) (\<lambda>acc'.
       act_bind (act_lift (row_value (last batch) (tbl_pk t))) (\<lambda>pk. scan_stats mg cl t rng sc n (Some pk) acc'))) w1 = (Inr acc', w')"
    using Suc.prems(3) by (auto simp: act_bind_def split: prod.splits sum.splits)
  have w1: "same_view v w w1" by (rule keepsD [OF scan_chunk_keeps [OF laws(1,3)] b])
  have batch: "batch = take (mg_chunk_size mg) ?L" by (rule scan_chunk_rows [OF laws(1,3-5) Suc.prems(2) b])
  show ?case
  proof (cases "batch = []")
    case True
    then have "?L = []" using batch laws(6) by simp
    then show ?thesis using True rest w1 by simp
  next
    case False
    then obtain acc1 p where a: "add_stats sc ?J batch acc = Inr acc1" "row_value (last batch) (tbl_pk t) = Inr p"
      "scan_stats mg cl t rng sc n (Some p) acc1 w1 = (Inr acc', w')"
      using rest by (auto simp: act_bind_def split: sum.splits)
    have pk: "row_get (last batch) (tbl_pk t) = Some p" using a(2) by (simp add: row_value_def ok_or_Inr_iff)
    have "table_laws v mg w1" "readable v w1 s t rng" "tv_rows v w1 = tv_rows v w"
      using Suc.prems(1,2) w1 by (simp_all add: table_laws_def readable_def same_view_def)
    then have IH: "same_view v w1 w' \<and> add_stats sc ?J (filter (scanned v s t rng (Some p)) ?rows) acc1 = Inr acc'"
      using Suc.IH [OF _ _ a(3)] by simp
    have "sorted_wrt (pk_lt v s t) ?rows" using Suc.prems(1) laws(4) by (simp add: table_laws_def)
    from scan_continues [OF laws(2) this batch [symmetric] False pk]
    have "add_stats sc ?J (drop (mg_chunk_size mg) ?L) acc1 = Inr acc'" using IH by simp
    then have "add_stats sc ?J (take (mg_chunk_size mg) ?L @ drop (mg_chunk_size mg) ?L) acc = Inr acc'"
      unfolding add_stats_append using a(1) batch by simp
    then show ?thesis using IH sv.kept_trans [OF w1] by simp
  qed
qed simp

text \<open>The number of rows that count, up to the saturation of the counter.\<close>

definition scope_count :: "(db_row \<Rightarrow> (shard_error, bool) result) \<Rightarrow> db_row list \<Rightarrow> nat" where
  "scope_count sc rows = length (filter (\<lambda>row. sc row = Inr True) rows)"

lemma add_stats_count:
  "add_stats sc J rows (n, c) = Inr (n', c') \<Longrightarrow> n \<le> u64_max \<Longrightarrow>
   n' = min (n + scope_count sc rows) u64_max \<and> (\<forall>row \<in> set rows. is_ok (sc row))"
proof (induction rows arbitrary: n c)
  case (Cons row rows)
  obtain h where h: "sc row = Inr h" using Cons.prems by (cases "sc row") auto
  show ?case
  proof (cases h)
    case True
    then obtain k where "add_stats sc J rows (saturating_add_u64 n 1, c XOR k) = Inr (n', c')"
      using Cons.prems h by (cases "row_checksum J row") auto
    from Cons.IH [OF this] show ?thesis using h True by (simp add: saturating_add_u64_def scope_count_def min_def)
  next
    case False
    then show ?thesis using Cons h by (simp add: scope_count_def)
  qed
qed (simp add: scope_count_def)

section \<open>Jobs\<close>

definition digit_byte :: "char \<Rightarrow> bool" where
  "digit_byte c \<longleftrightarrow> 48 \<le> (of_char c :: nat) \<and> (of_char c :: nat) \<le> 57"

lemma dec_nat_digits: "list_all digit_byte (dec_nat n)"
proof (induction n rule: dec_nat.induct)
  case (1 n)
  have "digit_byte (digit_char d)" if "d < 10" for d using that by (simp add: digit_byte_def digit_char_def)
  then show ?case using 1 by (subst dec_nat.simps) auto
qed

lemma digits_value_mono: "acc \<le> foldl (\<lambda>acc c. 10 * acc + ((of_char c :: nat) - 48)) acc s"
proof (induction s arbitrary: acc)
  case (Cons c s)
  have "acc \<le> 10 * acc + (of_char c - 48)" by simp
  then show ?case using Cons [of "10 * acc + (of_char c - 48)"] by simp
qed simp

lemma digits_u64_value:
  assumes "list_all digit_byte s" "foldl (\<lambda>acc c. 10 * acc + ((of_char c :: nat) - 48)) acc s \<le> u64_max"
  shows "digits_uint u64_max acc s = Inr (foldl (\<lambda>acc c. 10 * acc + (of_char c - 48)) acc s)"
  using assms
proof (induction s arbitrary: acc)
  case (Cons c s)
  have "10 * acc + ((of_char c :: nat) - 48) \<le> u64_max"
    using Cons.prems(2) digits_value_mono [of "10 * acc + (of_char c - 48)" s] by simp
  then show ?case using Cons by (simp add: digit_byte_def Let_def)
qed simp

lemma parse_u64_dec: "n \<le> u64_max \<Longrightarrow> parse_uint u64_max (dec_nat n) = Inr n"
proof -
  assume n: "n \<le> u64_max"
  have "digits_uint u64_max 0 (dec_nat n) = Inr n"
    using digits_u64_value [OF dec_nat_digits, of 0 n] n dec_nat_value [of n] by (simp add: digits_value_def)
  moreover obtain c cs where c: "dec_nat n = c # cs" by (cases "dec_nat n") auto
  moreover have "c \<noteq> CHR ''+''" using dec_nat_digits [of n] c by (auto simp: digit_byte_def)
  ultimately show ?thesis by (simp add: parse_uint_def)
qed

lemma phase_roundtrip: "mig_phase_parse (mig_phase_as_str p) = Inr p"
  by (cases p) (simp_all add: mig_phase_parse_def)

lemma job_of_image:
  assumes "job_image job row" "int (job_rows job) \<le> i64_max"
  shows "job_of_row row = Inr job"
proof -
  have u: "unat (job_checksum job) \<le> u64_max" using unsigned_less [of "job_checksum job", where 'a = nat] by (simp add: u64_max_def)
  have "as_i64 (json_int (int (job_rows job))) = Some (int (job_rows job))"
    using assms(2) by (intro as_i64_json_int) (simp add: is_i64_def i64_min_def)
  moreover have "Option.bind (row_get row ''cursor'') as_str = job_cursor job"
    using assms(1) by (simp add: job_image_def as_str_def split: option.split)
  ultimately show ?thesis using assms(1)
    by (simp add: job_of_row_def job_image_def mig_int_def mig_text_def as_str_def ok_or_def parse_u64_dec [OF u] phase_roundtrip)
qed

text \<open>The counters of the jobs fit their column.\<close>

definition jobs_fit :: "'w mig_view \<Rightarrow> 'w \<Rightarrow> bool" where
  "jobs_fit v w \<longleftrightarrow> (\<forall>i job. tv_jobs v w i = Some job \<longrightarrow> int (job_rows job) \<le> i64_max)"

lemma load_job_keeps: "read_laws v mg \<Longrightarrow> keeps (same_view v) (load_job mg i)"
  unfolding load_job_def by (intro sv.keeps_intros query_keeps) (auto split: list.split intro: sv.keeps_intros)

lemma load_job_found:
  assumes "read_laws v mg" "jobs_fit v w" "load_job mg i w = (Inr found, w')"
  shows "found = tv_jobs v w i"
proof -
  obtain rows w1 where q: "ex_query_with (mg_state mg) (load_sql (ex_dialect (mg_state mg))) [JString i] w = (Inr rows, w1)"
    and k: "(case rows of [] \<Rightarrow> act_ok None | row # _ \<Rightarrow> act_bind (act_lift (job_of_row row)) (\<lambda>job. act_ok (Some job))) w1 = (Inr found, w')"
    using assms(3) by (auto simp: load_job_def act_inv mig_dialect_def simp del: split_paired_Ex split: if_splits)
  have r: "(case rows of [] \<Rightarrow> found = None | row # _ \<Rightarrow> \<exists>job. job_of_row row = Inr job \<and> found = Some job)"
    using k by (cases rows) (auto simp: act_inv)
  show ?thesis
    using read_lawsD(4) [OF assms(1) q] r assms(2)
    by (auto simp: jobs_fit_def split: list.splits option.splits dest: job_of_image)
qed

lemma act_bind_now:
  "act_bind (now_rfc3339 mg) k w = (case en_now (mg_env mg) w of
     Inl e \<Rightarrow> (Inl (ShardDatabase (''failed to format migration timestamp: '' @ e)), w) | Inr now \<Rightarrow> k now w)"
  by (simp add: act_bind_def now_rfc3339_def split: sum.split)

lemma save_job_effect:
  assumes "job_laws v mg"
  shows "tv_rows v (snd (save_job mg mv job w)) = tv_rows v w"
    "tv_jobs v (snd (save_job mg mv job w)) = update_job (move_id mv) job (tv_jobs v w) \<and> int (job_rows job) \<le> i64_max \<or>
     \<not> is_ok (fst (save_job mg mv job w)) \<and> tv_jobs v (snd (save_job mg mv job w)) = tv_jobs v w"
proof -
  let ?sql = "save_sql (ex_dialect (mg_state mg))"
  have law: "job_write v (ex_execute_with (mg_state mg) ?sql (save_params job now (move_id mv))) (update_job (move_id mv) job)" for now
    using assms by (simp add: job_laws_def)
  have "act_post (save_job mg mv job) (\<lambda>r w'. tv_rows v w' = tv_rows v w \<and>
    (tv_jobs v w' = update_job (move_id mv) job (tv_jobs v w) \<and> int (job_rows job) \<le> i64_max \<or>
     \<not> is_ok r \<and> tv_jobs v w' = tv_jobs v w)) w"
  proof (cases "mig_dialect mg = Inl ShardUnsupportedDialect \<or> int (job_rows job) > i64_max \<or> \<not> is_ok (en_now (mg_env mg) w)")
    case True
    then show ?thesis
      by (cases "en_now (mg_env mg) w")
        (auto simp: save_job_def act_bind_now mig_dialect_def act_post_def)
  next
    case False
    then obtain now where now: "en_now (mg_env mg) w = Inr now" by (cases "en_now (mg_env mg) w") auto
    have "save_job mg mv job w = act_bind (act_map_err outbox_db_error
        (ex_execute_with (mg_state mg) ?sql (save_params job now (move_id mv)))) (\<lambda>_. act_ok ()) w"
      using False now by (simp add: save_job_def mig_dialect_def act_bind_now save_params_def split: if_splits)
    then show ?thesis
      using law [of now] False unfolding job_write_def act_post_def
      by (cases "ex_execute_with (mg_state mg) ?sql (save_params job now (move_id mv)) w")
        (auto simp: act_bind_def act_map_err_def map_err_def dest!: spec [of _ w] split: sum.splits)
  qed
  then show "tv_rows v (snd (save_job mg mv job w)) = tv_rows v w"
    "tv_jobs v (snd (save_job mg mv job w)) = update_job (move_id mv) job (tv_jobs v w) \<and> int (job_rows job) \<le> i64_max \<or>
     \<not> is_ok (fst (save_job mg mv job w)) \<and> tv_jobs v (snd (save_job mg mv job w)) = tv_jobs v w"
    by (simp_all add: act_post_def)
qed

section \<open>What verification compares\<close>

text \<open>Verification changes no rows, and jobs only to verified ones.\<close>

definition verifying :: "'w mig_view \<Rightarrow> 'w \<Rightarrow> 'w \<Rightarrow> bool" where
  "verifying v w w' \<longleftrightarrow> tv_rows v w' = tv_rows v w \<and> (jobs_fit v w \<longrightarrow> jobs_fit v w') \<and>
     (\<forall>i. tv_jobs v w' i = tv_jobs v w i \<or> (\<exists>job. tv_jobs v w' i = Some job \<and> job_phase job = PhVerified))"

interpretation vf: kept_relation "verifying v" for v
  by unfold_locales (auto simp: verifying_def, metis+)

lemma same_view_verifying: "keeps (same_view v) f \<Longrightarrow> keeps (verifying v) f"
  by (simp add: keeps_def same_view_def verifying_def jobs_fit_def)

lemma save_verified_keeps: "job_laws v mg \<Longrightarrow> keeps (verifying v) (save_job mg mv (job\<lparr>job_phase := PhVerified\<rparr>))"
  unfolding keeps_def
proof
  fix w
  assume laws: "job_laws v mg"
  show "verifying v w (snd (save_job mg mv (job\<lparr>job_phase := PhVerified\<rparr>) w))"
    using save_job_effect [OF laws, of mv "job\<lparr>job_phase := PhVerified\<rparr>" w]
    by (auto simp: verifying_def jobs_fit_def update_job_def split: if_splits)
qed

lemma mark_verified_keeps: "job_laws v mg \<Longrightarrow> keeps (verifying v) (mark_verified mg l)"
  by (induction mg l rule: mark_verified.induct) (auto intro!: vf.keeps_intros save_verified_keeps)

lemma scan_stats_keeps:
  "read_laws v mg \<Longrightarrow> mg_clients mg s = Some cl \<Longrightarrow> keeps (same_view v) (scan_stats mg cl t rng sc n cursor acc)"
  by (induction n arbitrary: cursor acc) (auto intro!: sv.keeps_intros scan_chunk_keeps)

lemma group_jobs_keeps: "read_laws v mg \<Longrightarrow> keeps (same_view v) (group_jobs mg mvs acc)"
  by (induction mg mvs acc rule: group_jobs.induct) (auto intro!: sv.keeps_intros load_job_keeps)

lemma source_stats_keeps: "read_laws v mg \<Longrightarrow> keeps (same_view v) (source_stats mg t mvs acc)"
proof (induction mvs arbitrary: acc)
  case (Cons mv mvs)
  then show ?case
    by (cases acc) (auto simp: scan_move_stats_def mig_client_def ok_or_Inr_iff split: prod.split
        intro!: sv.keeps_intros intro: scan_stats_keeps)
qed (simp add: sv.keeps_ok)

text \<open>The rows of a move's source that the verification of the move counts.\<close>

definition move_count :: "'w mig_view \<Rightarrow> 'w migrator \<Rightarrow> 'w \<Rightarrow> shard_table \<Rightarrow> shard_move \<Rightarrow> nat" where
  "move_count v mg w t mv =
     scope_count (routes_to mg mv) (filter (in_rng t (mv_range mv)) (tv_rows v w (mv_from mv) (tbl_name t)))"

lemma scanned_start: "scanned v s t rng None = in_rng t rng"
  by (rule ext) (simp add: scanned_def after_cursor_def)

lemma in_rng_None [simp]: "in_rng t None = (\<lambda>_. True)"
  by (rule ext) (simp add: in_rng_def)

lemma source_stats_count:
  assumes laws: "read_laws v mg" "order_laws v" "plan_table mg t" "mg_chunk_size mg > 0"
  shows "table_laws v mg w \<Longrightarrow> set mvs \<subseteq> set (plan_moves (mg_plan mg)) \<Longrightarrow>
    (\<forall>mv \<in> set mvs. readable v w (mv_from mv) t (mv_range mv)) \<Longrightarrow> n \<le> u64_max \<Longrightarrow>
    source_stats mg t mvs (n, c) w = (Inr (n', c'), w') \<Longrightarrow>
    n' = min (n + (\<Sum>mv\<leftarrow>mvs. move_count v mg w t mv)) u64_max"
proof (induction mvs arbitrary: n c w)
  case (Cons mv mvs)
  obtain cl rows h w1 where cl: "mg_clients mg (mv_from mv) = Some cl"
    and s: "scan_move_stats mg cl t mv w = (Inr (rows, h), w1)"
    and r: "source_stats mg t mvs (saturating_add_u64 n rows, c XOR h) w1 = (Inr (n', c'), w')"
    using Cons.prems(5) by (auto simp: act_inv mig_client_def ok_or_Inr_iff)
  have rng: "mv_range mv \<in> plan_rngs mg" using Cons.prems(2) by (simp add: plan_rngs_def)
  have v1: "same_view v w w1" by (rule keepsD [OF scan_stats_keeps [OF laws(1) cl] s [unfolded scan_move_stats_def]])
  have "add_stats (routes_to mg mv) (en_text (mg_env mg)) (filter (in_rng t (mv_range mv)) (tv_rows v w (mv_from mv) (tbl_name t))) (0, 0) = Inr (rows, h)"
    using scan_stats_rows [OF laws(1,2) cl laws(3) rng laws(4) Cons.prems(1) _ s [unfolded scan_move_stats_def]] Cons.prems(3)
    by (simp add: scanned_start)
  from add_stats_count [OF this] have rows: "rows = min (move_count v mg w t mv) u64_max"
    by (simp add: move_count_def)
  have "table_laws v mg w1" "\<forall>mv \<in> set mvs. readable v w1 (mv_from mv) t (mv_range mv)"
    using Cons.prems(1,3) v1 by (simp_all add: table_laws_def readable_def same_view_def)
  then have "n' = min (saturating_add_u64 n rows + (\<Sum>mv\<leftarrow>mvs. move_count v mg w1 t mv)) u64_max"
    using Cons.prems(2) by (intro Cons.IH [OF _ _ _ _ r]) (simp_all add: saturating_add_u64_def)
  moreover have "move_count v mg w1 t = move_count v mg w t" using v1 by (rule_tac ext) (simp add: move_count_def same_view_def)
  ultimately show ?case by (simp add: rows saturating_add_u64_def min_def split: if_splits)
qed simp

lemma target_stats_count:
  assumes laws: "read_laws v mg" "order_laws v" "plan_table mg t" "mg_chunk_size mg > 0" "table_laws v mg w"
    and "mg_clients mg s = Some cl" "scan_target_stats mg cl t mvs w = (Inr (n, c), w')"
  shows "n = min (scope_count (row_in_any_scope mg t mvs) (tv_rows v w s (tbl_name t))) u64_max"
proof -
  have "add_stats (row_in_any_scope mg t mvs) (en_text (mg_env mg)) (tv_rows v w s (tbl_name t)) (0, 0) = Inr (n, c)"
    using scan_stats_rows [OF laws(1,2) assms(6) laws(3) _ laws(4,5) _ assms(7) [unfolded scan_target_stats_def]]
    by (simp add: scanned_start plan_rngs_def readable_def)
  from add_stats_count [OF this] show ?thesis by simp
qed

lemma group_jobs_settled:
  assumes "read_laws v mg"
  shows "jobs_fit v w \<Longrightarrow> group_jobs mg mvs (jobs, n, c, st) w = (Inr (jobs', n', c', True), w') \<Longrightarrow>
    st \<and> (\<forall>mv \<in> set mvs. \<exists>job. tv_jobs v w (move_id mv) = Some job \<and> (job_phase job = PhDone \<or> job_phase job = PhRolledBack))"
proof (induction mvs arbitrary: jobs n c st w)
  case (Cons mv mvs)
  obtain job w1 where l: "load_job mg (move_id mv) w = (Inr (Some job), w1)"
    and r: "group_jobs mg mvs (jobs @ [job], saturating_add_u64 n (job_rows job), c XOR job_checksum job,
       st \<and> (job_phase job = PhDone \<or> job_phase job = PhRolledBack)) w1 = (Inr (jobs', n', c', True), w')"
    using Cons.prems(2) by (auto simp: act_inv ok_or_Inr_iff)
  have v1: "same_view v w w1" by (rule keepsD [OF load_job_keeps [OF assms] l])
  have "jobs_fit v w1" using v1 Cons.prems(1) by (simp add: jobs_fit_def same_view_def)
  from Cons.IH [OF this r] load_job_found [OF assms Cons.prems(1) l, symmetric] show ?case using v1 by (auto simp: same_view_def)
qed simp

text \<open>A group of the plan that verification accepts and whose jobs are not all settled has equal counts.\<close>

lemma verify_group_counts:
  assumes laws: "read_laws v mg" "order_laws v" "mg_chunk_size mg > 0" "table_laws v mg w" "jobs_fit v w"
    and g: "verify_group mg ((tn, s), mvs) w = (Inr (), w')" "set mvs \<subseteq> set (plan_moves (mg_plan mg))"
    and t: "plan_table mg t" "tbl_name t = tn"
    and mv: "mv \<in> set mvs" "\<And>job. tv_jobs v w (move_id mv) = Some job \<Longrightarrow> job_phase job \<noteq> PhDone \<and> job_phase job \<noteq> PhRolledBack"
    and rd: "\<forall>mv \<in> set mvs. readable v w (mv_from mv) t (mv_range mv)"
  shows "min (\<Sum>mv\<leftarrow>mvs. move_count v mg w t mv) u64_max =
    min (scope_count (row_in_any_scope mg t mvs) (tv_rows v w s (tbl_name t))) u64_max"
proof -
  have tt: "catalog_table (mg_new mg) tn = Inr t" using t by (simp add: plan_table_def)
  obtain jobs n c st w1 where j: "group_jobs mg mvs ([], 0, 0, True) w = (Inr (jobs, n, c, st), w1)"
    and r: "(if st then act_ok () else act_bind (source_stats mg t mvs (0, 0)) (\<lambda>src.
        act_bind (act_lift (mig_client mg s)) (\<lambda>target.
        act_bind (scan_target_stats mg target t mvs) (\<lambda>tgt.
        if src \<noteq> (n, c) then
          act_err (ShardConfig (''backfill incomplete for table `'' @ tn @ ''` target `'' @ s @ ''`: ''
            @ stats_text ''source'' src @ '', '' @ stats_text ''job'' (n, c)))
        else if src \<noteq> tgt then
          act_err (ShardConfig (''verify mismatch for table `'' @ tn @ ''` target `'' @ s @ ''`: ''
            @ stats_text ''source'' src @ '', '' @ stats_text ''target'' tgt))
        else mark_verified mg (zip mvs jobs))))) w1 = (Inr (), w')"
    using g(1) tt unfolding verify_group_def Let_def fst_conv snd_conv
    by (simp only: act_inv act_bind_lift) (auto simp: act_inv)
  have "st = False" using group_jobs_settled [OF laws(1,5)] j mv by (cases st) fastforce+
  then obtain src w2 cl tgt w3 where s2: "source_stats mg t mvs (0, 0) w1 = (Inr src, w2)" "mg_clients mg s = Some cl"
    "scan_target_stats mg cl t mvs w2 = (Inr tgt, w3)" "src = tgt"
    using r by (auto simp: act_inv mig_client_def ok_or_Inr_iff split: if_splits)
  have v1: "same_view v w w1" by (rule keepsD [OF group_jobs_keeps [OF laws(1)] j])
  have v2: "same_view v w w2" by (rule sv.kept_trans [OF v1 keepsD [OF source_stats_keeps [OF laws(1)] s2(1)]])
  have tl: "table_laws v mg w1" "table_laws v mg w2" "\<forall>mv \<in> set mvs. readable v w1 (mv_from mv) t (mv_range mv)"
    using laws(4) rd v1 v2 by (simp_all add: table_laws_def readable_def same_view_def)
  have "fst src = min (\<Sum>mv\<leftarrow>mvs. move_count v mg w1 t mv) u64_max"
    using source_stats_count [OF laws(1,2) t(1) laws(3) tl(1) g(2) tl(3), of 0 0 "fst src" "snd src" w2] s2(1) by simp
  moreover have "fst tgt = min (scope_count (row_in_any_scope mg t mvs) (tv_rows v w2 s (tbl_name t))) u64_max"
    using target_stats_count [OF laws(1,2) t(1) laws(3) tl(2) s2(2), of mvs "fst tgt" "snd tgt" w3] s2(3) by simp
  moreover have "move_count v mg w1 t = move_count v mg w t" using v1 by (rule_tac ext) (simp add: move_count_def same_view_def)
  ultimately show ?thesis using s2(4) v2 by (simp add: same_view_def)
qed

lemma verify_group_keeps:
  assumes "read_laws v mg" "job_laws v mg"
  shows "keeps (verifying v) (verify_group mg g)"
  unfolding verify_group_def Let_def scan_target_stats_def
  by (intro vf.keeps_intros)
    (auto simp: mig_client_def ok_or_Inr_iff split: prod.split
      intro!: vf.keeps_intros same_view_verifying [OF group_jobs_keeps [OF assms(1)]]
        same_view_verifying [OF source_stats_keeps [OF assms(1)]] mark_verified_keeps [OF assms(2)]
      intro: same_view_verifying [OF scan_stats_keeps [OF assms(1)]])

lemma verify_groups_run:
  assumes "read_laws v mg" "job_laws v mg"
  shows "verify_groups mg gs w = (Inr (), w') \<Longrightarrow> g \<in> set gs \<Longrightarrow>
    \<exists>w1 w2. verifying v w w1 \<and> verify_group mg g w1 = (Inr (), w2)"
proof (induction gs arbitrary: w)
  case (Cons g' gs)
  obtain w1 where w1: "verify_group mg g' w = (Inr (), w1)" "verify_groups mg gs w1 = (Inr (), w')"
    using Cons.prems(1) by (auto simp: act_inv)
  show ?case
  proof (cases "g = g'")
    case True
    then show ?thesis using w1(1) vf.kept_refl [of v w] by auto
  next
    case False
    then obtain w2 w3 where "verifying v w1 w2" "verify_group mg g w2 = (Inr (), w3)"
      using Cons.IH [OF w1(2)] Cons.prems(2) by auto
    then show ?thesis using vf.kept_trans [OF keepsD [OF verify_group_keeps [OF assms] w1(1)]] by blast
  qed
qed simp

lemma source_columns_keeps:
  "read_laws v mg \<Longrightarrow> mg_clients mg s = Some cl \<Longrightarrow> keeps (same_view v) (source_columns cl table)"
  unfolding source_columns_def
  by (intro sv.keeps_intros) (auto split: prod.split intro!: sv.keeps_intros intro: query_keeps)

lemma preflight_keeps: "read_laws v mg \<Longrightarrow> keeps (same_view v) (preflight_schema mg)"
proof -
  assume laws: "read_laws v mg"
  have "keeps (same_view v) (preflight_moves mg seen mvs)" for seen mvs
    using laws
    by (induction mg seen mvs rule: preflight_moves.induct)
      (auto simp: mig_client_def ok_or_Inr_iff intro!: sv.keeps_intros intro: source_columns_keeps)
  then show ?thesis by (simp add: preflight_schema_def)
qed

lemma scope_count_pos: "row \<in> set rows \<Longrightarrow> sc row = Inr True \<Longrightarrow> scope_count sc rows > 0"
  by (auto simp: scope_count_def filter_empty_conv)

lemma scope_count_le: "scope_count sc rows \<le> length rows"
  by (simp add: scope_count_def)

text \<open>Full copies of one group have the same scope.\<close>

lemma routes_to_same:
  "mv_range a = None \<Longrightarrow> mv_range b = None \<Longrightarrow> mv_table a = mv_table b \<Longrightarrow> mv_to a = mv_to b \<Longrightarrow> routes_to mg a = routes_to mg b"
  by (rule ext) (simp add: routes_to_def cong: if_cong)

lemma any_scope_full_copies:
  assumes "\<forall>mv \<in> set mvs. mv_range mv = None \<and> routes_to mg mv = rt" "mvs \<noteq> []"
  shows "row_in_any_scope mg t mvs row = Inr True \<longleftrightarrow> rt row = Inr True"
  using assms
proof (induction mvs)
  case (Cons mv mvs)
  then show ?case by (cases "rt row"; cases "mvs = []") auto
qed simp

lemma two_counts:
  "a \<in> set xs \<Longrightarrow> b \<in> set xs \<Longrightarrow> a \<noteq> b \<Longrightarrow> (f a :: nat) + f b \<le> (\<Sum>x\<leftarrow>xs. f x)"
  by (induction xs) (auto simp: trans_le_add2 member_le_sum_list intro: le_add2 [THEN order_trans])

lemma sum_list_filter_le: "(\<Sum>x\<leftarrow>filter P xs. (f x :: nat)) \<le> (\<Sum>x\<leftarrow>xs. f x)"
  by (induction xs) auto

section \<open>What an accepted verification means\<close>

definition group_of :: "'w migrator \<Rightarrow> shard_move \<Rightarrow> shard_move list" where
  "group_of mg mv = filter (\<lambda>m. (mv_table m, mv_to m) = (mv_table mv, mv_to mv)) (plan_moves (mg_plan mg))"

definition job_open :: "'w mig_view \<Rightarrow> 'w \<Rightarrow> shard_move \<Rightarrow> bool" where
  "job_open v w mv \<longleftrightarrow> (\<forall>job. tv_jobs v w (move_id mv) = Some job \<longrightarrow> job_phase job \<noteq> PhDone \<and> job_phase job \<noteq> PhRolledBack)"

definition verify_laws :: "'w mig_view \<Rightarrow> 'w migrator \<Rightarrow> 'w \<Rightarrow> bool" where
  "verify_laws v mg w \<longleftrightarrow> read_laws v mg \<and> job_laws v mg \<and> order_laws v \<and> table_laws v mg w \<and> jobs_fit v w \<and> mg_chunk_size mg > 0"

lemma verify_counts:
  assumes laws: "verify_laws v mg w" and ok: "verify mg w = (Inr (), w')"
    and mv: "mv \<in> set (plan_moves (mg_plan mg))" "plan_table mg t" "tbl_name t = mv_table mv" "job_open v w mv"
    and rd: "\<forall>m \<in> set (group_of mg mv). readable v w (mv_from m) t (mv_range m)"
  shows "min (\<Sum>m\<leftarrow>group_of mg mv. move_count v mg w t m) u64_max =
    min (scope_count (row_in_any_scope mg t (group_of mg mv)) (tv_rows v w (mv_to mv) (tbl_name t))) u64_max"
proof -
  note l = laws [unfolded verify_laws_def, THEN conjunct1] laws [unfolded verify_laws_def, THEN conjunct2, THEN conjunct1]
  have l': "order_laws v" "table_laws v mg w" "jobs_fit v w" "mg_chunk_size mg > 0" using laws by (simp_all add: verify_laws_def)
  let ?g = "((mv_table mv, mv_to mv), group_of mg mv)"
  obtain w0 where w0: "preflight_schema mg w = (Inr (), w0)" "verify_groups mg (mig_groups (plan_moves (mg_plan mg))) w0 = (Inr (), w')"
    using ok by (auto simp: verify_def act_inv)
  have g: "?g \<in> set (mig_groups (plan_moves (mg_plan mg)))"
    unfolding mig_groups_def group_of_def set_map set_sort set_remdups by (rule image_eqI [OF refl]) (use mv(1) in force)
  have "same_view v w w0" by (rule keepsD [OF preflight_keeps [OF l(1)] w0(1)])
  then have v0: "verifying v w w0" by (simp add: same_view_def verifying_def jobs_fit_def)
  obtain w1 w2 where g1: "verifying v w0 w1" and g2: "verify_group mg ?g w1 = (Inr (), w2)"
    using verify_groups_run [OF l w0(2) g] by (elim exE conjE)
  note v1 = vf.kept_trans [OF v0 g1]
  have rows: "tv_rows v w1 = tv_rows v w" "jobs_fit v w1" using v1 l'(3) by (simp_all add: verifying_def)
  then have tl: "table_laws v mg w1" using l'(2) by (simp add: table_laws_def)
  have oj: "job_phase job \<noteq> PhDone \<and> job_phase job \<noteq> PhRolledBack" if "tv_jobs v w1 (move_id mv) = Some job" for job
  proof -
    have "tv_jobs v w1 (move_id mv) = tv_jobs v w (move_id mv) \<or> job_phase job = PhVerified"
      using v1 that by (auto simp: verifying_def dest: spec [of _ "move_id mv"])
    then show ?thesis using mv(4) that by (auto simp: job_open_def)
  qed
  have "min (\<Sum>m\<leftarrow>group_of mg mv. move_count v mg w1 t m) u64_max =
    min (scope_count (row_in_any_scope mg t (group_of mg mv)) (tv_rows v w1 (mv_to mv) (tbl_name t))) u64_max"
    by (rule verify_group_counts [OF l(1) l'(1,4) tl rows(2) g2 _ mv(2,3) _ oj])
      (use mv(1) rd rows(1) in \<open>auto simp: readable_def group_of_def\<close>)
  moreover have "move_count v mg w1 t = move_count v mg w t" by (rule ext) (simp add: move_count_def rows(1))
  ultimately show ?thesis by (simp add: rows(1))
qed

end
