(* ===== verification/MigrationRun.thy ===== *)
theory MigrationRun
  imports MigrationProofs "HOL-Library.Multiset"
begin

text \<open>
  An undisturbed migration: when the statements succeed and nobody else writes, the backfill copies
  every row of the plan, verification accepts and the cutover switches the router. The conditions
  of \<open>copy_ready\<close> on the rows are what the plan of a range table and a move to new shards have;
  a plan of full copies that keeps a shard fails them, as \<open>kept_shard_never_verifies\<close> shows it must.
\<close>

section \<open>Conditions\<close>

text \<open>What \<^verbatim>\<open>ShardMigrator::new\<close> checks.\<close>

definition migrator_ok :: "'w migrator \<Rightarrow> bool" where
  "migrator_ok mg \<longleftrightarrow> validate (mg_old mg) = Ok () \<and> validate (mg_new mg) = Ok () \<and>
     for_each (check_move (mg_old mg) (mg_new mg) (mg_clients mg)) (plan_moves (mg_plan mg)) = Ok () \<and> mg_chunk_size mg > 0"

lemma migrator_new_ok: "migrator_new env plan clients st old new = Inr mg \<Longrightarrow> migrator_ok mg"
  by (auto simp: migrator_new_def migrator_ok_def try_bind_Inr_iff DEFAULT_CHUNK_SIZE_def)

lemma migrator_options_ok:
  "migrator_ok mg \<Longrightarrow> migrator_ok (with_chunk_size mg n)" "migrator_ok mg \<Longrightarrow> migrator_ok (with_fence mg f)"
  by (simp_all add: migrator_ok_def with_chunk_size_def with_fence_def)

definition move_table :: "'w migrator \<Rightarrow> shard_move \<Rightarrow> shard_table" where
  "move_table mg mv = projr (catalog_table (mg_new mg) (mv_table mv))"

lemma move_table_ok:
  assumes "migrator_ok mg" "mv \<in> set (plan_moves (mg_plan mg))"
  shows "catalog_table (mg_new mg) (mv_table mv) = Inr (move_table mg mv)" "tbl_name (move_table mg mv) = mv_table mv"
    "plan_table mg (move_table mg mv)" "\<exists>cl. mg_clients mg (mv_from mv) = Some cl" "\<exists>cl. mg_clients mg (mv_to mv) = Some cl"
proof -
  have c: "check_move (mg_old mg) (mg_new mg) (mg_clients mg) mv = Inr ()"
    using assms by (simp add: migrator_ok_def for_each_Inr_iff)
  then obtain t where t: "catalog_table (mg_new mg) (mv_table mv) = Inr t"
    by (auto simp: check_move_def try_bind_Inr_iff)
  have "distinct (map tbl_name (cat_tables (mg_new mg)))" using assms(1) by (simp add: migrator_ok_def validate_Ok)
  then have "tbl_name t = mv_table mv" using t by (simp add: catalog_table_Ok)
  then show "catalog_table (mg_new mg) (mv_table mv) = Inr (move_table mg mv)" "tbl_name (move_table mg mv) = mv_table mv"
    "plan_table mg (move_table mg mv)" using t by (simp_all add: move_table_def plan_table_def)
  show "\<exists>cl. mg_clients mg (mv_from mv) = Some cl" "\<exists>cl. mg_clients mg (mv_to mv) = Some cl"
    using c by (auto simp: check_move_def try_bind_Inr_iff split: if_splits)
qed

text \<open>The statements succeed; \<open>cols\<close> are the columns of a table, the same in every shard.\<close>

definition upserted :: "shard_table \<Rightarrow> db_row \<Rightarrow> db_row list \<Rightarrow> db_row list \<Rightarrow> bool" where
  "upserted t row rows rows' \<longleftrightarrow>
     set rows' = {x \<in> set rows. row_get x (tbl_pk t) \<noteq> row_get row (tbl_pk t)} \<union> {row}"

definition state_live :: "'w mig_view \<Rightarrow> 'w migrator \<Rightarrow> bool" where
  "state_live v mg \<longleftrightarrow> ex_dialect (mg_state mg) \<noteq> Mssql \<and>
     (\<forall>w. is_ok (en_now (mg_env mg) w)) \<and> (\<forall>x. is_ok (en_to_string (mg_env mg) x)) \<and>
     (\<forall>w. is_ok (fst (ex_execute (mg_state mg) (job_table_sql (ex_dialect (mg_state mg))) w)) \<and>
        same_view v w (snd (ex_execute (mg_state mg) (job_table_sql (ex_dialect (mg_state mg))) w))) \<and>
     (\<forall>i w. is_ok (fst (ex_query_with (mg_state mg) (load_sql (ex_dialect (mg_state mg))) [JString i] w))) \<and>
     (\<forall>mv now w. is_ok (fst (ex_execute_with (mg_state mg) (insert_job_sql (ex_dialect (mg_state mg))) (job_params mv now) w))) \<and>
     (\<forall>job now i w. int (job_rows job) \<le> i64_max \<longrightarrow>
        is_ok (fst (ex_execute_with (mg_state mg) (save_sql (ex_dialect (mg_state mg))) (save_params job now i) w)))"

definition upsert_law :: "'w mig_view \<Rightarrow> 'w migrator \<Rightarrow> string \<Rightarrow> 'w sql_executor \<Rightarrow> shard_table \<Rightarrow> db_row \<Rightarrow> 'w \<Rightarrow> bool" where
  "upsert_law v mg s cl t row w \<longleftrightarrow>
     (case ex_execute_with cl (upsert_sql (ex_dialect cl) (tbl_name t) (tbl_pk t) (row_columns row)) (row_values row) w of (r, w') \<Rightarrow>
        is_ok r \<and> tv_jobs v w' = tv_jobs v w \<and> table_laws v mg w' \<and>
        upserted t row (tv_rows v w s (tbl_name t)) (tv_rows v w' s (tbl_name t)) \<and>
        (\<forall>s' n. (s', n) \<noteq> (s, tbl_name t) \<longrightarrow> tv_rows v w' s' n = tv_rows v w s' n))"

definition clients_live :: "'w mig_view \<Rightarrow> (string \<Rightarrow> string list) \<Rightarrow> 'w migrator \<Rightarrow> bool" where
  "clients_live v cols mg \<longleftrightarrow> (\<forall>s cl. mg_clients mg s = Some cl \<longrightarrow> ex_dialect cl \<noteq> Mssql \<and>
     (\<forall>t. plan_table mg t \<longrightarrow>
        (\<forall>rng cursor w. rng \<in> plan_rngs mg \<longrightarrow>
           is_ok (fst (ex_query_with cl (scan_sql (ex_dialect cl) t rng cursor (mg_chunk_size mg)) (scan_params t rng cursor) w))) \<and>
        (\<forall>row w. row_columns row = cols (tbl_name t) \<longrightarrow> has_key v t row \<longrightarrow> table_laws v mg w \<longrightarrow>
           upsert_law v mg s cl t row w)))"

definition fence_live :: "'w mig_view \<Rightarrow> 'w migrator \<Rightarrow> bool" where
  "fence_live v mg \<longleftrightarrow> (\<forall>f w. mg_fence mg = Some f \<longrightarrow>
     (\<exists>tok w'. mf_acquire f (mf_key f) (mf_ttl f) w = (Ok (Some tok), w') \<and> same_view v w w') \<and>
     (\<forall>tok. \<exists>w'. mf_renew f (mf_key f) tok (mf_ttl f) w = (Ok (), w') \<and> same_view v w w') \<and>
     (\<forall>tok. \<exists>w'. mf_release f (mf_key f) tok w = (Ok (), w') \<and> same_view v w w'))"

definition no_binary_columns :: "'w migrator \<Rightarrow> bool" where
  "no_binary_columns mg \<longleftrightarrow> (\<forall>mv cl. mv \<in> set (plan_moves (mg_plan mg)) \<longrightarrow> mg_clients mg (mv_from mv) = Some cl \<longrightarrow>
     (\<exists>cs. list_all (\<lambda>(_, ty). \<not> is_binary_type (ex_dialect cl) ty) cs \<and>
        (\<forall>w. fst (source_columns cl (mv_table mv) w) = Ok cs)))"

definition live_laws :: "'w mig_view \<Rightarrow> (string \<Rightarrow> string list) \<Rightarrow> 'w migrator \<Rightarrow> bool" where
  "live_laws v cols mg \<longleftrightarrow> state_live v mg \<and> clients_live v cols mg \<and> fence_live v mg \<and> no_binary_columns mg"

text \<open>The rows a move is to copy.\<close>

definition in_scope :: "'w migrator \<Rightarrow> shard_move \<Rightarrow> db_row \<Rightarrow> bool" where
  "in_scope mg mv row \<longleftrightarrow> in_rng (move_table mg mv) (mv_range mv) row \<and> routes_to mg mv row = Ok True"

definition scope_rows :: "'w mig_view \<Rightarrow> 'w migrator \<Rightarrow> 'w \<Rightarrow> shard_move \<Rightarrow> db_row list" where
  "scope_rows v mg w mv = filter (in_scope mg mv) (tv_rows v w (mv_from mv) (mv_table mv))"

definition same_group :: "shard_move \<Rightarrow> shard_move \<Rightarrow> bool" where
  "same_group a b \<longleftrightarrow> mv_table a = mv_table b \<and> mv_to a = mv_to b"

text \<open>The rows of the tables of the plan have their columns and keys.\<close>

definition rows_good :: "'w mig_view \<Rightarrow> (string \<Rightarrow> string list) \<Rightarrow> 'w migrator \<Rightarrow> 'w \<Rightarrow> bool" where
  "rows_good v cols mg w \<longleftrightarrow> (\<forall>mv \<in> set (plan_moves (mg_plan mg)). cols (mv_table mv) \<noteq> [] \<and>
     (\<forall>s. \<forall>row \<in> set (tv_rows v w s (mv_table mv)). row_columns row = cols (mv_table mv) \<and> is_ok (routes_to mg mv row) \<and>
        (mv_range mv \<noteq> None \<longrightarrow> int_key (move_table mg mv) row)))"

text \<open>
  The start of a migration: no jobs; a row to be copied meets no other row with its primary key in
  its target or among the rows of another move to it, and is not in the scope of another move that
  reads its target; what the target holds in the scope of its moves is what they copy.
\<close>

definition move_pk :: "'w migrator \<Rightarrow> shard_move \<Rightarrow> db_row \<Rightarrow> json_value option" where
  "move_pk mg mv row = row_get row (tbl_pk (move_table mg mv))"

definition no_clash :: "'w mig_view \<Rightarrow> 'w migrator \<Rightarrow> 'w \<Rightarrow> bool" where
  "no_clash v mg w \<longleftrightarrow> (\<forall>m \<in> set (plan_moves (mg_plan mg)). \<forall>r \<in> set (scope_rows v mg w m).
     \<forall>x \<in> set (tv_rows v w (mv_to m) (mv_table m)). move_pk mg m x = move_pk mg m r \<longrightarrow> x = r)"

definition moves_disjoint :: "'w mig_view \<Rightarrow> 'w migrator \<Rightarrow> 'w \<Rightarrow> bool" where
  "moves_disjoint v mg w \<longleftrightarrow> (\<forall>m \<in> set (plan_moves (mg_plan mg)). \<forall>m' \<in> set (plan_moves (mg_plan mg)).
     m' \<noteq> m \<longrightarrow> same_group m m' \<longrightarrow>
     (\<forall>r \<in> set (scope_rows v mg w m). \<forall>x \<in> set (scope_rows v mg w m'). move_pk mg m x \<noteq> move_pk mg m r))"

definition not_reread :: "'w mig_view \<Rightarrow> 'w migrator \<Rightarrow> 'w \<Rightarrow> bool" where
  "not_reread v mg w \<longleftrightarrow> (\<forall>m \<in> set (plan_moves (mg_plan mg)). \<forall>m' \<in> set (plan_moves (mg_plan mg)).
     m' \<noteq> m \<longrightarrow> mv_table m' = mv_table m \<longrightarrow> mv_from m' = mv_to m \<longrightarrow>
     (\<forall>r \<in> set (scope_rows v mg w m). \<not> in_scope mg m' r))"

definition targets_covered :: "'w mig_view \<Rightarrow> 'w migrator \<Rightarrow> 'w \<Rightarrow> bool" where
  "targets_covered v mg w \<longleftrightarrow> (\<forall>m \<in> set (plan_moves (mg_plan mg)).
     \<forall>x \<in> set (tv_rows v w (mv_to m) (mv_table m)). in_scope mg m x \<longrightarrow>
       (\<exists>m' \<in> set (plan_moves (mg_plan mg)). same_group m m' \<and> x \<in> set (scope_rows v mg w m')))"

definition plan_rows :: "'w mig_view \<Rightarrow> 'w migrator \<Rightarrow> 'w \<Rightarrow> nat" where
  "plan_rows v mg w = (\<Sum>mv\<leftarrow>plan_moves (mg_plan mg). length (scope_rows v mg w mv))"

definition copy_ready :: "'w mig_view \<Rightarrow> (string \<Rightarrow> string list) \<Rightarrow> 'w migrator \<Rightarrow> 'w \<Rightarrow> bool" where
  "copy_ready v cols mg w \<longleftrightarrow>
     distinct (map move_id (plan_moves (mg_plan mg))) \<and>
     (\<forall>mv \<in> set (plan_moves (mg_plan mg)). tv_jobs v w (move_id mv) = None) \<and> jobs_fit v w \<and>
     table_laws v mg w \<and> rows_good v cols mg w \<and>
     no_clash v mg w \<and> moves_disjoint v mg w \<and> not_reread v mg w \<and> targets_covered v mg w \<and>
     int (plan_rows v mg w) \<le> i64_max \<and>
     (\<forall>s n. length (tv_rows v w s n) + plan_rows v mg w < en_rounds (mg_env mg))"

definition quiet :: "'w mig_view \<Rightarrow> (string \<Rightarrow> string list) \<Rightarrow> 'w migrator \<Rightarrow> bool" where
  "quiet v cols mg \<longleftrightarrow> read_laws v mg \<and> job_laws v mg \<and> order_laws v \<and> live_laws v cols mg \<and> migrator_ok mg"

lemma quietD:
  assumes "quiet v cols mg"
  shows "read_laws v mg" "job_laws v mg" "order_laws v" "state_live v mg" "migrator_ok mg" "mg_chunk_size mg > 0"
    "clients_live v cols mg" "fence_live v mg" "no_binary_columns mg"
  using assms by (simp_all add: quiet_def migrator_ok_def live_laws_def)

lemma is_ok_Inr: "is_ok r \<Longrightarrow> \<exists>x. r = Inr x"
  by (cases r) (simp_all add: is_ok_def)

lemma is_ok_pair: "is_ok (fst p) \<Longrightarrow> \<exists>x w'. p = (Inr x, w')"
  using is_ok_Inr by (cases p) auto

lemma state_liveD:
  assumes "state_live v mg"
  shows "mig_dialect mg = Inr (ex_dialect (mg_state mg))"
    "\<exists>now. en_now (mg_env mg) w = Inr now" "\<exists>txt. en_to_string (mg_env mg) x = Inr txt"
    "\<exists>x w'. ex_query_with (mg_state mg) (load_sql (ex_dialect (mg_state mg))) [JString i] w = (Inr x, w')"
    "\<exists>x w'. ex_execute_with (mg_state mg) (insert_job_sql (ex_dialect (mg_state mg))) (job_params mv n) w = (Inr x, w')"
    "int (job_rows job) \<le> i64_max \<Longrightarrow>
       \<exists>x w'. ex_execute_with (mg_state mg) (save_sql (ex_dialect (mg_state mg))) (save_params job n i) w = (Inr x, w')"
  using assms by (simp_all add: state_live_def mig_dialect_def is_ok_Inr is_ok_pair)

lemma clients_liveD:
  assumes "clients_live v cols mg" "mg_clients mg s = Some cl"
  shows "ex_dialect cl \<noteq> Mssql"
    "plan_table mg t \<Longrightarrow> rng \<in> plan_rngs mg \<Longrightarrow>
       \<exists>x w'. ex_query_with cl (scan_sql (ex_dialect cl) t rng cursor (mg_chunk_size mg)) (scan_params t rng cursor) w = (Inr x, w')"
    "plan_table mg t \<Longrightarrow> row_columns row = cols (tbl_name t) \<Longrightarrow> has_key v t row \<Longrightarrow> table_laws v mg w \<Longrightarrow>
       upsert_law v mg s cl t row w"
  using assms by (simp_all add: clients_live_def is_ok_pair)

section \<open>Runs of the calls\<close>

lemma runs_lift [simp]: "runs (act_lift c) w Q \<longleftrightarrow> (\<exists>x. c = Inr x \<and> Q x w)"
  by (auto simp: runs_def)

lemma runs_lift_bind: "c = Inr x \<Longrightarrow> runs (k x) w Q \<Longrightarrow> runs (act_bind (act_lift c) k) w Q"
  by simp

lemma runs_load:
  assumes "quiet v cols mg" "jobs_fit v w"
  shows "runs (load_job mg i) w (\<lambda>found w'. found = tv_jobs v w i \<and> same_view v w w')"
proof -
  note q = quietD [OF assms(1)]
  have d: "mig_dialect mg = Inr (ex_dialect (mg_state mg))" by (rule state_liveD(1) [OF q(4)])
  obtain rows w' where r: "ex_query_with (mg_state mg) (load_sql (ex_dialect (mg_state mg))) [JString i] w = (Inr rows, w')"
    using state_liveD(4) [OF q(4)] by blast
  have "\<exists>found. load_job mg i w = (Inr found, w')"
    using read_lawsD(4) [OF q(1) r] r d assms(2) job_of_image
    by (cases "tv_jobs v w i"; cases rows) (auto simp: load_job_def act_bind_def act_map_err_def jobs_fit_def)
  then show ?thesis using load_job_found [OF q(1) assms(2)] keepsD [OF load_job_keeps [OF q(1)]] by (auto simp: runs_def)
qed

lemma runs_save:
  assumes "quiet v cols mg" "int (job_rows job) \<le> i64_max"
  shows "runs (save_job mg mv job) w (\<lambda>_ w'. tv_rows v w' = tv_rows v w \<and> tv_jobs v w' = update_job (move_id mv) job (tv_jobs v w))"
proof -
  note q = quietD [OF assms(1)]
  obtain now where now: "en_now (mg_env mg) w = Inr now" using state_liveD(2) [OF q(4)] by blast
  have s: "save_job mg mv job w = act_bind (act_map_err outbox_db_error (ex_execute_with (mg_state mg)
      (save_sql (ex_dialect (mg_state mg))) (save_params job now (move_id mv)))) (\<lambda>_. act_ok ()) w"
    using now assms(2) state_liveD(1) [OF q(4)] by (simp add: save_job_def act_bind_now save_params_def)
  obtain x w' where x: "ex_execute_with (mg_state mg) (save_sql (ex_dialect (mg_state mg))) (save_params job now (move_id mv)) w = (Inr x, w')"
    using state_liveD(6) [OF q(4) assms(2)] by blast
  then have "save_job mg mv job w = (Inr (), w')" unfolding s by (simp add: act_bind_def act_map_err_def)
  then show ?thesis using save_job_effect [OF q(2), of mv job w] by (auto simp: runs_def)
qed

lemma runs_ensure:
  assumes "quiet v cols mg" "jobs_fit v w" "tv_jobs v w (move_id mv) = None"
  shows "runs (ensure_job mg mv) w (\<lambda>job w'. job = fresh_job \<and> tv_rows v w' = tv_rows v w \<and> tv_jobs v w' = (tv_jobs v w)(move_id mv \<mapsto> fresh_job))"
  unfolding ensure_job_def
proof (rule runs_bind [OF runs_load [OF assms(1,2)]], elim conjE)
  note q = quietD [OF assms(1)]
  fix found w1
  assume f: "found = tv_jobs v w (move_id mv)" "same_view v w w1"
  obtain now where now: "en_now (mg_env mg) w1 = Inr now" using state_liveD(2) [OF q(4)] by blast
  obtain x w2 where x: "ex_execute_with (mg_state mg) (insert_job_sql (ex_dialect (mg_state mg))) (job_params mv now) w1 = (Inr x, w2)"
    using state_liveD(5) [OF q(4)] by blast
  have "job_write v (ex_execute_with (mg_state mg) (insert_job_sql (ex_dialect (mg_state mg))) (job_params mv now)) (insert_job (move_id mv))"
    using q(2) by (simp add: job_laws_def)
  then have w2: "tv_rows v w2 = tv_rows v w1" "tv_jobs v w2 = insert_job (move_id mv) (tv_jobs v w1)"
    using x unfolding job_write_def by (auto dest!: spec [of _ w1])
  then have jobs: "tv_rows v w2 = tv_rows v w" "tv_jobs v w2 = (tv_jobs v w)(move_id mv \<mapsto> fresh_job)"
    using f assms(3) by (simp_all add: same_view_def insert_job_def)
  have "jobs_fit v w2" using assms(2) by (auto simp: jobs_fit_def jobs fresh_job_def i64_max_def)
  from runs_load [OF assms(1) this, of "move_id mv"]
  have "runs (act_bind (load_job mg (move_id mv)) (\<lambda>again. act_lift (ok_or (ShardDatabase ''migration job vanished after insert'') again)))
      w2 (\<lambda>job w'. job = fresh_job \<and> tv_rows v w' = tv_rows v w \<and> tv_jobs v w' = (tv_jobs v w)(move_id mv \<mapsto> fresh_job))"
    by (rule runs_bind) (simp add: jobs ok_or_def same_view_def)
  then show "runs (case found of Some job \<Rightarrow> act_ok job | None \<Rightarrow>
         act_bind (act_lift (mig_dialect mg)) (\<lambda>d.
         act_bind (now_rfc3339 mg) (\<lambda>now.
         act_bind (act_map_err outbox_db_error (ex_execute_with (mg_state mg) (insert_job_sql d) (job_params mv now))) (\<lambda>_.
         act_bind (load_job mg (move_id mv)) (\<lambda>again.
         act_lift (ok_or (ShardDatabase ''migration job vanished after insert'') again)))))) w1
      (\<lambda>job w'. job = fresh_job \<and> tv_rows v w' = tv_rows v w \<and> tv_jobs v w' = (tv_jobs v w)(move_id mv \<mapsto> fresh_job))"
    using f(1) assms(3) state_liveD(1) [OF q(4)] now x
    by (simp add: act_bind_now runs_def) (simp add: act_bind_def act_map_err_def)
qed

lemma runs_scan:
  assumes "quiet v cols mg" "mg_clients mg s = Some cl" "plan_table mg t" "rng \<in> plan_rngs mg" "readable v w s t rng"
  shows "runs (scan_chunk mg cl t rng cursor) w (\<lambda>batch w'. same_view v w w' \<and>
    batch = take (mg_chunk_size mg) (filter (scanned v s t rng cursor) (tv_rows v w s (tbl_name t))))"
proof -
  note q = quietD [OF assms(1)]
  obtain rows w' where r: "ex_query_with cl (scan_sql (ex_dialect cl) t rng cursor (mg_chunk_size mg)) (scan_params t rng cursor) w = (Inr rows, w')"
    using clients_liveD(2) [OF q(7) assms(2-4)] by blast
  then have s: "scan_chunk mg cl t rng cursor w = (Inr rows, w')" by (simp add: scan_chunk_def act_map_err_def)
  show ?thesis unfolding runs_def s
    using scan_chunk_rows [OF q(1) assms(2-5) s] keepsD [OF scan_chunk_keeps [OF q(1) assms(2)] s] by blast
qed

lemma runs_fence:
  assumes "quiet v cols mg"
  shows "runs (mig_acquire mg) w (\<lambda>_ w'. same_view v w w')" "runs (mig_check_fence mg g) w (\<lambda>_ w'. same_view v w w')"
    "runs (mig_release mg g) w (\<lambda>_ w'. same_view v w w')"
proof -
  have f: "(\<exists>tok w'. mf_acquire f (mf_key f) (mf_ttl f) w = (Inr (Some tok), w') \<and> same_view v w w')"
    "(\<exists>w'. mf_renew f (mf_key f) tok (mf_ttl f) w = (Inr (), w') \<and> same_view v w w')"
    "(\<exists>w'. mf_release f (mf_key f) tok w = (Inr (), w') \<and> same_view v w w')" if "mg_fence mg = Some f" for f tok w
    using quietD(8) [OF assms] that unfolding fence_live_def by auto
  show "runs (mig_acquire mg) w (\<lambda>_ w'. same_view v w w')"
  proof (cases "mg_fence mg")
    case (Some fc)
    then show ?thesis using f(1) [OF Some, of w]
      by (auto simp: mig_acquire_def runs_def act_bind_def act_map_err_def split: prod.splits)
  qed (simp add: mig_acquire_def)
  show "runs (mig_check_fence mg g) w (\<lambda>_ w'. same_view v w w')" "runs (mig_release mg g) w (\<lambda>_ w'. same_view v w w')"
    using f(2,3) by (auto simp: mig_check_fence_def mig_release_def runs_def act_map_err_Inr_iff split: option.split)
qed

section \<open>The state of a backfill\<close>

text \<open>
  \<open>copied_state v mg w0 C w\<close>: since \<open>w0\<close> exactly the rows \<open>C\<close>, of the plan, have been copied.
\<close>

definition to_copy :: "'w mig_view \<Rightarrow> 'w migrator \<Rightarrow> 'w \<Rightarrow> (shard_move \<times> db_row) set" where
  "to_copy v mg w0 = {(mv, r). mv \<in> set (plan_moves (mg_plan mg)) \<and> r \<in> set (scope_rows v mg w0 mv)}"

definition copied_state :: "'w mig_view \<Rightarrow> 'w migrator \<Rightarrow> 'w \<Rightarrow> (shard_move \<times> db_row) set \<Rightarrow> 'w \<Rightarrow> bool" where
  "copied_state v mg w0 C w \<longleftrightarrow> C \<subseteq> to_copy v mg w0 \<and> table_laws v mg w \<and>
     (\<forall>s n. set (tv_rows v w s n) = set (tv_rows v w0 s n) \<union> {r. \<exists>mv. (mv, r) \<in> C \<and> mv_to mv = s \<and> mv_table mv = n})"

lemma copied_state_rows: "copied_state v mg w0 C w \<Longrightarrow> tv_rows v w' = tv_rows v w \<Longrightarrow> copied_state v mg w0 C w'"
  by (simp add: copied_state_def table_laws_def)

text \<open>Lists with the same elements in strictly increasing order are equal.\<close>

lemma strict_sorted_unique:
  assumes "\<And>a. \<not> lt a a" "\<And>a b c. lt a b \<Longrightarrow> lt b c \<Longrightarrow> lt a c"
  shows "sorted_wrt lt xs \<Longrightarrow> sorted_wrt lt ys \<Longrightarrow> set xs = set ys \<Longrightarrow> xs = ys"
proof (induction xs arbitrary: ys)
  case (Cons x xs)
  then obtain y ys' where ys: "ys = y # ys'" by (cases ys) auto
  have "x = y"
  proof (rule ccontr)
    assume "x \<noteq> y"
    then have "lt y x" "lt x y" using Cons.prems ys by auto
    then show False using assms by blast
  qed
  moreover have "set xs = set ys'"
  proof -
    have "x \<notin> set xs" "y \<notin> set ys'" using Cons.prems assms(1) ys by auto
    then show ?thesis using Cons.prems(3) ys calculation by auto
  qed
  ultimately show ?case using Cons ys by simp
qed simp

lemma sorted_distinct: "(\<And>a. \<not> lt a a) \<Longrightarrow> sorted_wrt lt xs \<Longrightarrow> distinct xs"
  by (induction xs) auto

lemma sorted_total: "sorted_wrt lt xs \<Longrightarrow> a \<in> set xs \<Longrightarrow> b \<in> set xs \<Longrightarrow> a \<noteq> b \<Longrightarrow> lt a b \<or> lt b a"
  by (induction xs) auto

text \<open>In a table of the plan the primary key determines the row.\<close>

lemma pk_unique:
  assumes "order_laws v" "table_laws v mg w" "plan_table mg t"
    and "a \<in> set (tv_rows v w s (tbl_name t))" "b \<in> set (tv_rows v w s (tbl_name t))" "row_get a (tbl_pk t) = row_get b (tbl_pk t)"
  shows "a = b"
proof (rule ccontr)
  assume ne: "a \<noteq> b"
  have srt: "sorted_wrt (pk_lt v s t) (tv_rows v w s (tbl_name t))" using assms(2,3) by (simp add: table_laws_def)
  have "pk_lt v s t a b \<or> pk_lt v s t b a"
    by (rule sorted_total [OF srt assms(4,5) ne])
  then have "pk_lt v s t a a" using assms(6) by (auto simp: pk_lt_def split: option.splits)
  then show False using pk_lt_strict(1) [OF assms(1)] by blast
qed

lemma copy_readyD:
  assumes "copy_ready v cols mg w"
  shows "distinct (map move_id (plan_moves (mg_plan mg)))" "m \<in> set (plan_moves (mg_plan mg)) \<Longrightarrow> tv_jobs v w (move_id m) = None"
    "jobs_fit v w" "table_laws v mg w" "rows_good v cols mg w" "no_clash v mg w" "moves_disjoint v mg w" "not_reread v mg w"
    "targets_covered v mg w" "int (plan_rows v mg w) \<le> i64_max" "length (tv_rows v w s n) + plan_rows v mg w < en_rounds (mg_env mg)"
  using assms by (simp_all add: copy_ready_def)

lemma scope_stable:
  assumes ord: "order_laws v" and mgo: "migrator_ok mg" and ready: "copy_ready v cols mg w0"
    and st: "copied_state v mg w0 C w" and m: "m \<in> set (plan_moves (mg_plan mg))"
  shows "scope_rows v mg w m = scope_rows v mg w0 m"
proof -
  let ?t = "move_table mg m" and ?s = "mv_from m"
  note mt = move_table_ok [OF mgo m]
  have "set (tv_rows v w ?s (mv_table m)) \<inter> Collect (in_scope mg m) = set (tv_rows v w0 ?s (mv_table m)) \<inter> Collect (in_scope mg m)"
  proof -
    have "r \<in> set (tv_rows v w0 ?s (mv_table m))" if "(mv, r) \<in> C" "mv_to mv = ?s" "mv_table mv = mv_table m" "in_scope mg m r" for mv r
    proof -
      have mv: "mv \<in> set (plan_moves (mg_plan mg))" "r \<in> set (scope_rows v mg w0 mv)"
        using st that(1) by (auto simp: copied_state_def to_copy_def)
      then have "mv = m" using copy_readyD(8) [OF ready] that(2-4) m unfolding not_reread_def by metis
      then show ?thesis using mv(2) by (simp add: scope_rows_def)
    qed
    then show ?thesis using st unfolding copied_state_def by blast
  qed
  then have "set (scope_rows v mg w m) = set (scope_rows v mg w0 m)" by (simp add: scope_rows_def Int_def conj_commute set_eq_iff)
  moreover have "sorted_wrt (pk_lt v ?s ?t) (scope_rows v mg w m)" "sorted_wrt (pk_lt v ?s ?t) (scope_rows v mg w0 m)"
    using st copy_readyD(4) [OF ready] mt(2,3) unfolding copied_state_def table_laws_def scope_rows_def
    by (metis sorted_wrt_filter)+
  ultimately show ?thesis by (intro strict_sorted_unique [OF pk_lt_strict [OF ord]]) auto
qed

lemma rows_good_state:
  assumes "copy_ready v cols mg w0" "copied_state v mg w0 C w"
  shows "rows_good v cols mg w"
  unfolding rows_good_def
proof (intro ballI conjI allI)
  fix mv
  assume mv: "mv \<in> set (plan_moves (mg_plan mg))"
  note good = copy_readyD(5) [OF assms(1), unfolded rows_good_def, rule_format, OF mv]
  show "cols (mv_table mv) \<noteq> []" using good by blast
  fix s row
  assume "row \<in> set (tv_rows v w s (mv_table mv))"
  then have "\<exists>s'. row \<in> set (tv_rows v w0 s' (mv_table mv))"
    using assms(2) unfolding copied_state_def to_copy_def scope_rows_def by fastforce
  then show "row_columns row = cols (mv_table mv)" "is_ok (routes_to mg mv row)" "mv_range mv \<noteq> None \<longrightarrow> int_key (move_table mg mv) row"
    using good by blast+
qed

section \<open>Copying\<close>

definition row_hash :: "'w migrator \<Rightarrow> db_row \<Rightarrow> u64" where
  "row_hash mg row = projr (row_checksum (en_text (mg_env mg)) row)"

lemma row_checksum_hash [simp]: "row_checksum (en_text (mg_env mg)) row = Inr (row_hash mg row)"
  by (simp add: row_hash_def row_checksum_def row_object_def stable_hash64_def)

definition xor_rows :: "'w migrator \<Rightarrow> db_row list \<Rightarrow> u64 \<Rightarrow> u64" where
  "xor_rows mg rows c = fold (\<lambda>r c. c XOR row_hash mg r) rows c"

lemma xor_rows_simps [simp]:
  "xor_rows mg [] c = c" "xor_rows mg (r # rs) c = xor_rows mg rs (c XOR row_hash mg r)"
  "xor_rows mg (rs @ rs') c = xor_rows mg rs' (xor_rows mg rs c)"
  by (simp_all add: xor_rows_def)

definition tally :: "'w migrator \<Rightarrow> db_row list \<Rightarrow> job_state \<Rightarrow> job_state" where
  "tally mg rows job = job\<lparr>job_rows := job_rows job + length rows, job_checksum := xor_rows mg rows (job_checksum job)\<rparr>"

lemma tally_append: "tally mg ys (tally mg xs job) = tally mg (xs @ ys) job"
  by (simp add: tally_def)

lemma tally_Cons: "tally mg (row # rows) job = tally mg rows (job\<lparr>job_rows := job_rows job + 1, job_checksum := job_checksum job XOR row_hash mg row\<rparr>)"
  by (simp add: tally_def)

text \<open>A row of the plan is written beside the rows the target has: none of those has its key.\<close>

lemma target_key_unique:
  assumes ord: "order_laws v" and mgo: "migrator_ok mg" and ready: "copy_ready v cols mg w0"
    and st: "copied_state v mg w0 C w" and m: "m \<in> set (plan_moves (mg_plan mg))" "r \<in> set (scope_rows v mg w0 m)"
    and x: "x \<in> set (tv_rows v w (mv_to m) (mv_table m))" "move_pk mg m x = move_pk mg m r"
  shows "x = r"
proof -
  note mt = move_table_ok [OF mgo m(1)]
  consider "x \<in> set (tv_rows v w0 (mv_to m) (mv_table m))" | m' where "(m', x) \<in> C" "same_group m m'"
    using st x(1) by (fastforce simp: copied_state_def same_group_def)
  then show ?thesis
  proof cases
    case 1
    then show ?thesis using copy_readyD(6) [OF ready] m x(2) unfolding no_clash_def by blast
  next
    case (2 m')
    then have m': "m' \<in> set (plan_moves (mg_plan mg))" "x \<in> set (scope_rows v mg w0 m')"
      using st by (auto simp: copied_state_def to_copy_def)
    have "m' = m" using copy_readyD(7) [OF ready] 2(2) m m' x(2) unfolding moves_disjoint_def by metis
    then show ?thesis
      using pk_unique [OF ord copy_readyD(4) [OF ready] mt(3), of x "mv_from m" r] m(2) m'(2) x(2) mt(2)
      by (simp add: scope_rows_def move_pk_def)
  qed
qed

lemma scope_rowsD: "r \<in> set (scope_rows v mg w m) \<Longrightarrow> r \<in> set (tv_rows v w (mv_from m) (mv_table m)) \<and> in_scope mg m r"
  by (simp add: scope_rows_def)

lemma runs_upsert:
  assumes q: "quiet v cols mg" and ready: "copy_ready v cols mg w0" and st: "copied_state v mg w0 C w"
    and m: "m \<in> set (plan_moves (mg_plan mg))" "r \<in> set (scope_rows v mg w0 m)" and cl: "mg_clients mg (mv_to m) = Some cl"
  shows "runs (upsert_row mg cl m r) w (\<lambda>_ w'. copied_state v mg w0 (insert (m, r) C) w' \<and> tv_jobs v w' = tv_jobs v w)"
proof -
  note qq = quietD [OF q]
  note mt = move_table_ok [OF qq(5) m(1)]
  let ?t = "move_table mg m"
  note src = scope_rowsD [OF m(2)]
  have good: "row_columns r = cols (mv_table m)" "cols (mv_table m) \<noteq> []"
    using copy_readyD(5) [OF ready] m(1) src unfolding rows_good_def by blast+
  have pk: "has_key v ?t r"
    using copy_readyD(4) [OF ready] src mt(2,3) unfolding table_laws_def by metis
  have "table_laws v mg w" using st by (simp add: copied_state_def)
  from clients_liveD(3) [where cols = cols, OF qq(7) cl mt(3) _ pk this] good
  have law: "upsert_law v mg (mv_to m) cl ?t r w" by (simp add: mt(2))
  obtain x w' where x: "ex_execute_with cl (upsert_sql (ex_dialect cl) (mv_table m) (tbl_pk ?t) (row_columns r)) (row_values r) w = (Inr x, w')"
    and w': "tv_jobs v w' = tv_jobs v w" "table_laws v mg w'" "upserted ?t r (tv_rows v w (mv_to m) (mv_table m)) (tv_rows v w' (mv_to m) (mv_table m))"
      "\<And>s n. (s, n) \<noteq> (mv_to m, mv_table m) \<Longrightarrow> tv_rows v w' s n = tv_rows v w s n"
    using law unfolding upsert_law_def mt(2) by (auto split: prod.splits dest!: is_ok_Inr)
  have "set (tv_rows v w' (mv_to m) (mv_table m)) = insert r (set (tv_rows v w (mv_to m) (mv_table m)))"
    using w'(3) target_key_unique [OF qq(3,5) ready st m] by (auto simp: upserted_def move_pk_def)
  then have "set (tv_rows v w' s n) = set (tv_rows v w s n) \<union> {x. x = r \<and> s = mv_to m \<and> n = mv_table m}" for s n
    using w'(4) [of s n] by (cases "(s, n) = (mv_to m, mv_table m)") auto
  then have "copied_state v mg w0 (insert (m, r) C) w'"
    using st w'(2) m by (auto simp: copied_state_def to_copy_def)
  moreover have "upsert_row mg cl m r w = (Inr (), w')"
    using clients_liveD(1) [OF qq(7) cl] good mt(1) x by (simp add: upsert_row_def act_bind_def act_map_err_def)
  ultimately show ?thesis using w'(1) by (simp add: runs_def)
qed

lemma runs_copy_rows:
  assumes q: "quiet v cols mg" and ready: "copy_ready v cols mg w0"
    and m: "m \<in> set (plan_moves (mg_plan mg))" and cl: "mg_clients mg (mv_to m) = Some cl"
  shows "copied_state v mg w0 C w \<Longrightarrow>
    \<forall>r \<in> set rows. is_ok (routes_to mg m r) \<and> in_rng (move_table mg m) (mv_range m) r \<and>
      (in_scope mg m r \<longrightarrow> r \<in> set (scope_rows v mg w0 m)) \<Longrightarrow>
    int (job_rows job + length (filter (in_scope mg m) rows)) \<le> i64_max \<Longrightarrow>
    runs (copy_rows mg m cl rows (job, n)) w (\<lambda>(job', n') w'. job' = tally mg (filter (in_scope mg m) rows) job \<and>
      copied_state v mg w0 (C \<union> {m} \<times> set (filter (in_scope mg m) rows)) w' \<and> tv_jobs v w' = tv_jobs v w)"
proof (induction rows arbitrary: C w job n)
  case Nil
  then show ?case by (simp add: tally_def runs_def)
next
  case (Cons r rows)
  obtain here where here: "routes_to mg m r = Inr here" using Cons.prems(2) is_ok_Inr by auto
  have sc: "in_scope mg m r \<longleftrightarrow> here" using here Cons.prems(2) by (simp add: in_scope_def)
  show ?case
  proof (cases here)
    case False
    then show ?thesis using Cons.IH [OF Cons.prems(1), of job n] Cons.prems(2,3) here sc by simp
  next
    case True
    have r: "r \<in> set (scope_rows v mg w0 m)" using Cons.prems(2) sc True by simp
    have fit: "job_rows job + 1 \<le> u64_max" using Cons.prems(3) sc True by (simp add: i64_max_def u64_max_def)
    have "runs (act_bind (upsert_row mg cl m r) (\<lambda>_. copy_rows mg m cl rows (job\<lparr>job_rows := job_rows job + 1,
        job_checksum := job_checksum job XOR row_hash mg r\<rparr>, n + 1))) w
      (\<lambda>(job', n') w'. job' = tally mg (filter (in_scope mg m) (r # rows)) job \<and>
        copied_state v mg w0 (C \<union> {m} \<times> set (filter (in_scope mg m) (r # rows))) w' \<and> tv_jobs v w' = tv_jobs v w)"
    proof (rule runs_bind [OF runs_upsert [OF q ready Cons.prems(1) m r cl]], elim conjE)
      fix w1
      assume w1: "copied_state v mg w0 (insert (m, r) C) w1" "tv_jobs v w1 = tv_jobs v w"
      have "insert (m, r) C \<union> {m} \<times> set (filter (in_scope mg m) rows) = C \<union> {m} \<times> set (filter (in_scope mg m) (r # rows))"
        using sc True by auto
      then show "runs (copy_rows mg m cl rows (job\<lparr>job_rows := job_rows job + 1, job_checksum := job_checksum job XOR row_hash mg r\<rparr>, n + 1)) w1
        (\<lambda>(job', n') w'. job' = tally mg (filter (in_scope mg m) (r # rows)) job \<and>
          copied_state v mg w0 (C \<union> {m} \<times> set (filter (in_scope mg m) (r # rows))) w' \<and> tv_jobs v w' = tv_jobs v w)"
        using Cons.IH [OF w1(1), of "job\<lparr>job_rows := job_rows job + 1, job_checksum := job_checksum job XOR row_hash mg r\<rparr>" "n + 1"]
          Cons.prems(2,3) sc True w1(2) by (simp add: tally_Cons)
    qed
    then show ?thesis using here True fit by (simp add: not_less)
  qed
qed

lemma source_stable:
  assumes ord: "order_laws v" and mgo: "migrator_ok mg" and ready: "copy_ready v cols mg w0"
    and st: "copied_state v mg w0 C w" "copied_state v mg w0 (C \<union> {m} \<times> R) w'" and m: "m \<in> set (plan_moves (mg_plan mg))"
  shows "tv_rows v w' (mv_from m) (mv_table m) = tv_rows v w (mv_from m) (mv_table m)"
proof -
  note mt = move_table_ok [OF mgo m]
  have "R \<subseteq> set (scope_rows v mg w0 m)" using st(2) by (auto simp: copied_state_def to_copy_def)
  then have R: "R \<subseteq> set (tv_rows v w0 (mv_from m) (mv_table m))" by (auto simp: scope_rows_def)
  have "set (tv_rows v w' (mv_from m) (mv_table m)) = set (tv_rows v w (mv_from m) (mv_table m))"
    using st R unfolding copied_state_def by auto
  moreover have "sorted_wrt (pk_lt v (mv_from m) (move_table mg m)) (tv_rows v w (mv_from m) (mv_table m))"
    "sorted_wrt (pk_lt v (mv_from m) (move_table mg m)) (tv_rows v w' (mv_from m) (mv_table m))"
    using st mt(2,3) unfolding copied_state_def table_laws_def by metis+
  ultimately show ?thesis by (intro strict_sorted_unique [OF pk_lt_strict [OF ord]]) auto
qed

text \<open>A running job has counted \<open>rs\<close>.\<close>

definition counts :: "'w migrator \<Rightarrow> job_state \<Rightarrow> db_row list \<Rightarrow> bool" where
  "counts mg job rs \<longleftrightarrow> job_rows job = length rs \<and> job_checksum job = xor_rows mg rs 0 \<and>
     (job_phase job = PhPending \<or> job_phase job = PhBackfilling)"

lemma counts_tally:
  "counts mg job ds \<Longrightarrow> counts mg ((tally mg rs job)\<lparr>job_cursor := c, job_phase := PhBackfilling\<rparr>) (ds @ rs)"
  by (simp add: counts_def tally_def)

text \<open>What the loop over a move leaves.\<close>

definition move_done ::
  "'w mig_view \<Rightarrow> 'w migrator \<Rightarrow> 'w \<Rightarrow> (shard_move \<times> db_row) set \<Rightarrow> (string \<Rightarrow> job_state option) \<Rightarrow> shard_move \<Rightarrow> db_row list \<Rightarrow> db_row list \<Rightarrow> 'w \<Rightarrow> bool" where
  "move_done v mg w0 C jobs m ds rs w' \<longleftrightarrow> copied_state v mg w0 (C \<union> {m} \<times> set rs) w' \<and>
     (\<exists>job. tv_jobs v w' = jobs(move_id m \<mapsto> job) \<and> counts mg job (ds @ rs))"

lemma runs_bind_pair:
  "runs f s (\<lambda>(a, b) s'. P a b s') \<Longrightarrow> (\<And>a b s'. P a b s' \<Longrightarrow> runs (k a b) s' Q) \<Longrightarrow> runs (act_bind f (\<lambda>(a, b). k a b)) s Q"
  by (auto simp: runs_def act_bind_def)

lemma runs_batch:
  assumes q: "quiet v cols mg" and ready: "copy_ready v cols mg w0"
    and m: "m \<in> set (plan_moves (mg_plan mg))" "mg_clients mg (mv_to m) = Some cl"
    and st: "copied_state v mg w0 C w" "tv_jobs v w (move_id m) = Some job" "counts mg job ds"
    and rows: "\<forall>r \<in> set rows. is_ok (routes_to mg m r) \<and> in_rng (move_table mg m) (mv_range m) r \<and>
      (in_scope mg m r \<longrightarrow> r \<in> set (scope_rows v mg w0 m))"
    and fit: "int (length ds + length (filter (in_scope mg m) rows)) \<le> i64_max"
    and last_row: "row_get (last rows) (tbl_pk (move_table mg m)) = Some p"
    and rest: "\<And>w' job' copied. copied_state v mg w0 (C \<union> {m} \<times> set (filter (in_scope mg m) rows)) w' \<Longrightarrow>
      tv_jobs v w' = (tv_jobs v w)(move_id m \<mapsto> job') \<Longrightarrow> counts mg job' (ds @ filter (in_scope mg m) rows) \<Longrightarrow>
      runs (k copied p job') w' Q"
  shows "runs (act_bind (copy_rows mg m cl rows (job, 0)) (\<lambda>(job', copied).
       act_bind (act_lift (row_value (last rows) (tbl_pk (move_table mg m)))) (\<lambda>last_pk.
       act_bind (act_lift (encode_cursor mg last_pk)) (\<lambda>txt.
       let job'' = job'\<lparr>job_cursor := Some txt, job_phase := PhBackfilling\<rparr> in
       act_bind (save_job mg m job'') (\<lambda>_. k copied last_pk job''))))) w Q"
proof (rule runs_bind_pair [OF runs_copy_rows [OF q ready m st(1) rows]], goal_cases)
  case 1
  then show ?case using fit st(3) by (simp add: counts_def)
next
  case (2 job' copied w1)
  let ?S = "filter (in_scope mg m) rows"
  have job': "job' = tally mg ?S job" and w1: "copied_state v mg w0 (C \<union> {m} \<times> set ?S) w1" "tv_jobs v w1 = tv_jobs v w"
    using 2 by auto
  obtain enc where enc: "en_to_string (mg_env mg) p = Inr enc" using state_liveD(3) [OF quietD(4) [OF q]] by blast
  let ?job = "job'\<lparr>job_cursor := Some enc, job_phase := PhBackfilling\<rparr>"
  have cnt: "counts mg ?job (ds @ ?S)" unfolding job' by (rule counts_tally [OF st(3)])
  then have "int (job_rows ?job) \<le> i64_max" using fit by (simp add: counts_def)
  from runs_save [OF q this, of m w1] have "runs (act_bind (save_job mg m ?job) (\<lambda>_. k copied p ?job)) w1 Q"
  proof (rule runs_bind, elim conjE)
    fix w2
    assume "tv_rows v w2 = tv_rows v w1" "tv_jobs v w2 = update_job (move_id m) ?job (tv_jobs v w1)"
    then show "runs (k copied p ?job) w2 Q"
      using w1 st(2) cnt by (intro rest copied_state_rows [OF w1(1)]) (simp_all add: update_job_def)
  qed
  then show ?case using last_row enc by (simp add: row_value_def ok_or_def encode_cursor_def Let_def)
qed

lemma scanned_rows:
  assumes "quiet v cols mg" and ready: "copy_ready v cols mg w0" and st: "copied_state v mg w0 C w" and m: "m \<in> set (plan_moves (mg_plan mg))"
    and r: "r \<in> set (tv_rows v w (mv_from m) (mv_table m))" "scanned v (mv_from m) (move_table mg m) (mv_range m) cursor r"
  shows "is_ok (routes_to mg m r)" "in_rng (move_table mg m) (mv_range m) r" "in_scope mg m r \<Longrightarrow> r \<in> set (scope_rows v mg w0 m)"
proof -
  note qq = quietD [OF assms(1)]
  show "is_ok (routes_to mg m r)" using rows_good_state [OF ready st] m r(1) unfolding rows_good_def by blast
  show "in_rng (move_table mg m) (mv_range m) r" using r(2) by (simp add: scanned_def)
  show "r \<in> set (scope_rows v mg w0 m)" if "in_scope mg m r"
    unfolding scope_stable [OF qq(3,5) ready st m, symmetric] using that r(1) by (simp add: scope_rows_def)
qed

lemma runs_backfill_loop:
  assumes q: "quiet v cols mg" and ready: "copy_ready v cols mg w0"
    and m: "m \<in> set (plan_moves (mg_plan mg))" and cl: "mg_clients mg (mv_from m) = Some scl" "mg_clients mg (mv_to m) = Some tcl"
  shows "copied_state v mg w0 C w \<Longrightarrow> tv_rows v w (mv_from m) (mv_table m) = rows \<Longrightarrow>
    L = filter (scanned v (mv_from m) (move_table mg m) (mv_range m) cursor) rows \<Longrightarrow> length L < n \<Longrightarrow>
    tv_jobs v w (move_id m) = Some job \<Longrightarrow> counts mg job ds \<Longrightarrow> int (length ds + length (filter (in_scope mg m) L)) \<le> i64_max \<Longrightarrow>
    runs (backfill_loop mg m (move_table mg m) scl tcl guard n cursor job report) w
      (\<lambda>_. move_done v mg w0 C (tv_jobs v w) m ds (filter (in_scope mg m) L))"
proof (induction n arbitrary: C w L cursor job ds report)
  case (Suc n)
  let ?t = "move_table mg m" and ?k = "mg_chunk_size mg"
  let ?B = "take ?k L" and ?D = "drop ?k L"
  let ?S = "filter (in_scope mg m) ?B"
  note qq = quietD [OF q]
  note mt = move_table_ok [OF qq(5) m]
  have good: "rows_good v cols mg w" by (rule rows_good_state [OF ready Suc.prems(1)])
  have tl: "table_laws v mg w" using Suc.prems(1) by (simp add: copied_state_def)
  have rng: "mv_range m \<in> plan_rngs mg" using m by (simp add: plan_rngs_def)
  have readable: "readable v w' (mv_from m) ?t (mv_range m)" if "tv_rows v w' = tv_rows v w" for w'
    using good m mt(2) that unfolding readable_def rows_good_def by auto
  have B: "\<forall>r \<in> set ?B. is_ok (routes_to mg m r) \<and> in_rng ?t (mv_range m) r \<and> (in_scope mg m r \<longrightarrow> r \<in> set (scope_rows v mg w0 m))"
    using scanned_rows [OF q ready Suc.prems(1) m, of _ cursor] Suc.prems(2,3) by (auto dest: in_set_takeD)
  show ?case
    unfolding backfill_loop.simps
  proof (rule runs_bind [OF runs_fence(2) [OF q]], rule runs_bind [OF runs_scan [OF q cl(1) mt(3) rng readable]], simp add: same_view_def)
    fix w1 batch w2
    assume w1: "same_view v w w1" and b: "same_view v w1 w2 \<and> batch = take ?k (filter (scanned v (mv_from m) ?t (mv_range m) cursor) (tv_rows v w1 (mv_from m) (tbl_name ?t)))"
    have w2: "tv_rows v w2 = tv_rows v w" "tv_jobs v w2 = tv_jobs v w" using w1 b by (simp_all add: same_view_def)
    have batch: "batch = ?B" using b w1 Suc.prems(2,3) mt(2) by (simp add: same_view_def)
    show "runs (if batch = [] then act_ok report else act_bind (copy_rows mg m tcl batch (job, 0)) (\<lambda>(job', copied).
       act_bind (act_lift (row_value (last batch) (tbl_pk ?t))) (\<lambda>last_pk.
       act_bind (act_lift (encode_cursor mg last_pk)) (\<lambda>txt.
       let job'' = job'\<lparr>job_cursor := Some txt, job_phase := PhBackfilling\<rparr> in
       act_bind (save_job mg m job'') (\<lambda>_.
       backfill_loop mg m ?t scl tcl guard n (Some last_pk) job''
         (report\<lparr>mr_moved_rows := saturating_add_u64 (mr_moved_rows report) copied, mr_chunks := mr_chunks report + 1\<rparr>)))))) w2
      (\<lambda>_. move_done v mg w0 C (tv_jobs v w) m ds (filter (in_scope mg m) L))"
    proof (cases "batch = []")
      case True
      then have "L = []" using batch qq(6) by simp
      then show ?thesis using True Suc.prems(1,5,6) w2 copied_state_rows [OF Suc.prems(1) w2(1)]
        by (auto simp: move_done_def intro!: exI [of _ job])
    next
      case False
      have "last batch \<in> set L" using False batch last_in_set in_set_takeD by metis
      then have "last batch \<in> set rows" using Suc.prems(3) by simp
      then obtain p where p: "row_get (last batch) (tbl_pk ?t) = Some p"
        using tl mt(2,3) Suc.prems(2) unfolding table_laws_def has_key_def by metis
      have srt: "sorted_wrt (pk_lt v (mv_from m) ?t) rows" using tl mt(2,3) Suc.prems(2) unfolding table_laws_def by metis
      have D: "filter (scanned v (mv_from m) ?t (mv_range m) (Some p)) rows = ?D"
        using scan_continues [OF qq(3) srt _ False p, where n = ?k] batch Suc.prems(3) by simp
      have len: "length ?D < n" using Suc.prems(4) False batch qq(6) by (cases L) auto
      have S: "filter (in_scope mg m) ?B @ filter (in_scope mg m) ?D = filter (in_scope mg m) L"
        by (metis append_take_drop_id filter_append)
      have "runs (act_bind (copy_rows mg m tcl batch (job, 0)) (\<lambda>(job', copied).
       act_bind (act_lift (row_value (last batch) (tbl_pk ?t))) (\<lambda>last_pk.
       act_bind (act_lift (encode_cursor mg last_pk)) (\<lambda>txt.
       let job'' = job'\<lparr>job_cursor := Some txt, job_phase := PhBackfilling\<rparr> in
       act_bind (save_job mg m job'') (\<lambda>_.
       backfill_loop mg m ?t scl tcl guard n (Some last_pk) job''
         (report\<lparr>mr_moved_rows := saturating_add_u64 (mr_moved_rows report) copied, mr_chunks := mr_chunks report + 1\<rparr>)))))) w2
      (\<lambda>_. move_done v mg w0 C (tv_jobs v w) m ds (filter (in_scope mg m) L))"
      proof (rule runs_batch [OF q ready m cl(2) copied_state_rows [OF Suc.prems(1) w2(1)] _ Suc.prems(6) B [folded batch] _ p], goal_cases)
        case (3 w3 job' copied)
        have src: "tv_rows v w3 (mv_from m) (mv_table m) = rows"
          using source_stable [OF qq(3,5) ready Suc.prems(1) 3(1) m] Suc.prems(2) by simp
        have "int (length (ds @ filter (in_scope mg m) batch) + length (filter (in_scope mg m) ?D)) \<le> i64_max"
          using Suc.prems(7) unfolding S [symmetric] batch by simp
        moreover have "tv_jobs v w3 (move_id m) = Some job'" using 3(2) by simp
        ultimately have "runs (backfill_loop mg m ?t scl tcl guard n (Some p) job' r) w3
          (\<lambda>_. move_done v mg w0 (C \<union> {m} \<times> set (filter (in_scope mg m) batch)) (tv_jobs v w3) m
            (ds @ filter (in_scope mg m) batch) (filter (in_scope mg m) ?D))" for r
          using Suc.IH [OF 3(1) src D [symmetric] len _ 3(3)] by blast
        then show ?case
        proof (rule runs_mono)
          fix w4
          assume "move_done v mg w0 (C \<union> {m} \<times> set (filter (in_scope mg m) batch)) (tv_jobs v w3) m
            (ds @ filter (in_scope mg m) batch) (filter (in_scope mg m) ?D) w4"
          then show "move_done v mg w0 C (tv_jobs v w) m ds (filter (in_scope mg m) L) w4"
            unfolding S [symmetric] move_done_def batch using 3(2) w2(2) by (simp add: Un_assoc Sigma_Un_distrib2)
        qed
      qed (use Suc.prems(5,7) w2 in \<open>simp_all add: batch S [symmetric]\<close>)
      then show ?thesis using False by simp
    qed
  qed
qed simp

section \<open>The whole backfill\<close>

lemma plan_rows_ge: "m \<in> set (plan_moves (mg_plan mg)) \<Longrightarrow> length (scope_rows v mg w m) \<le> plan_rows v mg w"
  unfolding plan_rows_def by (intro member_le_sum_list) auto

lemma card_plan_rows: "card (\<Union>m \<in> set (plan_moves (mg_plan mg)). set (scope_rows v mg w m)) \<le> plan_rows v mg w"
proof -
  have "card (\<Union>m \<in> set ms. set (scope_rows v mg w m)) \<le> (\<Sum>m\<leftarrow>ms. length (scope_rows v mg w m))" for ms
  proof (induction ms)
    case (Cons m ms)
    have "card (set (scope_rows v mg w m) \<union> (\<Union>m \<in> set ms. set (scope_rows v mg w m)))
      \<le> card (set (scope_rows v mg w m)) + card (\<Union>m \<in> set ms. set (scope_rows v mg w m))" by (rule card_Un_le)
    also have "\<dots> \<le> length (scope_rows v mg w m) + (\<Sum>m\<leftarrow>ms. length (scope_rows v mg w m))"
      by (rule add_mono [OF card_length Cons.IH])
    finally show ?case by simp
  qed simp
  then show ?thesis by (simp add: plan_rows_def)
qed

text \<open>The rounds of the loops are enough for every table of the plan.\<close>

lemma rounds_enough:
  assumes ord: "order_laws v" and ready: "copy_ready v cols mg w0" and st: "copied_state v mg w0 C w" and t: "plan_table mg t"
  shows "length (tv_rows v w s (tbl_name t)) < en_rounds (mg_env mg)"
proof -
  let ?U = "\<Union>m \<in> set (plan_moves (mg_plan mg)). set (scope_rows v mg w0 m)"
  have "sorted_wrt (pk_lt v s t) (tv_rows v w s (tbl_name t))" using st t by (simp add: copied_state_def table_laws_def)
  from sorted_distinct [OF pk_lt_strict(1) [OF ord] this]
  have "length (tv_rows v w s (tbl_name t)) = card (set (tv_rows v w s (tbl_name t)))" by (simp add: distinct_card)
  also have "\<dots> \<le> card (set (tv_rows v w0 s (tbl_name t)) \<union> ?U)"
    using st unfolding copied_state_def to_copy_def by (intro card_mono) auto
  also have "\<dots> \<le> card (set (tv_rows v w0 s (tbl_name t))) + card ?U" by (rule card_Un_le)
  also have "\<dots> \<le> length (tv_rows v w0 s (tbl_name t)) + plan_rows v mg w0" by (rule add_mono [OF card_length card_plan_rows])
  finally show ?thesis using copy_readyD(11) [OF ready, of s "tbl_name t"] by simp
qed

lemma counts_fresh: "counts mg fresh_job []"
  by (simp add: counts_def fresh_job_def)

lemma runs_backfill_move:
  assumes q: "quiet v cols mg" and ready: "copy_ready v cols mg w0" and m: "m \<in> set (plan_moves (mg_plan mg))"
    and st: "copied_state v mg w0 C w" "jobs_fit v w" "tv_jobs v w (move_id m) = None"
  shows "runs (backfill_move mg guard m report) w (\<lambda>_. move_done v mg w0 C (tv_jobs v w) m [] (scope_rows v mg w0 m))"
  unfolding backfill_move_def
proof (rule runs_bind [OF runs_ensure [OF q st(2,3)]], elim conjE)
  note qq = quietD [OF q]
  note mt = move_table_ok [OF qq(5) m]
  fix job w1
  assume job: "job = fresh_job" and w1: "tv_rows v w1 = tv_rows v w" "tv_jobs v w1 = (tv_jobs v w)(move_id m \<mapsto> fresh_job)"
  obtain scl tcl where cl: "mg_clients mg (mv_from m) = Some scl" "mg_clients mg (mv_to m) = Some tcl" using mt(4,5) by blast
  let ?rows = "tv_rows v w (mv_from m) (mv_table m)"
  let ?L = "filter (scanned v (mv_from m) (move_table mg m) (mv_range m) None) ?rows"
  have "filter (in_scope mg m) ?L = scope_rows v mg w m"
    unfolding scope_rows_def scanned_start filter_filter by (rule filter_cong) (auto simp: in_scope_def)
  then have L: "filter (in_scope mg m) ?L = scope_rows v mg w0 m"
    using scope_stable [OF qq(3,5) ready st(1) m] by simp
  have "length ?L < en_rounds (mg_env mg)"
    using rounds_enough [OF qq(3) ready st(1) mt(3), of "mv_from m"] mt(2) length_filter_le [of _ ?rows] by (metis order_le_less_trans)
  moreover have "int (length (scope_rows v mg w0 m)) \<le> i64_max"
    using plan_rows_ge [OF m, of v w0] copy_readyD(10) [OF ready] by simp
  ultimately have "runs (backfill_loop mg m (move_table mg m) scl tcl guard (en_rounds (mg_env mg)) None fresh_job report) w1
    (\<lambda>_. move_done v mg w0 C (tv_jobs v w1) m [] (scope_rows v mg w0 m))"
    using runs_backfill_loop [OF q ready m cl copied_state_rows [OF st(1) w1(1)] _ refl _ _ counts_fresh,
        where rows = ?rows and cursor = None and n = "en_rounds (mg_env mg)"] w1 L by simp
  then have "runs (backfill_loop mg m (move_table mg m) scl tcl guard (en_rounds (mg_env mg)) None fresh_job report) w1
    (\<lambda>_. move_done v mg w0 C (tv_jobs v w) m [] (scope_rows v mg w0 m))"
    by (rule runs_mono) (simp add: move_done_def w1(2))
  then show "runs (if job_phase job = PhVerified \<or> job_phase job = PhCutover \<or> job_phase job = PhDone then act_ok report
     else
       act_bind (if job_phase job = PhRolledBack
         then act_bind (save_job mg m (job\<lparr>job_phase := PhBackfilling\<rparr>)) (\<lambda>_. act_ok (job\<lparr>job_phase := PhBackfilling\<rparr>))
         else act_ok job) (\<lambda>job.
       act_bind (act_lift (mig_client mg (mv_from m))) (\<lambda>source.
       act_bind (act_lift (mig_client mg (mv_to m))) (\<lambda>target.
       act_bind (act_lift (catalog_table (mg_new mg) (mv_table m))) (\<lambda>t.
       act_bind (act_lift (case job_cursor job of None \<Rightarrow> Ok None
         | Some c \<Rightarrow> try_bind (parse_cursor mg c) (\<lambda>v. Ok (Some v)))) (\<lambda>cursor.
       backfill_loop mg m t source target guard (en_rounds (mg_env mg)) cursor job report)))))) w1
     (\<lambda>_. move_done v mg w0 C (tv_jobs v w) m [] (scope_rows v mg w0 m))"
    using cl mt(1) by (simp add: job fresh_job_def mig_client_def ok_or_def)
qed

text \<open>After the moves \<open>ms\<close>: their rows are copied and counted, nothing else has changed.\<close>

definition backfilled :: "'w mig_view \<Rightarrow> 'w migrator \<Rightarrow> 'w \<Rightarrow> shard_move list \<Rightarrow> 'w \<Rightarrow> bool" where
  "backfilled v mg w0 ms w \<longleftrightarrow> copied_state v mg w0 (SIGMA m:set ms. set (scope_rows v mg w0 m)) w \<and>
     (\<forall>m \<in> set ms. \<exists>job. tv_jobs v w (move_id m) = Some job \<and> counts mg job (scope_rows v mg w0 m)) \<and>
     (\<forall>i. i \<notin> move_id ` set ms \<longrightarrow> tv_jobs v w i = tv_jobs v w0 i)"

lemma backfilled_fit:
  assumes "copy_ready v cols mg w0" "backfilled v mg w0 ms w" "set ms \<subseteq> set (plan_moves (mg_plan mg))"
  shows "jobs_fit v w"
  unfolding jobs_fit_def
proof (intro allI impI)
  fix i job
  assume job: "tv_jobs v w i = Some job"
  show "int (job_rows job) \<le> i64_max"
  proof (cases "i \<in> move_id ` set ms")
    case True
    then obtain m where m: "m \<in> set ms" "i = move_id m" by blast
    then have "job_rows job = length (scope_rows v mg w0 m)" using assms(2) job by (auto simp: backfilled_def counts_def)
    then show ?thesis using plan_rows_ge [of m mg v w0] m(1) assms(3) copy_readyD(10) [OF assms(1)] by auto
  next
    case False
    then show ?thesis using assms(2) job copy_readyD(3) [OF assms(1)] by (simp add: backfilled_def jobs_fit_def)
  qed
qed

lemma runs_run_backfill:
  assumes q: "quiet v cols mg" and ready: "copy_ready v cols mg w0"
  shows "ds @ ms = plan_moves (mg_plan mg) \<Longrightarrow> backfilled v mg w0 ds w \<Longrightarrow>
    runs (run_backfill mg guard ms report) w (\<lambda>_. backfilled v mg w0 (plan_moves (mg_plan mg)))"
proof (induction ms arbitrary: ds w report)
  case (Cons m ms)
  have m: "m \<in> set (plan_moves (mg_plan mg))" "set ds \<subseteq> set (plan_moves (mg_plan mg))" using Cons.prems(1) by (metis in_set_conv_decomp, metis set_append sup_ge1)
  have new: "move_id m \<notin> move_id ` set ds"
    using copy_readyD(1) [OF ready] unfolding Cons.prems(1) [symmetric] by auto
  have st: "copied_state v mg w0 (SIGMA m:set ds. set (scope_rows v mg w0 m)) w" using Cons.prems(2) by (simp add: backfilled_def)
  have "tv_jobs v w (move_id m) = None" using Cons.prems(2) new copy_readyD(2) [OF ready m(1)] by (simp add: backfilled_def)
  from runs_backfill_move [OF q ready m(1) st backfilled_fit [OF ready Cons.prems(2) m(2)] this]
  show ?case unfolding run_backfill.simps
  proof (rule runs_bind)
    fix report' w1
    assume w1: "move_done v mg w0 (SIGMA m:set ds. set (scope_rows v mg w0 m)) (tv_jobs v w) m [] (scope_rows v mg w0 m) w1"
    have "(SIGMA m:set ds. set (scope_rows v mg w0 m)) \<union> {m} \<times> set (scope_rows v mg w0 m)
      = (SIGMA m:set (ds @ [m]). set (scope_rows v mg w0 m))" by auto
    then have "backfilled v mg w0 (ds @ [m]) w1"
      using w1 Cons.prems(2) new unfolding backfilled_def move_done_def by (auto simp: image_iff)
    then show "runs (run_backfill mg guard ms report') w1 (\<lambda>_. backfilled v mg w0 (plan_moves (mg_plan mg)))"
      using Cons.prems(1) by (intro Cons.IH) simp_all
  qed
qed (simp add: runs_def)

lemma runs_preflight:
  assumes "quiet v cols mg"
  shows "runs (preflight_schema mg) w (\<lambda>_. same_view v w)"
proof -
  note qq = quietD [OF assms]
  have "set mvs \<subseteq> set (plan_moves (mg_plan mg)) \<Longrightarrow> \<exists>w'. preflight_moves mg seen mvs w = (Inr (), w')" for seen mvs w
  proof (induction mvs arbitrary: seen w)
    case (Cons m mvs)
    have m: "m \<in> set (plan_moves (mg_plan mg))" using Cons.prems by simp
    obtain cl where cl: "mg_clients mg (mv_from m) = Some cl" using move_table_ok(4) [OF qq(5) m] by blast
    obtain cs where cs: "list_all (\<lambda>(_, ty). \<not> is_binary_type (ex_dialect cl) ty) cs" "fst (source_columns cl (mv_table m) w) = Inr cs"
      using qq(9) m cl unfolding no_binary_columns_def by blast
    obtain w1 where w1: "source_columns cl (mv_table m) w = (Inr cs, w1)" using cs(2) by (cases "source_columns cl (mv_table m) w") auto
    have "for_each (\<lambda>(column, type_name). if is_binary_type (ex_dialect cl) type_name
        then Err (ShardConfig (binary_column (mv_table m) column type_name)) else Ok ()) cs = Inr ()"
      using cs(1) by (auto simp: for_each_Inr_iff list_all_iff)
    then show ?case using Cons cl w1 by (simp add: mig_client_def ok_or_def act_bind_def [of "source_columns cl (mv_table m)"])
  qed simp
  then show ?thesis using keepsD [OF preflight_keeps [OF qq(1)]] by (fastforce simp: runs_def preflight_schema_def)
qed

lemma backfilled_start: "copy_ready v cols mg w \<Longrightarrow> backfilled v mg w [] w"
  by (simp add: backfilled_def copied_state_def copy_readyD(4))

lemma backfilled_view:
  assumes "backfilled v mg w0 ms w" "same_view v w w'"
  shows "backfilled v mg w0 ms w'"
  using assms copied_state_rows by (auto simp: backfilled_def same_view_def)

lemma runs_schema: "quiet v cols mg \<Longrightarrow> runs (ensure_schema mg) w (\<lambda>_. same_view v w)"
proof -
  assume q: "quiet v cols mg"
  note live = quietD(4) [OF q]
  let ?f = "ex_execute (mg_state mg) (job_table_sql (ex_dialect (mg_state mg)))"
  have f: "is_ok (fst (?f w))" "same_view v w (snd (?f w))" using live by (simp_all add: state_live_def)
  then obtain x w' where "?f w = (Inr x, w')" using is_ok_pair by blast
  then show ?thesis using f(2) state_liveD(1) [OF live] by (simp add: ensure_schema_def runs_def act_bind_def act_map_err_def)
qed

lemma runs_backfill:
  assumes q: "quiet v cols mg" and ready: "copy_ready v cols mg w"
  shows "runs (backfill mg) w (\<lambda>_. backfilled v mg w (plan_moves (mg_plan mg)))"
  unfolding backfill_def
proof (rule runs_bind [OF runs_preflight [OF q]], rule runs_bind [OF runs_schema [OF q]], rule runs_bind [OF runs_fence(1) [OF q]])
  fix w1 w2 guard w3
  assume "same_view v w w1" "same_view v w1 w2" "same_view v w2 w3"
  then have "backfilled v mg w [] w3" using backfilled_view [OF backfilled_start [OF ready]] sv.kept_trans by metis
  from runs_run_backfill [OF q ready _ this, where ms = "plan_moves (mg_plan mg)"]
  obtain r w4 where w4: "run_backfill mg guard (plan_moves (mg_plan mg)) \<lparr> mr_moved_rows = 0, mr_chunks = 0, mr_verified = False \<rparr> w3 = (Inr r, w4)"
    "backfilled v mg w (plan_moves (mg_plan mg)) w4" by (simp add: runs_def) blast
  obtain w5 where "mig_release mg guard w4 = (Inr (), w5)" "same_view v w4 w5"
    using runs_fence(3) [OF q, of guard w4] by (auto simp: runs_def)
  then show "runs (\<lambda>w. case run_backfill mg guard (plan_moves (mg_plan mg)) \<lparr> mr_moved_rows = 0, mr_chunks = 0, mr_verified = False \<rparr> w of
      (outcome, w1) \<Rightarrow> case mig_release mg guard w1 of (released, w2) \<Rightarrow>
        (try_bind outcome (\<lambda>report. try_bind released (\<lambda>_. Ok report)), w2)) w3
    (\<lambda>_. backfilled v mg w (plan_moves (mg_plan mg)))"
    using w4 by (simp add: runs_def backfilled_view [OF w4(2)])
qed

end
