(* ===== verification/MigrationSuccess.thy ===== *)
theory MigrationSuccess
  imports MigrationRun
begin

text \<open>
  The second half of an undisturbed migration: verification accepts what the backfill has left and
  the cutover switches the router; and what a run that fails leaves.
\<close>

unbundle bit_operations_syntax

section \<open>Sums of scans\<close>

lemma add_stats_value:
  assumes "\<forall>r \<in> set rows. is_ok (sc r)" "n + length (filter (\<lambda>r. sc r = Inr True) rows) \<le> u64_max"
  shows "add_stats sc (en_text (mg_env mg)) rows (n, c) =
    Inr (n + length (filter (\<lambda>r. sc r = Inr True) rows), xor_rows mg (filter (\<lambda>r. sc r = Inr True) rows) c)"
  using assms
proof (induction rows arbitrary: n c)
  case (Cons r rows)
  obtain here where "sc r = Inr here" using Cons.prems(1) is_ok_Inr by auto
  then show ?case using Cons by (cases here) (auto simp: saturating_add_u64_def min_def)
qed simp

lemma runs_scan_stats:
  assumes q: "quiet v cols mg" and cl: "mg_clients mg s = Some cl" and t: "plan_table mg t" "rng \<in> plan_rngs mg"
  shows "table_laws v mg w \<Longrightarrow> readable v w s t rng \<Longrightarrow> L = filter (scanned v s t rng cursor) (tv_rows v w s (tbl_name t)) \<Longrightarrow>
    length L < n \<Longrightarrow> add_stats sc (en_text (mg_env mg)) L acc = Inr acc' \<Longrightarrow>
    runs (scan_stats mg cl t rng sc n cursor acc) w (\<lambda>x w'. x = acc' \<and> same_view v w w')"
proof (induction n arbitrary: w L cursor acc)
  case (Suc n)
  let ?J = "en_text (mg_env mg)" and ?k = "mg_chunk_size mg"
  note qq = quietD [OF q]
  show ?case unfolding scan_stats.simps
  proof (rule runs_bind [OF runs_scan [OF q cl t Suc.prems(2)]], elim conjE)
    fix batch w1
    assume w1: "same_view v w w1" and b: "batch = take ?k (filter (scanned v s t rng cursor) (tv_rows v w s (tbl_name t)))"
    have batch: "batch = take ?k L" using b Suc.prems(3) by simp
    show "runs (if batch = [] then act_ok acc else act_bind (act_lift (add_stats sc ?J batch acc)) (\<lambda>acc'.
       act_bind (act_lift (row_value (last batch) (tbl_pk t))) (\<lambda>pk. scan_stats mg cl t rng sc n (Some pk) acc'))) w1
       (\<lambda>x w'. x = acc' \<and> same_view v w w')"
    proof (cases "batch = []")
      case True
      then have "L = []" using batch qq(6) by simp
      then show ?thesis using True w1 Suc.prems(5) by simp
    next
      case False
      have "last batch \<in> set L" using False batch last_in_set in_set_takeD by metis
      then have "last batch \<in> set (tv_rows v w s (tbl_name t))" using Suc.prems(3) by simp
      then obtain p where p: "row_get (last batch) (tbl_pk t) = Some p"
        using Suc.prems(1) t(1) unfolding table_laws_def has_key_def by metis
      have "sorted_wrt (pk_lt v s t) (tv_rows v w s (tbl_name t))" using Suc.prems(1) t(1) by (simp add: table_laws_def)
      from scan_continues [OF qq(3) this b [symmetric] False p]
      have D: "drop ?k L = filter (scanned v s t rng (Some p)) (tv_rows v w1 s (tbl_name t))"
        using w1 Suc.prems(3) by (simp add: same_view_def)
      obtain acc1 where acc1: "add_stats sc ?J batch acc = Inr acc1" "add_stats sc ?J (drop ?k L) acc1 = Inr acc'"
        using Suc.prems(5) add_stats_append [of sc ?J batch "drop ?k L" acc] batch
        by (cases "add_stats sc ?J batch acc") auto
      have len: "length (drop ?k L) < n" using Suc.prems(4) False batch qq(6) by (cases L) auto
      have "table_laws v mg w1" "readable v w1 s t rng"
        using Suc.prems(1,2) w1 by (simp_all add: table_laws_def readable_def same_view_def)
      from Suc.IH [OF this D len acc1(2)]
      have "runs (scan_stats mg cl t rng sc n (Some p) acc1) w1 (\<lambda>x w'. x = acc' \<and> same_view v w w')"
        by (rule runs_mono) (use sv.kept_trans [OF w1] in auto)
      then show ?thesis using False acc1(1) p by (simp add: row_value_def ok_or_def)
    qed
  qed
qed simp

lemma xor_rows_add: "xor_rows mg rs c = c XOR xor_rows mg rs 0"
proof (induction rs arbitrary: c)
  case (Cons r rs)
  show ?case using Cons [of "c XOR row_hash mg r"] Cons [of "row_hash mg r"] by (simp add: ac_simps)
qed simp

lemma xor_rows_mset: "mset xs = mset ys \<Longrightarrow> xor_rows mg xs c = xor_rows mg ys c"
  unfolding xor_rows_def by (rule fun_cong [OF fold_multiset_equiv]) (auto simp: fun_eq_iff ac_simps)

section \<open>One group\<close>

text \<open>The backfill is complete and its jobs are open; the jobs of verified groups may say so.\<close>

definition open_job :: "'w mig_view \<Rightarrow> 'w migrator \<Rightarrow> 'w \<Rightarrow> 'w \<Rightarrow> shard_move \<Rightarrow> bool" where
  "open_job v mg w0 w m \<longleftrightarrow> (\<exists>job. tv_jobs v w (move_id m) = Some job \<and> job_rows job = length (scope_rows v mg w0 m) \<and>
     job_checksum job = xor_rows mg (scope_rows v mg w0 m) 0 \<and> job_phase job \<noteq> PhDone \<and> job_phase job \<noteq> PhRolledBack)"

definition accounted :: "'w mig_view \<Rightarrow> 'w migrator \<Rightarrow> 'w \<Rightarrow> 'w \<Rightarrow> bool" where
  "accounted v mg w0 w \<longleftrightarrow> copied_state v mg w0 (to_copy v mg w0) w \<and> jobs_fit v w \<and>
     (\<forall>m \<in> set (plan_moves (mg_plan mg)). open_job v mg w0 w m)"

lemma accounted_view: "accounted v mg w0 w \<Longrightarrow> same_view v w w' \<Longrightarrow> accounted v mg w0 w'"
  using copied_state_rows by (fastforce simp: accounted_def same_view_def jobs_fit_def open_job_def)

lemma backfilled_accounted:
  assumes "copy_ready v cols mg w0" "backfilled v mg w0 (plan_moves (mg_plan mg)) w"
  shows "accounted v mg w0 w"
proof -
  have "(SIGMA m:set (plan_moves (mg_plan mg)). set (scope_rows v mg w0 m)) = to_copy v mg w0" by (auto simp: to_copy_def)
  then show ?thesis using assms backfilled_fit [OF assms subset_refl]
    unfolding accounted_def backfilled_def open_job_def counts_def by (metis mig_phase.distinct)
qed

definition group_rows :: "'w mig_view \<Rightarrow> 'w migrator \<Rightarrow> 'w \<Rightarrow> shard_move list \<Rightarrow> db_row list" where
  "group_rows v mg w0 mvs = concat (map (scope_rows v mg w0) mvs)"

lemma runs_group_jobs:
  assumes q: "quiet v cols mg"
  shows "jobs_fit v w \<Longrightarrow> \<forall>m \<in> set mvs. open_job v mg w0 w m \<Longrightarrow> n + length (group_rows v mg w0 mvs) \<le> u64_max \<Longrightarrow>
    runs (group_jobs mg mvs (jobs, n, c, st)) w (\<lambda>x w'. same_view v w w' \<and>
      x = (jobs @ map (\<lambda>m. the (tv_jobs v w (move_id m))) mvs, n + length (group_rows v mg w0 mvs),
           xor_rows mg (group_rows v mg w0 mvs) c, st \<and> mvs = []))"
proof (induction mvs arbitrary: w jobs n c st)
  case (Cons m mvs)
  obtain job where job: "tv_jobs v w (move_id m) = Some job" "job_rows job = length (scope_rows v mg w0 m)"
    "job_checksum job = xor_rows mg (scope_rows v mg w0 m) 0" "job_phase job \<noteq> PhDone" "job_phase job \<noteq> PhRolledBack"
    using Cons.prems(2) by (auto simp: open_job_def)
  have c: "c XOR job_checksum job = xor_rows mg (scope_rows v mg w0 m) c" using job(3) xor_rows_add [of mg _ c] by simp
  have n: "saturating_add_u64 n (job_rows job) = n + length (scope_rows v mg w0 m)"
    using Cons.prems(3) job(2) by (simp add: saturating_add_u64_def group_rows_def)
  show ?case unfolding group_jobs.simps
  proof (rule runs_bind [OF runs_load [OF q Cons.prems(1)]], elim conjE)
    fix found w1
    assume w1: "found = tv_jobs v w (move_id m)" "same_view v w w1"
    have "jobs_fit v w1" "\<forall>m \<in> set mvs. open_job v mg w0 w1 m" "tv_jobs v w1 = tv_jobs v w"
      using Cons.prems(1,2) w1(2) by (auto simp: jobs_fit_def open_job_def same_view_def)
    then have "runs (group_jobs mg mvs (jobs @ [job], n + length (scope_rows v mg w0 m), xor_rows mg (scope_rows v mg w0 m) c, False)) w1
      (\<lambda>x w'. same_view v w w' \<and>
        x = (jobs @ map (\<lambda>m. the (tv_jobs v w (move_id m))) (m # mvs), n + length (group_rows v mg w0 (m # mvs)),
           xor_rows mg (group_rows v mg w0 (m # mvs)) c, False))"
      using Cons.prems(3) job(1) sv.kept_trans [OF w1(2)]
      by (intro runs_mono [OF Cons.IH]) (auto simp: group_rows_def)
    then show "runs (act_bind (act_lift (ok_or (ShardConfig (job_label m @ '' is missing; run backfill first'')) found)) (\<lambda>job.
        group_jobs mg mvs (jobs @ [job], saturating_add_u64 n (job_rows job), c XOR job_checksum job,
          st \<and> (job_phase job = PhDone \<or> job_phase job = PhRolledBack)))) w1
      (\<lambda>x w'. same_view v w w' \<and>
        x = (jobs @ map (\<lambda>m. the (tv_jobs v w (move_id m))) (m # mvs), n + length (group_rows v mg w0 (m # mvs)),
           xor_rows mg (group_rows v mg w0 (m # mvs)) c, st \<and> m # mvs = []))"
      using w1(1) job n c by (simp add: ok_or_def)
  qed
qed (simp add: runs_def group_rows_def)

lemma group_rows_le:
  assumes "mvs = filter P (plan_moves (mg_plan mg))" "copy_ready v cols mg w0"
  shows "length (group_rows v mg w0 mvs) \<le> u64_max" "m \<in> set mvs \<Longrightarrow> length (scope_rows v mg w0 m) \<le> u64_max"
proof -
  have "length (group_rows v mg w0 mvs) \<le> plan_rows v mg w0"
    using sum_list_filter_le [of "\<lambda>m. length (scope_rows v mg w0 m)" P] assms(1)
    by (simp add: group_rows_def plan_rows_def length_concat comp_def)
  moreover have "plan_rows v mg w0 \<le> u64_max" using copy_readyD(10) [OF assms(2)] by (simp add: i64_max_def u64_max_def)
  ultimately show "length (group_rows v mg w0 mvs) \<le> u64_max" by simp
  show "m \<in> set mvs \<Longrightarrow> length (scope_rows v mg w0 m) \<le> u64_max"
    using plan_rows_ge [of m mg v w0] \<open>plan_rows v mg w0 \<le> u64_max\<close> assms(1) by auto
qed

lemma runs_move_stats:
  assumes q: "quiet v cols mg" and ready: "copy_ready v cols mg w0" and st: "copied_state v mg w0 C w"
    and m: "m \<in> set (plan_moves (mg_plan mg))" "mg_clients mg (mv_from m) = Some cl" "length (scope_rows v mg w0 m) \<le> u64_max"
  shows "runs (scan_move_stats mg cl (move_table mg m) m) w
    (\<lambda>x w'. x = (length (scope_rows v mg w0 m), xor_rows mg (scope_rows v mg w0 m) 0) \<and> same_view v w w')"
proof -
  note qq = quietD [OF q]
  note mt = move_table_ok [OF qq(5) m(1)]
  let ?t = "move_table mg m" and ?rows = "tv_rows v w (mv_from m) (mv_table m)"
  let ?L = "filter (scanned v (mv_from m) ?t (mv_range m) None) ?rows"
  have good: "rows_good v cols mg w" by (rule rows_good_state [OF ready st])
  have S: "filter (\<lambda>r. routes_to mg m r = Inr True) ?L = scope_rows v mg w0 m"
    unfolding scope_stable [OF qq(3,5) ready st m(1), THEN sym] unfolding scope_rows_def scanned_start filter_filter
    by (rule filter_cong) (auto simp: in_scope_def)
  have "\<forall>r \<in> set ?L. is_ok (routes_to mg m r)" using good m(1) unfolding rows_good_def by auto
  from add_stats_value [OF this, of 0 mg 0]
  have add: "add_stats (routes_to mg m) (en_text (mg_env mg)) ?L (0, 0) = Inr (length (scope_rows v mg w0 m), xor_rows mg (scope_rows v mg w0 m) 0)"
    unfolding S using m(3) by simp
  have tl: "table_laws v mg w" using st by (simp add: copied_state_def)
  have rng: "mv_range m \<in> plan_rngs mg" using m by (simp add: plan_rngs_def)
  have rd: "readable v w (mv_from m) ?t (mv_range m)" using good m(1) mt(2) unfolding readable_def rows_good_def by auto
  have "length ?L < en_rounds (mg_env mg)"
    using rounds_enough [OF qq(3) ready st mt(3), of "mv_from m"] mt(2) length_filter_le [of _ ?rows] by (metis order_le_less_trans)
  then show ?thesis unfolding scan_move_stats_def
    using runs_scan_stats [OF q m(2) mt(3) rng tl rd _ _ add, of None] mt(2) by simp
qed

lemma runs_source_stats:
  assumes q: "quiet v cols mg" and ready: "copy_ready v cols mg w0"
  shows "copied_state v mg w0 C w \<Longrightarrow> set mvs \<subseteq> set (plan_moves (mg_plan mg)) \<Longrightarrow> \<forall>m \<in> set mvs. move_table mg m = t \<Longrightarrow>
    n + length (group_rows v mg w0 mvs) \<le> u64_max \<Longrightarrow>
    runs (source_stats mg t mvs (n, c)) w (\<lambda>x w'. x = (n + length (group_rows v mg w0 mvs), xor_rows mg (group_rows v mg w0 mvs) c) \<and> same_view v w w')"
proof (induction mvs arbitrary: w n c)
  case (Cons m mvs)
  have m: "m \<in> set (plan_moves (mg_plan mg))" "length (scope_rows v mg w0 m) \<le> u64_max" "move_table mg m = t"
    using Cons.prems by (auto simp: group_rows_def)
  obtain cl where cl: "mg_clients mg (mv_from m) = Some cl" using move_table_ok(4) [OF quietD(5) [OF q] m(1)] by blast
  have "runs (act_bind (scan_move_stats mg cl t m) (\<lambda>(rows, checksum).
      source_stats mg t mvs (saturating_add_u64 n rows, c XOR checksum))) w
    (\<lambda>x w'. x = (n + length (group_rows v mg w0 (m # mvs)), xor_rows mg (group_rows v mg w0 (m # mvs)) c) \<and> same_view v w w')"
  proof (rule runs_bind [OF runs_move_stats [OF q ready Cons.prems(1) m(1) cl m(2), unfolded m(3)]], elim conjE)
    fix x w1
    assume x: "x = (length (scope_rows v mg w0 m), xor_rows mg (scope_rows v mg w0 m) 0)" and w1: "same_view v w w1"
    have st: "copied_state v mg w0 C w1" using Cons.prems(1) w1 by (auto intro: copied_state_rows simp: same_view_def)
    have n: "saturating_add_u64 n (length (scope_rows v mg w0 m)) = n + length (scope_rows v mg w0 m)"
      using Cons.prems(4) by (simp add: saturating_add_u64_def group_rows_def)
    have c: "c XOR xor_rows mg (scope_rows v mg w0 m) 0 = xor_rows mg (scope_rows v mg w0 m) c" by (rule xor_rows_add [symmetric])
    have "runs (source_stats mg t mvs (n + length (scope_rows v mg w0 m), xor_rows mg (scope_rows v mg w0 m) c)) w1
      (\<lambda>x w'. x = (n + length (group_rows v mg w0 (m # mvs)), xor_rows mg (group_rows v mg w0 (m # mvs)) c) \<and> same_view v w w')"
      using Cons.prems(2-4) sv.kept_trans [OF w1] by (intro runs_mono [OF Cons.IH [OF st]]) (auto simp: group_rows_def)
    then show "runs (case x of (rows, checksum) \<Rightarrow> source_stats mg t mvs (saturating_add_u64 n rows, c XOR checksum)) w1
      (\<lambda>x w'. x = (n + length (group_rows v mg w0 (m # mvs)), xor_rows mg (group_rows v mg w0 (m # mvs)) c) \<and> same_view v w w')"
      using x n c by simp
  qed
  then show ?case using cl by (simp add: mig_client_def ok_or_def)
qed (simp add: runs_def group_rows_def)

lemma any_scope_value:
  assumes "\<forall>m \<in> set mvs. is_ok (routes_to mg m row) \<and> (mv_range m \<noteq> None \<longrightarrow> int_key t row) \<and> move_table mg m = t"
  shows "row_in_any_scope mg t mvs row = Inr (\<exists>m \<in> set mvs. in_scope mg m row)"
  using assms
proof (induction mvs)
  case (Cons m mvs)
  have IH: "row_in_any_scope mg t mvs row = Inr (\<exists>m \<in> set mvs. in_scope mg m row)"
    by (rule Cons.IH) (use Cons.prems in auto)
  obtain here where here: "routes_to mg m row = Inr here" using Cons.prems is_ok_Inr [of "routes_to mg m row"] by auto
  show ?case
  proof (cases "mv_range m")
    case None
    then show ?thesis using here IH Cons.prems by (simp add: in_scope_def)
  next
    case (Some r)
    obtain x k where k: "row_get row (tbl_key t) = Some x" "as_i64 x = Some k"
      using Cons.prems Some by (auto simp: int_key_def bind_eq_None_conv)
    then have "in_scope mg m row \<longleftrightarrow> in_interval (kr_low r) (kr_high r) k"
      using Some Cons.prems by (simp add: in_scope_def in_rng_def routes_to_def)
    then show ?thesis using k IH Some by (simp add: row_value_def ok_or_def in_interval_def [symmetric])
  qed
qed simp

lemma distinct_concat_map:
  assumes "distinct ms" "\<forall>m \<in> set ms. distinct (f m)"
    "\<forall>m \<in> set ms. \<forall>m' \<in> set ms. m \<noteq> m' \<longrightarrow> set (f m) \<inter> set (f m') = {}"
  shows "distinct (concat (map f ms))"
  using assms by (induction ms) auto

text \<open>What the target of a group holds in the scope of the group is what its moves have copied.\<close>

lemma target_is_group:
  assumes q: "quiet v cols mg" and ready: "copy_ready v cols mg w0" and st: "copied_state v mg w0 (to_copy v mg w0) w"
    and mvs: "mvs = filter (\<lambda>m. mv_table m = tn \<and> mv_to m = s) (plan_moves (mg_plan mg))" "plan_table mg t" "tbl_name t = tn"
  shows "mset (filter (\<lambda>r. \<exists>m \<in> set mvs. in_scope mg m r) (tv_rows v w s tn)) = mset (group_rows v mg w0 mvs)"
proof -
  let ?T = "filter (\<lambda>r. \<exists>m \<in> set mvs. in_scope mg m r) (tv_rows v w s tn)"
  note qq = quietD [OF q]
  have srt: "sorted_wrt (pk_lt v s' t) (tv_rows v w' s' tn)" if "table_laws v mg w'" for w' s'
    using that mvs(2,3) by (auto simp: table_laws_def)
  have dist: "distinct (tv_rows v w' s' tn)" if "table_laws v mg w'" for w' s'
    by (rule sorted_distinct [OF pk_lt_strict(1) [OF qq(3)] srt [OF that]])
  have "distinct (group_rows v mg w0 mvs)" unfolding group_rows_def
  proof (rule distinct_concat_map)
    show "distinct mvs" using copy_readyD(1) [OF ready] mvs(1) by (simp add: distinct_map)
    show "\<forall>m \<in> set mvs. distinct (scope_rows v mg w0 m)"
      using dist [OF copy_readyD(4) [OF ready]] mvs(1) by (auto simp: scope_rows_def)
    show "\<forall>m \<in> set mvs. \<forall>m' \<in> set mvs. m \<noteq> m' \<longrightarrow> set (scope_rows v mg w0 m) \<inter> set (scope_rows v mg w0 m') = {}"
      using copy_readyD(7) [OF ready] mvs(1) unfolding moves_disjoint_def same_group_def by fastforce
  qed
  moreover have "distinct ?T" using dist st by (auto simp: copied_state_def)
  moreover have "set ?T = set (group_rows v mg w0 mvs)"
  proof (intro equalityI subsetI)
    fix r
    assume "r \<in> set ?T"
    then obtain m where m: "m \<in> set mvs" "in_scope mg m r" and r: "r \<in> set (tv_rows v w s tn)" by auto
    consider "r \<in> set (tv_rows v w0 s tn)" | m' where "(m', r) \<in> to_copy v mg w0" "mv_to m' = s" "mv_table m' = tn"
      using r st by (auto simp: copied_state_def)
    then have "\<exists>m' \<in> set mvs. r \<in> set (scope_rows v mg w0 m')"
    proof cases
      case 1
      have "m \<in> set (plan_moves (mg_plan mg))" "mv_to m = s" "mv_table m = tn" using m(1) mvs(1) by auto
      then obtain m' where "m' \<in> set (plan_moves (mg_plan mg))" "same_group m m'" "r \<in> set (scope_rows v mg w0 m')"
        using copy_readyD(9) [OF ready] 1 m(2) unfolding targets_covered_def by metis
      then show ?thesis using \<open>mv_to m = s\<close> \<open>mv_table m = tn\<close> mvs(1) by (auto simp: same_group_def)
    next
      case (2 m')
      then show ?thesis using mvs(1) by (auto simp: to_copy_def)
    qed
    then show "r \<in> set (group_rows v mg w0 mvs)" by (simp add: group_rows_def)
  next
    fix r
    assume "r \<in> set (group_rows v mg w0 mvs)"
    then obtain m where m: "m \<in> set mvs" "r \<in> set (scope_rows v mg w0 m)" by (auto simp: group_rows_def)
    then have "(m, r) \<in> to_copy v mg w0" "mv_to m = s" "mv_table m = tn" using mvs(1) by (auto simp: to_copy_def)
    then have "r \<in> set (tv_rows v w s tn)" using st unfolding copied_state_def by blast
    then show "r \<in> set ?T" using m by (auto dest: scope_rowsD)
  qed
  ultimately show ?thesis using set_eq_iff_mset_eq_distinct by blast
qed

lemma runs_target_stats:
  assumes q: "quiet v cols mg" and ready: "copy_ready v cols mg w0" and st: "copied_state v mg w0 (to_copy v mg w0) w"
    and mvs: "mvs = filter (\<lambda>m. mv_table m = tn \<and> mv_to m = s) (plan_moves (mg_plan mg))" "mvs \<noteq> []"
      "\<forall>m \<in> set mvs. move_table mg m = t" and cl: "mg_clients mg s = Some cl"
  shows "runs (scan_target_stats mg cl t mvs) w
    (\<lambda>x w'. x = (length (group_rows v mg w0 mvs), xor_rows mg (group_rows v mg w0 mvs) 0) \<and> same_view v w w')"
proof -
  note qq = quietD [OF q]
  obtain m where m: "m \<in> set mvs" "m \<in> set (plan_moves (mg_plan mg))" "mv_table m = tn"
    using mvs(1) list.set_sel(1) [OF mvs(2)] by auto
  note mt = move_table_ok [OF qq(5) m(2)]
  have t: "plan_table mg t" "tbl_name t = tn" using mt(2,3) m mvs(3) by auto
  let ?rows = "tv_rows v w s tn" and ?sc = "row_in_any_scope mg t mvs"
  have good: "rows_good v cols mg w" by (rule rows_good_state [OF ready st])
  have val: "?sc r = Inr (\<exists>m \<in> set mvs. in_scope mg m r)" if "r \<in> set ?rows" for r
    using good that mvs(1,3) unfolding rows_good_def by (intro any_scope_value) auto
  have T: "filter (\<lambda>r. ?sc r = Inr True) ?rows = filter (\<lambda>r. \<exists>m \<in> set mvs. in_scope mg m r) ?rows"
    by (rule filter_cong) (auto simp: val)
  note ms = target_is_group [OF q ready st mvs(1) t]
  have "\<forall>r \<in> set ?rows. is_ok (?sc r)" by (simp add: val)
  from add_stats_value [OF this, of 0 mg 0]
  have add: "add_stats ?sc (en_text (mg_env mg)) ?rows (0, 0) = Inr (length (group_rows v mg w0 mvs), xor_rows mg (group_rows v mg w0 mvs) 0)"
    unfolding T using group_rows_le(1) [OF mvs(1) ready] mset_eq_length [OF ms] xor_rows_mset [OF ms] by simp
  have tl: "table_laws v mg w" using st by (simp add: copied_state_def)
  have "length ?rows < en_rounds (mg_env mg)" using rounds_enough [OF qq(3) ready st t(1), of s] t(2) by simp
  moreover have "?rows = filter (scanned v s t None None) (tv_rows v w s (tbl_name t))" using t(2) by (simp add: scanned_start)
  ultimately show ?thesis unfolding scan_target_stats_def
    by (intro runs_scan_stats [OF q cl t(1) _ tl _ _ _ add]) (simp_all add: plan_rngs_def readable_def)
qed

section \<open>Verification and cutover\<close>

definition with_phase :: "mig_phase \<Rightarrow> string set \<Rightarrow> (string \<Rightarrow> job_state option) \<Rightarrow> string \<Rightarrow> job_state option" where
  "with_phase ph I jobs i = (if i \<in> I then map_option (\<lambda>job. job\<lparr>job_phase := ph\<rparr>) (jobs i) else jobs i)"

lemma with_phase_simps [simp]:
  "with_phase ph {} jobs = jobs" "with_phase ph I (with_phase ph K jobs) = with_phase ph (I \<union> K) jobs"
  by (auto simp: with_phase_def fun_eq_iff option.map_comp comp_def)

lemma update_with_phase:
  "jobs i = Some job \<Longrightarrow> update_job i (job\<lparr>job_phase := ph\<rparr>) jobs = with_phase ph {i} jobs"
  by (auto simp: update_job_def with_phase_def)

definition rephased :: "'w mig_view \<Rightarrow> mig_phase \<Rightarrow> shard_move list \<Rightarrow> 'w \<Rightarrow> 'w \<Rightarrow> bool" where
  "rephased v ph ms w w' \<longleftrightarrow> tv_rows v w' = tv_rows v w \<and> tv_jobs v w' = with_phase ph (move_id ` set ms) (tv_jobs v w)"

lemma rephased_fit: "rephased v ph ms w w' \<Longrightarrow> jobs_fit v w \<Longrightarrow> jobs_fit v w'"
  by (auto simp: rephased_def jobs_fit_def with_phase_def split: if_splits)

lemma rephased_append: "rephased v ph ms w w1 \<Longrightarrow> rephased v ph ms' w1 w2 \<Longrightarrow> rephased v ph (ms @ ms') w w2"
  by (simp add: rephased_def image_Un Un_commute)

lemma rephased_accounted: "rephased v PhVerified ms w w' \<Longrightarrow> accounted v mg w0 w \<Longrightarrow> accounted v mg w0 w'"
  using copied_state_rows rephased_fit [of v PhVerified ms w w']
  by (fastforce simp: accounted_def rephased_def open_job_def with_phase_def)

lemma runs_save_phase:
  assumes "quiet v cols mg" "tv_jobs v w (move_id m) = Some job" "jobs_fit v w"
  shows "runs (save_job mg m (job\<lparr>job_phase := ph\<rparr>)) w (\<lambda>_. rephased v ph [m] w)"
  using assms(2,3) by (intro runs_mono [OF runs_save [OF assms(1)]]) (auto simp: rephased_def update_with_phase jobs_fit_def)

lemma runs_mark_verified:
  assumes "quiet v cols mg"
  shows "distinct (map move_id ms) \<Longrightarrow> jobs_fit v w \<Longrightarrow> \<forall>m \<in> set ms. tv_jobs v w (move_id m) \<noteq> None \<Longrightarrow>
    runs (mark_verified mg (zip ms (map (\<lambda>m. the (tv_jobs v w (move_id m))) ms))) w (\<lambda>_. rephased v PhVerified ms w)"
proof (induction ms arbitrary: w)
  case (Cons m ms)
  obtain job where job: "tv_jobs v w (move_id m) = Some job" using Cons.prems(3) by auto
  have "runs (act_bind (save_job mg m (job\<lparr>job_phase := PhVerified\<rparr>)) (\<lambda>_.
    mark_verified mg (zip ms (map (\<lambda>m. the (tv_jobs v w (move_id m))) ms)))) w (\<lambda>_. rephased v PhVerified (m # ms) w)"
  proof (rule runs_bind [OF runs_save_phase [OF assms job Cons.prems(2)]])
    fix w1
    assume w1: "rephased v PhVerified [m] w w1"
    have same: "tv_jobs v w1 (move_id m') = tv_jobs v w (move_id m')" if "m' \<in> set ms" for m'
      using w1 that Cons.prems(1) by (auto simp: rephased_def with_phase_def image_iff)
    then have eq: "map (\<lambda>m. the (tv_jobs v w (move_id m))) ms = map (\<lambda>m. the (tv_jobs v w1 (move_id m))) ms" by simp
    show "runs (mark_verified mg (zip ms (map (\<lambda>m. the (tv_jobs v w (move_id m))) ms))) w1 (\<lambda>_. rephased v PhVerified (m # ms) w)"
      unfolding eq
      using Cons.prems same rephased_fit [OF w1] rephased_append [OF w1]
      by (intro runs_mono [OF Cons.IH]) auto
  qed
  then show ?case using job by simp
qed (simp add: runs_def rephased_def)

lemma runs_mark_moves:
  assumes "quiet v cols mg"
  shows "jobs_fit v w \<Longrightarrow> runs (mark_moves mg ph ms) w (\<lambda>_. rephased v ph ms w)"
proof (induction ms arbitrary: w)
  case (Cons m ms)
  show ?case unfolding mark_moves.simps
  proof (rule runs_bind [OF runs_load [OF assms Cons.prems]], elim conjE, rule runs_bind)
    fix found w1
    assume w1: "found = tv_jobs v w (move_id m)" "same_view v w w1"
    have fit: "jobs_fit v w1" using Cons.prems w1(2) by (simp add: jobs_fit_def same_view_def)
    have view: "rephased v ph ms' w w'" if "rephased v ph ms' w1 w'" for ms' w' using that w1(2) by (simp add: rephased_def same_view_def)
    show "runs (case found of None \<Rightarrow> act_ok () | Some job \<Rightarrow> save_job mg m (job\<lparr>job_phase := ph\<rparr>)) w1 (\<lambda>_. rephased v ph [m] w)"
    proof (cases found)
      case None
      then show ?thesis using w1 by (auto simp: rephased_def same_view_def with_phase_def fun_eq_iff)
    next
      case (Some job)
      then have "tv_jobs v w1 (move_id m) = Some job" using w1 by (simp add: same_view_def)
      from runs_save_phase [OF assms this fit] show ?thesis using Some view by (auto intro: runs_mono)
    qed
    fix w2
    assume w2: "rephased v ph [m] w w2"
    show "runs (mark_moves mg ph ms) w2 (\<lambda>_. rephased v ph (m # ms) w)"
      using Cons.IH [OF rephased_fit [OF w2 Cons.prems]] rephased_append [OF w2] by (auto intro: runs_mono)
  qed
qed (simp add: runs_def rephased_def)

lemma rephased_view: "same_view v w w1 \<Longrightarrow> rephased v ph ms w1 w2 \<Longrightarrow> rephased v ph ms w w2"
  by (simp add: rephased_def same_view_def)

lemma runs_verify_group:
  assumes q: "quiet v cols mg" and ready: "copy_ready v cols mg w0" and acc: "accounted v mg w0 w"
    and mvs: "mvs = filter (\<lambda>m. mv_table m = tn \<and> mv_to m = s) (plan_moves (mg_plan mg))" "mvs \<noteq> []"
  shows "runs (verify_group mg ((tn, s), mvs)) w (\<lambda>_. rephased v PhVerified mvs w)"
proof -
  note qq = quietD [OF q]
  let ?G = "group_rows v mg w0 mvs" and ?jobs = "map (\<lambda>m. the (tv_jobs v w (move_id m))) mvs"
  define t where "t = move_table mg (hd mvs)"
  have sub: "set mvs \<subseteq> set (plan_moves (mg_plan mg))" "\<forall>m \<in> set mvs. mv_table m = tn \<and> mv_to m = s" using mvs(1) by auto
  have hd: "hd mvs \<in> set mvs" using mvs(2) by simp
  have tt: "\<forall>m \<in> set mvs. move_table mg m = t" using sub(2) hd by (simp add: t_def move_table_def)
  have ct: "catalog_table (mg_new mg) tn = Inr t" using move_table_ok(1) [OF qq(5), of "hd mvs"] hd sub by (auto simp: t_def)
  obtain cl where cl: "mg_clients mg s = Some cl" using move_table_ok(5) [OF qq(5), of "hd mvs"] hd sub by auto
  have st: "copied_state v mg w0 (to_copy v mg w0) w'" "accounted v mg w0 w'" if "same_view v w w'" for w'
    using accounted_view [OF acc that] by (auto simp: accounted_def)
  have oj: "jobs_fit v w" "\<forall>m \<in> set mvs. open_job v mg w0 w m" using acc sub(1) by (auto simp: accounted_def)
  have le: "0 + length ?G \<le> u64_max" using group_rows_le(1) [OF mvs(1) ready] by simp
  have dist: "distinct (map move_id mvs)" using copy_readyD(1) [OF ready] mvs(1) by (simp add: distinct_map_filter)
  have body: "runs (act_bind (source_stats mg t mvs (0, 0)) (\<lambda>src.
        act_bind (scan_target_stats mg cl t mvs) (\<lambda>tgt.
        if src \<noteq> (length ?G, xor_rows mg ?G 0) then act_err (e1 src)
        else if src \<noteq> tgt then act_err (e2 src tgt) else mark_verified mg (zip mvs ?jobs)))) w1 (\<lambda>_. rephased v PhVerified mvs w)"
    if w1: "same_view v w w1" for w1 e1 e2
  proof (rule runs_bind [OF runs_source_stats [OF q ready st(1) [OF w1] sub(1) tt le]], elim conjE,
      rule runs_bind [OF runs_target_stats [OF q ready st(1) mvs tt cl]])
    fix src w2 tgt w3
    assume a: "src = (0 + length ?G, xor_rows mg ?G 0)" "same_view v w1 w2"
    show w2: "same_view v w w2" by (rule sv.kept_trans [OF w1 a(2)])
    assume b: "tgt = (length ?G, xor_rows mg ?G 0) \<and> same_view v w2 w3"
    then have w3: "same_view v w w3" using sv.kept_trans [OF w2] by blast
    then have jobs: "?jobs = map (\<lambda>m. the (tv_jobs v w3 (move_id m))) mvs" "jobs_fit v w3" "\<forall>m \<in> set mvs. tv_jobs v w3 (move_id m) \<noteq> None"
      using oj by (auto simp: same_view_def jobs_fit_def open_job_def)
    show "runs (if src \<noteq> (length ?G, xor_rows mg ?G 0) then act_err (e1 src)
        else if src \<noteq> tgt then act_err (e2 src tgt) else mark_verified mg (zip mvs ?jobs)) w3 (\<lambda>_. rephased v PhVerified mvs w)"
      using runs_mono [OF runs_mark_verified [OF q dist jobs(2,3)]] rephased_view [OF w3] a(1) b unfolding jobs(1) by simp
  qed
  show ?thesis unfolding verify_group_def Let_def fst_conv snd_conv ct act_bind_lift
  proof (rule runs_bind [OF runs_group_jobs [OF q oj le]], elim conjE, goal_cases)
    case (1 x w1)
    have "mig_client mg s = Inr cl" using cl by (simp add: mig_client_def ok_or_def)
    then show ?case unfolding 1 using mvs(2) by (simp only: append_Nil split simp_thms if_False act_bind_lift add_0) (rule body [OF 1(1)])
  qed
qed

lemma runs_verify_groups:
  assumes q: "quiet v cols mg" and ready: "copy_ready v cols mg w0"
  shows "accounted v mg w0 w \<Longrightarrow>
    \<forall>g \<in> set gs. \<exists>tn s. g = ((tn, s), filter (\<lambda>m. mv_table m = tn \<and> mv_to m = s) (plan_moves (mg_plan mg))) \<and> snd g \<noteq> [] \<Longrightarrow>
    runs (verify_groups mg gs) w (\<lambda>_. rephased v PhVerified (concat (map snd gs)) w)"
proof (induction gs arbitrary: w)
  case (Cons g gs)
  obtain tn s mvs where g: "g = ((tn, s), mvs)" "mvs = filter (\<lambda>m. mv_table m = tn \<and> mv_to m = s) (plan_moves (mg_plan mg))" "mvs \<noteq> []"
    using Cons.prems(2) by force
  show ?case unfolding verify_groups.simps g(1)
  proof (rule runs_bind [OF runs_verify_group [OF q ready Cons.prems(1) g(2,3)]])
    fix w1
    assume w1: "rephased v PhVerified mvs w w1"
    show "runs (verify_groups mg gs) w1 (\<lambda>_. rephased v PhVerified (concat (map snd (((tn, s), mvs) # gs))) w)"
      using Cons.prems(2) rephased_append [OF w1]
      by (intro runs_mono [OF Cons.IH [OF rephased_accounted [OF w1 Cons.prems(1)]]]) auto
  qed
qed (simp add: runs_def rephased_def)

lemma groups_cover: "set (concat (map snd (mig_groups ms))) = set ms"
  by (auto simp: mig_groups_def)

lemma runs_verify:
  assumes q: "quiet v cols mg" and ready: "copy_ready v cols mg w0" and acc: "accounted v mg w0 w"
  shows "runs (verify mg) w (\<lambda>_. rephased v PhVerified (plan_moves (mg_plan mg)) w)"
  unfolding verify_def
proof (rule runs_bind [OF runs_preflight [OF q]])
  fix w1
  assume w1: "same_view v w w1"
  let ?ms = "plan_moves (mg_plan mg)"
  have "\<forall>g \<in> set (mig_groups ?ms). \<exists>tn s. g = ((tn, s), filter (\<lambda>m. mv_table m = tn \<and> mv_to m = s) ?ms) \<and> snd g \<noteq> []"
    by (auto simp: mig_groups_def filter_empty_conv)
  from runs_verify_groups [OF q ready accounted_view [OF acc w1] this]
  show "runs (verify_groups mg (mig_groups ?ms)) w1 (\<lambda>_. rephased v PhVerified ?ms w)"
  proof (rule runs_mono)
    fix w2
    assume "rephased v PhVerified (concat (map snd (mig_groups ?ms))) w1 w2"
    then have "rephased v PhVerified ?ms w1 w2" using groups_cover [of ?ms] by (simp add: rephased_def)
    then show "rephased v PhVerified ?ms w w2" by (rule rephased_view [OF w1])
  qed
qed

lemma runs_check_verified:
  assumes q: "quiet v cols mg"
  shows "jobs_fit v w \<Longrightarrow> \<forall>m \<in> set ms. \<exists>job. tv_jobs v w (move_id m) = Some job \<and> job_phase job = PhVerified \<Longrightarrow>
    runs (check_verified mg ms) w (\<lambda>_. same_view v w)"
proof (induction ms arbitrary: w)
  case (Cons m ms)
  show ?case unfolding check_verified.simps
  proof (rule runs_bind [OF runs_load [OF q Cons.prems(1)]], elim conjE, goal_cases)
    case (1 found w1)
    have "jobs_fit v w1" "\<forall>m \<in> set ms. \<exists>job. tv_jobs v w1 (move_id m) = Some job \<and> job_phase job = PhVerified"
      using Cons.prems 1(2) by (auto simp: jobs_fit_def same_view_def)
    from runs_mono [OF Cons.IH [OF this], of "\<lambda>_. same_view v w"] show ?case
      using Cons.prems(2) 1 sv.kept_trans [OF 1(2)] by (auto simp: ok_or_def)
  qed
qed (simp add: runs_def)

lemma runs_on_fst: "runs f s Q \<Longrightarrow> runs (on_fst f) (s, t) (\<lambda>x st. Q x (fst st) \<and> snd st = t)"
  by (auto simp: runs_def on_fst_def)

lemma runs_on_snd: "runs f t Q \<Longrightarrow> runs (on_snd f) (s, t) (\<lambda>x st. Q x (snd st) \<and> fst st = s)"
  by (auto simp: runs_def on_snd_def)

lemma runs_cutover:
  assumes q: "quiet v cols mg" and fit: "jobs_fit v w"
    and ver: "\<forall>m \<in> set (plan_moves (mg_plan mg)). \<exists>job. tv_jobs v w (move_id m) = Some job \<and> job_phase job = PhVerified"
    and cat: "validate c = Ok ()" "validate_clients c (rt_clients r) = Ok ()"
  shows "runs (cutover mg c) (w, r) (\<lambda>_ st. rephased v PhDone (plan_moves (mg_plan mg)) w (fst st) \<and> snd st = r\<lparr>rt_catalog := c\<rparr>)"
  unfolding cutover_def
proof (rule runs_bind [OF runs_on_fst [OF runs_preflight [OF q]]], elim conjE, goal_cases)
  case (1 x st)
  obtain w1 where st: "st = (w1, r)" and w1: "same_view v w w1" using 1 by (cases st) auto
  have s1: "jobs_fit v w1" "\<forall>m \<in> set (plan_moves (mg_plan mg)). \<exists>job. tv_jobs v w1 (move_id m) = Some job \<and> job_phase job = PhVerified"
    using fit ver w1 by (auto simp: jobs_fit_def same_view_def)
  have load: "runs (router_reload c) r (\<lambda>_ r'. r' = r\<lparr>rt_catalog := c\<rparr>)"
    using cat by (simp add: router_reload_def runs_def)
  show ?case unfolding st
  proof (rule runs_bind [OF runs_on_fst [OF runs_check_verified [OF q s1]]], elim conjE, goal_cases)
    case (1 y st2)
    obtain w2 where st2: "st2 = (w2, r)" and w2: "same_view v w1 w2" using 1 by (cases st2) auto
    have "jobs_fit v w2" using s1(1) w2 by (simp add: jobs_fit_def same_view_def)
    note mark = runs_on_fst [OF runs_mark_moves [OF q this, of PhDone "plan_moves (mg_plan mg)"], of "r\<lparr>rt_catalog := c\<rparr>"]
    have view: "same_view v w w2" by (rule sv.kept_trans [OF w1 w2])
    show ?case unfolding st2
      by (rule runs_bind [OF runs_on_snd [OF load]])
        (use mark rephased_view [OF view] in \<open>auto intro: runs_mono\<close>)
  qed
qed

section \<open>Failing runs\<close>

lemma check_verified_keeps: "read_laws v mg \<Longrightarrow> keeps (same_view v) (check_verified mg ms)"
  by (induction mg ms rule: check_verified.induct) (auto intro!: sv.keeps_intros load_job_keeps)

lemma check_verified_Ok:
  assumes "read_laws v mg"
  shows "jobs_fit v w \<Longrightarrow> check_verified mg ms w = (Inr (), w') \<Longrightarrow>
    \<forall>m \<in> set ms. \<exists>job. tv_jobs v w (move_id m) = Some job \<and> (job_phase job = PhVerified \<or> job_phase job = PhDone)"
proof (induction ms arbitrary: w)
  case (Cons m ms)
  obtain job w1 where j: "load_job mg (move_id m) w = (Inr (Some job), w1)" "job_phase job = PhVerified \<or> job_phase job = PhDone"
    "check_verified mg ms w1 = (Inr (), w')"
    using Cons.prems(2) by (auto simp: act_inv ok_or_Inr_iff split: if_splits)
  have w1: "same_view v w w1" by (rule keepsD [OF load_job_keeps [OF assms] j(1)])
  have "tv_jobs v w (move_id m) = Some job" using load_job_found [OF assms Cons.prems(1) j(1)] by simp
  moreover have "\<forall>m \<in> set ms. \<exists>job. tv_jobs v w1 (move_id m) = Some job \<and> (job_phase job = PhVerified \<or> job_phase job = PhDone)"
    using Cons.IH [OF _ j(3)] Cons.prems(1) w1 by (simp add: jobs_fit_def same_view_def)
  ultimately show ?case using j(2) w1 by (simp add: same_view_def)
qed simp

definition same_rows :: "'w mig_view \<Rightarrow> 'w \<Rightarrow> 'w \<Rightarrow> bool" where
  "same_rows v w w' \<longleftrightarrow> tv_rows v w' = tv_rows v w"

interpretation sr: kept_relation "same_rows v" for v
  by unfold_locales (simp_all add: same_rows_def)

lemma mark_moves_keeps: "read_laws v mg \<Longrightarrow> job_laws v mg \<Longrightarrow> keeps (same_rows v) (mark_moves mg ph ms)"
proof (induction mg ph ms rule: mark_moves.induct)
  case (2 mg ph m ms)
  have "keeps (same_rows v) (load_job mg i)" for i
    using load_job_keeps [OF 2(2)] by (simp add: keeps_def same_view_def same_rows_def)
  moreover have "keeps (same_rows v) (save_job mg m job)" for job
    using save_job_effect(1) [OF 2(3)] by (simp add: keeps_def same_rows_def)
  ultimately show ?case using 2 by (auto intro!: sr.keeps_intros split: option.split)
qed (simp add: sr.keeps_ok)

end
