(* ===== verification/MigrationProps.thy ===== *)
theory MigrationProps
  imports MigrationSuccess
begin

text \<open>
  The properties of the migration executor, with witnesses on a database in memory.
\<close>

section \<open>Properties\<close>

text \<open>
  C28. An undisturbed migration succeeds: from a state that is ready, when the statements and the fence
  work, backfill, verification and cutover return \<^verbatim>\<open>Ok\<close> one after the other. Then every row in the scope
  of a move is in the target of the move, no row has been lost, the rows added are rows of the
  plan, every job is done and has counted the rows of its move, and the router has the new
  catalog. In particular the loops end within their rounds.
\<close>

theorem migration_succeeds:
  assumes quiet: "quiet v cols mg" and ready: "copy_ready v cols mg w"
    and router: "validate_clients (mg_new mg) (rt_clients r) = Ok ()"
  shows "\<exists>report w1 w2 w3 r'. backfill mg w = (Ok report, w1) \<and> verify mg w1 = (Ok (), w2) \<and>
    cutover mg (mg_new mg) (w2, r) = (Ok (), (w3, r')) \<and> r' = r\<lparr>rt_catalog := mg_new mg\<rparr> \<and>
    (\<forall>s n. set (tv_rows v w3 s n) = set (tv_rows v w s n) \<union>
       {row. \<exists>m \<in> set (plan_moves (mg_plan mg)). mv_to m = s \<and> mv_table m = n \<and> row \<in> set (scope_rows v mg w m)}) \<and>
    (\<forall>m \<in> set (plan_moves (mg_plan mg)). \<exists>job. tv_jobs v w3 (move_id m) = Some job \<and> job_phase job = PhDone \<and>
       job_rows job = length (scope_rows v mg w m))"
proof -
  let ?ms = "plan_moves (mg_plan mg)"
  obtain report w1 where w1: "backfill mg w = (Inr report, w1)" "backfilled v mg w ?ms w1"
    using runs_backfill [OF quiet ready] by (auto simp: runs_def)
  have a1: "accounted v mg w w1" by (rule backfilled_accounted [OF ready w1(2)])
  obtain w2 where w2: "verify mg w1 = (Inr (), w2)" "rephased v PhVerified ?ms w1 w2"
    using runs_verify [OF quiet ready a1] by (auto simp: runs_def)
  have a2: "accounted v mg w w2" by (rule rephased_accounted [OF w2(2) a1])
  then have fit: "jobs_fit v w2" by (simp add: accounted_def)
  have "\<exists>job. tv_jobs v w2 (move_id m) = Some job \<and> job_phase job = PhVerified" if "m \<in> set ?ms" for m
    using that w2(2) a1 by (auto simp: rephased_def with_phase_def accounted_def open_job_def)
  then obtain w3 r' where w3: "cutover mg (mg_new mg) (w2, r) = (Inr (), (w3, r'))" "rephased v PhDone ?ms w2 w3" "r' = r\<lparr>rt_catalog := mg_new mg\<rparr>"
    using runs_cutover [OF quiet fit _ _ router] quietD(5) [OF quiet] by (auto simp: runs_def migrator_ok_def)
  have "copied_state v mg w (to_copy v mg w) w3" using a2 w3(2) by (auto simp: accounted_def rephased_def intro: copied_state_rows)
  then have "set (tv_rows v w3 s n) = set (tv_rows v w s n) \<union>
       {row. \<exists>m \<in> set ?ms. mv_to m = s \<and> mv_table m = n \<and> row \<in> set (scope_rows v mg w m)}" for s n
    unfolding copied_state_def to_copy_def by auto
  moreover have "\<exists>job. tv_jobs v w3 (move_id m) = Some job \<and> job_phase job = PhDone \<and> job_rows job = length (scope_rows v mg w m)"
    if "m \<in> set ?ms" for m
    using that w3(2) a2 by (auto simp: rephased_def with_phase_def accounted_def open_job_def)
  ultimately show ?thesis using w1(1) w2(1) w3(1,3) by auto
qed

text \<open>
  C29. A resharding that keeps a shard cannot be verified. The plan of full copies has a move from the
  kept shard to itself besides the moves into it from the other shards. If another source holds a
  row that the new topology routes to the kept shard, and the job of that move is not settled,
  verification fails whatever the backfill has done: once copied, the row is counted in both
  sources and only once in the target.
\<close>

theorem kept_shard_never_verifies:
  assumes laws: "verify_laws v mg w"
    and plan: "\<forall>mv \<in> set (plan_moves (mg_plan mg)). mv_range mv = None" "plan_table mg t"
      "kept \<in> set (plan_moves (mg_plan mg))" "other \<in> set (plan_moves (mg_plan mg))"
      "mv_table kept = tbl_name t" "mv_table other = tbl_name t"
      "mv_from kept = shard" "mv_to kept = shard" "mv_to other = shard" "mv_from other \<noteq> shard"
    and row: "row \<in> set (tv_rows v w (mv_from other) (tbl_name t))" "routes_to mg other row = Ok True"
    and open_job: "job_open v w other"
    and few: "(\<Sum>mv\<leftarrow>plan_moves (mg_plan mg). length (tv_rows v w (mv_from mv) (tbl_name t))) < u64_max"
  shows "\<not> is_ok (fst (verify mg w))"
proof
  let ?mvs = "group_of mg other"
  assume "is_ok (fst (verify mg w))"
  then obtain w' where ok: "verify mg w = (Inr (), w')" by (cases "verify mg w") (auto simp: is_ok_def split: sum.splits)
  have mem: "kept \<in> set ?mvs" "other \<in> set ?mvs" "kept \<noteq> other" using plan by (auto simp: group_of_def)
  have eq: "min (\<Sum>mv\<leftarrow>?mvs. move_count v mg w t mv) u64_max =
    min (scope_count (row_in_any_scope mg t ?mvs) (tv_rows v w shard (tbl_name t))) u64_max"
    using verify_counts [OF laws ok plan(4,2) plan(6) [symmetric] open_job] plan(1,9) by (auto simp: readable_def group_of_def)
  have "move_count v mg w t mv \<le> length (tv_rows v w (mv_from mv) (tbl_name t))" for mv
    unfolding move_count_def by (rule order_trans [OF scope_count_le length_filter_le])
  then have "(\<Sum>mv\<leftarrow>?mvs. move_count v mg w t mv) \<le> (\<Sum>mv\<leftarrow>?mvs. length (tv_rows v w (mv_from mv) (tbl_name t)))"
    by (intro sum_list_mono) simp
  moreover have "\<dots> \<le> (\<Sum>mv\<leftarrow>plan_moves (mg_plan mg). length (tv_rows v w (mv_from mv) (tbl_name t)))"
    unfolding group_of_def by (rule sum_list_filter_le)
  ultimately have eq': "(\<Sum>mv\<leftarrow>?mvs. move_count v mg w t mv) = scope_count (row_in_any_scope mg t ?mvs) (tv_rows v w shard (tbl_name t))"
    using few eq by simp
  have "row_in_any_scope mg t ?mvs r = Inr True \<longleftrightarrow> routes_to mg kept r = Inr True" for r
  proof (rule any_scope_full_copies)
    show "\<forall>mv \<in> set ?mvs. mv_range mv = None \<and> routes_to mg mv = routes_to mg kept"
      using plan by (auto simp: group_of_def intro: routes_to_same)
    show "?mvs \<noteq> []" using mem(1) by (metis list.distinct(1) list.set_cases)
  qed
  then have "scope_count (row_in_any_scope mg t ?mvs) (tv_rows v w shard (tbl_name t)) = move_count v mg w t kept"
    using plan(1,3,7) by (simp add: move_count_def scope_count_def)
  moreover have "move_count v mg w t other > 0"
    using row plan(1,4) by (auto simp: move_count_def intro: scope_count_pos)
  ultimately show False using two_counts [OF mem, of "move_count v mg w t"] eq' by simp
qed

text \<open>
  C30. The router is switched only after verification: a cutover that changes the router found the
  job of every move of the plan verified or done, and it has put in place a valid catalog whose shards all have
  clients; when it fails before, router and rows are as they were.
\<close>

theorem cutover_needs_verified:
  assumes laws: "read_laws v mg" "job_laws v mg" "jobs_fit v w" and run: "cutover mg c (w, r) = (res, (w', r'))"
  shows "tv_rows v w' = tv_rows v w \<and>
    (r' = r \<and> \<not> is_ok res \<and> tv_jobs v w' = tv_jobs v w \<or>
     r' = r\<lparr>rt_catalog := c\<rparr> \<and> validate c = Ok () \<and> validate_clients c (rt_clients r) = Ok () \<and>
     (\<forall>m \<in> set (plan_moves (mg_plan mg)). \<exists>job. tv_jobs v w (move_id m) = Some job \<and>
        (job_phase job = PhVerified \<or> job_phase job = PhDone)))"
proof -
  obtain pre w1 where pre: "preflight_schema mg w = (pre, w1)" by (cases "preflight_schema mg w")
  have w1: "same_view v w w1" by (rule keepsD [OF preflight_keeps [OF laws(1)] pre])
  obtain ver w2 where ver: "check_verified mg (plan_moves (mg_plan mg)) w1 = (ver, w2)" by fastforce
  have w2: "same_view v w w2" by (rule sv.kept_trans [OF w1 keepsD [OF check_verified_keeps [OF laws(1)] ver]])
  have fit: "jobs_fit v w1" using laws(3) w1 by (simp add: jobs_fit_def same_view_def)
  note eqs = on_fst_eq [of "preflight_schema mg" w, OF pre] on_fst_eq [of "check_verified mg (plan_moves (mg_plan mg))" w1, OF ver]
  have step: "cutover mg c (w, r) = (case pre of Inl e \<Rightarrow> (Inl e, (w1, r)) | Inr _ \<Rightarrow>
      (case ver of Inl e \<Rightarrow> (Inl e, (w2, r)) | Inr _ \<Rightarrow>
      (case router_reload c r of (Inl e, r2) \<Rightarrow> (Inl e, (w2, r2))
       | (Inr _, r2) \<Rightarrow> on_fst (mark_moves mg PhDone (plan_moves (mg_plan mg))) (w2, r2))))"
    by (simp add: cutover_def act_bind_def eqs on_snd_def split: sum.split prod.split)
  show ?thesis
  proof (cases "is_ok pre \<and> is_ok ver \<and> is_ok (fst (router_reload c r))")
    case False
    then have "\<not> is_ok res" "w' = w1 \<or> w' = w2" "r' = r"
      using run router_reload_cases [of c r] unfolding step by (auto split: sum.splits)
    then show ?thesis using w1 w2 by (auto simp: same_view_def)
  next
    case True
    then have reload: "router_reload c r = (Inr (), r\<lparr>rt_catalog := c\<rparr>)" "validate c = Inr ()" "validate_clients c (rt_clients r) = Inr ()"
      using router_reload_cases [of c r] by auto
    have oks: "pre = Inr ()" "ver = Inr ()" using True is_ok_Inr by (metis (full_types) old.unit.exhaust)+
    then have run': "on_fst (mark_moves mg PhDone (plan_moves (mg_plan mg))) (w2, r\<lparr>rt_catalog := c\<rparr>) = (res, (w', r'))"
      using run reload(1) unfolding step by simp
    then have "same_rows v w2 w'" "r' = r\<lparr>rt_catalog := c\<rparr>"
      using keepsD [OF mark_moves_keeps [OF laws(1,2)]] by (auto simp: on_fst_def split: prod.splits)
    moreover note check_verified_Ok [OF laws(1) fit ver [unfolded oks]]
    ultimately show ?thesis using reload(2,3) w1 w2 by (simp add: same_rows_def same_view_def)
  qed
qed

text \<open>
  C31. What the constructor and the builder methods return is well-formed: chunks are not empty, every
  move names a table of both catalogs and two shards that have a client, and the index that routes
  a row is always within the shards of the table, so that \<^verbatim>\<open>table.shards[index]\<close> never panics.
\<close>

theorem built_migrator_is_sound:
  assumes "migrator_new env plan clients state old new = Ok mg" "mg' = with_fence (with_chunk_size mg n) f"
    and m: "m \<in> set (plan_moves plan)"
  shows "mg_chunk_size mg' > 0 \<and> is_ok (catalog_table old (mv_table m)) \<and>
    is_ok (mig_client mg' (mv_from m)) \<and> is_ok (mig_client mg' (mv_to m)) \<and>
    (\<exists>t. catalog_table new (mv_table m) = Ok t \<and> tbl_name t = mv_table m \<and>
      (\<forall>row. routes_to mg' m row = (if mv_range m \<noteq> None then Ok True
         else try_bind (row_value row (tbl_key t)) (\<lambda>key. try_bind (shard_for (en_text env) new (mv_table m) key) (\<lambda>i.
           Ok (ep_name (tbl_shards t ! i) = mv_to m)))) \<and>
       (\<forall>key i. shard_for (en_text env) new (mv_table m) key = Ok i \<longrightarrow> i < length (tbl_shards t))))"
proof -
  have ok: "migrator_ok mg'" using migrator_options_ok migrator_new_ok [OF assms(1)] assms(2) by blast
  have fields: "mg_plan mg' = plan" "mg_new mg' = new" "mg_old mg' = old" "mg_clients mg' = clients" "mg_env mg' = env"
    using assms(1) by (auto simp: migrator_new_def try_bind_Inr_iff assms(2) with_fence_def with_chunk_size_def)
  note mt = move_table_ok [OF ok, of m, unfolded fields, OF m]
  have old: "is_ok (catalog_table old (mv_table m))"
    using ok m unfolding migrator_ok_def fields by (auto simp: for_each_Inr_iff check_move_def try_bind_Inr_iff)
  have valid: "validate new = Inr ()" using ok by (simp add: migrator_ok_def fields)
  have bound: "i < length (tbl_shards (move_table mg' m))" if "shard_for (en_text env) new (mv_table m) key = Inr i" for key i
    using shard_for_bound [OF valid mt(1)] that by simp
  have "routes_to mg' m row = (if mv_range m \<noteq> None then Ok True
      else try_bind (row_value row (tbl_key (move_table mg' m))) (\<lambda>key. try_bind (shard_for (en_text env) new (mv_table m) key) (\<lambda>i.
        Ok (ep_name (tbl_shards (move_table mg' m) ! i) = mv_to m))))" for row
    using bound mt(1) by (auto simp: routes_to_def fields try_bind_def split: sum.split)
  then show ?thesis using mt ok old bound by (auto simp: migrator_ok_def mig_client_def ok_or_def fields)
qed

section \<open>Witnesses\<close>

text \<open>
  A database in memory: the rows of the shards, written in the order of their integer primary
  keys, and the jobs.
\<close>

record mem_db =
  md_rows :: "string \<Rightarrow> string \<Rightarrow> db_row list"
  md_jobs :: "string \<Rightarrow> job_state option"

definition mem_less :: "string \<Rightarrow> string \<Rightarrow> json_value \<Rightarrow> json_value \<Rightarrow> bool" where
  "mem_less s n x y = (case (x, y) of (JNumber (PosInt a), JNumber (PosInt b)) \<Rightarrow> a < b | _ \<Rightarrow> False)"

definition mem_view :: "mem_db mig_view" where
  "mem_view = \<lparr>tv_rows = md_rows, tv_jobs = md_jobs, tv_less = mem_less,
     tv_key = (\<lambda>x. case x of JNumber (PosInt _) \<Rightarrow> True | _ \<Rightarrow> False)\<rparr>"

lemma mem_view_simps [simp]:
  "tv_rows mem_view = md_rows" "tv_jobs mem_view = md_jobs" "tv_less mem_view = mem_less"
  by (simp_all add: mem_view_def)

definition mem_table :: "string list \<Rightarrow> shard_table" where
  "mem_table names = \<lparr>tbl_name = ''orders'', tbl_key = ''user_id'', tbl_pk = ''id'',
     tbl_algorithm = HashMod (of_nat (length names)), tbl_shards = map example_endpoint names\<rparr>"

definition mem_catalog :: "string list \<Rightarrow> shard_catalog" where
  "mem_catalog names = \<lparr>cat_tables = [mem_table names]\<rparr>"

definition mem_cols :: "string list" where
  "mem_cols = [''id'', ''user_id'']"

definition mem_row :: "nat \<Rightarrow> nat \<Rightarrow> db_row" where
  "mem_row i u = \<lparr>row_columns = mem_cols, row_values = [JNumber (PosInt i), JNumber (PosInt u)]\<rparr>"

definition mem_meta :: "db_row list" where
  "mem_meta = map (\<lambda>c. \<lparr>row_columns = [''name'', ''data_type''], row_values = [JString c, JString ''INTEGER'']\<rparr>) mem_cols"

definition mem_lt :: "shard_table \<Rightarrow> db_row \<Rightarrow> db_row \<Rightarrow> bool" where
  "mem_lt t a b = (case (row_get a (tbl_pk t), row_get b (tbl_pk t)) of (Some x, Some y) \<Rightarrow> mem_less [] [] x y | _ \<Rightarrow> False)"

definition mem_upsert :: "shard_table \<Rightarrow> db_row \<Rightarrow> db_row list \<Rightarrow> db_row list" where
  "mem_upsert t row rows = filter (\<lambda>x. mem_lt t x row) rows @ [row] @ filter (mem_lt t row) rows"

definition mem_client :: "shard_table \<Rightarrow> nat \<Rightarrow> string \<Rightarrow> mem_db sql_executor" where
  "mem_client t n s = (default_executor (\<lambda>_. act_ok 0) (\<lambda>_. act_ok []) Sqlite)
     \<lparr>ex_query_with := (\<lambda>sql ps w. (Ok (if sql = ''SELECT name, type AS data_type FROM pragma_table_info(?)'' then mem_meta
          else take n (filter (scanned mem_view s t None (case ps of [] \<Rightarrow> None | c # _ \<Rightarrow> Some c)) (md_rows w s (tbl_name t)))), w)),
      ex_execute_with := (\<lambda>sql ps w. (Ok 1, w\<lparr>md_rows := (md_rows w)(s := (md_rows w s)(tbl_name t :=
          mem_upsert t \<lparr>row_columns = mem_cols, row_values = ps\<rparr> (md_rows w s (tbl_name t))))\<rparr>))\<rparr>"

definition mem_job :: "json_value list \<Rightarrow> db_row" where
  "mem_job ps = \<lparr>row_columns = [''phase'', ''cursor'', ''rows_moved'', ''checksum''], row_values = ps\<rparr>"

definition mem_state :: "mem_db sql_executor" where
  "mem_state = (default_executor (\<lambda>_. act_ok 0) (\<lambda>_. act_ok []) Sqlite)
     \<lparr>ex_query_with := (\<lambda>sql ps w. (Ok (case ps of [JString i] \<Rightarrow> (case md_jobs w i of None \<Rightarrow> []
          | Some job \<Rightarrow> [mem_job (take 4 (save_params job [] []))]) | _ \<Rightarrow> []), w)),
      ex_execute_with := (\<lambda>sql ps w.
        if sql = insert_job_sql Sqlite
        then (case ps of JString i # _ \<Rightarrow> (Ok 1, w\<lparr>md_jobs := insert_job i (md_jobs w)\<rparr>) | _ \<Rightarrow> (Err (RdbmsDatabase []), w))
        else (case (job_of_row (mem_job (take 4 ps)), last ps) of
            (Inr job, JString i) \<Rightarrow> (Ok 1, w\<lparr>md_jobs := update_job i job (md_jobs w)\<rparr>) | _ \<Rightarrow> (Err (RdbmsDatabase []), w)))\<rparr>"

definition mem_migrator :: "shard_move list \<Rightarrow> string list \<Rightarrow> string list \<Rightarrow> mem_db migrator" where
  "mem_migrator moves old new =
     \<lparr>mg_plan = \<lparr>plan_moves = moves\<rparr>,
      mg_clients = (\<lambda>s. if s \<in> {''s0'', ''s1''} then Some (mem_client (mem_table new) 1 s) else None),
      mg_state = mem_state, mg_old = mem_catalog old, mg_new = mem_catalog new, mg_chunk_size = 1, mg_fence = None,
      mg_env = \<lparr>en_text = example_text, en_from_str = (\<lambda>_. Err []), en_to_string = (\<lambda>v. Ok (write_canonical example_text v)),
        en_now = (\<lambda>_. Ok ''2026-01-01T00:00:00Z''), en_rounds = 8\<rparr>\<rparr>"

lemma mem_migrator_simps [simp]:
  "plan_moves (mg_plan (mem_migrator moves old new)) = moves"
  "mg_clients (mem_migrator moves old new) s = Some cl \<longleftrightarrow> s \<in> {''s0'', ''s1''} \<and> cl = mem_client (mem_table new) 1 s"
  "mg_state (mem_migrator moves old new) = mem_state" "mg_old (mem_migrator moves old new) = mem_catalog old"
  "mg_new (mem_migrator moves old new) = mem_catalog new" "mg_chunk_size (mem_migrator moves old new) = 1"
  "mg_fence (mem_migrator moves old new) = None" "en_text (mg_env (mem_migrator moves old new)) = example_text"
  "en_rounds (mg_env (mem_migrator moves old new)) = 8"
  by (auto simp: mem_migrator_def)

lemma mem_client_simps [simp]:
  "ex_dialect (mem_client t n s) = Sqlite" "ex_dialect mem_state = Sqlite"
  "ex_query_with (mem_client t n s) sql ps w = (Ok (if sql = ''SELECT name, type AS data_type FROM pragma_table_info(?)'' then mem_meta
     else take n (filter (scanned mem_view s t None (case ps of [] \<Rightarrow> None | c # _ \<Rightarrow> Some c)) (md_rows w s (tbl_name t)))), w)"
  by (simp_all add: mem_client_def mem_state_def default_executor_def)

lemma mem_state_simps [simp]:
  "ex_query_with mem_state sql [JString i] w = (Ok (case md_jobs w i of None \<Rightarrow> [] | Some job \<Rightarrow> [mem_job (take 4 (save_params job [] []))]), w)"
  "snd (ex_query_with mem_state sql ps w) = w"
  "ex_execute_with mem_state (insert_job_sql Sqlite) (JString i # ps) w = (Ok 1, w\<lparr>md_jobs := insert_job i (md_jobs w)\<rparr>)"
  by (simp_all add: mem_state_def default_executor_def)

lemma mem_plan_table [simp]: "plan_table (mem_migrator moves old new) t \<longleftrightarrow> t = mem_table new"
  by (auto simp: plan_table_def mem_migrator_def mem_catalog_def catalog_table_def ok_or_def mem_table_def)

lemma mem_save_image: "job_image job (mem_job (take 4 (save_params job now i)))"
  by (simp add: job_image_def mem_job_def save_params_def row_get_def)

lemma mem_order: "order_laws mem_view"
  by (auto simp: order_laws_def mem_less_def split: json_value.splits json_number.splits)

lemma mem_read:
  assumes "\<forall>m \<in> set moves. mv_range m = None"
  shows "read_laws mem_view (mem_migrator moves old new)"
proof -
  have "scan_sql Sqlite t None cursor 1 \<noteq> ''SELECT name, type AS data_type FROM pragma_table_info(?)''" for t cursor
    by (simp add: scan_sql_def Let_def)
  moreover have "(case scan_params t None cursor of [] \<Rightarrow> None | c # _ \<Rightarrow> Some c) = cursor" for t cursor
    by (simp add: scan_params_def scan_conds_def split: option.split)
  moreover have "plan_rngs (mem_migrator moves old new) = {None}" using assms by (auto simp: plan_rngs_def)
  ultimately show ?thesis unfolding read_laws_def using mem_save_image by (simp add: same_view_def split: option.split)
qed

lemma mem_save:
  "ex_execute_with mem_state (save_sql Sqlite) (save_params job now i) w =
     (if int (job_rows job) \<le> i64_max then (Ok 1, w\<lparr>md_jobs := update_job i job (md_jobs w)\<rparr>) else (Err (RdbmsDatabase []), w))"
proof -
  have ne: "save_sql Sqlite \<noteq> insert_job_sql Sqlite" by (simp add: save_sql_def insert_job_sql_def Let_def)
  have l: "last (save_params job now i) = JString i" by (simp add: save_params_def)
  show ?thesis
  proof (cases "int (job_rows job) \<le> i64_max")
    case True
    then show ?thesis using ne l job_of_image [OF mem_save_image True] by (simp add: mem_state_def default_executor_def)
  next
    case False
    then have "\<exists>e. job_of_row (mem_job (take 4 (save_params job now i))) = Inl e"
      by (simp add: mem_job_def save_params_def job_of_row_def mig_int_def row_get_def json_int_def as_i64_def number_as_i64_def ok_or_def)
    then show ?thesis using False ne by (auto simp: mem_state_def default_executor_def)
  qed
qed

lemma mem_jobs: "job_laws mem_view (mem_migrator moves old new)"
  by (simp add: job_laws_def job_write_def job_params_def mem_save is_ok_def)

text \<open>An order of ids that moves from one shard to another.\<close>

definition mem_move :: "string \<Rightarrow> string \<Rightarrow> shard_move" where
  "mem_move f t = \<lparr>mv_table = ''orders'', mv_from = f, mv_to = t, mv_range = None\<rparr>"

definition mem_start :: "(string \<Rightarrow> db_row list) \<Rightarrow> mem_db" where
  "mem_start rows = \<lparr>md_rows = (\<lambda>s n. if n = ''orders'' then rows s else []), md_jobs = (\<lambda>_. None)\<rparr>"

lemma mem_routes:
  "routes_to (mem_migrator moves old [s]) (mem_move f t) (mem_row i u) = Ok (s = t)"
proof -
  have "shard_for example_text (mem_catalog [s]) ''orders'' (JNumber (PosInt u)) = Ok 0"
    by (simp add: shard_for_def mem_catalog_def catalog_table_def ok_or_def mem_table_def check_algorithm_def is_null_def stable_hash64_def)
  then show ?thesis
    by (simp add: routes_to_def mem_move_def mem_row_def mem_cols_def row_value_def row_get_def)
      (simp add: mem_catalog_def catalog_table_def mem_table_def example_endpoint_def ok_or_def)
qed

lemma mem_pk [simp]: "row_get (mem_row i u) ''id'' = Some (JNumber (PosInt i))" "row_get (mem_row i u) ''user_id'' = Some (JNumber (PosInt u))"
  by (simp_all add: row_get_def mem_row_def mem_cols_def)

definition kept_moves :: "shard_move list" where
  "kept_moves = full_copy_moves (mem_table [''s0'', ''s1'']) (mem_table [''s0''])"

lemma kept_moves_eq: "kept_moves = [mem_move ''s0'' ''s0'', mem_move ''s1'' ''s0'']"
  by (simp add: kept_moves_def full_copy_moves_def mem_table_def mem_move_def example_endpoint_def)

lemma mem_tables:
  assumes "\<And>s. sorted_wrt (pk_lt mem_view s (mem_table new)) (rows s)" "\<And>s r. r \<in> set (rows s) \<Longrightarrow> \<exists>i u. r = mem_row i u"
  shows "table_laws mem_view (mem_migrator moves old new) (mem_start rows)"
proof -
  have "has_key mem_view (mem_table new) (mem_row i u)" for i u by (simp add: has_key_def mem_table_def mem_view_def)
  then show ?thesis using assms by (fastforce simp: table_laws_def mem_start_def mem_table_def)
qed

theorem kept_shard_never_verifies_witness:
  "\<not> is_ok (fst (verify (mem_migrator kept_moves [''s0'', ''s1''] [''s0''])
     (mem_start ((\<lambda>_. [])(''s1'' := [mem_row 7 3])))))"
proof (rule kept_shard_never_verifies [where v = mem_view and t = "mem_table [''s0'']" and kept = "mem_move ''s0'' ''s0''"
    and other = "mem_move ''s1'' ''s0''" and shard = "''s0''" and row = "mem_row 7 3"])
  let ?mg = "mem_migrator kept_moves [''s0'', ''s1''] [''s0'']" and ?w = "mem_start ((\<lambda>_. [])(''s1'' := [mem_row 7 3]))"
  have "table_laws mem_view ?mg ?w" by (rule mem_tables) (auto split: if_splits)
  moreover have "jobs_fit mem_view ?w" by (simp add: jobs_fit_def mem_start_def)
  ultimately show "verify_laws mem_view ?mg ?w"
    using mem_read [of kept_moves] mem_jobs mem_order by (simp add: verify_laws_def kept_moves_eq mem_move_def)
qed (simp_all add: kept_moves_eq mem_routes, simp_all add: mem_move_def mem_table_def mem_start_def job_open_def u64_max_def)

lemma mem_pk_lt: "pk_lt mem_view s t = mem_lt t"
  by (intro ext) (simp add: pk_lt_def mem_lt_def mem_less_def split: option.split)

lemma mem_tv_key: "tv_key mem_view p \<longleftrightarrow> (\<exists>i. p = JNumber (PosInt i))"
  by (simp add: mem_view_def split: json_value.split json_number.split)

lemma mem_has_key: "has_key mem_view t row \<longleftrightarrow> (\<exists>i. row_get row (tbl_pk t) = Some (JNumber (PosInt i)))"
  by (auto simp: has_key_def mem_tv_key)

lemma mem_table_laws:
  "table_laws mem_view (mem_migrator moves old new) w \<longleftrightarrow>
   (\<forall>s. sorted_wrt (mem_lt (mem_table new)) (md_rows w s ''orders'') \<and> (\<forall>row \<in> set (md_rows w s ''orders''). has_key mem_view (mem_table new) row))"
  unfolding table_laws_def by (simp add: mem_pk_lt) (simp add: mem_table_def)

lemma mem_total:
  "has_key mem_view t a \<Longrightarrow> has_key mem_view t b \<Longrightarrow> mem_lt t a b \<or> mem_lt t b a \<longleftrightarrow> row_get a (tbl_pk t) \<noteq> row_get b (tbl_pk t)"
  by (auto simp: mem_has_key mem_lt_def mem_less_def)

lemma mem_upsert_set:
  assumes "has_key mem_view t row" "\<forall>x \<in> set rows. has_key mem_view t x"
  shows "upserted t row rows (mem_upsert t row rows)"
  using mem_total [OF _ assms(1)] assms(2) by (auto simp: upserted_def mem_upsert_def)

lemma mem_upsert_sorted:
  assumes "sorted_wrt (mem_lt t) rows"
  shows "sorted_wrt (mem_lt t) (mem_upsert t row rows)"
  using assms pk_lt_strict(2) [OF mem_order, of _ t, unfolded mem_pk_lt] by (auto simp: mem_upsert_def sorted_wrt_append sorted_wrt_filter)

lemma mem_upsert_law:
  assumes "row_columns row = mem_cols" "has_key mem_view (mem_table new) row"
    "table_laws mem_view (mem_migrator moves old new) w"
  shows "upsert_law mem_view (mem_migrator moves old new) s (mem_client (mem_table new) n s) (mem_table new) row w"
proof -
  let ?t = "mem_table new"
  let ?rows = "mem_upsert ?t row (md_rows w s ''orders'')"
  note laws = assms(3) [unfolded mem_table_laws, rule_format]
  have row: "\<lparr>row_columns = mem_cols, row_values = row_values row\<rparr> = row" using assms(1) by (cases row) simp
  have tn: "tbl_name ?t = ''orders''" by (simp add: mem_table_def)
  have "\<forall>x \<in> set ?rows. has_key mem_view ?t x" using laws assms(2) by (auto simp: mem_upsert_def)
  then have "table_laws mem_view (mem_migrator moves old new) (w\<lparr>md_rows := (md_rows w)(s := (md_rows w s)(''orders'' := ?rows))\<rparr>)"
    unfolding mem_table_laws using laws mem_upsert_sorted by auto
  moreover have "upserted ?t row (md_rows w s ''orders'') ?rows" using mem_upsert_set [OF assms(2)] laws by blast
  ultimately show ?thesis by (simp add: upsert_law_def mem_client_def default_executor_def row tn)
qed

lemma mem_no_binary:
  assumes "\<forall>m \<in> set moves. mv_table m = ''orders''"
  shows "no_binary_columns (mem_migrator moves old new)"
proof -
  let ?cs = "[(''id'', ''INTEGER''), (''user_id'', ''INTEGER'')]"
  have "\<not> is_binary_type Sqlite ''INTEGER''" by code_simp
  moreover have "split_table ''orders'' = Inr (None, ''orders'')" by code_simp
  then have "source_columns (mem_client t n s) ''orders'' w = (Inr ?cs, w)" for t n s w
    by (simp add: source_columns_def columns_sql_def act_bind_def act_map_err_def mem_meta_def mem_cols_def
         column_of_row_def mig_text_def row_get_def as_str_def ok_or_def)
  ultimately show ?thesis using assms unfolding no_binary_columns_def by (auto intro!: exI [of _ ?cs])
qed

lemma mem_live:
  assumes "\<forall>m \<in> set moves. mv_table m = ''orders''"
  shows "live_laws mem_view (\<lambda>_. mem_cols) (mem_migrator moves old new)"
proof -
  let ?mg = "mem_migrator moves old new"
  have "state_live mem_view ?mg"
    by (simp add: state_live_def job_params_def mem_save)
      (simp add: mem_migrator_def mem_state_def default_executor_def same_view_def)
  moreover have "clients_live mem_view (\<lambda>_. mem_cols) ?mg" by (simp add: clients_live_def mem_upsert_law)
  moreover have "fence_live mem_view ?mg" by (simp add: fence_live_def)
  ultimately show ?thesis using mem_no_binary [OF assms] by (simp add: live_laws_def)
qed

lemma mem_quiet:
  assumes "\<forall>m \<in> set moves. mv_table m = ''orders'' \<and> mv_range m = None" "migrator_ok (mem_migrator moves old new)"
  shows "quiet mem_view (\<lambda>_. mem_cols) (mem_migrator moves old new)"
  using assms mem_read mem_jobs mem_order mem_live by (simp add: quiet_def)

definition new_moves :: "shard_move list" where
  "new_moves = full_copy_moves (mem_table [''s0'']) (mem_table [''s1''])"

lemma new_moves_eq: "new_moves = [mem_move ''s0'' ''s1'']"
  by (simp add: new_moves_def full_copy_moves_def mem_table_def mem_move_def example_endpoint_def)

definition new_migrator :: "mem_db migrator" where
  "new_migrator = mem_migrator new_moves [''s0''] [''s1'']"

definition new_start :: mem_db where
  "new_start = mem_start ((\<lambda>_. [])(''s0'' := [mem_row 1 5, mem_row 2 9]))"

lemma mem_valid: "validate (mem_catalog [s]) = Ok ()"
  by (simp add: mem_catalog_def validate_def mem_table_def str_trim_def is_space_def check_algorithm_def example_endpoint_def)

lemma new_built:
  "migrator_new (mg_env new_migrator) (mg_plan new_migrator) (mg_clients new_migrator) mem_state (mem_catalog [''s0'']) (mem_catalog [''s1''])
    = Ok (new_migrator\<lparr>mg_chunk_size := DEFAULT_CHUNK_SIZE\<rparr>)"
  by (simp add: migrator_new_def mem_valid new_migrator_def new_moves_eq check_move_def mem_move_def)
    (simp add: mem_catalog_def catalog_table_def ok_or_def mem_table_def example_endpoint_def mem_migrator_def)

lemma new_quiet: "quiet mem_view (\<lambda>_. mem_cols) new_migrator"
proof -
  have "new_migrator = with_chunk_size (new_migrator\<lparr>mg_chunk_size := DEFAULT_CHUNK_SIZE\<rparr>) 1"
    by (simp add: with_chunk_size_def new_migrator_def mem_migrator_def)
  then have "migrator_ok new_migrator" using migrator_options_ok(1) migrator_new_ok [OF new_built] by metis
  then show ?thesis unfolding new_migrator_def by (intro mem_quiet) (simp_all add: new_moves_eq mem_move_def)
qed

lemma new_scope: "scope_rows mem_view new_migrator new_start (mem_move ''s0'' ''s1'') = [mem_row 1 5, mem_row 2 9]"
proof -
  have "in_scope new_migrator (mem_move ''s0'' ''s1'') (mem_row i u)" for i u
    using mem_routes [of new_moves "[''s0'']" "''s1''" "''s0''" "''s1''" i u] by (simp add: in_scope_def new_migrator_def) (simp add: mem_move_def)
  then show ?thesis by (simp add: scope_rows_def) (simp add: mem_move_def new_start_def mem_start_def)
qed

lemma new_rows: "md_rows new_start s n = (if s = ''s0'' \<and> n = ''orders'' then [mem_row 1 5, mem_row 2 9] else [])"
  by (simp add: new_start_def mem_start_def)

lemma new_ready: "copy_ready mem_view (\<lambda>_. mem_cols) new_migrator new_start"
proof -
  have mvs: "plan_moves (mg_plan new_migrator) = [mem_move ''s0'' ''s1'']" by (simp add: new_migrator_def new_moves_eq)
  have fields: "mv_table (mem_move ''s0'' ''s1'') = ''orders''" "mv_from (mem_move ''s0'' ''s1'') = ''s0''"
    "mv_to (mem_move ''s0'' ''s1'') = ''s1''" "mv_range (mem_move ''s0'' ''s1'') = None" by (simp_all add: mem_move_def)
  have cols: "row_columns (mem_row i u) = mem_cols" "mem_cols \<noteq> []" for i u by (simp_all add: mem_row_def mem_cols_def)
  have routes: "is_ok (routes_to new_migrator (mem_move ''s0'' ''s1'') (mem_row i u))" for i u by (simp add: new_migrator_def mem_routes)
  have "table_laws mem_view new_migrator new_start" unfolding new_migrator_def new_start_def
    by (rule mem_tables) (auto simp: mem_pk_lt mem_lt_def mem_less_def mem_table_def split: if_splits)
  moreover have "rows_good mem_view (\<lambda>_. mem_cols) new_migrator new_start"
    by (auto simp: rows_good_def mvs fields new_rows cols routes)
  moreover have "no_clash mem_view new_migrator new_start" "moves_disjoint mem_view new_migrator new_start"
    "not_reread mem_view new_migrator new_start" "targets_covered mem_view new_migrator new_start"
    by (simp_all add: no_clash_def moves_disjoint_def not_reread_def targets_covered_def mvs fields new_rows)
  moreover have "plan_rows mem_view new_migrator new_start = 2" by (simp add: plan_rows_def mvs new_scope)
  ultimately show ?thesis
    by (simp add: copy_ready_def mvs new_rows i64_max_def jobs_fit_def) (simp add: new_start_def mem_start_def new_migrator_def)
qed

theorem migration_succeeds_witness:
  "\<exists>report w1 w2 w3. backfill new_migrator new_start = (Ok report, w1) \<and> verify new_migrator w1 = (Ok (), w2) \<and>
     cutover new_migrator (mem_catalog [''s1'']) (w2, \<lparr>rt_catalog = mem_catalog [''s0''], rt_clients = (\<lambda>_. Some (0 :: nat))\<rparr>)
       = (Ok (), (w3, \<lparr>rt_catalog = mem_catalog [''s1''], rt_clients = (\<lambda>_. Some 0)\<rparr>)) \<and>
     set (md_rows w3 ''s1'' ''orders'') = {mem_row 1 5, mem_row 2 9} \<and> md_jobs w3 (move_id (mem_move ''s0'' ''s1'')) \<noteq> None"
proof -
  let ?r = "\<lparr>rt_catalog = mem_catalog [''s0''], rt_clients = (\<lambda>_. Some (0 :: nat))\<rparr>"
  have new: "mg_new new_migrator = mem_catalog [''s1'']" "plan_moves (mg_plan new_migrator) = [mem_move ''s0'' ''s1'']"
    by (simp_all add: new_migrator_def new_moves_eq)
  have router: "validate_clients (mg_new new_migrator) (rt_clients ?r) = Ok ()"
    by (simp add: new validate_clients_def mem_catalog_def mem_table_def)
  from migration_succeeds [OF new_quiet new_ready router] obtain report w1 w2 w3 r' where
    run: "backfill new_migrator new_start = (Ok report, w1)" "verify new_migrator w1 = (Ok (), w2)"
      "cutover new_migrator (mg_new new_migrator) (w2, ?r) = (Ok (), (w3, r'))" "r' = ?r\<lparr>rt_catalog := mg_new new_migrator\<rparr>"
    and rows: "\<forall>s n. set (tv_rows mem_view w3 s n) = set (tv_rows mem_view new_start s n) \<union>
       {row. \<exists>m \<in> set (plan_moves (mg_plan new_migrator)). mv_to m = s \<and> mv_table m = n \<and> row \<in> set (scope_rows mem_view new_migrator new_start m)}"
    and jobs: "\<forall>m \<in> set (plan_moves (mg_plan new_migrator)). \<exists>job. tv_jobs mem_view w3 (move_id m) = Some job \<and> job_phase job = PhDone \<and>
       job_rows job = length (scope_rows mem_view new_migrator new_start m)"
    by blast
  have "set (md_rows w3 ''s1'' ''orders'') = {mem_row 1 5, mem_row 2 9}"
    using rows [rule_format, of "''s1''" "''orders''"] by (simp add: new new_rows new_scope) (auto simp: mem_move_def)
  then show ?thesis using run jobs by (auto simp: new)
qed

theorem cutover_needs_verified_witness:
  "snd (snd (cutover new_migrator (mem_catalog [''s1'']) (new_start, \<lparr>rt_catalog = mem_catalog [''s0''], rt_clients = (\<lambda>_. Some (0 :: nat))\<rparr>)))
     = \<lparr>rt_catalog = mem_catalog [''s0''], rt_clients = (\<lambda>_. Some 0)\<rparr>"
proof -
  let ?r = "\<lparr>rt_catalog = mem_catalog [''s0''], rt_clients = (\<lambda>_. Some (0 :: nat))\<rparr>"
  obtain res w' r' where run: "cutover new_migrator (mem_catalog [''s1'']) (new_start, ?r) = (res, (w', r'))"
    by (metis prod.exhaust)
  note q = quietD [OF new_quiet]
  have "tv_jobs mem_view new_start i = None" for i by (simp add: new_start_def mem_start_def)
  moreover have "mem_move ''s0'' ''s1'' \<in> set (plan_moves (mg_plan new_migrator))" by (simp add: new_migrator_def new_moves_eq)
  ultimately show ?thesis
    using cutover_needs_verified [OF q(1,2) copy_readyD(3) [OF new_ready] run] run by auto
qed

definition mem_fence :: "mem_db mig_fence" where
  "mem_fence = \<lparr>mf_acquire = (\<lambda>_ _. act_ok (Some ''1'')), mf_renew = (\<lambda>_ _ _. act_ok ()), mf_release = (\<lambda>_ _. act_ok ()),
     mf_key = ''migration'', mf_ttl = 30\<rparr>"

theorem built_migrator_is_sound_witness:
  "\<exists>mg. migrator_new (mg_env new_migrator) (mg_plan new_migrator) (mg_clients new_migrator) mem_state (mem_catalog [''s0'']) (mem_catalog [''s1'']) = Ok mg \<and>
     mg_chunk_size (with_fence (with_chunk_size mg 0) mem_fence) > 0 \<and> is_ok (mig_client (with_fence (with_chunk_size mg 0) mem_fence) ''s1'')"
proof -
  have "mem_move ''s0'' ''s1'' \<in> set (plan_moves (mg_plan new_migrator))" by (simp add: new_migrator_def new_moves_eq)
  from built_migrator_is_sound [OF new_built refl this, of 0 mem_fence] show ?thesis
    using new_built by (intro exI [of _ "new_migrator\<lparr>mg_chunk_size := DEFAULT_CHUNK_SIZE\<rparr>"]) (simp add: mem_move_def)
qed

end
