(* ===== verification/GraphQL.thy ===== *)
theory GraphQL
  imports Rdbms "HOL-Library.AList"
begin

text \<open>
  The GraphQL front end, \<^verbatim>\<open>ecat-graphql\<close>: the two-phase parser (\<^verbatim>\<open>parser/mod.rs\<close>,
  \<^verbatim>\<open>parser/strings.rs\<close>), the query budget (\<^verbatim>\<open>validation.rs\<close>) and the execution of a request
  (\<^verbatim>\<open>lib.rs\<close>). A position \<^verbatim>\<open>i\<close> in the bytes \<^verbatim>\<open>b\<close> is the list of the bytes from there on, so
  a scanner is an action on the remaining input. The recursion of the code is bounded by
  \<^verbatim>\<open>MAX_DEPTH\<close>: the model counts the levels that are left. Loops whose rounds consume input carry
  fuel, the length of the input plus one; that it never runs out is proved. Queries are valid
  UTF-8, so \<^verbatim>\<open>from_utf8_lossy\<close> of a slice between ASCII delimiters is the slice.
  \<^verbatim>\<open>serde_json::from_slice\<close> is a parameter.
\<close>

section \<open>Strings (parser/strings.rs)\<close>

type_synonym 'a scanner = "(string, string, 'a) act"

abbreviation dquote :: char where "dquote \<equiv> CHR 0x22"
abbreviation squote :: char where "squote \<equiv> CHR 0x27"
abbreviation backslash :: char where "backslash \<equiv> CHR 0x5C"

definition unterminated :: string where
  "unterminated = ''unterminated string literal''"

fun skip_block :: "char \<Rightarrow> unit scanner" where
  "skip_block q [] = (Err unterminated, [])"
| "skip_block q (c # cs) =
     (if c = q \<and> (case cs of c1 # c2 # _ \<Rightarrow> c1 = q \<and> c2 = q | _ \<Rightarrow> False) then (Ok (), drop 2 cs)
      else skip_block q cs)"

fun skip_quoted :: "char \<Rightarrow> unit scanner" where
  "skip_quoted q [] = (Err unterminated, [])"
| "skip_quoted q [c] = (if c = backslash then (Err unterminated, [c])
     else if c = q then (Ok (), []) else (Err unterminated, []))"
| "skip_quoted q (c # d # cs) =
     (if c = backslash then skip_quoted q cs
      else if c = q then (Ok (), d # cs)
      else skip_quoted q (d # cs))"

text \<open>The bytes after the opening quote \<open>q\<close>.\<close>

definition skip_string :: "char \<Rightarrow> unit scanner" where
  "skip_string q cs =
     (case cs of c1 # c2 # rest \<Rightarrow> if c1 = q \<and> c2 = q then skip_block q rest else skip_quoted q cs
      | _ \<Rightarrow> skip_quoted q cs)"

definition hex_digit :: "char \<Rightarrow> nat option" where
  "hex_digit c = (let n = (of_char c :: nat) in
     if 48 \<le> n \<and> n \<le> 57 then Some (n - 48)
     else if 65 \<le> n \<and> n \<le> 70 then Some (n - 55)
     else if 97 \<le> n \<and> n \<le> 102 then Some (n - 87) else None)"

fun hex_value :: "nat \<Rightarrow> string \<Rightarrow> nat option" where
  "hex_value acc [] = Some acc"
| "hex_value acc (c # cs) = (case hex_digit c of None \<Rightarrow> None | Some d \<Rightarrow> hex_value (16 * acc + d) cs)"

text \<open>\<^verbatim>\<open>u32::from_str_radix\<close> also takes a leading plus sign.\<close>

definition from_str_radix16 :: "string \<Rightarrow> nat option" where
  "from_str_radix16 s = (case s of
       [] \<Rightarrow> None
     | c # cs \<Rightarrow> if c = CHR ''+'' then (if cs = [] then None else hex_value 0 cs) else hex_value 0 s)"

text \<open>\<^verbatim>\<open>char::from_u32\<close> with \<^verbatim>\<open>encode_utf8\<close>, for a code of four hexadecimal digits.\<close>

definition encode_utf8 :: "nat \<Rightarrow> string option" where
  "encode_utf8 n =
     (if n < 128 then Some [char_of n]
      else if n < 2048 then Some [char_of (192 + n div 64), char_of (128 + n mod 64)]
      else if 55296 \<le> n \<and> n < 57344 then None
      else Some [char_of (224 + n div 4096), char_of (128 + n div 64 mod 64), char_of (128 + n mod 64)])"

definition simple_escape :: "char \<Rightarrow> char option" where
  "simple_escape c =
     (if c = backslash then Some backslash else if c = dquote then Some dquote else if c = squote then Some squote
      else if c = CHR ''n'' then Some (CHR 0x0A) else if c = CHR ''t'' then Some (CHR 0x09)
      else if c = CHR ''r'' then Some (CHR 0x0D) else if c = CHR ''b'' then Some (CHR 0x08)
      else if c = CHR ''f'' then Some (CHR 0x0C) else None)"

function unescape :: "string \<Rightarrow> (string, string) result" where
  "unescape [] = Ok []"
| "unescape (c # cs) =
     (if c \<noteq> backslash then try_bind (unescape cs) (\<lambda>out. Ok (c # out))
      else case cs of
        [] \<Rightarrow> Err ''invalid escape in string literal''
      | e # rest \<Rightarrow>
          (case simple_escape e of
             Some d \<Rightarrow> try_bind (unescape rest) (\<lambda>out. Ok (d # out))
           | None \<Rightarrow>
               if e = CHR ''u'' then
                 (if length rest < 4 then Err ''invalid unicode escape''
                  else case Option.bind (from_str_radix16 (take 4 rest)) encode_utf8 of
                    None \<Rightarrow> Err ''invalid unicode escape''
                  | Some bytes \<Rightarrow> try_bind (unescape (drop 4 rest)) (\<lambda>out. Ok (bytes @ out)))
               else Err ''invalid escape in string literal''))"
  by pat_completeness auto
termination by (relation "measure length") auto

definition parse_string_literal :: "(string \<Rightarrow> (string, json_value) result) \<Rightarrow> string \<Rightarrow> (string, json_value) result" where
  "parse_string_literal from_slice token =
     (case token of
        c # rest \<Rightarrow> if c = dquote then map_err (\<lambda>e. ''invalid string literal: '' @ e) (from_slice token)
                    else try_bind (unescape (butlast rest)) (\<lambda>out. Ok (JString out))
      | [] \<Rightarrow> Ok (JString []))"

section \<open>Scanning (parser/mod.rs)\<close>

definition MAX_DEPTH :: nat where "MAX_DEPTH = 32"

definition is_ascii_whitespace :: "char \<Rightarrow> bool" where
  "is_ascii_whitespace c \<longleftrightarrow> c \<in> {CHR '' '', CHR 0x09, CHR 0x0A, CHR 0x0C, CHR 0x0D}"

definition is_ident_byte :: "char \<Rightarrow> bool" where
  "is_ident_byte c \<longleftrightarrow> (let n = (of_char c :: nat) in
     48 \<le> n \<and> n \<le> 57 \<or> 65 \<le> n \<and> n \<le> 90 \<or> 97 \<le> n \<and> n \<le> 122 \<or> c = CHR ''_'')"

function skip_ws :: "string \<Rightarrow> string" where
  "skip_ws [] = []"
| "skip_ws (c # cs) =
     (if c = CHR ''#'' then skip_ws (dropWhile (\<lambda>d. d \<noteq> CHR 0x0A) cs)
      else if is_ascii_whitespace c then skip_ws cs
      else c # cs)"
  by pat_completeness auto
termination by (relation "measure length") (auto simp: le_imp_less_Suc length_dropWhile_le)

text \<open>Balanced groups. The first byte of \<open>skip_parens\<close> opens a group, so its depth is never 0 at a
  closing one; a subtraction below 0 would panic.\<close>

lemma skip_block_shorter: "length (snd (skip_block q cs)) \<le> length cs"
  by (induction q cs rule: skip_block.induct) (auto simp: le_SucI)

lemma skip_quoted_shorter: "length (snd (skip_quoted q cs)) \<le> length cs"
  by (induction q cs rule: skip_quoted.induct) auto

lemma skip_string_shorter: "length (snd (skip_string q cs)) \<le> length cs"
proof -
  have "length (snd (skip_block q rest)) \<le> Suc (Suc (length rest))" for rest
    using skip_block_shorter [of q rest] by simp
  then show ?thesis using skip_quoted_shorter [of q cs] by (auto simp: skip_string_def split: list.split)
qed

lemma skip_string_rest: "(r, y) = skip_string q cs \<Longrightarrow> length y < Suc (length cs)"
  using skip_string_shorter [of q cs] by (metis less_Suc_eq_le snd_conv)

function skip_parens_from :: "nat \<Rightarrow> unit scanner" where
  "skip_parens_from depth [] = (Err ''unbalanced parentheses'', [])"
| "skip_parens_from depth (c # cs) =
     (if c = CHR ''('' then skip_parens_from (depth + 1) cs
      else if c = CHR '')'' then
        (if depth = 0 then (Err ''attempt to subtract with overflow'', c # cs)
         else if depth = 1 then (Ok (), cs) else skip_parens_from (depth - 1) cs)
      else if c = dquote \<or> c = squote then
        (case skip_string c cs of (Inl e, r) \<Rightarrow> (Err e, r) | (Inr _, r) \<Rightarrow> skip_parens_from depth r)
      else skip_parens_from depth cs)"
  by pat_completeness auto
termination
  by (relation "measure (\<lambda>(_, cs). length cs)") (auto dest: skip_string_rest)

definition skip_parens :: "unit scanner" where
  "skip_parens b = skip_parens_from 0 b"

function skip_balanced :: "char \<Rightarrow> char \<Rightarrow> nat \<Rightarrow> unit scanner" where
  "skip_balanced opn cls depth [] = (Err ''unbalanced value group'', [])"
| "skip_balanced opn cls depth (c # cs) =
     (if c = opn then skip_balanced opn cls (depth + 1) cs
      else if c = cls then (if depth - 1 = 0 then (Ok (), cs) else skip_balanced opn cls (depth - 1) cs)
      else if c = dquote \<or> c = squote then
        (case skip_string c cs of (Inl e, r) \<Rightarrow> (Err e, r) | (Inr _, r) \<Rightarrow> skip_balanced opn cls depth r)
      else skip_balanced opn cls depth cs)"
  by pat_completeness auto
termination
  by (relation "measure (\<lambda>(_, _, _, cs). length cs)") (auto dest: skip_string_rest)

text \<open>The bytes between two positions, and those inside the first and the last one.\<close>

definition consumed :: "string \<Rightarrow> string \<Rightarrow> string" where
  "consumed b r = take (length b - length r) b"

definition inside :: "string \<Rightarrow> string" where
  "inside raw = butlast (tl raw)"

text \<open>
  \<^verbatim>\<open>split_top_level\<close>: \<open>cur\<close> is the current part up to the position, backwards; a string is
  skipped even if it is not terminated.
\<close>

function split_from :: "nat \<times> nat \<times> nat \<Rightarrow> string \<Rightarrow> string \<Rightarrow> string list" where
  "split_from lv cur [] = [rev cur]"
| "split_from (paren, square, curly) cur (c # cs) =
     (if c = dquote \<or> c = squote then
        (let r = snd (skip_string c cs) in
         split_from (paren, square, curly) (rev (consumed (c # cs) r) @ cur) r)
      else if c = CHR ''('' then split_from (paren + 1, square, curly) (c # cur) cs
      else if c = CHR '')'' then split_from (paren - 1, square, curly) (c # cur) cs
      else if c = CHR ''['' then split_from (paren, square + 1, curly) (c # cur) cs
      else if c = CHR '']'' then split_from (paren, square - 1, curly) (c # cur) cs
      else if c = CHR ''{'' then split_from (paren, square, curly + 1) (c # cur) cs
      else if c = CHR ''}'' then split_from (paren, square, curly - 1) (c # cur) cs
      else if c = CHR '','' \<and> paren = 0 \<and> square = 0 \<and> curly = 0 then
        rev cur # split_from (paren, square, curly) [] cs
      else split_from (paren, square, curly) (c # cur) cs)"
  by pat_completeness auto
termination
  by (relation "measure (\<lambda>(_, _, cs). length cs)") (auto simp: less_Suc_eq_le skip_string_shorter)

definition split_top_level :: "string \<Rightarrow> string list" where
  "split_top_level raw = split_from (0, 0, 0) [] raw"

definition skip_directive :: "unit scanner" where
  "skip_directive b =
     (let r = skip_ws (dropWhile is_ident_byte (tl b)) in
      case r of c # _ \<Rightarrow> if c = CHR ''('' then skip_parens r else (Ok (), r) | [] \<Rightarrow> (Ok (), r))"

section \<open>Values and arguments\<close>

type_synonym json_parser = "string \<Rightarrow> (string, json_value) result"

definition parse_list :: "json_value scanner \<Rightarrow> string \<Rightarrow> (string, json_value) result" where
  "parse_list item raw =
     try_bind (collect_results (\<lambda>part. fst (item part))
         (filter (\<lambda>part. \<not> list_all is_ascii_whitespace part) (split_top_level (inside raw))))
       (\<lambda>items. Ok (JArray items))"

definition object_member :: "json_value scanner \<Rightarrow> string \<Rightarrow> (string, string \<times> json_value) result" where
  "object_member item part =
     (let b = skip_ws part; name = takeWhile is_ident_byte b in
      if name = [] then
        (case b of c # _ \<Rightarrow> if c = dquote \<or> c = squote
             then Err ''quoted field names in input objects not supported''
             else Err ''expected field name in input object''
         | [] \<Rightarrow> Err ''expected field name in input object'')
      else case skip_ws (dropWhile is_ident_byte b) of
          c # r \<Rightarrow> if c = CHR '':'' then try_bind (fst (item r)) (\<lambda>v. Ok (name, v))
                   else Err (''expected '' @ [squote] @ '':'' @ [squote] @ '' after '' @ [squote] @ name @ [squote] @ '' in input object'')
        | [] \<Rightarrow> Err (''expected '' @ [squote] @ '':'' @ [squote] @ '' after '' @ [squote] @ name @ [squote] @ '' in input object''))"

definition duplicate_argument :: "string \<Rightarrow> string" where
  "duplicate_argument name = ''duplicate argument '' @ [squote] @ name @ [squote]"

fun object_members ::
  "json_value scanner \<Rightarrow> (string \<times> json_value) list \<Rightarrow> string list \<Rightarrow> (string, (string \<times> json_value) list) result" where
  "object_members item m [] = Ok m"
| "object_members item m (part # parts) =
     (if list_all is_ascii_whitespace part then object_members item m parts
      else try_bind (object_member item part) (\<lambda>(name, v).
        if name \<in> fst ` set m then Err (duplicate_argument name)
        else object_members item (m @ [(name, v)]) parts))"

definition parse_input_object :: "json_value scanner \<Rightarrow> string \<Rightarrow> (string, json_value) result" where
  "parse_input_object item raw =
     try_bind (object_members item [] (split_top_level (inside raw))) (\<lambda>m. Ok (JObject m))"

definition not_provided :: "string \<Rightarrow> string" where
  "not_provided name = ''variable '' @ [squote] @ name @ [squote] @ '' is not provided''"

definition variable_value :: "json_value \<Rightarrow> string \<Rightarrow> (string, json_value) result" where
  "variable_value vars name =
     (case vars of JObject m \<Rightarrow> ok_or (not_provided name) (map_of m name) | _ \<Rightarrow> Err (not_provided name))"

definition is_token_byte :: "char \<Rightarrow> bool" where
  "is_token_byte c \<longleftrightarrow> \<not> is_ascii_whitespace c \<and> c \<notin> {CHR '','', CHR '')'', CHR '']'', CHR ''}''}"

definition literal_value :: "json_parser \<Rightarrow> string \<Rightarrow> (string, json_value) result" where
  "literal_value from_slice token =
     (case from_slice token of
        Inr v \<Rightarrow> Ok v
      | Inl _ \<Rightarrow>
          if list_all is_ident_byte token \<and> \<not> (case token of c # _ \<Rightarrow> is_ascii_digit c | [] \<Rightarrow> False)
          then Ok (JString token)
          else Err (''invalid value '' @ [squote] @ token @ [squote]))"

text \<open>
  The body of \<^verbatim>\<open>parse_value\<close> after its depth check, with the parser of the values one level
  deeper as an argument.
\<close>

definition triple_quoted :: "string \<Rightarrow> bool" where
  "triple_quoted b = (case b of c0 # c1 # c2 # _ \<Rightarrow> c1 = c0 \<and> c2 = c0 | _ \<Rightarrow> False)"

text \<open>\<^verbatim>\<open>let start = *i; skip(b, i)?; parse(&b[start..*i])\<close>.\<close>

definition slice_with :: "unit scanner \<Rightarrow> (string \<Rightarrow> (string, 'a) result) \<Rightarrow> 'a scanner" where
  "slice_with skip parse b =
     (case skip b of (Inl e, r) \<Rightarrow> (Err e, r) | (Inr _, r) \<Rightarrow> (parse (consumed b r), r))"

definition value_body :: "json_parser \<Rightarrow> json_value \<Rightarrow> json_value scanner \<Rightarrow> json_value scanner" where
  "value_body from_slice vars item b0 =
     (case skip_ws b0 of
        [] \<Rightarrow> (Err ''expected value'', [])
      | c # cs \<Rightarrow>
          if c = dquote \<or> c = squote then
            (if triple_quoted (c # cs) then (Err ''block string value not supported'', c # cs)
             else slice_with (\<lambda>b. skip_string c (tl b)) (parse_string_literal from_slice) (c # cs))
          else if c = CHR ''['' then slice_with (skip_balanced (CHR ''['') (CHR '']'') 0) (parse_list item) (c # cs)
          else if c = CHR ''{'' then slice_with (skip_balanced (CHR ''{'') (CHR ''}'') 0) (parse_input_object item) (c # cs)
          else if c = CHR ''$'' then
            (variable_value vars (takeWhile is_ident_byte cs), dropWhile is_ident_byte cs)
          else
            (literal_value from_slice (takeWhile is_token_byte (c # cs)), dropWhile is_token_byte (c # cs)))"

text \<open>\<open>value_at n\<close>: \<^verbatim>\<open>parse_value\<close> with \<open>n\<close> levels left.\<close>

fun value_at :: "json_parser \<Rightarrow> json_value \<Rightarrow> nat \<Rightarrow> json_value scanner" where
  "value_at from_slice vars 0 b = (Err ''selection too deep'', b)"
| "value_at from_slice vars (Suc n) b = value_body from_slice vars (value_at from_slice vars n) b"

definition parse_value :: "json_parser \<Rightarrow> json_value \<Rightarrow> nat \<Rightarrow> json_value scanner" where
  "parse_value from_slice vars depth = value_at from_slice vars (MAX_DEPTH + 1 - depth)"

definition out_of_fuel :: string where
  "out_of_fuel = ''out of fuel''"

fun args_loop :: "json_value scanner \<Rightarrow> nat \<Rightarrow> (string \<times> json_value) list \<Rightarrow> string \<Rightarrow> (string, (string \<times> json_value) list) result" where
  "args_loop pv 0 args b = Err out_of_fuel"
| "args_loop pv (Suc n) args b =
     (case skip_ws b of
        [] \<Rightarrow> Err (''expected '' @ [squote] @ '')'' @ [squote] @ '' in arguments'')
      | c # cs \<Rightarrow>
          if c = CHR '')'' then Ok args
          else let name = takeWhile is_ident_byte (c # cs) in
            if name = [] then Err ''expected argument name''
            else case skip_ws (dropWhile is_ident_byte (c # cs)) of
                [] \<Rightarrow> Err (''expected '' @ [squote] @ '':'' @ [squote] @ '' after argument '' @ [squote] @ name @ [squote])
              | d # r \<Rightarrow>
                  if d \<noteq> CHR '':'' then Err (''expected '' @ [squote] @ '':'' @ [squote] @ '' after argument '' @ [squote] @ name @ [squote])
                  else case pv (skip_ws r) of
                      (Inl e, _) \<Rightarrow> Err e
                    | (Inr v, r') \<Rightarrow>
                        if name \<in> fst ` set args then Err (duplicate_argument name)
                        else case skip_ws r' of
                            x # xs \<Rightarrow> args_loop pv n (args @ [(name, v)]) (if x = CHR '','' then xs else x # xs)
                          | [] \<Rightarrow> args_loop pv n (args @ [(name, v)]) [])"

definition parse_args :: "json_value scanner \<Rightarrow> string \<Rightarrow> (string, (string \<times> json_value) list) result" where
  "parse_args pv raw =
     (case skip_ws raw of
        c # cs \<Rightarrow> if c = CHR ''('' then args_loop pv (Suc (length cs)) [] cs
                  else Err (''expected '' @ [squote] @ ''('' @ [squote] @ '' in arguments'')
      | [] \<Rightarrow> Err (''expected '' @ [squote] @ ''('' @ [squote] @ '' in arguments''))"

section \<open>Fields and selections\<close>

datatype operation = Query | Mutation | Subscription

datatype field_node = FieldNode (node_args: "(string \<times> json_value) list")
  (node_selection: "(string \<times> field_node) list option")

type_synonym selection_set = "(string \<times> field_node) list"

record parsed_field =
  pf_operation :: operation
  pf_name :: string
  pf_args :: "(string \<times> json_value) list"
  pf_selection :: "selection_set option"

fun skip_directives :: "nat \<Rightarrow> unit scanner" where
  "skip_directives 0 b = (Err out_of_fuel, b)"
| "skip_directives (Suc n) b =
     (case b of
        c # _ \<Rightarrow> if c = CHR ''@'' then act_bind skip_directive (\<lambda>_ r. skip_directives n (skip_ws r)) b else (Ok (), b)
      | [] \<Rightarrow> (Ok (), b))"

definition field_args :: "json_value scanner \<Rightarrow> (string \<times> json_value) list scanner" where
  "field_args pv b =
     (case b of
        c # _ \<Rightarrow>
          if c = CHR ''('' then act_bind (slice_with skip_parens (parse_args pv)) (\<lambda>args r. (Ok args, skip_ws r)) b
          else (Ok [], b)
      | [] \<Rightarrow> (Ok [], b))"

definition field_directives :: "unit scanner" where
  "field_directives b = skip_directives (Suc (length b)) b"

text \<open>\<open>sel\<close> parses a nested selection set.\<close>

definition field_selection :: "selection_set scanner \<Rightarrow> selection_set option scanner" where
  "field_selection sel b =
     (case b of
        c # _ \<Rightarrow> if c = CHR ''{'' then act_bind sel (\<lambda>s. act_ok (Some s)) b else (Ok None, b)
      | [] \<Rightarrow> (Ok None, b))"

text \<open>The body of \<^verbatim>\<open>parse_field\<close> after its depth check.\<close>

definition field_rest :: "json_value scanner \<Rightarrow> selection_set scanner \<Rightarrow> operation \<Rightarrow> string \<Rightarrow> parsed_field scanner" where
  "field_rest pv sel op name =
     act_bind (field_args pv) (\<lambda>args.
     act_bind field_directives (\<lambda>_.
     act_bind (field_selection sel) (\<lambda>selection.
     act_ok \<lparr> pf_operation = op, pf_name = name, pf_args = args, pf_selection = selection \<rparr>)))"

definition field_body :: "json_value scanner \<Rightarrow> selection_set scanner \<Rightarrow> operation \<Rightarrow> parsed_field scanner" where
  "field_body pv sel op b0 =
     (let b = skip_ws b0; name = takeWhile is_ident_byte b; r = skip_ws (dropWhile is_ident_byte b) in
      if name = [] then (Err ''expected field name'', b)
      else if (case r of c # _ \<Rightarrow> c = CHR '':'' | [] \<Rightarrow> False) then (Err ''aliases not supported'', r)
      else field_rest pv sel op name r)"

fun selection_loop :: "parsed_field scanner \<Rightarrow> nat \<Rightarrow> selection_set \<Rightarrow> selection_set scanner" where
  "selection_loop f 0 s b = (Err out_of_fuel, b)"
| "selection_loop f (Suc n) s b =
     (case b of
        [] \<Rightarrow> (Err (''expected '' @ [squote] @ ''}'' @ [squote]), b)
      | c # cs \<Rightarrow>
          if c = CHR ''}'' then (Ok s, cs)
          else if c = CHR ''.'' then (Err ''fragment spreads are not supported'', b)
          else act_bind f (\<lambda>fl r. selection_loop f n
                 (AList.update (pf_name fl) (FieldNode (pf_args fl) (pf_selection fl)) s) (skip_ws r)) b)"

text \<open>\<^verbatim>\<open>parse_selection_set\<close> after its depth check, at the opening brace.\<close>

definition selection_body :: "parsed_field scanner \<Rightarrow> selection_set scanner" where
  "selection_body f b =
     (let r = skip_ws (tl b) in
      case r of
        [] \<Rightarrow> (Err ''empty selection set'', r)
      | c # _ \<Rightarrow> if c = CHR ''}'' then (Err ''empty selection set'', r) else selection_loop f (Suc (length r)) [] r)"

text \<open>\<open>field_at n\<close>: \<^verbatim>\<open>parse_field\<close> with \<open>n\<close> levels left; its selection has one level less.\<close>

fun field_at :: "json_parser \<Rightarrow> json_value \<Rightarrow> nat \<Rightarrow> operation \<Rightarrow> parsed_field scanner" where
  "field_at from_slice vars 0 op b = (Err ''selection too deep'', b)"
| "field_at from_slice vars (Suc n) op b =
     field_body (value_at from_slice vars (Suc n))
       (if n = 0 then (\<lambda>r. (Err ''selection too deep'', r)) else selection_body (field_at from_slice vars n Query)) op b"

definition parse_field :: "json_parser \<Rightarrow> json_value \<Rightarrow> nat \<Rightarrow> operation \<Rightarrow> parsed_field scanner" where
  "parse_field from_slice vars depth = field_at from_slice vars (MAX_DEPTH + 1 - depth)"

section \<open>Queries\<close>

definition starts_with :: "string \<Rightarrow> string \<Rightarrow> bool" where
  "starts_with kw b \<longleftrightarrow> take (length kw) b = kw"

definition keyword_ends :: "string \<Rightarrow> bool" where
  "keyword_ends r = (case r of [] \<Rightarrow> True | c # _ \<Rightarrow> is_ascii_whitespace c \<or> c = CHR ''('' \<or> c = CHR ''{'')"

fun operation_keyword :: "(string \<times> operation) list \<Rightarrow> string \<Rightarrow> operation \<times> string" where
  "operation_keyword [] b = (Query, b)"
| "operation_keyword ((kw, op) # kws) b =
     (if starts_with kw b \<and> keyword_ends (drop (length kw) b) then (op, drop (length kw) b)
      else operation_keyword kws b)"

text \<open>Variable definitions and directives of the operation.\<close>

fun skip_definitions :: "nat \<Rightarrow> unit scanner" where
  "skip_definitions 0 b = (Err out_of_fuel, b)"
| "skip_definitions (Suc n) b =
     (case b of
        c # _ \<Rightarrow>
          if c = CHR ''('' then act_bind skip_parens (\<lambda>_ r. skip_definitions n (skip_ws r)) b
          else if c = CHR ''@'' then act_bind skip_directive (\<lambda>_ r. skip_definitions n (skip_ws r)) b
          else (Ok (), b)
      | [] \<Rightarrow> (Ok (), b))"

definition selection_start :: "unit scanner" where
  "selection_start b =
     (case b of
        c # cs \<Rightarrow>
          if c \<noteq> CHR ''{'' then (Err (''expected '' @ [squote] @ ''{'' @ [squote] @ '' before selection''), b)
          else (case skip_ws cs of
              [] \<Rightarrow> (Err ''empty selection set'', [])
            | d # ds \<Rightarrow> if d = CHR ''}'' then (Err ''empty selection set'', d # ds)
                       else if d = CHR ''.'' then (Err ''fragment spreads are not supported'', d # ds)
                       else (Ok (), d # ds))
      | [] \<Rightarrow> (Err (''expected '' @ [squote] @ ''{'' @ [squote] @ '' before selection''), b))"

definition query_end :: "string \<Rightarrow> (string, unit) result" where
  "query_end r =
     (case skip_ws r of
        [] \<Rightarrow> Err (''expected '' @ [squote] @ ''}'' @ [squote])
      | c # _ \<Rightarrow> if c = CHR ''}'' then Ok ()
                 else if c = CHR ''.'' then Err ''fragment spreads are not supported''
                 else Err ''multiple top-level fields not supported'')"

text \<open>The operation and its name; then the definitions, the selection and the closing brace.\<close>

definition query_prefix :: "string \<Rightarrow> operation \<times> string" where
  "query_prefix query =
     (let (op, b1) = operation_keyword [(''query'', Query), (''mutation'', Mutation), (''subscription'', Subscription)]
            (skip_ws query);
          b2 = skip_ws b1
      in (op, case b2 of c # _ \<Rightarrow> if is_ident_byte c then skip_ws (dropWhile is_ident_byte b2) else b2 | [] \<Rightarrow> b2))"

definition query_body :: "json_parser \<Rightarrow> json_value \<Rightarrow> operation \<Rightarrow> parsed_field scanner" where
  "query_body from_slice vars op b =
     act_bind (skip_definitions (Suc (length b))) (\<lambda>_.
     act_bind selection_start (\<lambda>_.
     act_bind (parse_field from_slice vars 0 op) (\<lambda>field r. (try_bind (query_end r) (\<lambda>_. Ok field), r)))) b"

definition parse_query :: "json_parser \<Rightarrow> string \<Rightarrow> json_value \<Rightarrow> (string, parsed_field) result" where
  "parse_query from_slice query vars = (case query_prefix query of (op, b) \<Rightarrow> fst (query_body from_slice vars op b))"

section \<open>Budget and execution (validation.rs, lib.rs)\<close>

lemma node_selection_size:
  "(k, FieldNode a sel) \<in> set s \<Longrightarrow>
   size_option (size_list (size_prod (\<lambda>_. 0) size)) sel < size_option (size_list (size_prod (\<lambda>_. 0) size)) (Some s)"
  by (induction s) auto

definition DEFAULT_MAX_COMPLEXITY :: nat where "DEFAULT_MAX_COMPLEXITY = 10000"

function complexity :: "selection_set option \<Rightarrow> nat" where
  "complexity None = 0"
| "complexity (Some s) = sum_list (map (\<lambda>(k, n). case n of FieldNode a sel \<Rightarrow> 1 + complexity sel) s)"
  by pat_completeness auto
termination
  by (relation "measure (size_option (size_list (size_prod (\<lambda>_. 0) size)))") (simp, metis in_measure node_selection_size)

definition over_budget :: "nat \<Rightarrow> nat \<Rightarrow> string" where
  "over_budget n max_complexity = ''query complexity '' @ dec_nat n @ '' exceeds limit '' @ dec_nat max_complexity"

definition gql_validate :: "parsed_field \<Rightarrow> nat \<Rightarrow> (string, unit) result" where
  "gql_validate field max_complexity =
     (let n = complexity (pf_selection field) + 1 in
      if n > max_complexity
      then Err (over_budget n max_complexity)
      else Ok ())"

text \<open>Resolvers act on the state \<open>'s\<close> of the application.\<close>

record field_request =
  fr_args :: "(string \<times> json_value) list"
  fr_variables :: json_value
  fr_selection :: "selection_set option"

datatype 's field_handler =
    Legacy "json_value \<Rightarrow> (string, 's, json_value) act"
  | Rich "field_request \<Rightarrow> (string, 's, json_value) act"

record 's graphql_schema =
  gs_query :: "string \<Rightarrow> 's field_handler option"
  gs_mutation :: "string \<Rightarrow> 's field_handler option"
  gs_max_complexity :: nat

definition schema_new :: "'s graphql_schema" where
  "schema_new = \<lparr> gs_query = Map.empty, gs_mutation = Map.empty, gs_max_complexity = DEFAULT_MAX_COMPLEXITY \<rparr>"

definition with_limits :: "'s graphql_schema \<Rightarrow> nat \<Rightarrow> 's graphql_schema" where
  "with_limits schema limits = schema\<lparr>gs_max_complexity := limits\<rparr>"

definition schema_query :: "'s graphql_schema \<Rightarrow> string \<Rightarrow> 's field_handler \<Rightarrow> 's graphql_schema" where
  "schema_query schema name h = schema\<lparr>gs_query := (gs_query schema)(name \<mapsto> h)\<rparr>"

definition schema_mutation :: "'s graphql_schema \<Rightarrow> string \<Rightarrow> 's field_handler \<Rightarrow> 's graphql_schema" where
  "schema_mutation schema name h = schema\<lparr>gs_mutation := (gs_mutation schema)(name \<mapsto> h)\<rparr>"

definition merge_args :: "json_value \<Rightarrow> (string \<times> json_value) list \<Rightarrow> (string, json_value) result" where
  "merge_args vars args =
     (if args = [] then Ok vars
      else case vars of
        JObject m \<Rightarrow> Ok (JObject (foldl (\<lambda>acc (k, v). AList.update k v acc) m args))
      | JNull \<Rightarrow> Ok (JObject args)
      | _ \<Rightarrow> Err ''variables must be a JSON object when field arguments are present'')"

definition execute :: "json_parser \<Rightarrow> 's graphql_schema \<Rightarrow> string \<Rightarrow> json_value \<Rightarrow> (string list, 's, json_value) act" where
  "execute from_slice schema query vars s =
     (case parse_query from_slice (str_trim query) vars of
        Inl e \<Rightarrow> (Err [e], s)
      | Inr field \<Rightarrow>
          (case gql_validate field (gs_max_complexity schema) of
             Inl e \<Rightarrow> (Err [e], s)
           | Inr _ \<Rightarrow>
               (let resolvers = (if pf_operation field = Mutation then gs_mutation schema else gs_query schema) in
                case resolvers (pf_name field) of
                  Some (Legacy resolver) \<Rightarrow>
                    (case merge_args vars (pf_args field) of
                       Inl e \<Rightarrow> (Err [e], s)
                     | Inr v \<Rightarrow> (case resolver v s of
                         (Inr data, s') \<Rightarrow> (Ok (JObject [(pf_name field, data)]), s')
                       | (Inl e, s') \<Rightarrow> (Err [e], s')))
                | Some (Rich r) \<Rightarrow>
                    (case r \<lparr> fr_args = pf_args field, fr_variables = vars, fr_selection = pf_selection field \<rparr> s of
                       (Inr data, s') \<Rightarrow> (Ok (JObject [(pf_name field, data)]), s')
                     | (Inl e, s') \<Rightarrow> (Err [e], s'))
                | None \<Rightarrow> (Err [''unknown field: '' @ pf_name field], s))))"

section \<open>Scanners move forward\<close>

definition shrinks :: "'a scanner \<Rightarrow> bool" where
  "shrinks f \<longleftrightarrow> (\<forall>b. length (snd (f b)) \<le> length b)"

definition consumes :: "'a scanner \<Rightarrow> bool" where
  "consumes f \<longleftrightarrow> (\<forall>b x r. f b = (Inr x, r) \<longrightarrow> length r < length b)"

text \<open>No run of a scanner ends because a loop has used up its fuel.\<close>

definition fueled :: "'a scanner \<Rightarrow> bool" where
  "fueled f \<longleftrightarrow> (\<forall>b. fst (f b) \<noteq> Inl out_of_fuel)"

lemma shrinksD: "shrinks f \<Longrightarrow> f b = (x, r) \<Longrightarrow> length r \<le> length b"
  by (metis shrinks_def snd_conv)

lemma fueledD: "fueled f \<Longrightarrow> f b = (Inl e, r) \<Longrightarrow> e \<noteq> out_of_fuel"
  by (metis fueled_def fst_conv)

lemma skip_ws_shorter: "length (skip_ws b) \<le> length b"
proof (induction b rule: skip_ws.induct)
  case (2 c cs)
  then show ?case using length_dropWhile_le [of "\<lambda>d. d \<noteq> CHR 0x0A" cs] by auto
qed simp

lemma skip_string_len: "skip_string q cs = (x, r) \<Longrightarrow> length r \<le> length cs"
  using skip_string_shorter [of q cs] by simp

lemma skip_parens_from_shorter: "length (snd (skip_parens_from depth b)) \<le> length b"
proof (induction depth b rule: skip_parens_from.induct)
  case (2 depth c cs)
  obtain x r where s: "skip_string c cs = (x, r)" by (cases "skip_string c cs")
  have "length (snd (skip_parens_from depth r)) \<le> Suc (length cs)"
    if "c = dquote \<or> c = squote" "x = Inr u" for u
    using 2(3) [of x r u] that s skip_string_len [OF s] by auto
  then show ?case using 2(1,2,4) s skip_string_len [OF s] by (cases x) (auto simp: le_SucI)
qed simp

lemma skip_balanced_shorter: "length (snd (skip_balanced opn cls depth b)) \<le> length b"
proof (induction opn cls depth b rule: skip_balanced.induct)
  case (2 opn cls depth c cs)
  obtain x r where s: "skip_string c cs = (x, r)" by (cases "skip_string c cs")
  have "length (snd (skip_balanced opn cls depth r)) \<le> Suc (length cs)"
    if "c \<noteq> opn" "c \<noteq> cls" "c = dquote \<or> c = squote" "x = Inr u" for u
    using 2(3) [of x r u] that s skip_string_len [OF s] by auto
  then show ?case using 2(1,2,4) s skip_string_len [OF s] by (cases x) (auto simp: le_SucI)
qed simp

text \<open>A group takes at least its two brackets.\<close>

lemma skip_parens_from_consumes:
  "skip_parens_from depth b = (Inr u, r) \<Longrightarrow> length r < length b"
proof (induction depth b rule: skip_parens_from.induct)
  case (2 depth c cs)
  obtain x r' where s: "skip_string c cs = (x, r')" by (cases "skip_string c cs")
  have "length r < Suc (length cs)"
    if "c = dquote \<or> c = squote" "x = Inr v" "skip_parens_from depth r' = (Inr u, r)" for v
    using 2(3) [of x r' v] that s skip_string_len [OF s] by auto
  then show ?case using 2(1,2,4,5) s by (cases x) (auto split: if_splits)
qed simp

lemma skip_parens_len: "skip_parens b = (x, r) \<Longrightarrow> length r \<le> length b"
  using skip_parens_from_shorter [of 0 b] by (simp add: skip_parens_def)

lemma skip_balanced_len: "skip_balanced opn cls d b = (x, r) \<Longrightarrow> length r \<le> length b"
  using skip_balanced_shorter [of opn cls d b] by simp

lemma skip_ws_le: "skip_ws b = c # cs \<Longrightarrow> length cs < length b"
  using skip_ws_shorter [of b] by simp

lemma dropWhile_shorter: "length (dropWhile P b) \<le> length b"
  by (rule length_dropWhile_le)

lemma skip_directive_consumes: "b \<noteq> [] \<Longrightarrow> skip_directive b = (x, r) \<Longrightarrow> length r < length b"
proof -
  assume b: "b \<noteq> []" and d: "skip_directive b = (x, r)"
  let ?s = "skip_ws (dropWhile is_ident_byte (tl b))"
  have "length ?s < length b"
    using order_trans [OF skip_ws_shorter dropWhile_shorter, of is_ident_byte "tl b"] b by (cases b) auto
  moreover have "length r \<le> length ?s"
  proof (cases "\<exists>cs. ?s = CHR ''('' # cs")
    case True
    then have "skip_parens ?s = (x, r)" using d by (auto simp: skip_directive_def Let_def)
    then show ?thesis by (rule skip_parens_len)
  next
    case False
    then have "r = ?s" using d by (auto simp: skip_directive_def Let_def split: list.splits if_splits)
    then show ?thesis by simp
  qed
  ultimately show ?thesis by simp
qed

lemma snd_slice_with [simp]: "snd (slice_with skip parse b) = snd (skip b)"
  by (simp add: slice_with_def split: prod.split sum.split)

lemma value_body_shrinks: "shrinks (value_body from_slice vars item)"
  unfolding shrinks_def
proof
  fix b0
  show "length (snd (value_body from_slice vars item b0)) \<le> length b0"
  proof (cases "skip_ws b0")
    case Nil
    then show ?thesis by (simp add: value_body_def)
  next
    case (Cons c cs)
    have "Suc (length cs) \<le> length b0" using skip_ws_le [OF Cons] by simp
    then have lens: "length (snd (skip_string c cs)) \<le> length b0"
      "length (snd (skip_balanced opn cls 0 (c # cs))) \<le> length b0" "Suc (length cs) \<le> length b0"
      "length (dropWhile is_ident_byte cs) \<le> length b0" "length (dropWhile is_token_byte (c # cs)) \<le> length b0" for opn cls
      using skip_string_shorter [of c cs] skip_balanced_shorter [of opn cls 0 "c # cs"]
        dropWhile_shorter [of is_ident_byte cs] dropWhile_shorter [of is_token_byte "c # cs"] by simp_all
    then show ?thesis by (auto simp: value_body_def Cons simp del: skip_balanced.simps dropWhile.simps)
  qed
qed

lemma value_at_shrinks: "shrinks (value_at from_slice vars n)"
  by (cases n) (use value_body_shrinks in \<open>auto simp: shrinks_def\<close>)

section \<open>Loops do not run out of fuel\<close>

lemma skip_string_fueled: "skip_string q cs = (Inl e, r) \<Longrightarrow> e = unterminated"
proof -
  have "skip_quoted q cs = (Inl e, r) \<Longrightarrow> e = unterminated" for cs
    by (induction q cs rule: skip_quoted.induct) (auto split: if_splits)
  moreover have "skip_block q cs = (Inl e, r) \<Longrightarrow> e = unterminated" for cs
    by (induction q cs rule: skip_block.induct) (auto split: if_splits)
  ultimately show "skip_string q cs = (Inl e, r) \<Longrightarrow> e = unterminated"
    by (auto simp: skip_string_def split: list.splits if_splits)
qed

lemma skip_parens_from_fueled: "fst (skip_parens_from depth b) \<noteq> Inl out_of_fuel"
  by (induction depth b rule: skip_parens_from.induct)
    (auto simp: out_of_fuel_def unterminated_def split: prod.split sum.split dest!: skip_string_fueled)

lemma skip_balanced_fueled: "fst (skip_balanced opn cls depth b) \<noteq> Inl out_of_fuel"
  by (induction opn cls depth b rule: skip_balanced.induct)
    (auto simp: out_of_fuel_def unterminated_def split: prod.split sum.split dest!: skip_string_fueled)

lemma skip_parens_fueled: "skip_parens b = (Inl e, r) \<Longrightarrow> e \<noteq> out_of_fuel"
  using skip_parens_from_fueled [of 0 b] by (auto simp: skip_parens_def)

lemma skip_directive_fueled: "skip_directive b = (Inl e, r) \<Longrightarrow> e \<noteq> out_of_fuel"
  by (auto simp: skip_directive_def Let_def split: list.splits if_splits dest: skip_parens_fueled)

lemma try_bind_Inl_iff: "try_bind r k = Inl e \<longleftrightarrow> r = Inl e \<or> (\<exists>x. r = Inr x \<and> k x = Inl e)"
  by (cases r) auto

lemma unescape_fueled: "unescape cs \<noteq> Inl out_of_fuel"
proof (induction cs rule: unescape.induct)
  case (2 c cs)
  show ?case
  proof (cases "c = backslash \<and> cs \<noteq> []")
    case True
    then obtain e rest where cs: "cs = e # rest" by (cases cs) auto
    then show ?thesis using True 2(2,3)
      by (cases "simple_escape e"; cases "Option.bind (from_str_radix16 (take 4 rest)) encode_utf8")
        (auto simp: try_bind_Inl_iff out_of_fuel_def simp del: unescape.simps simp add: unescape.simps(2) [of backslash "e # rest"])
  next
    case False
    then show ?thesis using 2(1) by (auto simp: try_bind_Inl_iff out_of_fuel_def)
  qed
qed simp

lemma string_literal_fueled: "parse_string_literal from_slice token \<noteq> Inl out_of_fuel"
  using unescape_fueled
  by (auto simp: parse_string_literal_def map_err_def try_bind_def out_of_fuel_def split: list.split sum.split)

lemma collect_results_err: "collect_results f xs = Inl e \<Longrightarrow> \<exists>x \<in> set xs. f x = Inl e"
  by (induction xs) (auto simp: try_bind_def split: sum.splits)

lemma object_member_fueled:
  assumes "fueled item"
  shows "object_member item part \<noteq> Inl out_of_fuel"
  using assms unfolding fueled_def
  by (auto simp: object_member_def Let_def out_of_fuel_def try_bind_def split: list.split sum.split)

lemma object_members_fueled:
  assumes "fueled item"
  shows "object_members item m parts \<noteq> Inl out_of_fuel"
  using assms
proof (induction item m parts rule: object_members.induct)
  case (2 item m part parts)
  then show ?case using object_member_fueled [of item part]
    by (auto simp: try_bind_def duplicate_argument_def out_of_fuel_def split: sum.split)
qed simp


lemma slice_fueled:
  assumes "\<And>e r. skip b = (Inl e, r) \<Longrightarrow> e \<noteq> out_of_fuel" "\<And>raw. parse raw \<noteq> Inl out_of_fuel"
  shows "fst (slice_with skip parse b) \<noteq> Inl out_of_fuel"
  using assms by (auto simp: slice_with_def split: prod.split sum.split)

lemma value_body_fueled:
  assumes "fueled item"
  shows "fueled (value_body from_slice vars item)"
  unfolding fueled_def
proof
  fix b0
  have l: "parse_list item raw \<noteq> Inl out_of_fuel" for raw
    using assms by (auto simp: parse_list_def try_bind_Inl_iff fueled_def dest!: collect_results_err)
  have o: "parse_input_object item raw \<noteq> Inl out_of_fuel" for raw
    using object_members_fueled [OF assms] by (auto simp: parse_input_object_def try_bind_Inl_iff)
  have s: "fst (slice_with (\<lambda>b. skip_string c (tl b)) (parse_string_literal from_slice) b) \<noteq> Inl out_of_fuel" for c b
    by (rule slice_fueled [OF _ string_literal_fueled]) (auto simp: out_of_fuel_def unterminated_def dest: skip_string_fueled)
  have bal: "fst (slice_with (skip_balanced opn cls 0) parse b) \<noteq> Inl out_of_fuel"
    if "\<And>raw. parse raw \<noteq> Inl out_of_fuel" for opn cls b and parse :: "string \<Rightarrow> (string, json_value) result"
    using that skip_balanced_fueled [of opn cls 0 b] by (intro slice_fueled) auto
  have v: "variable_value vars name \<noteq> Inl out_of_fuel" "literal_value from_slice tok \<noteq> Inl out_of_fuel" for name tok
    by (auto simp: variable_value_def literal_value_def not_provided_def out_of_fuel_def ok_or_def
        split: json_value.split option.split sum.split)
  have msg: "''expected value'' \<noteq> out_of_fuel" "''block string value not supported'' \<noteq> out_of_fuel"
    by (simp_all add: out_of_fuel_def)
  show "fst (value_body from_slice vars item b0) \<noteq> Inl out_of_fuel"
  proof (cases "skip_ws b0")
    case Nil
    then show ?thesis using msg(1) by (simp add: value_body_def)
  next
    case (Cons c cs)
    show ?thesis
      unfolding value_body_def Cons list.case if_distrib [of fst] fst_conv
      by (simp only: if_False if_True s bal [OF l] bal [OF o] v msg(2) sum.inject simp_thms split: if_split)
  qed
qed

lemma value_at_fueled: "fueled (value_at from_slice vars n)"
proof (induction n)
  case 0
  then show ?case by (simp add: fueled_def out_of_fuel_def)
next
  case (Suc n)
  then show ?case using value_body_fueled [OF Suc] by (simp add: fueled_def)
qed

lemma args_loop_fueled:
  assumes "fueled pv" "shrinks pv" "length b < n"
  shows "args_loop pv n args b \<noteq> Inl out_of_fuel"
  using assms(3)
proof (induction n arbitrary: args b)
  case (Suc n)
  show ?case
  proof (cases "skip_ws b")
    case Nil
    then show ?thesis by (simp add: out_of_fuel_def)
  next
    case (Cons c cs)
    let ?name = "takeWhile is_ident_byte (c # cs)"
    show ?thesis
    proof (cases "c = CHR '')'' \<or> ?name = []")
      case True
      then show ?thesis by (auto simp: Cons out_of_fuel_def)
    next
      case False
      then have id: "is_ident_byte c" "c \<noteq> CHR '')''" by (auto split: if_splits)
      show ?thesis
      proof (cases "skip_ws (dropWhile is_ident_byte (c # cs))")
        case Nil
        then show ?thesis using False Cons by (simp add: out_of_fuel_def)
      next
        case r: (Cons d r)
        obtain x r' where v: "pv (skip_ws r) = (x, r')" by (cases "pv (skip_ws r)")
        have "length r < length b"
          using skip_ws_le [OF Cons] skip_ws_le [OF r] dropWhile_shorter [of is_ident_byte "c # cs"] by simp
        then have len: "length r' < length b"
          using shrinksD [OF assms(2) v] skip_ws_shorter [of r] by simp
        then have "length (case skip_ws r' of x # xs \<Rightarrow> if x = CHR '','' then xs else x # xs | [] \<Rightarrow> []) < n"
          using Suc.prems skip_ws_shorter [of r'] by (auto split: list.split)
        note IH = Suc.IH [OF this]
        show ?thesis
        proof (cases x)
          case (Inl e)
          then have "e \<noteq> out_of_fuel" using v fueledD [OF assms(1)] by blast
          then show ?thesis using False Cons r v Inl id by (simp add: out_of_fuel_def Let_def)
        next
          case (Inr y)
          have "args_loop pv (Suc n) args b = (if d \<noteq> CHR '':'' then Err (''expected '' @ [squote] @ '':'' @ [squote] @ '' after argument '' @ [squote] @ ?name @ [squote])
             else if ?name \<in> fst ` set args then Err (duplicate_argument ?name)
             else args_loop pv n (args @ [(?name, y)]) (case skip_ws r' of x # xs \<Rightarrow> if x = CHR '','' then xs else x # xs | [] \<Rightarrow> []))"
            using False Cons r v Inr id by (simp add: Let_def split: list.split)
          then show ?thesis using IH by (simp add: out_of_fuel_def duplicate_argument_def)
        qed
      qed
    qed
  qed
qed simp

declare args_loop.simps(2) [simp del]

lemma parse_args_fueled:
  assumes "fueled pv" "shrinks pv"
  shows "parse_args pv raw \<noteq> Inl out_of_fuel"
  using args_loop_fueled [OF assms] by (auto simp: parse_args_def split: list.split) (simp_all add: out_of_fuel_def)

lemma shrinks_bind: "shrinks f \<Longrightarrow> (\<And>x. shrinks (k x)) \<Longrightarrow> shrinks (act_bind f k)"
  unfolding shrinks_def act_bind_def by (auto split: prod.split sum.split) (metis order_trans snd_conv)+

lemma shrinks_ok: "shrinks (act_ok x)"
  by (simp add: shrinks_def)

lemma fueled_ok: "fueled (act_ok x)"
  by (simp add: fueled_def)

lemma act_bind_fueled:
  assumes "fst (f b) \<noteq> Inl out_of_fuel" "\<And>x r. f b = (Inr x, r) \<Longrightarrow> fst (k x r) \<noteq> Inl out_of_fuel"
  shows "fst (act_bind f k b) \<noteq> Inl out_of_fuel"
  using assms by (auto simp: act_bind_def split: prod.split sum.split)

lemma fueled_bind: "fueled f \<Longrightarrow> (\<And>x. fueled (k x)) \<Longrightarrow> fueled (act_bind f k)"
  unfolding fueled_def using act_bind_fueled [of f _ k] by blast

lemma skip_directives_fueled: "length b < n \<Longrightarrow> fst (skip_directives n b) \<noteq> Inl out_of_fuel"
proof (induction n arbitrary: b)
  case (Suc n)
  have "fst (act_bind skip_directive (\<lambda>_ r. skip_directives n (skip_ws r)) b) \<noteq> Inl out_of_fuel" if b: "b \<noteq> []"
  proof (rule act_bind_fueled)
    show "fst (skip_directive b) \<noteq> Inl out_of_fuel"
      using skip_directive_fueled by (cases "skip_directive b") auto
    fix x r assume "skip_directive b = (Inr x, r)"
    from skip_directive_consumes [OF b this] show "fst (skip_directives n (skip_ws r)) \<noteq> Inl out_of_fuel"
      using Suc.prems skip_ws_shorter [of r] by (intro Suc.IH) simp
  qed
  then show ?case by (auto split: list.split)
qed simp

lemma skip_directives_shrinks: "length (snd (skip_directives n b)) \<le> length b"
proof (induction n arbitrary: b)
  case (Suc n)
  have "length (snd (act_bind skip_directive (\<lambda>_ r. skip_directives n (skip_ws r)) b)) \<le> length b" if b: "b \<noteq> []"
  proof (cases "skip_directive b")
    case (Pair x r)
    have "length r < length b" by (rule skip_directive_consumes [OF b Pair])
    then show ?thesis using Pair Suc [of "skip_ws r"] skip_ws_shorter [of r] by (cases x) (simp_all add: act_bind_def)
  qed
  then show ?case by (auto split: list.split)
qed simp

lemma field_directives_ok: "shrinks field_directives" "fueled field_directives"
  using skip_directives_shrinks skip_directives_fueled by (simp_all add: shrinks_def fueled_def field_directives_def del: skip_directives.simps)

lemma field_args_fueled:
  assumes "fueled pv" "shrinks pv"
  shows "fueled (field_args pv)"
proof -
  have "fst (slice_with skip_parens (parse_args pv) b) \<noteq> Inl out_of_fuel" for b
    by (rule slice_fueled) (use parse_args_fueled [OF assms] skip_parens_fueled in auto)
  then have "fst (act_bind (slice_with skip_parens (parse_args pv)) (\<lambda>args r. (Ok args, skip_ws r)) b) \<noteq> Inl out_of_fuel" for b
    by (rule act_bind_fueled) simp
  then show ?thesis by (auto simp: fueled_def field_args_def split: list.split)
qed

lemma field_args_shrinks: "shrinks (field_args pv)"
proof -
  have "shrinks (slice_with skip_parens (parse_args pv))"
    using skip_parens_from_shorter [of 0] by (simp add: shrinks_def skip_parens_def)
  then have "shrinks (act_bind (slice_with skip_parens (parse_args pv)) (\<lambda>args r. (Ok args, skip_ws r)))"
    by (rule shrinks_bind) (simp add: shrinks_def skip_ws_shorter)
  then show ?thesis by (auto simp: shrinks_def field_args_def split: list.split) (metis length_Cons)
qed

lemma field_selection_ok:
  "shrinks sel \<Longrightarrow> shrinks (field_selection sel)" "fueled sel \<Longrightarrow> fueled (field_selection sel)"
proof -
  show "shrinks (field_selection sel)" if "shrinks sel"
    using shrinks_bind [OF that, of "\<lambda>s. act_ok (Some s)"] by (auto simp: shrinks_ok shrinks_def field_selection_def split: list.split) (metis length_Cons)
  show "fueled (field_selection sel)" if "fueled sel"
    using fueled_bind [OF that, of "\<lambda>s. act_ok (Some s)"] by (auto simp: fueled_ok fueled_def field_selection_def split: list.split)
qed

lemma field_rest_ok:
  "shrinks sel \<Longrightarrow> shrinks (field_rest pv sel op name)"
  "fueled pv \<Longrightarrow> shrinks pv \<Longrightarrow> fueled sel \<Longrightarrow> fueled (field_rest pv sel op name)"
  unfolding field_rest_def
  by (intro shrinks_bind fueled_bind field_args_shrinks field_args_fueled field_directives_ok field_selection_ok shrinks_ok
      fueled_ok; assumption)+

text \<open>The name of a field takes at least one byte.\<close>

lemma name_consumes:
  assumes "takeWhile is_ident_byte (skip_ws b) \<noteq> []"
  shows "length (skip_ws (dropWhile is_ident_byte (skip_ws b))) < length b"
proof -
  have "length (dropWhile is_ident_byte (skip_ws b)) < length (skip_ws b)"
    using assms by (cases "skip_ws b") (auto simp: le_imp_less_Suc dropWhile_shorter split: if_splits)
  then show ?thesis using skip_ws_shorter [of b] skip_ws_shorter [of "dropWhile is_ident_byte (skip_ws b)"] by simp
qed

lemma field_body_ok:
  assumes "shrinks sel"
  shows "shrinks (field_body pv sel op)" "consumes (field_body pv sel op)"
    "fueled pv \<Longrightarrow> shrinks pv \<Longrightarrow> fueled sel \<Longrightarrow> fueled (field_body pv sel op)"
proof -
  let ?r = "\<lambda>b. skip_ws (dropWhile is_ident_byte (skip_ws b))"
  note rest = field_rest_ok(1) [OF assms, of pv op, unfolded shrinks_def]
  have le: "length (?r b) \<le> length (skip_ws b)" "length (?r b) \<le> length b" for b
    using skip_ws_shorter [of b] skip_ws_shorter [of "dropWhile is_ident_byte (skip_ws b)"]
      dropWhile_shorter [of is_ident_byte "skip_ws b"] by simp_all
  show "shrinks (field_body pv sel op)"
    using le skip_ws_shorter order_trans [OF rest [rule_format] le(2)] by (auto simp: shrinks_def field_body_def Let_def)
  note lt = name_consumes
  show "consumes (field_body pv sel op)"
    unfolding consumes_def
  proof (intro allI impI)
    fix b x r assume "field_body pv sel op b = (Inr x, r)"
    then have n: "takeWhile is_ident_byte (skip_ws b) \<noteq> []"
      and "field_rest pv sel op (takeWhile is_ident_byte (skip_ws b)) (?r b) = (Inr x, r)"
      by (auto simp: field_body_def Let_def split: if_splits)
    then have "length r \<le> length (?r b)" using rest by (metis snd_conv)
    then show "length r < length b" using lt [OF n] by simp
  qed
  show "fueled (field_body pv sel op)" if "fueled pv" "shrinks pv" "fueled sel"
    using field_rest_ok(2) [OF that, of op] by (auto simp: fueled_def field_body_def Let_def) (simp_all add: out_of_fuel_def)
qed

lemma selection_loop_ok:
  assumes "shrinks f"
  shows "length (snd (selection_loop f n s b)) \<le> length b"
    "consumes f \<Longrightarrow> fueled f \<Longrightarrow> length b < n \<Longrightarrow> fst (selection_loop f n s b) \<noteq> Inl out_of_fuel"
proof (induction n arbitrary: s b)
  case (Suc n)
  {
    case 1
    let ?k = "\<lambda>(fl :: parsed_field) r. selection_loop f n (AList.update (pf_name fl) (FieldNode (pf_args fl) (pf_selection fl)) s) (skip_ws r)"
    obtain x r where fb: "f b = (x, r)" by (cases "f b")
    have "length (snd (selection_loop f n s' (skip_ws r))) \<le> length b" for s'
      using Suc(1) [of s' "skip_ws r"] skip_ws_shorter [of r] shrinksD [OF assms fb] by simp
    then have "length (snd (act_bind f ?k b)) \<le> length b"
      using shrinksD [OF assms fb] fb by (cases x) (auto simp: act_bind_def)
    then show ?case by (auto split: list.split)
  next
    case 2
    let ?k = "\<lambda>(fl :: parsed_field) r. selection_loop f n (AList.update (pf_name fl) (FieldNode (pf_args fl) (pf_selection fl)) s) (skip_ws r)"
    have "fst (act_bind f ?k b) \<noteq> Inl out_of_fuel"
    proof (rule act_bind_fueled)
      show "fst (f b) \<noteq> Inl out_of_fuel" using 2(2) by (simp add: fueled_def)
      fix x r assume "f b = (Inr x, r)"
      then have "length r < length b" using 2(1) by (auto simp: consumes_def)
      then show "fst (?k x r) \<noteq> Inl out_of_fuel"
        using skip_ws_shorter [of r] 2(3) by (intro Suc(2) 2(1,2)) simp
    qed
    then show ?case by (auto split: list.split) (simp_all add: out_of_fuel_def)
  }
qed simp_all

lemma selection_body_ok:
  assumes "shrinks f"
  shows "shrinks (selection_body f)" "consumes f \<Longrightarrow> fueled f \<Longrightarrow> fueled (selection_body f)"
proof -
  have le: "length (skip_ws (tl b)) \<le> length b" for b using skip_ws_shorter [of "tl b"] by simp
  show "shrinks (selection_body f)"
    unfolding shrinks_def
  proof
    fix b
    show "length (snd (selection_body f b)) \<le> length b"
      using le [of b] order_trans [OF selection_loop_ok(1) [OF assms] le [of b]]
      by (auto simp: selection_body_def Let_def split: list.split simp del: selection_loop.simps)
  qed
  show "fueled (selection_body f)" if "consumes f" "fueled f"
    unfolding fueled_def
  proof
    fix b
    have "fst (selection_loop f (Suc (length r)) [] r) \<noteq> Inl out_of_fuel" for r
      by (rule selection_loop_ok(2) [OF assms that]) simp
    then show "fst (selection_body f b) \<noteq> Inl out_of_fuel"
      by (auto simp: selection_body_def Let_def split: list.split simp del: selection_loop.simps) (simp_all add: out_of_fuel_def)
  qed
qed

lemma field_at_ok:
  "shrinks (field_at from_slice vars n op) \<and> consumes (field_at from_slice vars n op) \<and> fueled (field_at from_slice vars n op)"
proof (induction n arbitrary: op)
  case 0
  then show ?case by (simp add: shrinks_def consumes_def fueled_def out_of_fuel_def)
next
  case (Suc n)
  let ?sel = "if n = 0 then (\<lambda>r. (Err ''selection too deep'', r)) else selection_body (field_at from_slice vars n Query)"
  have "shrinks ?sel" "fueled ?sel"
    using selection_body_ok [of "field_at from_slice vars n Query"] Suc by (auto simp: shrinks_def fueled_def out_of_fuel_def)
  moreover have "field_at from_slice vars (Suc n) op = field_body (value_at from_slice vars (Suc n)) ?sel op"
    by (rule ext) simp
  ultimately show ?case
    using field_body_ok [of ?sel "value_at from_slice vars (Suc n)" op] value_at_fueled value_at_shrinks by metis
qed

lemma skip_definitions_fueled: "length b < n \<Longrightarrow> fst (skip_definitions n b) \<noteq> Inl out_of_fuel"
proof (induction n arbitrary: b)
  case (Suc n)
  have "fst (act_bind skip_directive (\<lambda>_ r. skip_definitions n (skip_ws r)) b) \<noteq> Inl out_of_fuel" if b: "b \<noteq> []"
  proof (rule act_bind_fueled)
    show "fst (skip_directive b) \<noteq> Inl out_of_fuel" using skip_directive_fueled by (cases "skip_directive b") auto
    fix x r assume "skip_directive b = (Inr x, r)"
    from skip_directive_consumes [OF b this] show "fst (skip_definitions n (skip_ws r)) \<noteq> Inl out_of_fuel"
      using Suc.prems skip_ws_shorter [of r] by (intro Suc.IH) simp
  qed
  moreover have "fst (act_bind skip_parens (\<lambda>_ r. skip_definitions n (skip_ws r)) b) \<noteq> Inl out_of_fuel"
  proof (rule act_bind_fueled)
    show "fst (skip_parens b) \<noteq> Inl out_of_fuel" using skip_parens_from_fueled [of 0 b] by (simp add: skip_parens_def)
    fix x r assume "skip_parens b = (Inr x, r)"
    then have "length r < length b" using skip_parens_from_consumes by (simp add: skip_parens_def)
    then show "fst (skip_definitions n (skip_ws r)) \<noteq> Inl out_of_fuel"
      using Suc.prems skip_ws_shorter [of r] by (intro Suc.IH) simp
  qed
  ultimately show ?case by (auto split: list.split)
qed simp

lemma parse_query_fueled: "parse_query from_slice query vars \<noteq> Inl out_of_fuel"
proof -
  have f: "fueled (parse_field from_slice vars 0 op)" for op using field_at_ok by (simp add: parse_field_def)
  have q: "query_end r \<noteq> Inl out_of_fuel" for r
    by (auto simp: query_end_def split: list.split) (simp_all add: out_of_fuel_def)
  have s: "fueled selection_start"
    by (auto simp: fueled_def selection_start_def split: list.split) (simp_all add: out_of_fuel_def)
  have "fst (act_bind (skip_definitions (Suc (length b))) (\<lambda>_. act_bind selection_start (\<lambda>_.
      act_bind (parse_field from_slice vars 0 op) (\<lambda>field r. (try_bind (query_end r) (\<lambda>_. Ok field), r)))) b) \<noteq> Inl out_of_fuel" for b op
    by (intro act_bind_fueled skip_definitions_fueled)
      (use f s q in \<open>auto simp: fueled_def try_bind_Inl_iff\<close>)
  then show ?thesis by (simp add: parse_query_def query_body_def split: prod.split)
qed

section \<open>Accepted queries are well-formed and bounded\<close>

definition ident :: "string \<Rightarrow> bool" where
  "ident name \<longleftrightarrow> name \<noteq> [] \<and> list_all is_ident_byte name"

definition args_ok :: "(string \<times> json_value) list \<Rightarrow> bool" where
  "args_ok args \<longleftrightarrow> distinct (map fst args) \<and> (\<forall>k \<in> fst ` set args. ident k)"

text \<open>\<open>sel_ok n\<close>: nested at most \<open>n\<close> levels deep, no empty set, names are distinct identifiers.\<close>

fun sel_ok :: "nat \<Rightarrow> selection_set option \<Rightarrow> bool" where
  "sel_ok n None \<longleftrightarrow> True"
| "sel_ok 0 (Some s) \<longleftrightarrow> False"
| "sel_ok (Suc n) (Some s) \<longleftrightarrow> s \<noteq> [] \<and> distinct (map fst s) \<and>
     (\<forall>(k, nd) \<in> set s. ident k \<and> (case nd of FieldNode a sel \<Rightarrow> args_ok a \<and> sel_ok n sel))"

lemma ident_takeWhile: "takeWhile is_ident_byte b \<noteq> [] \<Longrightarrow> ident (takeWhile is_ident_byte b)"
  by (auto simp: ident_def list_all_iff dest: set_takeWhileD)

lemma args_loop_ok: "args_loop pv n args b = Inr res \<Longrightarrow> args_ok args \<Longrightarrow> args_ok res"
proof (induction n arbitrary: args b)
  case (Suc n)
  have step: "args_ok (args @ [(name, v)])" if "name \<notin> fst ` set args" "ident name" for name v
    using that Suc.prems(2) by (auto simp: args_ok_def)
  show ?case
  proof (cases "skip_ws b")
    case (Cons c cs)
    show ?thesis
      using Suc.prems Suc.IH [OF _ step] ident_takeWhile [of "c # cs"]
      by (auto simp: args_loop.simps Cons Let_def split: if_splits list.splits prod.splits sum.splits)
  qed (use Suc.prems in \<open>simp add: args_loop.simps\<close>)
qed simp

lemma field_args_ok:
  assumes "field_args pv b = (Inr args, r)"
  shows "args_ok args"
proof -
  have "args_ok []" by (simp add: args_ok_def)
  then show ?thesis
    using assms
    by (auto simp: field_args_def act_bind_def slice_with_def parse_args_def split: list.splits if_splits prod.splits sum.splits
        dest!: args_loop_ok)
qed

lemma field_body_run:
  assumes "field_body pv sel op b = (Inr f, r)"
  obtains args r1 u r2 where "ident (pf_name f)" "pf_operation f = op"
    "length (skip_ws (dropWhile is_ident_byte (skip_ws b))) < length b"
    "field_args pv (skip_ws (dropWhile is_ident_byte (skip_ws b))) = (Inr (pf_args f), r1)" "field_directives r1 = (Inr u, r2)"
    "pf_selection f = None \<and> r = r2 \<or> (\<exists>s. pf_selection f = Some s \<and> sel r2 = (Inr s, r))"
proof -
  let ?b = "skip_ws b" and ?r = "skip_ws (dropWhile is_ident_byte (skip_ws b))"
  have n: "takeWhile is_ident_byte ?b \<noteq> []" and f: "field_rest pv sel op (takeWhile is_ident_byte ?b) ?r = (Inr f, r)"
    using assms by (auto simp: field_body_def Let_def split: if_splits)
  obtain args r1 u r2 s where a: "field_args pv ?r = (Inr args, r1)" "field_directives r1 = (Inr u, r2)"
    "field_selection sel r2 = (Inr s, r)"
    "f = \<lparr> pf_operation = op, pf_name = takeWhile is_ident_byte ?b, pf_args = args, pf_selection = s \<rparr>"
    using f by (auto simp: field_rest_def act_bind_def split: prod.splits sum.splits)
  have "s = None \<and> r = r2 \<or> (\<exists>s'. s = Some s' \<and> sel r2 = (Inr s', r))"
    using a(3) by (auto simp: field_selection_def act_bind_def split: list.splits if_splits prod.splits sum.splits)
  then show thesis using that a ident_takeWhile [OF n] name_consumes [OF n] by auto
qed

text \<open>\<open>field_ok n\<close>: what a field parsed with \<open>Suc n\<close> levels left satisfies; \<open>room\<close> counts its bytes.\<close>

definition field_ok :: "nat \<Rightarrow> parsed_field \<Rightarrow> bool" where
  "field_ok n f \<longleftrightarrow> ident (pf_name f) \<and> args_ok (pf_args f) \<and> sel_ok n (pf_selection f)"

lemma complexity_update:
  "complexity (Some (AList.update k (FieldNode a sel) s)) \<le> complexity (Some s) + complexity sel + 1"
  by (induction s) (auto split: field_node.split)

lemma sel_ok_update:
  assumes "sel_ok (Suc n) (Some s) \<or> s = []" "field_ok n f"
  shows "sel_ok (Suc n) (Some (AList.update (pf_name f) (FieldNode (pf_args f) (pf_selection f)) s))"
proof -
  let ?s = "AList.update (pf_name f) (FieldNode (pf_args f) (pf_selection f)) s"
  have "distinct (map fst ?s)" using assms(1) by (auto intro!: distinct_update)
  moreover have "?s \<noteq> []" by (cases s) auto
  moreover have "x \<in> set ?s \<Longrightarrow> x \<in> set s \<or> x = (pf_name f, FieldNode (pf_args f) (pf_selection f))" for x
    by (induction s) (auto split: if_splits)
  ultimately show ?thesis using assms by (fastforce simp: field_ok_def)
qed

lemma selection_loop_run:
  assumes "\<And>b fl r. f b = (Inr fl, r) \<Longrightarrow> field_ok m fl \<and> complexity (pf_selection fl) + 1 + length r \<le> length b"
  shows "selection_loop f n s b = (Inr s', r) \<Longrightarrow> sel_ok (Suc m) (Some s) \<Longrightarrow>
    sel_ok (Suc m) (Some s') \<and> complexity (Some s') + length r \<le> complexity (Some s) + length b"
proof (induction n arbitrary: s b)
  case (Suc n)
  show ?case
  proof (cases b)
    case (Cons c cs)
    show ?thesis
    proof (cases "c = CHR ''}'' \<or> c = CHR ''.''")
      case True
      then show ?thesis using Suc.prems Cons by auto
    next
      case False
      then obtain fl r1 where f: "f b = (Inr fl, r1)" and
        l: "selection_loop f n (AList.update (pf_name fl) (FieldNode (pf_args fl) (pf_selection fl)) s) (skip_ws r1) = (Inr s', r)"
        using Suc.prems(1) Cons by (auto simp: act_bind_def split: prod.splits sum.splits)
      note fl = assms [OF f]
      from Suc.IH [OF l sel_ok_update] fl Suc.prems(2) show ?thesis
        using complexity_update [of "pf_name fl" "pf_args fl" "pf_selection fl" s] skip_ws_shorter [of r1] by fastforce
    qed
  qed (use Suc.prems in simp)
qed simp

lemma selection_body_run:
  assumes f: "\<And>b fl r. f b = (Inr fl, r) \<Longrightarrow> field_ok m fl \<and> complexity (pf_selection fl) + 1 + length r \<le> length b"
    and s: "selection_body f b = (Inr s, r)"
  shows "sel_ok (Suc m) (Some s) \<and> complexity (Some s) + length r \<le> length b"
proof -
  obtain c cs where b: "skip_ws (tl b) = c # cs" "c \<noteq> CHR ''}''"
    and l: "selection_loop f (Suc (length (c # cs))) [] (c # cs) = (Inr s, r)"
    using s by (auto simp: selection_body_def Let_def split: list.splits if_splits simp del: selection_loop.simps)
  then obtain fl r1 where fl: "f (c # cs) = (Inr fl, r1)" and
    l': "selection_loop f (length (c # cs)) [(pf_name fl, FieldNode (pf_args fl) (pf_selection fl))] (skip_ws r1) = (Inr s, r)"
    by (auto simp: act_bind_def split: prod.splits sum.splits if_splits simp del: selection_loop.simps simp add: selection_loop.simps(2) [of _ _ _ "c # cs"])
  note ok = f [OF fl]
  then have "sel_ok (Suc m) (Some [(pf_name fl, FieldNode (pf_args fl) (pf_selection fl))])" by (simp add: field_ok_def)
  from selection_loop_run [OF f l' this] ok skip_ws_shorter [of r1] skip_ws_shorter [of "tl b"] b(1)
  show ?thesis by auto
qed

lemma field_at_run:
  "field_at from_slice vars (Suc n) op b = (Inr f, r) \<Longrightarrow>
   field_ok n f \<and> pf_operation f = op \<and> complexity (pf_selection f) + 1 + length r \<le> length b"
proof (induction n arbitrary: op b f r)
  case 0
  then obtain r1 u where "ident (pf_name f)" "pf_operation f = op"
    "field_args (value_at from_slice vars (Suc 0)) (skip_ws (dropWhile is_ident_byte (skip_ws b))) = (Inr (pf_args f), r1)"
    "pf_selection f = None"
    by (auto elim!: field_body_run)
  moreover have "length r < length b"
    using field_at_ok [of from_slice vars "Suc 0" op] 0 unfolding consumes_def by blast
  ultimately show ?case by (auto simp: field_ok_def dest: field_args_ok)
next
  case (Suc n)
  let ?f = "field_at from_slice vars (Suc n) Query"
  from Suc.prems obtain r1 u r2 where f: "ident (pf_name f)" "pf_operation f = op"
    "length (skip_ws (dropWhile is_ident_byte (skip_ws b))) < length b"
    "field_args (value_at from_slice vars (Suc (Suc n))) (skip_ws (dropWhile is_ident_byte (skip_ws b))) = (Inr (pf_args f), r1)"
    "field_directives r1 = (Inr u, r2)"
    "pf_selection f = None \<and> r = r2 \<or> (\<exists>s. pf_selection f = Some s \<and> selection_body ?f r2 = (Inr s, r))"
    by (simp only: field_at.simps(2) [of _ _ "Suc n"] if_False nat.simps) (erule field_body_run)
  have lt: "length r < length b" using field_at_ok [of from_slice vars "Suc (Suc n)" op] Suc.prems unfolding consumes_def by blast
  have run: "field_ok n fl \<and> complexity (pf_selection fl) + 1 + length r' \<le> length b'" if "?f b' = (Inr fl, r')" for b' fl r'
    using Suc.IH [OF that] by blast
  show ?case
  proof (cases "pf_selection f")
    case None
    then show ?thesis using f lt by (auto simp: field_ok_def dest: field_args_ok)
  next
    case (Some s)
    then have "selection_body ?f r2 = (Inr s, r)" using f(6) by auto
    from selection_body_run [OF run this] have "sel_ok (Suc n) (pf_selection f)" "complexity (pf_selection f) + length r \<le> length r2"
      using Some by simp_all
    moreover have "length r2 < length b"
      using shrinksD [OF field_directives_ok(1) f(5)] shrinksD [OF field_args_shrinks f(4)] f(3) by simp
    ultimately show ?thesis using f by (auto simp: field_ok_def dest: field_args_ok)
  qed
qed

lemma operation_keyword_shorter: "length (snd (operation_keyword kws b)) \<le> length b"
  by (induction kws b rule: operation_keyword.induct) auto

lemma skip_definitions_shrinks: "shrinks (skip_definitions n)"
proof (induction n)
  case (Suc n)
  have k: "length (snd (act_bind sc (\<lambda>_ r. skip_definitions n (skip_ws r)) b)) \<le> length b"
    if sc: "\<And>x r. sc b = (x, r) \<Longrightarrow> length r \<le> length b" for sc :: "unit scanner" and b
  proof (cases "sc b")
    case (Pair x r)
    have "length (snd (skip_definitions n (skip_ws r))) \<le> length (skip_ws r)" using Suc unfolding shrinks_def by blast
    then have "length (snd (skip_definitions n (skip_ws r))) \<le> length b"
      using skip_ws_shorter [of r] sc [OF Pair] by simp
    then show ?thesis using Pair sc [OF Pair] by (cases x) (simp_all add: act_bind_def)
  qed
  show ?case
    unfolding shrinks_def
  proof
    fix b
    have "length r \<le> length b" if "b \<noteq> []" "skip_directive b = (x, r)" for x r
      using skip_directive_consumes [OF that] by simp
    then show "length (snd (skip_definitions (Suc n) b)) \<le> length b"
      using k [of skip_directive b] k [of skip_parens b] skip_parens_len [of b]
      by (cases b) auto
  qed
qed (simp add: shrinks_def)

lemma selection_start_shrinks: "shrinks selection_start"
  unfolding shrinks_def
proof
  fix b
  show "length (snd (selection_start b)) \<le> length b"
  proof (cases b)
    case (Cons c cs)
    then show ?thesis using skip_ws_shorter [of cs] by (cases "skip_ws cs") (simp_all add: selection_start_def)
  qed (simp add: selection_start_def)
qed

lemma query_prefix_shorter: "length (snd (query_prefix query)) \<le> length query"
proof -
  obtain op b1 where op: "operation_keyword [(''query'', Query), (''mutation'', Mutation), (''subscription'', Subscription)] (skip_ws query) = (op, b1)"
    by (meson surj_pair)
  have "length b1 \<le> length query"
    using operation_keyword_shorter [of "[(''query'', Query), (''mutation'', Mutation), (''subscription'', Subscription)]" "skip_ws query"]
      skip_ws_shorter [of query] unfolding op by simp
  moreover define b2 where "b2 = skip_ws b1"
  ultimately have "length b2 \<le> length query" using skip_ws_shorter [of b1] by simp
  moreover have "length (skip_ws (dropWhile is_ident_byte b2)) \<le> length b2"
    using skip_ws_shorter [of "dropWhile is_ident_byte b2"] dropWhile_shorter [of is_ident_byte b2] by simp
  ultimately have "length (case b2 of c # _ \<Rightarrow> if is_ident_byte c then skip_ws (dropWhile is_ident_byte b2) else b2 | [] \<Rightarrow> b2) \<le> length query"
    by (simp split: list.split del: dropWhile.simps)
  then show ?thesis unfolding query_prefix_def op b2_def Let_def by simp
qed

lemma query_body_run:
  assumes run: "query_body from_slice vars op b = (Inr f, r)"
  obtains b' where "parse_field from_slice vars 0 op b' = (Inr f, r)" "length b' \<le> length b" "query_end r = Ok ()"
proof -
  from assms obtain u1 r1 u2 r2 where d: "skip_definitions (Suc (length b)) b = (Inr u1, r1)" "selection_start r1 = (Inr u2, r2)"
    "parse_field from_slice vars 0 op r2 = (Inr f, r)" "query_end r = Ok ()"
    by (auto simp: query_body_def act_bind_def try_bind_Inr_iff split: prod.splits sum.splits simp del: skip_definitions.simps)
  moreover have "length r2 \<le> length b"
    using shrinksD [OF skip_definitions_shrinks d(1)] shrinksD [OF selection_start_shrinks d(2)] by simp
  ultimately show thesis using that by blast
qed

section \<open>Properties\<close>

text \<open>
  C24. The parser terminates on every input: none of its loops uses up the fuel the model gives it, one
  round per remaining byte, and the recursion is bounded by \<^verbatim>\<open>MAX_DEPTH\<close>.
\<close>

theorem parse_query_never_out_of_fuel: "parse_query from_slice query vars \<noteq> Err out_of_fuel"
  by (rule parse_query_fueled)

text \<open>
  C25. What the parser accepts is bounded by the text of the query: the selection is nested at most
  \<^verbatim>\<open>MAX_DEPTH\<close> levels deep, it has no empty set and no name twice at one level, names are
  identifiers, no argument occurs twice, and the number of fields the budget counts is at most
  the number of bytes of the query.
\<close>

theorem accepted_query_is_bounded:
  assumes "parse_query from_slice query vars = Ok f"
  shows "ident (pf_name f) \<and> args_ok (pf_args f) \<and> sel_ok MAX_DEPTH (pf_selection f) \<and>
     complexity (pf_selection f) + 1 \<le> length query"
proof -
  obtain op b where q: "query_prefix query = (op, b)" by (cases "query_prefix query")
  then have b: "length b \<le> length query" using query_prefix_shorter [of query] by simp
  obtain r where "query_body from_slice vars op b = (Inr f, r)"
    using assms q by (cases "query_body from_slice vars op b") (simp add: parse_query_def)
  then obtain b' where "field_at from_slice vars (Suc MAX_DEPTH) op b' = (Inr f, r)" "length b' \<le> length b"
    by (rule query_body_run) (simp add: parse_field_def)
  then show ?thesis using field_at_run [of from_slice vars MAX_DEPTH op b' f r] b by (auto simp: field_ok_def)
qed

theorem accepted_query_is_bounded_witness:
  "complexity (pf_selection (projr (parse_query (\<lambda>_. Err []) ''{a{b c(x:y){d}}}'' JNull))) = 3 \<and>
   ident (pf_name (projr (parse_query (\<lambda>_. Err []) ''{a{b c(x:y){d}}}'' JNull))) \<and>
   complexity (pf_selection (projr (parse_query (\<lambda>_. Err []) ''{a{b c(x:y){d}}}'' JNull))) + 1 \<le> 16"
proof -
  have run: "parse_query (\<lambda>_. Err []) ''{a{b c(x:y){d}}}'' JNull =
    Ok \<lparr> pf_operation = Query, pf_name = ''a'', pf_args = [],
         pf_selection = Some [(''b'', FieldNode [] None),
           (''c'', FieldNode [(''x'', JString ''y'')] (Some [(''d'', FieldNode [] None)]))] \<rparr>"
    by code_simp
  from accepted_query_is_bounded [OF this] show ?thesis unfolding run by simp
qed

lemma parse_query_operation:
  assumes "parse_query from_slice query vars = Inr f"
  shows "pf_operation f = fst (query_prefix query)"
proof -
  obtain op b where q: "query_prefix query = (op, b)" by (cases "query_prefix query")
  obtain r where "query_body from_slice vars op b = (Inr f, r)"
    using assms q by (cases "query_body from_slice vars op b") (simp add: parse_query_def)
  then obtain b' where "field_at from_slice vars (Suc MAX_DEPTH) op b' = (Inr f, r)"
    by (rule query_body_run) (simp add: parse_field_def)
  then show ?thesis using field_at_run [of from_slice vars MAX_DEPTH op b' f r] q by simp
qed

text \<open>The call of a resolver, and the table a request looks it up in.\<close>

definition resolve :: "'s field_handler \<Rightarrow> parsed_field \<Rightarrow> json_value \<Rightarrow> (string, 's, json_value) act" where
  "resolve h f vars s = (case h of
       Legacy resolver \<Rightarrow> (case merge_args vars (pf_args f) of Inl e \<Rightarrow> (Err e, s) | Inr v \<Rightarrow> resolver v s)
     | Rich r \<Rightarrow> r \<lparr> fr_args = pf_args f, fr_variables = vars, fr_selection = pf_selection f \<rparr> s)"

definition resolver_of :: "'s graphql_schema \<Rightarrow> string \<Rightarrow> string \<Rightarrow> 's field_handler option" where
  "resolver_of schema query =
     (if fst (query_prefix (str_trim query)) = Mutation then gs_mutation schema else gs_query schema)"

lemma resolver_of_parsed:
  "parse_query from_slice (str_trim query) vars = Inr f \<Longrightarrow>
   resolver_of schema query = (if pf_operation f = Mutation then gs_mutation schema else gs_query schema)"
  by (simp add: resolver_of_def parse_query_operation)

lemma execute_cases:
  "execute from_slice schema query vars s =
     (case parse_query from_slice (str_trim query) vars of
        Inl e \<Rightarrow> (Err [e], s)
      | Inr f \<Rightarrow>
          if complexity (pf_selection f) + 1 > gs_max_complexity schema
          then (Err [over_budget (complexity (pf_selection f) + 1) (gs_max_complexity schema)], s)
          else case resolver_of schema query (pf_name f) of
              None \<Rightarrow> (Err [''unknown field: '' @ pf_name f], s)
            | Some h \<Rightarrow> (case resolve h f vars s of
                (Inr out, s') \<Rightarrow> (Ok (JObject [(pf_name f, out)]), s') | (Inl e, s') \<Rightarrow> (Err [e], s')))"
  by (cases "parse_query from_slice (str_trim query) vars")
    (auto simp: execute_def gql_validate_def Let_def resolver_of_parsed resolve_def
      split: option.split field_handler.split sum.split prod.split)

text \<open>
  C26. A request answers with data exactly when its text parses, its complexity is within the limit of
  the schema, a resolver of the operation's own table is registered under the name of its field and
  this resolver succeeds; the data is one member with the name of the field. A request that fails
  before its resolver is called leaves the state of the application as it is.
\<close>

theorem request_resolved_within_budget:
  "(execute from_slice schema query vars s = (Ok data, s') \<longleftrightarrow>
     (\<exists>f h out. parse_query from_slice (str_trim query) vars = Ok f \<and>
        complexity (pf_selection f) + 1 \<le> gs_max_complexity schema \<and>
        resolver_of schema query (pf_name f) = Some h \<and> resolve h f vars s = (Ok out, s') \<and>
        data = JObject [(pf_name f, out)])) \<and>
   (snd (execute from_slice schema query vars s) = s \<or>
     (\<exists>f h. parse_query from_slice (str_trim query) vars = Ok f \<and>
        complexity (pf_selection f) + 1 \<le> gs_max_complexity schema \<and>
        resolver_of schema query (pf_name f) = Some h \<and>
        snd (execute from_slice schema query vars s) = snd (resolve h f vars s)))"
proof (cases "parse_query from_slice (str_trim query) vars")
  case (Inr f)
  show ?thesis
  proof (cases "complexity (pf_selection f) + 1 > gs_max_complexity schema")
    case True
    then show ?thesis using Inr by (simp add: execute_cases gql_validate_def Let_def)
  next
    case False
    then show ?thesis using Inr
      by (cases "resolver_of schema query (pf_name f)") (auto simp: execute_cases split: prod.split sum.split)
  qed
qed (simp add: execute_cases)


end
