(* ===== verification/GraphQLPrint.thy ===== *)
theory GraphQLPrint
  imports GraphQL
begin

text \<open>
  A printer for queries and the round trip through the parser of \<^verbatim>\<open>ecat-graphql\<close>: the text of a
  query is parsed back to the query. The printer is the reference for what the scanner's bracket
  counting, quoting and splitting have to undo. Strings are printed between single quotes; the text
  of the other scalars (null, booleans, numbers) is the parameter \<open>scal\<close>.
\<close>

section \<open>The printer\<close>

fun escape_string :: "string \<Rightarrow> string" where
  "escape_string [] = []"
| "escape_string (c # cs) =
     (if c = backslash \<or> c = squote then backslash # c # escape_string cs else c # escape_string cs)"

definition quote_string :: "string \<Rightarrow> string" where
  "quote_string s = squote # escape_string s @ [squote]"

fun commas :: "string list \<Rightarrow> string" where
  "commas [] = []"
| "commas [t] = t"
| "commas (t # ts) = t @ CHR '','' # commas ts"

fun print_value :: "(json_value \<Rightarrow> string) \<Rightarrow> json_value \<Rightarrow> string" where
  "print_value scal (JString s) = quote_string s"
| "print_value scal (JArray vs) = CHR ''['' # commas (map (print_value scal) vs) @ '']''"
| "print_value scal (JObject ms) = CHR ''{'' # commas (map (\<lambda>(k, v). k @ CHR '':'' # print_value scal v) ms) @ ''}''"
| "print_value scal v = scal v"

definition print_members :: "(json_value \<Rightarrow> string) \<Rightarrow> (string \<times> json_value) list \<Rightarrow> string" where
  "print_members scal ms = commas (map (\<lambda>(k, v). k @ CHR '':'' # print_value scal v) ms)"

definition print_args :: "(json_value \<Rightarrow> string) \<Rightarrow> (string \<times> json_value) list \<Rightarrow> string" where
  "print_args scal args = (if args = [] then [] else CHR ''('' # print_members scal args @ '')'')"

fun print_fields :: "(json_value \<Rightarrow> string) \<Rightarrow> selection_set \<Rightarrow> string"
  and print_node :: "(json_value \<Rightarrow> string) \<Rightarrow> field_node \<Rightarrow> string" where
  "print_fields scal [] = []"
| "print_fields scal ((k, nd) # s) = k @ print_node scal nd @ CHR '' '' # print_fields scal s"
| "print_node scal (FieldNode a None) = print_args scal a"
| "print_node scal (FieldNode a (Some s)) = print_args scal a @ CHR ''{'' # print_fields scal s @ ''}''"

definition print_operation :: "operation \<Rightarrow> string" where
  "print_operation op = (case op of Query \<Rightarrow> ''query'' | Mutation \<Rightarrow> ''mutation'' | Subscription \<Rightarrow> ''subscription'')"

definition print_query :: "(json_value \<Rightarrow> string) \<Rightarrow> parsed_field \<Rightarrow> string" where
  "print_query scal f = print_operation (pf_operation f) @ CHR ''{'' # pf_name f @
     print_node scal (FieldNode (pf_args f) (pf_selection f)) @ ''}''"

text \<open>What the text of a scalar has to be: the characters of JSON numbers and keywords.\<close>

definition scalar_byte :: "char \<Rightarrow> bool" where
  "scalar_byte c \<longleftrightarrow> is_ident_byte c \<or> c \<in> {CHR ''+'', CHR ''-'', CHR ''.''}"

definition scalar :: "json_value \<Rightarrow> bool" where
  "scalar v = (case v of JString _ \<Rightarrow> False | JArray _ \<Rightarrow> False | JObject _ \<Rightarrow> False | _ \<Rightarrow> True)"

definition prints_scalars :: "json_parser \<Rightarrow> (json_value \<Rightarrow> string) \<Rightarrow> json_value set \<Rightarrow> bool" where
  "prints_scalars from_slice scal S \<longleftrightarrow>
     (\<forall>v \<in> S. from_slice (scal v) = Ok v \<and> scal v \<noteq> [] \<and> list_all scalar_byte (scal v))"

text \<open>
  Values and selections within the depth limit, with identifiers for keys, no key twice and
  scalars in the set \<open>S\<close>.
\<close>

fun value_fits :: "json_value set \<Rightarrow> nat \<Rightarrow> json_value \<Rightarrow> bool" where
  "value_fits S 0 v = False"
| "value_fits S (Suc n) (JString s) = True"
| "value_fits S (Suc n) (JArray vs) = list_all (value_fits S n) vs"
| "value_fits S (Suc n) (JObject ms) = (args_ok ms \<and> list_all (value_fits S n) (map snd ms))"
| "value_fits S (Suc n) v = (v \<in> S)"

definition args_fit :: "json_value set \<Rightarrow> nat \<Rightarrow> (string \<times> json_value) list \<Rightarrow> bool" where
  "args_fit S n args \<longleftrightarrow> args_ok args \<and> list_all (value_fits S n) (map snd args)"

fun sel_fits :: "json_value set \<Rightarrow> nat \<Rightarrow> selection_set option \<Rightarrow> bool" where
  "sel_fits S n None \<longleftrightarrow> True"
| "sel_fits S 0 (Some s) \<longleftrightarrow> False"
| "sel_fits S (Suc n) (Some s) \<longleftrightarrow> s \<noteq> [] \<and> distinct (map fst s) \<and>
     (\<forall>(k, nd) \<in> set s. ident k \<and> (case nd of FieldNode a sel \<Rightarrow> args_fit S (Suc n) a \<and> sel_fits S n sel))"

definition query_fits :: "json_value set \<Rightarrow> parsed_field \<Rightarrow> bool" where
  "query_fits S f \<longleftrightarrow> ident (pf_name f) \<and> args_fit S (Suc MAX_DEPTH) (pf_args f) \<and> sel_fits S MAX_DEPTH (pf_selection f)"

section \<open>Strings\<close>

lemma unescape_escape: "unescape (escape_string s) = Inr s"
proof (induction s)
  case (Cons c s)
  then show ?case by (auto simp: simple_escape_def)
qed simp

lemma skip_quoted_escape: "skip_quoted squote (escape_string s @ squote # r) = (Inr (), r)"
proof (induction s)
  case Nil
  then show ?case by (cases r) simp_all
next
  case (Cons c s)
  obtain d cs where d: "escape_string s @ squote # r = d # cs" by (cases "escape_string s @ squote # r") auto
  have "skip_quoted squote (c # d # cs) = skip_quoted squote (d # cs)" if "c \<noteq> backslash" "c \<noteq> squote"
    using that by simp
  then show ?case using Cons d by auto
qed

definition no_quote :: "string \<Rightarrow> bool" where
  "no_quote r \<longleftrightarrow> (case r of [] \<Rightarrow> True | c # _ \<Rightarrow> c \<noteq> squote)"

lemma skip_string_escape:
  assumes "no_quote r"
  shows "skip_string squote (escape_string s @ squote # r) = (Inr (), r)"
proof -
  have "skip_string squote (escape_string s @ squote # r) = skip_quoted squote (escape_string s @ squote # r)"
  proof (cases s)
    case Nil
    then show ?thesis using assms by (auto simp: skip_string_def no_quote_def split: list.split)
  next
    case (Cons c cs)
    then show ?thesis by (auto simp: skip_string_def split: list.split)
  qed
  then show ?thesis by (simp add: skip_quoted_escape)
qed

section \<open>Texts the scanner passes over\<close>

text \<open>
  \<open>quiet item t\<close>: inside a group every scanner passes over \<open>t\<close> unless a quote follows; with
  \<open>item\<close>, splitting passes over it outside of groups too, so \<open>t\<close> is one item.
\<close>

definition quiet :: "bool \<Rightarrow> string \<Rightarrow> bool" where
  "quiet item t \<longleftrightarrow> (\<forall>r. no_quote r \<longrightarrow>
     (\<forall>d. skip_balanced (CHR ''['') (CHR '']'') (Suc d) (t @ r) = skip_balanced (CHR ''['') (CHR '']'') (Suc d) r) \<and>
     (\<forall>d. skip_balanced (CHR ''{'') (CHR ''}'') (Suc d) (t @ r) = skip_balanced (CHR ''{'') (CHR ''}'') (Suc d) r) \<and>
     (\<forall>d. skip_parens_from (Suc d) (t @ r) = skip_parens_from (Suc d) r) \<and>
     (\<forall>lv cur. item \<or> lv \<noteq> (0, 0, 0) \<longrightarrow> split_from lv cur (t @ r) = split_from lv (rev t @ cur) r))"

definition plain :: "char \<Rightarrow> bool" where
  "plain c \<longleftrightarrow> c \<notin> {dquote, squote, CHR ''('', CHR '')'', CHR ''['', CHR '']'', CHR ''{'', CHR ''}'', CHR '',''}"

lemma no_quote_Cons [simp]: "no_quote (c # r) \<longleftrightarrow> c \<noteq> squote"
  by (simp add: no_quote_def)

lemma quiet_Nil [simp]: "quiet item []"
  by (simp add: quiet_def)

lemma quiet_mono: "quiet True t \<Longrightarrow> quiet item t"
  by (auto simp: quiet_def)

lemma quiet_plain:
  assumes "plain c" "quiet item t"
  shows "quiet item (c # t)"
proof -
  have c: "c \<noteq> dquote" "c \<noteq> squote" "c \<noteq> CHR ''(''" "c \<noteq> CHR '')''" "c \<noteq> CHR ''[''" "c \<noteq> CHR '']''" "c \<noteq> CHR ''{''" "c \<noteq> CHR ''}''" "c \<noteq> CHR '',''"
    using assms(1) by (auto simp: plain_def)
  show ?thesis using assms(2) unfolding quiet_def by (simp add: c split_paired_All)
qed

lemma quiet_plains: "list_all plain s \<Longrightarrow> quiet item t \<Longrightarrow> quiet item (s @ t)"
  by (induction s) (auto intro: quiet_plain)

lemma quiet_comma:
  assumes "quiet False s" "quiet False t"
  shows "quiet False (s @ CHR '','' # t)"
  using assms unfolding quiet_def by (simp add: split_paired_All)

lemma quiet_quote: "quiet item (quote_string s)"
proof -
  have "consumed (squote # escape_string s @ squote # r) r = squote # escape_string s @ [squote]" for r
    by (simp add: consumed_def)
  then show ?thesis
    unfolding quiet_def quote_string_def by (simp add: skip_string_escape split_paired_All Let_def)
qed

lemma quiet_square: "quiet False t \<Longrightarrow> quiet item (CHR ''['' # t @ '']'')"
  unfolding quiet_def by (simp add: split_paired_All)

lemma quiet_curly: "quiet False t \<Longrightarrow> quiet item (CHR ''{'' # t @ ''}'')"
  unfolding quiet_def by (simp add: split_paired_All)

lemma quiet_commas: "\<forall>t \<in> set ts. quiet True t \<Longrightarrow> quiet False (commas ts)"
  by (induction ts rule: commas.induct) (auto intro: quiet_mono quiet_comma)

text \<open>The items of a printed group are found again.\<close>

lemma split_commas:
  assumes "\<forall>t \<in> set ts. quiet True t"
  shows "split_top_level (commas ts) = (if ts = [] then [[]] else ts)"
proof -
  have one: "split_from (0, 0, 0) [] t = [t]" "split_from (0, 0, 0) [] (t @ CHR '','' # r) = t # split_from (0, 0, 0) [] r"
    if "quiet True t" for t r
  proof -
    have "split_from (0, 0, 0) [] (t @ r') = split_from (0, 0, 0) (rev t @ []) r'" if "no_quote r'" for r'
      using \<open>quiet True t\<close> that unfolding quiet_def by blast
    from this [of "[]"] this [of "CHR '','' # r"]
    show "split_from (0, 0, 0) [] t = [t]" "split_from (0, 0, 0) [] (t @ CHR '','' # r) = t # split_from (0, 0, 0) [] r"
      by (simp_all add: no_quote_def)
  qed
  show ?thesis
    using assms unfolding split_top_level_def
  proof (induction ts rule: commas.induct)
    case 1
    then show ?case by simp
  next
    case (2 t)
    then show ?case by (simp add: one)
  next
    case (3 t u us)
    then show ?case by (simp add: one)
  qed
qed

section \<open>Values\<close>

lemma ident_byte_facts:
  assumes "is_ident_byte c"
  shows "plain c" "is_token_byte c" "\<not> is_ascii_whitespace c" "c \<noteq> CHR ''#''" "c \<noteq> CHR ''$''" "c \<noteq> CHR '':''" "c \<noteq> CHR ''@''"
    "c \<noteq> CHR ''.''" "c \<noteq> CHR '' ''"
proof -
  have other: "c \<noteq> d" if "\<not> is_ident_byte d" for d using assms that by auto
  have "c \<notin> {dquote, squote, CHR ''('', CHR '')'', CHR ''['', CHR '']'', CHR ''{'', CHR ''}'', CHR '','', CHR '' '',
      CHR 0x09, CHR 0x0A, CHR 0x0C, CHR 0x0D, CHR ''#'', CHR ''$'', CHR '':'', CHR ''@'', CHR ''.''}"
    unfolding insert_iff empty_iff de_Morgan_disj by (intro conjI other) (simp_all add: is_ident_byte_def)
  then show "plain c" "is_token_byte c" "\<not> is_ascii_whitespace c" "c \<noteq> CHR ''#''" "c \<noteq> CHR ''$''" "c \<noteq> CHR '':''" "c \<noteq> CHR ''@''"
    "c \<noteq> CHR ''.''" "c \<noteq> CHR '' ''"
    unfolding plain_def is_token_byte_def is_ascii_whitespace_def by simp_all
qed

lemma scalar_byte_facts:
  assumes "scalar_byte c"
  shows "plain c" "is_token_byte c" "\<not> is_ascii_whitespace c" "c \<noteq> CHR ''#''" "c \<noteq> CHR ''$''"
proof -
  consider "is_ident_byte c" | "c = CHR ''+''" | "c = CHR ''-''" | "c = CHR ''.''"
    using assms unfolding scalar_byte_def by blast
  then have "plain c \<and> is_token_byte c \<and> \<not> is_ascii_whitespace c \<and> c \<noteq> CHR ''#'' \<and> c \<noteq> CHR ''$''"
    by cases (simp_all add: ident_byte_facts, simp_all add: plain_def is_token_byte_def is_ascii_whitespace_def)
  then show "plain c" "is_token_byte c" "\<not> is_ascii_whitespace c" "c \<noteq> CHR ''#''" "c \<noteq> CHR ''$''" by blast+
qed

lemma not_ident_bytes [simp]:
  "\<not> is_ident_byte (CHR '':'')" "\<not> is_ident_byte (CHR ''('')" "\<not> is_ident_byte (CHR ''{'')" "\<not> is_ident_byte (CHR ''}'')"
  "\<not> is_ident_byte (CHR '' '')" "\<not> is_ident_byte (CHR '')'')" "\<not> is_ident_byte (CHR '','')"
  by (simp_all add: is_ident_byte_def)

lemma not_white [simp]:
  "\<not> is_ascii_whitespace squote" "\<not> is_ascii_whitespace (CHR '':'')" "\<not> is_ascii_whitespace (CHR ''['')" "\<not> is_ascii_whitespace (CHR ''{'')" "\<not> is_ascii_whitespace (CHR ''}'')"
  "\<not> is_ascii_whitespace (CHR ''('')" "\<not> is_ascii_whitespace (CHR '')'')" "\<not> is_ascii_whitespace (CHR '','')" "is_ascii_whitespace (CHR '' '')"
  by (simp_all add: is_ascii_whitespace_def)

lemma skip_ws_ident: "ident k \<Longrightarrow> skip_ws (k @ r) = k @ r"
  by (cases k) (auto simp: ident_def dest: ident_byte_facts)

lemma ident_text:
  assumes "ident k" "r = [] \<or> \<not> is_ident_byte (hd r)"
  shows "takeWhile is_ident_byte (k @ r) = k" "dropWhile is_ident_byte (k @ r) = r"
  using assms by (cases r; auto simp: ident_def list_all_iff)+

lemma ident_plain: "ident k \<Longrightarrow> list_all plain k"
  by (auto simp: ident_def list_all_iff dest: ident_byte_facts)

text \<open>Where a printed value ends.\<close>

definition delimited :: "string \<Rightarrow> bool" where
  "delimited r \<longleftrightarrow> r = [] \<or> hd r \<in> {CHR '','', CHR '')''}"

lemma delimited_no_quote: "delimited r \<Longrightarrow> no_quote r"
  by (cases r) (auto simp: delimited_def no_quote_def)

lemma print_scalar: "scalar v \<Longrightarrow> print_value scal v = scal v"
  by (cases v) (auto simp: scalar_def)

lemma value_shape:
  obtains s where "v = JString s" | vs where "v = JArray vs" | ms where "v = JObject ms" | "scalar v"
  by (cases v) (auto simp: scalar_def)

lemma scalar_fits: "scalar v \<Longrightarrow> value_fits S n v \<Longrightarrow> v \<in> S"
  by (cases n; cases v) (simp_all add: scalar_def)

lemma print_value_quiet:
  assumes "prints_scalars from_slice scal S"
  shows "value_fits S n v \<Longrightarrow> quiet item (print_value scal v)"
proof (induction n arbitrary: v item)
  case (Suc n)
  show ?case
  proof (cases v rule: value_shape)
    case (2 vs)
    then have "\<forall>t \<in> set (map (print_value scal) vs). quiet True t"
      using Suc by (auto simp: list_all_iff)
    then show ?thesis unfolding 2 by (simp add: quiet_square quiet_commas)
  next
    case (3 ms)
    have "quiet True (k @ CHR '':'' # print_value scal w)" if "(k, w) \<in> set ms" for k w
    proof (intro quiet_plains quiet_plain Suc.IH ident_plain)
      show "ident k" using that 3 Suc.prems by (force simp: args_ok_def)
      show "value_fits S n w" using that 3 Suc.prems by (auto simp: list_all_iff)
    qed (simp add: plain_def)
    then have "\<forall>t \<in> set (map (\<lambda>(k, w). k @ CHR '':'' # print_value scal w) ms). quiet True t" by auto
    then show ?thesis unfolding 3 by (simp add: quiet_curly quiet_commas)
  next
    case 4
    then have "list_all plain (scal v)" using assms scalar_fits [OF 4 Suc.prems] by (auto simp: prints_scalars_def list_all_iff dest: scalar_byte_facts)
    then show ?thesis using quiet_plains [of "scal v" item "[]"] 4 by (simp add: print_scalar)
  qed (simp add: quiet_quote)
qed simp

lemma parse_quoted:
  assumes "no_quote r"
  shows "value_body from_slice vars item (quote_string s @ r) = (Inr (JString s), r)"
proof -
  have "\<not> triple_quoted (squote # escape_string s @ squote # r)"
    using assms by (cases s) (auto simp: triple_quoted_def no_quote_def split: list.split)
  then show ?thesis using assms
    by (simp add: value_body_def quote_string_def slice_with_def skip_string_escape consumed_def parse_string_literal_def butlast_append unescape_escape)
qed

lemma parse_scalar:
  assumes "prints_scalars from_slice scal S" "scalar v" "v \<in> S" "delimited r"
  shows "value_body from_slice vars item (scal v @ r) = (Inr v, r)"
proof -
  have s: "from_slice (scal v) = Inr v" "scal v \<noteq> []" "list_all scalar_byte (scal v)"
    using assms(1,3) by (auto simp: prints_scalars_def)
  then obtain c cs where c: "scal v = c # cs" "scalar_byte c" by (cases "scal v") auto
  have "\<forall>d \<in> set (scal v). is_token_byte d" using s(3) by (auto simp: list_all_iff dest: scalar_byte_facts)
  moreover have "\<not> is_token_byte (hd r)" if "r \<noteq> []" using assms(4) that by (auto simp: delimited_def is_token_byte_def)
  ultimately have tok: "takeWhile is_token_byte (scal v @ r) = scal v" "dropWhile is_token_byte (scal v @ r) = r"
    by (cases r; simp)+
  have "skip_ws (scal v @ r) = c # cs @ r" using c scalar_byte_facts [OF c(2)] by simp
  moreover have "c \<noteq> dquote" "c \<noteq> squote" "c \<noteq> CHR ''[''" "c \<noteq> CHR ''{''" "c \<noteq> CHR ''$''"
    using scalar_byte_facts [OF c(2)] by (simp_all add: plain_def)
  ultimately show ?thesis using tok s(1) unfolding value_body_def c(1)
    by (simp add: literal_value_def del: takeWhile.simps dropWhile.simps)
qed

lemma collect_printed:
  "(\<And>v. v \<in> set vs \<Longrightarrow> f (p v) = Inr v) \<Longrightarrow> collect_results f (map p vs) = Inr vs"
  by (induction vs) auto

lemma scan_square:
  assumes "quiet False t"
  shows "slice_with (skip_balanced (CHR ''['') (CHR '']'') 0) parse (CHR ''['' # t @ CHR '']'' # r) = (parse (CHR ''['' # t @ '']''), r)"
proof -
  have "skip_balanced (CHR ''['') (CHR '']'') (Suc 0) (t @ CHR '']'' # r) = (Inr (), r)"
    using assms unfolding quiet_def by simp
  then show ?thesis by (simp add: slice_with_def consumed_def)
qed

lemma scan_curly:
  assumes "quiet False t"
  shows "slice_with (skip_balanced (CHR ''{'') (CHR ''}'') 0) parse (CHR ''{'' # t @ CHR ''}'' # r) = (parse (CHR ''{'' # t @ ''}''), r)"
proof -
  have "skip_balanced (CHR ''{'') (CHR ''}'') (Suc 0) (t @ CHR ''}'' # r) = (Inr (), r)"
    using assms unfolding quiet_def by simp
  then show ?thesis by (simp add: slice_with_def consumed_def)
qed

lemma scan_parens:
  assumes "quiet False t"
  shows "slice_with skip_parens parse (CHR ''('' # t @ CHR '')'' # r) = (parse (CHR ''('' # t @ '')''), r)"
proof -
  have "skip_parens_from (Suc 0) (t @ CHR '')'' # r) = (Inr (), r)"
    using assms unfolding quiet_def by simp
  then show ?thesis by (simp add: slice_with_def consumed_def skip_parens_def)
qed

lemma printed_not_blank:
  assumes "prints_scalars from_slice scal S" "value_fits S n v"
  shows "\<not> list_all is_ascii_whitespace (print_value scal v)"
proof (cases v rule: value_shape)
  case 4
  then have "scal v \<noteq> [] \<and> list_all scalar_byte (scal v)" using assms scalar_fits [OF 4] by (auto simp: prints_scalars_def)
  then show ?thesis using 4 by (cases "scal v") (auto simp: print_scalar dest: scalar_byte_facts)
qed (simp_all add: quote_string_def)

lemma inside_group [simp]: "inside (opn # t @ [cls]) = t"
  by (simp add: inside_def butlast_append)

lemma parse_printed_list:
  assumes "\<And>v. v \<in> set vs \<Longrightarrow> fst (item (p v)) = Inr v \<and> quiet True (p v) \<and> \<not> list_all is_ascii_whitespace (p v)"
  shows "parse_list item (CHR ''['' # commas (map p vs) @ '']'') = Inr (JArray vs)"
proof -
  have "split_top_level (commas (map p vs)) = (if vs = [] then [[]] else map p vs)"
    using split_commas [of "map p vs"] assms by simp
  moreover have "filter (\<lambda>part. \<not> list_all is_ascii_whitespace part) (map p vs) = map p vs"
    using assms by (auto intro: filter_True)
  ultimately have "filter (\<lambda>part. \<not> list_all is_ascii_whitespace part) (split_top_level (commas (map p vs))) = map p vs"
    by simp
  then show ?thesis using collect_printed [of vs "\<lambda>part. fst (item part)" p] assms by (simp add: parse_list_def)
qed

lemma object_members_printed:
  assumes "\<And>k v. (k, v) \<in> set ms \<Longrightarrow> ident k \<and> fst (item (p v)) = Inr v" "distinct (map fst (m @ ms))"
  shows "object_members item m (map (\<lambda>(k, v). k @ CHR '':'' # p v) ms) = Inr (m @ ms)"
  using assms
proof (induction ms arbitrary: m)
  case (Cons kv ms)
  obtain k v where kv: "kv = (k, v)" by (cases kv)
  have k: "ident k" "fst (item (p v)) = Inr v" using Cons.prems(1) [of k v] kv by auto
  then have "k \<noteq> []" "\<not> list_all is_ascii_whitespace (k @ CHR '':'' # p v)" "skip_ws (CHR '':'' # p v) = CHR '':'' # p v"
    by (auto simp: ident_def is_ascii_whitespace_def)
  moreover have "object_member item (k @ CHR '':'' # p v) = Inr (k, v)"
    using k calculation by (simp add: object_member_def Let_def skip_ws_ident ident_text)
  moreover have "k \<notin> fst ` set m" using Cons.prems(2) kv by auto
  moreover have "object_members item (m @ [(k, v)]) (map (\<lambda>(k, v). k @ CHR '':'' # p v) ms) = Inr ((m @ [(k, v)]) @ ms)"
    using Cons.prems kv by (intro Cons.IH) auto
  ultimately show ?case using kv by simp
qed simp

lemma parse_printed_object:
  assumes "\<And>k v. (k, v) \<in> set ms \<Longrightarrow> ident k \<and> fst (item (p v)) = Inr v \<and> quiet True (p v)" "distinct (map fst ms)"
  shows "parse_input_object item (CHR ''{'' # commas (map (\<lambda>(k, v). k @ CHR '':'' # p v) ms) @ ''}'') = Inr (JObject ms)"
proof -
  let ?ts = "map (\<lambda>(k, v). k @ CHR '':'' # p v) ms"
  have "quiet True (k @ CHR '':'' # p v)" if "(k, v) \<in> set ms" for k v
    using assms(1) [OF that] by (intro quiet_plains quiet_plain ident_plain) (auto simp: plain_def)
  then have "\<forall>t \<in> set ?ts. quiet True t" by auto
  from split_commas [OF this] have "split_top_level (commas ?ts) = (if ms = [] then [[]] else ?ts)" by simp
  then show ?thesis using object_members_printed [of ms item p "[]"] assms by (auto simp: parse_input_object_def)
qed

lemma parse_printed_value:
  assumes "prints_scalars from_slice scal S"
  shows "value_fits S n v \<Longrightarrow> delimited r \<Longrightarrow> value_at from_slice vars n (print_value scal v @ r) = (Inr v, r)"
proof (induction n arbitrary: v r)
  case (Suc n)
  note quiet = print_value_quiet [OF assms, of n]
  have IH: "fst (value_at from_slice vars n (print_value scal w)) = Inr w" if "value_fits S n w" for w
    using Suc.IH [OF that, of "[]"] by (simp add: delimited_def)
  show ?case
  proof (cases v rule: value_shape)
    case (1 s)
    then show ?thesis using parse_quoted delimited_no_quote [OF Suc.prems(2)] by simp
  next
    case (2 vs)
    then have "parse_list (value_at from_slice vars n) (CHR ''['' # commas (map (print_value scal) vs) @ '']'') = Inr (JArray vs)"
      using Suc.prems printed_not_blank [OF assms, of n]
      by (intro parse_printed_list) (auto simp: list_all_iff IH quiet)
    moreover have "quiet False (commas (map (print_value scal) vs))"
      using Suc.prems 2 by (intro quiet_commas) (auto simp: list_all_iff quiet)
    ultimately show ?thesis using 2 by (simp add: value_body_def scan_square)
  next
    case (3 ms)
    have k: "ident k \<and> value_fits S n w" if "(k, w) \<in> set ms" for k w
      using that 3 Suc.prems by (force simp: args_ok_def list_all_iff)
    let ?ts = "map (\<lambda>(k, v). k @ CHR '':'' # print_value scal v) ms"
    have "parse_input_object (value_at from_slice vars n) (CHR ''{'' # commas ?ts @ ''}'') = Inr (JObject ms)"
      using Suc.prems 3 k by (intro parse_printed_object) (auto simp: IH quiet args_ok_def)
    moreover have "quiet False (commas ?ts)"
      using k by (intro quiet_commas) (auto simp: plain_def intro!: quiet_plains quiet_plain ident_plain quiet)
    ultimately show ?thesis using 3 by (simp add: value_body_def scan_curly)
  next
    case 4
    then show ?thesis using parse_scalar [OF assms 4 scalar_fits [OF 4 Suc.prems(1)] Suc.prems(2)] by (simp add: print_scalar)
  qed
qed simp

section \<open>Arguments and fields\<close>

lemma args_loop_printed:
  assumes "\<And>k v r. (k, v) \<in> set ms \<Longrightarrow> delimited r \<Longrightarrow> ident k \<and> pv (p v @ r) = (Inr v, r) \<and> skip_ws (p v @ r) = p v @ r"
    "distinct (map fst (args @ ms))" "length ms < n"
  shows "args_loop pv n args (commas (map (\<lambda>(k, v). k @ CHR '':'' # p v) ms) @ '')'') = Inr (args @ ms)"
  using assms
proof (induction ms arbitrary: args n)
  case Nil
  then show ?case by (cases n) (simp_all add: args_loop.simps)
next
  case (Cons kv ms)
  obtain k v where kv: "kv = (k, v)" by (cases kv)
  let ?t = "commas (map (\<lambda>(k, v). k @ CHR '':'' # p v) ms) @ '')''"
  let ?r = "if ms = [] then '')'' else CHR '','' # ?t"
  obtain n' where n: "n = Suc n'" "length ms < n'" using Cons.prems(3) by (cases n) auto
  have k: "ident k" "pv (p v @ ?r) = (Inr v, ?r)" "skip_ws (p v @ ?r) = p v @ ?r"
    using Cons.prems(1) [of k v ?r] kv by (auto simp: delimited_def)
  have printed: "commas (map (\<lambda>(k, v). k @ CHR '':'' # p v) (kv # ms)) @ '')'' = k @ CHR '':'' # p v @ ?r"
    using kv by (cases ms) auto
  have IH: "args_loop pv n' (args @ [(k, v)]) ?t = Inr ((args @ [(k, v)]) @ ms)"
    using Cons.prems kv n by (intro Cons.IH) auto
  obtain c cs where c: "k = c # cs" "is_ident_byte c" using k(1) by (cases k) (auto simp: ident_def)
  have "takeWhile is_ident_byte (c # cs @ CHR '':'' # p v @ ?r) = k" "dropWhile is_ident_byte (c # cs @ CHR '':'' # p v @ ?r) = CHR '':'' # p v @ ?r"
    using ident_text [OF k(1), of "CHR '':'' # p v @ ?r"] c(1) by simp_all
  moreover have "skip_ws (k @ CHR '':'' # p v @ ?r) = c # cs @ CHR '':'' # p v @ ?r" using skip_ws_ident [OF k(1)] c by simp
  moreover have "c \<noteq> CHR '')''" using c(2) by auto
  moreover have "k \<notin> fst ` set args" "k \<noteq> []" using Cons.prems(2) kv c by auto
  moreover have "args_loop pv n' (args @ [(k, v)]) (if ms = [] then '')'' else ?t) = Inr ((args @ [(k, v)]) @ ms)" using IH by auto
  ultimately show ?case using k(2,3) kv unfolding printed n(1)
    by (simp add: args_loop.simps(2) Let_def del: takeWhile.simps dropWhile.simps) auto
qed

lemma printed_value_start:
  assumes "prints_scalars from_slice scal S" "value_fits S n v"
  shows "skip_ws (print_value scal v @ r) = print_value scal v @ r"
proof (cases v rule: value_shape)
  case 4
  then have "scal v \<noteq> [] \<and> list_all scalar_byte (scal v)" using assms scalar_fits [OF 4] by (auto simp: prints_scalars_def)
  then show ?thesis using 4 by (cases "scal v") (auto simp: print_scalar dest: scalar_byte_facts)
qed (simp_all add: quote_string_def)

lemma commas_length: "\<forall>t \<in> set ts. t \<noteq> [] \<Longrightarrow> length ts \<le> length (commas ts)"
  by (induction ts rule: commas.induct) (auto simp: Suc_le_eq)

text \<open>Where a printed field ends: the next one or the closing brace follows.\<close>

definition field_end :: "string \<Rightarrow> bool" where
  "field_end r \<longleftrightarrow> r \<noteq> [] \<and> hd r \<in> {CHR '' '', CHR ''}''} \<and>
     skip_ws r \<noteq> [] \<and> (is_ident_byte (hd (skip_ws r)) \<or> hd (skip_ws r) = CHR ''}'')"

lemma args_text:
  assumes "prints_scalars from_slice scal S" "args_fit S n args"
  shows "parse_args (value_at from_slice vars n) (CHR ''('' # print_members scal args @ '')'') = Inr args"
    "quiet False (print_members scal args)"
proof -
  have a: "ident k \<and> value_fits S n v" if "(k, v) \<in> set args" for k v
    using assms(2) that by (force simp: args_fit_def args_ok_def list_all_iff)
  let ?ts = "map (\<lambda>(k, v). k @ CHR '':'' # print_value scal v) args"
  have len: "length args \<le> length (commas ?ts)" using commas_length [of ?ts] by force
  have run: "args_loop (value_at from_slice vars n) (Suc (length (commas ?ts @ '')''))) [] (commas ?ts @ '')'') = Inr ([] @ args)"
    by (rule args_loop_printed)
      (use a assms(2) len parse_printed_value [OF assms(1), of n] printed_value_start [OF assms(1), of n]
        in \<open>auto simp: args_fit_def args_ok_def\<close>)
  then show "parse_args (value_at from_slice vars n) (CHR ''('' # print_members scal args @ '')'') = Inr args"
    by (simp add: parse_args_def print_members_def)
  have "\<forall>t \<in> set ?ts. quiet True t"
    using a by (auto simp: plain_def intro!: quiet_plains quiet_plain ident_plain print_value_quiet [OF assms(1), of n])
  then show "quiet False (print_members scal args)" unfolding print_members_def by (rule quiet_commas)
qed

lemma field_body_printed:
  assumes "prints_scalars from_slice scal S" "args_fit S n args" "ident k"
    and rest: "rest = d # ds" "\<not> is_ident_byte d" "skip_ws rest = c # cs" "c \<noteq> CHR ''(''" "c \<noteq> CHR '':''" "c \<noteq> CHR ''@''"
  shows "field_body (value_at from_slice vars n) sel op (k @ print_args scal args @ rest) =
    act_bind (field_selection sel) (\<lambda>s. act_ok \<lparr> pf_operation = op, pf_name = k, pf_args = args, pf_selection = s \<rparr>) (c # cs)"
proof -
  let ?pv = "value_at from_slice vars n" and ?t = "print_args scal args @ rest"
  have "?t = [] \<or> \<not> is_ident_byte (hd ?t)" using rest(1,2) by (auto simp: print_args_def)
  note name = ident_text [OF assms(3) this]
  have args: "field_args ?pv (skip_ws ?t) = (Inr args, c # cs)"
  proof (cases "args = []")
    case True
    then show ?thesis using rest by (simp add: print_args_def field_args_def)
  next
    case False
    then have "slice_with skip_parens (parse_args ?pv) (CHR ''('' # print_members scal args @ CHR '')'' # rest) = (Inr args, rest)"
      using args_text [OF assms(1,2)] by (simp add: scan_parens)
    then show ?thesis using False rest by (simp add: print_args_def field_args_def act_bind_def)
  qed
  have "\<not> (case skip_ws ?t of e # _ \<Rightarrow> e = CHR '':'' | [] \<Rightarrow> False)"
    using rest by (cases "args = []") (simp_all add: print_args_def)
  moreover have "field_directives (c # cs) = (Inr (), c # cs)" using rest(6) by (simp add: field_directives_def)
  moreover have "k \<noteq> []" using assms(3) by (simp add: ident_def)
  ultimately show ?thesis using args name skip_ws_ident [OF assms(3)]
    by (simp add: field_body_def field_rest_def Let_def act_bind_def)
qed

definition parsed_node :: "operation \<Rightarrow> string \<Rightarrow> field_node \<Rightarrow> parsed_field" where
  "parsed_node op k nd = \<lparr> pf_operation = op, pf_name = k, pf_args = node_args nd, pf_selection = node_selection nd \<rparr>"

lemma printed_fields_head:
  assumes "\<forall>(k, nd) \<in> set s. ident k" "s \<noteq> []"
  obtains c cs where "print_fields scal s = c # cs" "is_ident_byte c"
proof -
  obtain k nd s' where s: "s = (k, nd) # s'" using assms(2) by (metis list.exhaust surj_pair)
  then have "ident k" using assms(1) by simp
  then obtain c cs where "k = c # cs" "is_ident_byte c" by (cases k) (simp_all add: ident_def)
  then show thesis using that s by simp
qed

lemma printed_fields_ws:
  assumes "\<forall>(k, nd) \<in> set s. ident k"
  shows "skip_ws (print_fields scal s @ CHR ''}'' # r) = print_fields scal s @ CHR ''}'' # r"
proof (cases "s = []")
  case False
  obtain c cs where "print_fields scal s = c # cs" "is_ident_byte c" by (rule printed_fields_head [OF assms False])
  then show ?thesis using ident_byte_facts(3,4) [of c] by simp
qed simp

lemma selection_loop_printed:
  assumes "\<And>k nd r. (k, nd) \<in> set s \<Longrightarrow> field_end r \<Longrightarrow>
      ident k \<and> (\<exists>r'. f (k @ print_node scal nd @ r) = (Inr (parsed_node Query k nd), r') \<and> skip_ws r' = skip_ws r)"
    "distinct (map fst (acc @ s))" "length s < n"
  shows "selection_loop f n acc (print_fields scal s @ CHR ''}'' # r) = (Inr (acc @ s), r)"
  using assms
proof (induction s arbitrary: acc n)
  case Nil
  then show ?case by (cases n) simp_all
next
  case (Cons knd s)
  obtain k nd where knd: "knd = (k, nd)" by (cases knd)
  obtain n' where n: "n = Suc n'" "length s < n'" using Cons.prems(3) by (cases n) auto
  let ?t = "print_fields scal s @ CHR ''}'' # r"
  have e: "field_end ''}''" by (simp add: field_end_def)
  have ids: "\<forall>(k, nd) \<in> set s. ident k" using Cons.prems(1) [OF _ e] by auto
  have ws: "skip_ws (CHR '' '' # ?t) = ?t" using printed_fields_ws [OF ids] by simp
  moreover have "hd ?t = CHR ''}'' \<or> is_ident_byte (hd ?t)" by (cases "s = []") (auto elim: printed_fields_head [OF ids, of scal])
  ultimately have "field_end (CHR '' '' # ?t)" unfolding field_end_def by auto
  then obtain r' where f: "ident k" "f (k @ print_node scal nd @ CHR '' '' # ?t) = (Inr (parsed_node Query k nd), r')" "skip_ws r' = ?t"
    using Cons.prems(1) [of k nd "CHR '' '' # ?t"] knd ws by auto
  obtain c cs where c: "k = c # cs" "is_ident_byte c" using f(1) by (cases k) (auto simp: ident_def)
  have "k \<notin> fst ` set acc" using Cons.prems(2) knd by auto
  then have "AList.update k nd acc = acc @ [(k, nd)]" by (induction acc) auto
  moreover have "selection_loop f n' (acc @ [(k, nd)]) ?t = (Inr ((acc @ [(k, nd)]) @ s), r)"
    using Cons.prems knd n by (intro Cons.IH) auto
  moreover have "c \<noteq> CHR ''}''" "c \<noteq> CHR ''.''" using c(2) ident_byte_facts(8) by auto
  moreover have "FieldNode (node_args nd) (node_selection nd) = nd" by (cases nd) simp
  ultimately show ?case using f knd c unfolding n(1)
    by (simp add: act_bind_def parsed_node_def)
qed

lemma print_fields_length: "\<forall>(k, nd) \<in> set s. ident k \<Longrightarrow> length s \<le> length (print_fields scal s)"
  by (induction s) auto

lemma field_end_cases:
  assumes "field_end r"
  obtains d ds c cs where "r = d # ds" "\<not> is_ident_byte d" "skip_ws r = c # cs" "is_ident_byte c \<or> c = CHR ''}''"
  using assms by (cases r; cases "skip_ws r") (auto simp: field_end_def)

lemma leaf_printed:
  assumes "prints_scalars from_slice scal S" "ident k" "args_fit S (Suc n) a" "field_end r"
  shows "field_at from_slice vars (Suc n) op (k @ print_node scal (FieldNode a None) @ r) =
      (Inr (parsed_node op k (FieldNode a None)), skip_ws r) \<and> skip_ws (skip_ws r) = skip_ws r"
proof -
  obtain d ds c cs where r: "r = d # ds" "\<not> is_ident_byte d" "skip_ws r = c # cs" "is_ident_byte c \<or> c = CHR ''}''"
    using assms(4) by (rule field_end_cases)
  have c: "c \<noteq> CHR ''(''" "c \<noteq> CHR '':''" "c \<noteq> CHR ''@''" "c \<noteq> CHR ''{''" "skip_ws (c # cs) = c # cs"
    using r(4) ident_byte_facts [of c] by auto
  then show ?thesis using field_body_printed [OF assms(1,3,2) r(1-3) c(1-3)] r(3)
    by (simp add: field_selection_def act_bind_def parsed_node_def)
qed

lemma nested_printed:
  assumes "prints_scalars from_slice scal S" "ident k" "args_fit S (Suc (Suc n)) a"
    and s: "s \<noteq> []" "distinct (map fst s)"
    and f: "\<And>k nd r. (k, nd) \<in> set s \<Longrightarrow> field_end r \<Longrightarrow> ident k \<and>
      (\<exists>r'. field_at from_slice vars (Suc n) Query (k @ print_node scal nd @ r) = (Inr (parsed_node Query k nd), r') \<and> skip_ws r' = skip_ws r)"
  shows "field_at from_slice vars (Suc (Suc n)) op (k @ print_node scal (FieldNode a (Some s)) @ r) =
      (Inr (parsed_node op k (FieldNode a (Some s))), r)"
proof -
  let ?f = "field_at from_slice vars (Suc n) Query" and ?t = "print_fields scal s @ CHR ''}'' # r"
  have e: "field_end ''}''" by (simp add: field_end_def)
  have ids: "\<forall>(k, nd) \<in> set s. ident k" using f [OF _ e] by auto
  obtain c cs where c: "print_fields scal s = c # cs" "is_ident_byte c" by (rule printed_fields_head [OF ids s(1)])
  have "selection_loop ?f (Suc (length ?t)) [] ?t = (Inr ([] @ s), r)"
    using f s(2) print_fields_length [OF ids, of scal] by (intro selection_loop_printed) (auto simp: less_Suc_eq_le)
  moreover have "skip_ws ?t = ?t" by (rule printed_fields_ws [OF ids])
  moreover have "c \<noteq> CHR ''}''" using c(2) by auto
  ultimately have "selection_body ?f (CHR ''{'' # ?t) = (Inr s, r)"
    using c(1) by (simp add: selection_body_def Let_def del: selection_loop.simps)
  then show ?thesis
    using field_body_printed [OF assms(1,3,2) refl, of "CHR ''{''" ?t "CHR ''{''" ?t]
    by (simp add: field_selection_def act_bind_def parsed_node_def)
qed

lemma field_printed:
  assumes "prints_scalars from_slice scal S"
  shows "ident k \<Longrightarrow> args_fit S (Suc n) a \<Longrightarrow> sel_fits S n sel \<Longrightarrow> field_end r \<Longrightarrow>
    \<exists>r'. field_at from_slice vars (Suc n) op (k @ print_node scal (FieldNode a sel) @ r) =
      (Inr (parsed_node op k (FieldNode a sel)), r') \<and> skip_ws r' = skip_ws r"
proof (induction n arbitrary: op k a sel r)
  case 0
  then show ?case using leaf_printed [OF assms, of k 0 a r vars op] by (cases sel) auto
next
  case (Suc n)
  show ?case
  proof (cases sel)
    case None
    then show ?thesis using leaf_printed [OF assms Suc.prems(1,2,4)] by blast
  next
    case (Some s)
    have "ident k' \<and> (\<exists>r'. field_at from_slice vars (Suc n) Query (k' @ print_node scal nd @ r) =
        (Inr (parsed_node Query k' nd), r') \<and> skip_ws r' = skip_ws r)"
      if "(k', nd) \<in> set s" "field_end r" for k' nd r
    proof (cases nd)
      case (FieldNode a' sel')
      then have "ident k'" "args_fit S (Suc n) a'" "sel_fits S n sel'" using Suc.prems(3) Some that(1) by auto
      then show ?thesis using Suc.IH [OF _ _ _ that(2)] FieldNode by blast
    qed
    then show ?thesis using nested_printed [OF assms Suc.prems(1,2), of s vars op r] Suc.prems(3) Some by auto
  qed
qed

section \<open>Round trip\<close>

lemma query_prefix_printed: "query_prefix (print_operation op @ CHR ''{'' # t) = (op, CHR ''{'' # t)"
  by (cases op) (simp_all add: query_prefix_def print_operation_def starts_with_def keyword_ends_def is_ascii_whitespace_def)

text \<open>
  C23. The parser undoes the printer: on the text of any query within the depth limit, with nested
  lists, input objects and escaped strings as arguments, it returns exactly this query, whatever
  the variables are.
\<close>

theorem parse_print_roundtrip:
  assumes "prints_scalars from_slice scal S" "query_fits S f"
  shows "parse_query from_slice (print_query scal f) vars = Ok f"
proof -
  let ?nd = "FieldNode (pf_args f) (pf_selection f)"
  let ?t = "pf_name f @ print_node scal ?nd @ ''}''"
  have "field_end ''}''" by (simp add: field_end_def)
  then obtain r where r: "field_at from_slice vars (Suc MAX_DEPTH) (pf_operation f) ?t = (Inr (parsed_node (pf_operation f) (pf_name f) ?nd), r)"
    "skip_ws r = ''}''"
    using field_printed [OF assms(1), of "pf_name f" MAX_DEPTH "pf_args f" "pf_selection f" "''}''" vars "pf_operation f"] assms(2)
    by (auto simp: query_fits_def)
  obtain c cs where c: "pf_name f = c # cs" "is_ident_byte c" using assms(2) by (cases "pf_name f") (auto simp: query_fits_def ident_def)
  have "selection_start (CHR ''{'' # ?t) = (Inr (), ?t)"
    using c ident_byte_facts(3,4,8) [OF c(2)] not_ident_bytes(4) by (cases "c = CHR ''}''") (simp_all add: selection_start_def)
  moreover have "query_end r = Inr ()" using r(2) by (simp add: query_end_def)
  moreover have "parsed_node (pf_operation f) (pf_name f) ?nd = f" by (simp add: parsed_node_def)
  ultimately show ?thesis using r(1)
    by (simp add: parse_query_def print_query_def query_prefix_printed query_body_def act_bind_def parse_field_def)
qed

theorem parse_print_roundtrip_witness:
  "parse_query (\<lambda>t. if t = ''null'' then Ok JNull else Err []) (print_query (\<lambda>_. ''null'')
     \<lparr> pf_operation = Mutation, pf_name = ''add'', pf_args = [(''k'', JArray [JString [squote, backslash], JNull, JObject [(''x'', JArray [])]])],
       pf_selection = Some [(''id'', FieldNode [] None)] \<rparr>) JNull =
   Ok \<lparr> pf_operation = Mutation, pf_name = ''add'', pf_args = [(''k'', JArray [JString [squote, backslash], JNull, JObject [(''x'', JArray [])]])],
       pf_selection = Some [(''id'', FieldNode [] None)] \<rparr>"
proof (rule parse_print_roundtrip [of _ _ "{JNull}"])
  show "prints_scalars (\<lambda>t. if t = ''null'' then Ok JNull else Err []) (\<lambda>_. ''null'') {JNull}"
    by (simp add: prints_scalars_def scalar_byte_def is_ident_byte_def)
  show "query_fits {JNull} \<lparr> pf_operation = Mutation, pf_name = ''add'',
      pf_args = [(''k'', JArray [JString [squote, backslash], JNull, JObject [(''x'', JArray [])]])],
      pf_selection = Some [(''id'', FieldNode [] None)] \<rparr>"
    by (simp add: query_fits_def args_fit_def args_ok_def ident_def is_ident_byte_def MAX_DEPTH_def eval_nat_numeral)
qed

end
