(* ===== verification/TierState.thy ===== *)
theory TierState
  imports Rdbms
begin

text \<open>
  \<^verbatim>\<open>ecat-data-tiering\<close>: the configuration with its validation (\<^verbatim>\<open>config.rs\<close>) and the table of
  archive jobs with its phases (\<^verbatim>\<open>state.rs\<close>). Times are nanoseconds since the epoch, UTC. The
  clock and the text forms of times are parameters.
\<close>

section \<open>Configuration (config.rs)\<close>

datatype cold_target = TargetClickhouse | TargetS3

record table_tiering_config =
  tt_name :: string
  tt_time_col :: string
  tt_id_col :: string
  tt_retention_days :: nat
  tt_target :: cold_target
  tt_filter :: "string option"

text \<open>\<^verbatim>\<open>verify_sample\<close>, a float only the ClickHouse sink reads, is its bit pattern.\<close>

record tiering_config =
  tc_enabled :: bool
  tc_hot_days :: nat
  tc_partition_months :: nat
  tc_tables :: "table_tiering_config list"
  tc_batch_size :: nat
  tc_max_rows_per_sec :: "nat option"
  tc_verify_sample :: "u32 option"
  tc_retain_s3_days :: nat
  tc_window :: "string option"
  tc_dry_run :: bool

text \<open>The errors of the source; \<open>TierPanic\<close> stands for a panic.\<close>

datatype tiering_error =
    TierConfig string
  | TierDb rdbms_error
  | TierCold string
  | TierState string
  | TierUnsupportedDialect
  | TierPanic string

definition is_ascii_alpha :: "char \<Rightarrow> bool" where
  "is_ascii_alpha c \<longleftrightarrow> (let n = (of_char c :: nat) in 65 \<le> n \<and> n \<le> 90 \<or> 97 \<le> n \<and> n \<le> 122)"

definition is_ascii_alnum :: "char \<Rightarrow> bool" where
  "is_ascii_alnum c \<longleftrightarrow> is_ascii_alpha c \<or> (let n = (of_char c :: nat) in 48 \<le> n \<and> n \<le> 57)"

definition validate_ident :: "string \<Rightarrow> (tiering_error, unit) result" where
  "validate_ident s =
     (let head_ok = (case s of [] \<Rightarrow> False | c # _ \<Rightarrow> is_ascii_alpha c \<or> c = CHR ''_'') in
      if \<not> head_ok \<or> \<not> list_all (\<lambda>c. is_ascii_alnum c \<or> c = CHR ''_'') (tl s)
      then Err (TierConfig (''invalid identifier `'' @ s @ ''`: expected ^[A-Za-z_][A-Za-z0-9_]*$''))
      else Ok ())"

definition window_error :: "string \<Rightarrow> tiering_error" where
  "window_error w = TierConfig (''invalid window `'' @ w @ ''`: expected `HH:MM-HH:MM` in UTC'')"

definition parse_hhmm :: "string \<Rightarrow> string \<Rightarrow> (tiering_error, nat) result" where
  "parse_hhmm part w =
     try_bind (ok_or (window_error w) (split_once (CHR '':'') part)) (\<lambda>(h, m).
     try_bind (map_err (\<lambda>_. window_error w) (parse_uint (2 ^ 32 - 1) h)) (\<lambda>hour.
     try_bind (map_err (\<lambda>_. window_error w) (parse_uint (2 ^ 32 - 1) m)) (\<lambda>minute.
     if \<not> (length h = 2 \<and> length m = 2) \<or> hour > 23 \<or> minute > 59 then Err (window_error w)
     else Ok (hour * 60 + minute))))"

definition parse_window :: "string \<Rightarrow> (tiering_error, nat \<times> nat) result" where
  "parse_window w =
     try_bind (ok_or (window_error w) (split_once (CHR ''-'') w)) (\<lambda>(a, b).
     try_bind (parse_hhmm a w) (\<lambda>start.
     try_bind (parse_hhmm b w) (\<lambda>end_min.
     if start = end_min then Err (window_error w) else Ok (start, end_min))))"

text \<open>A sign counts as one of the two digits.\<close>

lemma signed_hour_accepted: "parse_window ''+9:00-10:00'' = Inr (540, 600)"
  by (simp add: parse_window_def parse_hhmm_def split_once_def parse_uint_def)

definition window_bounds :: "tiering_config \<Rightarrow> (tiering_error, (nat \<times> nat) option) result" where
  "window_bounds c = (case tc_window c of None \<Rightarrow> Ok None | Some w \<Rightarrow> try_bind (parse_window w) (\<lambda>b. Ok (Some b)))"

definition retention_error :: "tiering_config \<Rightarrow> table_tiering_config \<Rightarrow> tiering_error" where
  "retention_error c t = TierConfig (''table `'' @ tt_name t @ ''`: retention_days ('' @ dec_nat (tt_retention_days t)
     @ '') must be >= hot_days ('' @ dec_nat (tc_hot_days c) @ '')'')"

definition tier_validate :: "tiering_config \<Rightarrow> (tiering_error, unit) result" where
  "tier_validate c =
     try_bind (window_bounds c) (\<lambda>_.
     if tc_hot_days c = 0 then Err (TierConfig ''hot_days must be > 0'')
     else if tc_partition_months c = 0 then Err (TierConfig ''partition_months must be > 0'')
     else for_each (\<lambda>t. try_bind (validate_ident (tt_name t)) (\<lambda>_. try_bind (validate_ident (tt_time_col t)) (\<lambda>_.
            try_bind (validate_ident (tt_id_col t)) (\<lambda>_.
            if tt_retention_days t < tc_hot_days c then Err (retention_error c t) else Ok ())))) (tc_tables c))"

section \<open>The environment\<close>

text \<open>
  The clock, the dates \<^verbatim>\<open>OffsetDateTime\<close> can represent, its text forms (RFC 3339, and the SQL form
  without fraction), the delay \<^verbatim>\<open>rows / rate\<close> in floating point, and the rounds of the loop over
  the chunks of a partition.
\<close>

record 'w tier_env =
  te_now :: "'w \<Rightarrow> int"
  te_in_range :: "int \<Rightarrow> bool"
  te_fmt_rfc :: "int \<Rightarrow> (string, string) result"
  te_parse_rfc :: "string \<Rightarrow> (string, int) result"
  te_fmt_sql :: "int \<Rightarrow> (string, string) result"
  te_required :: "nat \<Rightarrow> nat \<Rightarrow> nat"
  te_rounds :: nat

definition tier_db :: "(rdbms_error, 'w, 'a) act \<Rightarrow> (tiering_error, 'w, 'a) act" where
  "tier_db f = act_map_err TierDb f"

definition days_ns :: "nat \<Rightarrow> int" where
  "days_ns d = int d * (86400 * 1000000000)"

text \<open>Adding to a time panics beyond the representable dates.\<close>

definition ts_plus :: "'w tier_env \<Rightarrow> int \<Rightarrow> int \<Rightarrow> (tiering_error, int) result" where
  "ts_plus env t d = (if te_in_range env (t + d) then Ok (t + d) else Err (TierPanic ''resulting value is out of range''))"

section \<open>Archive jobs (state.rs)\<close>

definition TIER_TABLE :: string where "TIER_TABLE = ''tier_archive_jobs''"

datatype archive_phase = ArPending | ArCopied | ArVerified | ArDropped

fun archive_phase_as_str :: "archive_phase \<Rightarrow> string" where
  "archive_phase_as_str ArPending = ''pending''"
| "archive_phase_as_str ArCopied = ''copied''"
| "archive_phase_as_str ArVerified = ''verified''"
| "archive_phase_as_str ArDropped = ''dropped''"

definition archive_phase_parse :: "string \<Rightarrow> (tiering_error, archive_phase) result" where
  "archive_phase_parse s =
     (if s = ''pending'' then Ok ArPending
      else if s = ''copied'' then Ok ArCopied
      else if s = ''verified'' then Ok ArVerified
      else if s = ''dropped'' then Ok ArDropped
      else Err (TierState (''unknown archive phase `'' @ s @ ''`'')))"

fun predecessor :: "archive_phase \<Rightarrow> archive_phase option" where
  "predecessor ArPending = None"
| "predecessor ArCopied = Some ArPending"
| "predecessor ArVerified = Some ArCopied"
| "predecessor ArDropped = Some ArVerified"

record archive_job_state =
  as_table :: string
  as_partition :: string
  as_chunk :: nat
  as_low_id :: int
  as_high_id :: int
  as_rows :: nat
  as_checksum :: "string option"
  as_phase :: archive_phase
  as_updated_at :: int

definition supported_dialect :: "'w sql_executor \<Rightarrow> (tiering_error, dialect) result" where
  "supported_dialect db = (if ex_dialect db = Mssql then Err TierUnsupportedDialect else Ok (ex_dialect db))"

definition rows_col :: "dialect \<Rightarrow> string" where
  "rows_col d = (if d = MySql then ''`rows`'' else [CHR 0x22] @ ''rows'' @ [CHR 0x22])"

definition tier_columns :: "dialect \<Rightarrow> string" where
  "tier_columns d = ''table_name, partition_name, chunk, low_id, high_id, '' @ rows_col d @ '', checksum, phase, updated_at''"

definition placeholders :: "dialect \<Rightarrow> nat \<Rightarrow> string" where
  "placeholders d n = str_join '', '' (map (placeholder d) [1..<n + 1])"

definition tier_fmt_ts :: "'w tier_env \<Rightarrow> int \<Rightarrow> (tiering_error, string) result" where
  "tier_fmt_ts env ts = map_err (\<lambda>e. TierState (''failed to format updated_at: '' @ e)) (te_fmt_rfc env ts)"

definition tier_bad_column :: "string \<Rightarrow> tiering_error" where
  "tier_bad_column col = TierState (''archive state column `'' @ col @ ''` missing or of unexpected type'')"

definition out_of_range :: "string \<Rightarrow> tiering_error" where
  "out_of_range col = TierState (''archive state `'' @ col @ ''` exceeds i64 range'')"

definition tier_int :: "db_row \<Rightarrow> string \<Rightarrow> (tiering_error, int) result" where
  "tier_int row col = ok_or (tier_bad_column col) (Option.bind (row_get row col) as_i64)"

definition tier_text :: "db_row \<Rightarrow> string \<Rightarrow> (tiering_error, string) result" where
  "tier_text row col = ok_or (tier_bad_column col) (Option.bind (row_get row col) as_str)"

definition tier_uint :: "db_row \<Rightarrow> string \<Rightarrow> (tiering_error, nat) result" where
  "tier_uint row col = try_bind (tier_int row col) (\<lambda>i.
     if i < 0 then Err (TierState (''archive state column `'' @ col @ ''` is negative'')) else Ok (nat i))"

text \<open>\<^verbatim>\<open>i64::try_from\<close> of an unsigned value.\<close>

definition u64_to_i64 :: "string \<Rightarrow> nat \<Rightarrow> (tiering_error, int) result" where
  "u64_to_i64 col n = (if int n > i64_max then Err (out_of_range col) else Ok (int n))"

definition checksum_of :: "db_row \<Rightarrow> (tiering_error, string option) result" where
  "checksum_of row = (case row_get row ''checksum'' of
       Some JNull \<Rightarrow> Ok None
     | Some (JString s) \<Rightarrow> Ok (Some s)
     | _ \<Rightarrow> Err (tier_bad_column ''checksum''))"

definition tier_from_row :: "'w tier_env \<Rightarrow> db_row \<Rightarrow> (tiering_error, archive_job_state) result" where
  "tier_from_row env row =
     try_bind (tier_text row ''table_name'') (\<lambda>t. try_bind (tier_text row ''partition_name'') (\<lambda>p.
     try_bind (tier_uint row ''chunk'') (\<lambda>c. try_bind (tier_int row ''low_id'') (\<lambda>lo. try_bind (tier_int row ''high_id'') (\<lambda>hi.
     try_bind (tier_uint row ''rows'') (\<lambda>n. try_bind (checksum_of row) (\<lambda>cs.
     try_bind (tier_text row ''phase'') (\<lambda>pt. try_bind (archive_phase_parse pt) (\<lambda>ph.
     try_bind (tier_text row ''updated_at'') (\<lambda>ut.
     try_bind (map_err (\<lambda>e. TierState (''updated_at is not RFC3339: '' @ e)) (te_parse_rfc env ut)) (\<lambda>u.
     Ok \<lparr> as_table = t, as_partition = p, as_chunk = c, as_low_id = lo, as_high_id = hi, as_rows = n,
          as_checksum = cs, as_phase = ph, as_updated_at = u \<rparr>)))))))))))"

definition tier_line :: "nat \<Rightarrow> string" where
  "tier_line k = CHR 0x0A # replicate k (CHR '' '')"

definition tier_schema_sql :: "dialect \<Rightarrow> string" where
  "tier_schema_sql d =
     ''CREATE TABLE IF NOT EXISTS '' @ TIER_TABLE @ '' (''
     @ concat (map (\<lambda>l. tier_line 16 @ l)
         [''table_name VARCHAR(255) NOT NULL,'', ''partition_name VARCHAR(255) NOT NULL,'', ''chunk BIGINT NOT NULL,'',
          ''low_id BIGINT NOT NULL,'', ''high_id BIGINT NOT NULL,'', rows_col d @ '' BIGINT NOT NULL,'', ''checksum VARCHAR(255),'',
          ''phase VARCHAR(16) NOT NULL,'', ''updated_at VARCHAR(64) NOT NULL,'', ''PRIMARY KEY (table_name, partition_name, chunk)''])
     @ tier_line 12 @ '')''"

definition tier_ensure_schema :: "'w sql_executor \<Rightarrow> (tiering_error, 'w, unit) act" where
  "tier_ensure_schema db =
     act_bind (act_lift (supported_dialect db)) (\<lambda>d.
     act_bind (tier_db (ex_execute db (tier_schema_sql d))) (\<lambda>_. act_ok ()))"

definition tier_upsert_sql :: "dialect \<Rightarrow> string" where
  "tier_upsert_sql d =
     (let rows = rows_col d in
      ''INSERT INTO '' @ TIER_TABLE @ '' ('' @ tier_columns d @ '') VALUES ('' @ placeholders d 9 @ '') ''
      @ (if d = MySql
         then ''ON DUPLICATE KEY UPDATE low_id = VALUES(low_id), high_id = VALUES(high_id), '' @ rows @ '' = VALUES('' @ rows
           @ ''), checksum = VALUES(checksum), phase = VALUES(phase), updated_at = VALUES(updated_at)''
         else ''ON CONFLICT (table_name, partition_name, chunk) DO UPDATE SET low_id = excluded.low_id, high_id = excluded.high_id, ''
           @ rows @ '' = excluded.'' @ rows @ '', checksum = excluded.checksum, phase = excluded.phase, updated_at = excluded.updated_at''))"

definition upsert_params :: "archive_job_state \<Rightarrow> string \<Rightarrow> json_value list" where
  "upsert_params s ts =
     [JString (as_table s), JString (as_partition s), json_int (int (as_chunk s)), json_int (as_low_id s), json_int (as_high_id s),
      json_int (int (as_rows s)), (case as_checksum s of None \<Rightarrow> JNull | Some c \<Rightarrow> JString c),
      JString (archive_phase_as_str (as_phase s)), JString ts]"

definition tier_upsert :: "'w tier_env \<Rightarrow> 'w sql_executor \<Rightarrow> archive_job_state \<Rightarrow> (tiering_error, 'w, unit) act" where
  "tier_upsert env db s =
     act_bind (act_lift (supported_dialect db)) (\<lambda>d.
     act_bind (act_lift (u64_to_i64 ''chunk'' (as_chunk s))) (\<lambda>_.
     act_bind (act_lift (u64_to_i64 ''rows'' (as_rows s))) (\<lambda>_.
     act_bind (act_lift (tier_fmt_ts env (as_updated_at s))) (\<lambda>ts.
     act_bind (tier_db (ex_execute_with db (tier_upsert_sql d) (upsert_params s ts))) (\<lambda>_. act_ok ())))))"

definition latest_of_row :: "'w tier_env \<Rightarrow> db_row \<Rightarrow> (tiering_error, string \<times> int) result" where
  "latest_of_row env row =
     try_bind (tier_text row ''table_name'') (\<lambda>t. try_bind (tier_text row ''latest'') (\<lambda>l.
     try_bind (map_err (\<lambda>e. TierState (''latest updated_at is not RFC3339: '' @ e)) (te_parse_rfc env l)) (\<lambda>u. Ok (t, u))))"

definition latest_per_table :: "'w tier_env \<Rightarrow> 'w sql_executor \<Rightarrow> (tiering_error, 'w, (string \<times> int) list) act" where
  "latest_per_table env db =
     act_bind (tier_db (ex_query db (''SELECT table_name, MAX(updated_at) AS latest FROM '' @ TIER_TABLE
       @ '' GROUP BY table_name ORDER BY table_name''))) (\<lambda>rows.
     act_lift (collect_results (latest_of_row env) rows))"

definition latest_updated_at :: "'w tier_env \<Rightarrow> 'w sql_executor \<Rightarrow> string \<Rightarrow> (tiering_error, 'w, int option) act" where
  "latest_updated_at env db table =
     act_bind (act_lift (supported_dialect db)) (\<lambda>d.
     act_bind (tier_db (ex_query_with db (''SELECT MAX(updated_at) AS latest FROM '' @ TIER_TABLE @ '' WHERE table_name = '' @ placeholder d 1)
       [JString table])) (\<lambda>rows.
     case rows of [] \<Rightarrow> act_ok None
     | row # _ \<Rightarrow> (case row_get row ''latest'' of
           None \<Rightarrow> act_ok None
         | Some JNull \<Rightarrow> act_ok None
         | Some (JString l) \<Rightarrow> act_lift (map_err (\<lambda>e. TierState (''latest updated_at is not RFC3339: '' @ e))
             (try_bind (te_parse_rfc env l) (\<lambda>u. Ok (Some u))))
         | _ \<Rightarrow> act_err (tier_bad_column ''latest''))))"

definition tier_list :: "'w tier_env \<Rightarrow> 'w sql_executor \<Rightarrow> string option \<Rightarrow> (tiering_error, 'w, archive_job_state list) act" where
  "tier_list env db table =
     act_bind (act_lift (supported_dialect db)) (\<lambda>d.
     act_bind (tier_db (case table of
         Some t \<Rightarrow> ex_query_with db (''SELECT '' @ tier_columns d @ '' FROM '' @ TIER_TABLE @ '' WHERE table_name = '' @ placeholder d 1
           @ '' ORDER BY partition_name, chunk'') [JString t]
       | None \<Rightarrow> ex_query db (''SELECT '' @ tier_columns d @ '' FROM '' @ TIER_TABLE @ '' ORDER BY table_name, partition_name, chunk''))) (\<lambda>rows.
     act_lift (collect_results (tier_from_row env) rows)))"

definition tier_load_sql :: "dialect \<Rightarrow> string" where
  "tier_load_sql d = ''SELECT '' @ tier_columns d @ '' FROM '' @ TIER_TABLE @ '' WHERE table_name = '' @ placeholder d 1
     @ '' AND partition_name = '' @ placeholder d 2 @ '' AND chunk = '' @ placeholder d 3"

definition tier_load ::
  "'w tier_env \<Rightarrow> 'w sql_executor \<Rightarrow> string \<Rightarrow> string \<Rightarrow> nat \<Rightarrow> (tiering_error, 'w, archive_job_state option) act" where
  "tier_load env db table part chunk =
     act_bind (act_lift (supported_dialect db)) (\<lambda>d.
     act_bind (act_lift (u64_to_i64 ''chunk'' chunk)) (\<lambda>n.
     act_bind (tier_db (ex_query_with db (tier_load_sql d) [JString table, JString part, json_int n])) (\<lambda>rows.
     case rows of [] \<Rightarrow> act_ok None | row # _ \<Rightarrow> act_lift (try_bind (tier_from_row env row) (\<lambda>s. Ok (Some s))))))"

definition advance_sql :: "dialect \<Rightarrow> string" where
  "advance_sql d = ''UPDATE '' @ TIER_TABLE @ '' SET phase = '' @ placeholder d 1 @ '', checksum = COALESCE('' @ placeholder d 2
     @ '', checksum), updated_at = '' @ placeholder d 3 @ '' WHERE table_name = '' @ placeholder d 4 @ '' AND partition_name = ''
     @ placeholder d 5 @ '' AND chunk = '' @ placeholder d 6 @ '' AND phase = '' @ placeholder d 7"

definition advance_params ::
  "string \<Rightarrow> string \<Rightarrow> nat \<Rightarrow> archive_phase \<Rightarrow> archive_phase \<Rightarrow> string option \<Rightarrow> string \<Rightarrow> json_value list" where
  "advance_params table part chunk from to checksum ts =
     [JString (archive_phase_as_str to), (case checksum of None \<Rightarrow> JNull | Some c \<Rightarrow> JString c), JString ts,
      JString table, JString part, json_int (int chunk), JString (archive_phase_as_str from)]"

definition advance_error :: "string \<Rightarrow> string \<Rightarrow> nat \<Rightarrow> archive_phase \<Rightarrow> archive_job_state option \<Rightarrow> tiering_error" where
  "advance_error table part chunk to found =
     (let job = table @ ''/'' @ part @ ''/'' @ dec_nat chunk in case found of
        None \<Rightarrow> TierState (''archive job '' @ job @ '' not found'')
      | Some cur \<Rightarrow> TierState (''invalid archive phase transition '' @ archive_phase_as_str (as_phase cur) @ '' -> ''
          @ archive_phase_as_str to @ '' for '' @ job))"

definition tier_advance ::
  "'w tier_env \<Rightarrow> 'w sql_executor \<Rightarrow> string \<Rightarrow> string \<Rightarrow> nat \<Rightarrow> archive_phase \<Rightarrow> string option \<Rightarrow> (tiering_error, 'w, unit) act" where
  "tier_advance env db table part chunk to checksum =
     act_bind (act_lift (supported_dialect db)) (\<lambda>d.
     act_bind (act_lift (ok_or (TierState (''archive phase `'' @ archive_phase_as_str to @ ''` has no legal predecessor'')) (predecessor to))) (\<lambda>from.
     act_bind (\<lambda>w. (tier_fmt_ts env (te_now env w), w)) (\<lambda>ts.
     act_bind (act_lift (u64_to_i64 ''chunk'' chunk)) (\<lambda>_.
     act_bind (tier_db (ex_execute_with db (advance_sql d) (advance_params table part chunk from to checksum ts))) (\<lambda>n.
     if n > 0 then act_ok ()
     else act_bind (tier_load env db table part chunk) (\<lambda>found. act_err (advance_error table part chunk to found)))))))"

definition reset_sql :: "dialect \<Rightarrow> string" where
  "reset_sql d = ''DELETE FROM '' @ TIER_TABLE @ '' WHERE table_name = '' @ placeholder d 1 @ '' AND partition_name = '' @ placeholder d 2"

definition reset_partition :: "'w sql_executor \<Rightarrow> string \<Rightarrow> string \<Rightarrow> (tiering_error, 'w, nat) act" where
  "reset_partition db table part =
     act_bind (act_lift (supported_dialect db)) (\<lambda>d.
     tier_db (ex_execute_with db (reset_sql d) [JString table, JString part]))"

end
