(* ===== verification/TierArchive.thy ===== *)
theory TierArchive
  imports TierState
begin

text \<open>
  \<^verbatim>\<open>ecat-data-tiering\<close>: the archive loop (\<^verbatim>\<open>archive.rs\<close>, \<^verbatim>\<open>archive/pacer.rs\<close>) and the partition
  helpers of a restore (\<^verbatim>\<open>partition.rs\<close>). Hot database, cold sink, lock, clock and pacer are
  parameters; the counters of a report are natural numbers, far below \<^verbatim>\<open>u64::MAX\<close>.
\<close>

section \<open>The archive job (archive.rs)\<close>

definition LOCK_KEY :: string where "LOCK_KEY = ''ecat-data-tiering:archive''"
definition LOCK_TTL :: nat where "LOCK_TTL = 300 * 1000000000"
definition DEFAULT_RUN_TIMEOUT :: nat where "DEFAULT_RUN_TIMEOUT = 300 * 1000000000"

text \<open>\<^verbatim>\<open>ColdSink\<close>: table, partition, number of the chunk.\<close>

record 'w cold_sink =
  sk_write :: "string \<Rightarrow> string \<Rightarrow> nat \<Rightarrow> db_row list \<Rightarrow> (tiering_error, 'w, string) act"
  sk_verify :: "string \<Rightarrow> string \<Rightarrow> nat \<Rightarrow> string \<Rightarrow> (tiering_error, 'w, bool) act"
  sk_health_check :: "(tiering_error, 'w, unit) act"

record archive_report =
  ar_chunks :: nat
  ar_rows :: nat
  ar_dropped_partitions :: nat
  ar_skipped_drops :: nat
  ar_dry_run :: bool
  ar_skipped :: bool

record 'w tier_lock =
  tl_acquire :: "string \<Rightarrow> nat \<Rightarrow> (string, 'w, string option) act"
  tl_release :: "string \<Rightarrow> string \<Rightarrow> (string, 'w, unit) act"

record 'w pacer =
  pc_elapsed :: "'w \<Rightarrow> nat"
  pc_wait :: "nat \<Rightarrow> 'w \<Rightarrow> 'w"

text \<open>
  \<open>aj_monotonic\<close> is \<^verbatim>\<open>MonotonicPacer::default()\<close>, which starts its clock when it is made.
\<close>

record 'w archive_job =
  aj_hot :: "'w sql_executor"
  aj_cold :: "'w cold_sink"
  aj_state :: "'w sql_executor"
  aj_config :: tiering_config
  aj_lock :: "'w tier_lock option"
  aj_run_timeout :: nat
  aj_pacer :: "'w pacer option"
  aj_env :: "'w tier_env"
  aj_monotonic :: "'w \<Rightarrow> 'w pacer"

definition archive_job_new ::
  "'w tier_env \<Rightarrow> ('w \<Rightarrow> 'w pacer) \<Rightarrow> 'w sql_executor \<Rightarrow> 'w cold_sink \<Rightarrow> 'w sql_executor \<Rightarrow> tiering_config \<Rightarrow>
   'w tier_lock option \<Rightarrow> 'w archive_job" where
  "archive_job_new env monotonic hot cold state config lock =
     \<lparr> aj_hot = hot, aj_cold = cold, aj_state = state, aj_config = config, aj_lock = lock,
       aj_run_timeout = DEFAULT_RUN_TIMEOUT, aj_pacer = None, aj_env = env, aj_monotonic = monotonic \<rparr>"

definition with_run_timeout :: "'w archive_job \<Rightarrow> nat \<Rightarrow> 'w archive_job" where
  "with_run_timeout aj t = aj\<lparr>aj_run_timeout := t\<rparr>"

definition with_pacer :: "'w archive_job \<Rightarrow> 'w pacer \<Rightarrow> 'w archive_job" where
  "with_pacer aj p = aj\<lparr>aj_pacer := Some p\<rparr>"

text \<open>\<^verbatim>\<open>throttle_delay\<close> of \<^verbatim>\<open>pacer.rs\<close>.\<close>

definition throttle_delay :: "'w tier_env \<Rightarrow> nat \<Rightarrow> nat \<Rightarrow> nat \<Rightarrow> nat" where
  "throttle_delay env rows rate elapsed = (if rate = 0 then 0 else te_required env rows rate - elapsed)"

definition ts_minute :: "int \<Rightarrow> int" where
  "ts_minute ts = ts div (60 * 1000000000) mod 1440"

definition window_allows :: "(nat \<times> nat) option \<Rightarrow> int \<Rightarrow> bool" where
  "window_allows win now = (case win of None \<Rightarrow> True
     | Some (start, stop) \<Rightarrow> let minute = nat (ts_minute now) in
         if start < stop then start \<le> minute \<and> minute < stop else minute \<ge> start \<or> minute < stop)"

fun id_bounds_loop :: "string \<Rightarrow> db_row list \<Rightarrow> (int \<times> int) option \<Rightarrow> (tiering_error, (int \<times> int) option) result" where
  "id_bounds_loop col [] bounds = Ok bounds"
| "id_bounds_loop col (row # rows) bounds =
     try_bind (ok_or (TierState (''archive chunk row has no integer `'' @ col @ ''`'')) (Option.bind (row_get row col) as_i64)) (\<lambda>i.
     id_bounds_loop col rows (Some (case bounds of None \<Rightarrow> (i, i) | Some (low, high) \<Rightarrow> (min low i, max high i))))"

definition id_bounds :: "db_row list \<Rightarrow> string \<Rightarrow> (tiering_error, (int \<times> int) option) result" where
  "id_bounds rows col = id_bounds_loop col rows None"

definition tier_fmt_time :: "'w tier_env \<Rightarrow> int \<Rightarrow> (tiering_error, string) result" where
  "tier_fmt_time env ts = map_err (\<lambda>e. TierState (''failed to format cutoff: '' @ e)) (te_fmt_sql env ts)"

definition partitions_sql :: string where
  "partitions_sql = ''SELECT PARTITION_NAME AS partition_name FROM information_schema.PARTITIONS WHERE TABLE_SCHEMA = DATABASE() ''
     @ ''AND TABLE_NAME = ? AND PARTITION_NAME IS NOT NULL ORDER BY PARTITION_ORDINAL_POSITION''"

definition tier_partitions :: "'w archive_job \<Rightarrow> string \<Rightarrow> (tiering_error, 'w, string list) act" where
  "tier_partitions aj table =
     (if ex_dialect (aj_hot aj) \<noteq> MySql then act_err TierUnsupportedDialect
      else act_bind (tier_db (ex_query_with (aj_hot aj) partitions_sql [JString table])) (\<lambda>rows.
        act_lift (collect_results (\<lambda>row. ok_or (TierState ''partition query row has no `partition_name`'')
          (Option.bind (row_get row ''partition_name'') as_str)) rows)))"

definition hot_rows_sql :: "table_tiering_config \<Rightarrow> string \<Rightarrow> string" where
  "hot_rows_sql t p = ''SELECT COUNT(*) AS hot_rows FROM `'' @ tt_name t @ ''` PARTITION (`'' @ p @ ''`) WHERE `'' @ tt_time_col t @ ''` >= ?''"

definition count_of :: "string \<Rightarrow> tiering_error \<Rightarrow> db_row list \<Rightarrow> (tiering_error, int) result" where
  "count_of col e rows = ok_or e (case rows of [] \<Rightarrow> None | row # _ \<Rightarrow> Option.bind (row_get row col) as_i64)"

definition hot_rows :: "'w archive_job \<Rightarrow> table_tiering_config \<Rightarrow> string \<Rightarrow> (tiering_error, 'w, int) act" where
  "hot_rows aj t p =
     act_bind (\<lambda>w. (ts_plus (aj_env aj) (te_now (aj_env aj) w) (- days_ns (tc_hot_days (aj_config aj))), w)) (\<lambda>cutoff.
     act_bind (act_lift (tier_fmt_time (aj_env aj) cutoff)) (\<lambda>cut_text.
     act_bind (tier_db (ex_query_with (aj_hot aj) (hot_rows_sql t p) [JString cut_text])) (\<lambda>rows.
     act_lift (count_of ''hot_rows'' (TierState ''hot_rows query returned no count'') rows))))"

definition read_chunk_sql :: "table_tiering_config \<Rightarrow> string \<Rightarrow> string" where
  "read_chunk_sql t p =
     ''SELECT * FROM `'' @ tt_name t @ ''` PARTITION (`'' @ p @ ''`) WHERE `'' @ tt_id_col t @ ''` > ?''
     @ (case tt_filter t of None \<Rightarrow> [] | Some f \<Rightarrow> '' AND ('' @ f @ '')'')
     @ '' ORDER BY `'' @ tt_id_col t @ ''` LIMIT ?''"

definition read_chunk :: "'w archive_job \<Rightarrow> table_tiering_config \<Rightarrow> string \<Rightarrow> int \<Rightarrow> (tiering_error, 'w, db_row list) act" where
  "read_chunk aj t p cursor =
     tier_db (ex_query_with (aj_hot aj) (read_chunk_sql t p) [json_int cursor, json_int (int (tc_batch_size (aj_config aj)))])"

definition total_rows_sql :: "string \<Rightarrow> string \<Rightarrow> string" where
  "total_rows_sql t p = ''SELECT COUNT(*) AS total_rows FROM `'' @ t @ ''` PARTITION (`'' @ p @ ''`)''"

definition row_count_matches :: "'w archive_job \<Rightarrow> string \<Rightarrow> string \<Rightarrow> nat \<Rightarrow> (tiering_error, 'w, bool) act" where
  "row_count_matches aj t p archived =
     act_bind (tier_db (ex_query_with (aj_hot aj) (total_rows_sql t p) [])) (\<lambda>rows.
     act_bind (act_lift (count_of ''total_rows'' (TierState ''total_rows query returned no count'') rows)) (\<lambda>actual.
     act_ok (actual \<ge> 0 \<and> nat actual = archived)))"

definition drop_sql :: "string \<Rightarrow> string \<Rightarrow> string" where
  "drop_sql t p = ''ALTER TABLE `'' @ t @ ''` DROP PARTITION `'' @ p @ ''`''"

definition archive_drop :: "'w archive_job \<Rightarrow> string \<Rightarrow> string \<Rightarrow> (tiering_error, 'w, unit) act" where
  "archive_drop aj t p =
     act_bind (act_lift (validate_ident t)) (\<lambda>_. act_bind (act_lift (validate_ident p)) (\<lambda>_.
     act_bind (tier_db (ex_execute (aj_hot aj) (drop_sql t p))) (\<lambda>_. act_ok ())))"

definition retention_passed :: "'w archive_job \<Rightarrow> int option \<Rightarrow> (tiering_error, 'w, bool) act" where
  "retention_passed aj verified_at w = (case verified_at of None \<Rightarrow> (Ok False, w)
     | Some v \<Rightarrow> (try_bind (ts_plus (aj_env aj) v (days_ns (tc_retain_s3_days (aj_config aj)))) (\<lambda>due.
         Ok (te_now (aj_env aj) w \<ge> due)), w))"

section \<open>The walk over a partition\<close>

text \<open>The local variables of the loop.\<close>

record walk =
  wk_cursor :: int
  wk_chunk :: nat
  wk_all_verified :: bool
  wk_verified_at :: "int option"
  wk_copied_any :: bool
  wk_archived :: nat
  wk_complete :: bool

definition walk_start :: walk where
  "walk_start = \<lparr> wk_cursor = i64_min, wk_chunk = 0, wk_all_verified = True, wk_verified_at = None,
     wk_copied_any = False, wk_archived = 0, wk_complete = False \<rparr>"

definition tier_sat_add :: "nat \<Rightarrow> nat \<Rightarrow> nat" where
  "tier_sat_add a b = min (a + b) u64_max"

text \<open>What every chunk that is in the cold store adds.\<close>

definition pass_chunk :: "nat \<Rightarrow> int \<Rightarrow> walk \<Rightarrow> walk" where
  "pass_chunk rows high wk = wk\<lparr>wk_archived := tier_sat_add (wk_archived wk) rows, wk_copied_any := True,
     wk_cursor := high, wk_chunk := wk_chunk wk + 1\<rparr>"

definition pass_verified :: "archive_job_state \<Rightarrow> walk \<Rightarrow> walk" where
  "pass_verified st wk = pass_chunk (as_rows st) (as_high_id st)
     (wk\<lparr>wk_verified_at := Some (case wk_verified_at wk of Some t \<Rightarrow> max t (as_updated_at st) | None \<Rightarrow> as_updated_at st)\<rparr>)"

definition not_checksummed :: "string \<Rightarrow> string \<Rightarrow> nat \<Rightarrow> tiering_error" where
  "not_checksummed t p n = TierState (t @ '' '' @ p @ ''/'' @ dec_nat n @ '' is copied without checksum'')"

text \<open>Checking a written chunk and marking it.\<close>

definition verify_mark :: "'w archive_job \<Rightarrow> string \<Rightarrow> string \<Rightarrow> string \<Rightarrow> walk \<Rightarrow> (tiering_error, 'w, walk) act" where
  "verify_mark aj t p checksum wk =
     act_bind (sk_verify (aj_cold aj) t p (wk_chunk wk) checksum) (\<lambda>good.
     if good then act_bind (tier_advance (aj_env aj) (aj_state aj) t p (wk_chunk wk) ArVerified None) (\<lambda>_ w.
       (Ok (wk\<lparr>wk_verified_at := Some (te_now (aj_env aj) w)\<rparr>), w))
     else act_ok (wk\<lparr>wk_all_verified := False\<rparr>))"

definition pass_copied :: "'w archive_job \<Rightarrow> string \<Rightarrow> string \<Rightarrow> archive_job_state \<Rightarrow> walk \<Rightarrow> (tiering_error, 'w, walk) act" where
  "pass_copied aj t p st wk =
     (if tc_dry_run (aj_config aj) then act_ok (wk\<lparr>wk_cursor := as_high_id st, wk_chunk := wk_chunk wk + 1\<rparr>)
      else act_bind (act_lift (ok_or (not_checksummed t p (wk_chunk wk)) (as_checksum st))) (\<lambda>checksum.
        act_bind (verify_mark aj t p checksum wk) (\<lambda>wk'. act_ok (pass_chunk (as_rows st) (as_high_id st) wk'))))"

text \<open>Writing the rows read at the cursor as the next chunk; \<open>fresh\<close>: it has no job yet.\<close>

definition new_job :: "string \<Rightarrow> string \<Rightarrow> nat \<Rightarrow> int \<Rightarrow> int \<Rightarrow> nat \<Rightarrow> string \<Rightarrow> int \<Rightarrow> archive_job_state" where
  "new_job t p n low high rows checksum now =
     \<lparr> as_table = t, as_partition = p, as_chunk = n, as_low_id = low, as_high_id = high, as_rows = rows,
       as_checksum = Some checksum, as_phase = ArPending, as_updated_at = now \<rparr>"

definition pace :: "'w archive_job \<Rightarrow> 'w pacer \<Rightarrow> nat \<Rightarrow> 'w \<Rightarrow> 'w" where
  "pace aj pc rows w = (case tc_max_rows_per_sec (aj_config aj) of None \<Rightarrow> w
     | Some rate \<Rightarrow> if rate > 0 then
         let delay = throttle_delay (aj_env aj) rows rate (pc_elapsed pc w) in if delay \<noteq> 0 then pc_wait pc delay w else w
       else w)"

definition write_chunk ::
  "'w archive_job \<Rightarrow> 'w pacer \<Rightarrow> string \<Rightarrow> string \<Rightarrow> bool \<Rightarrow> db_row list \<Rightarrow> int \<Rightarrow> int \<Rightarrow> walk \<Rightarrow> archive_report \<Rightarrow>
   (tiering_error, 'w, walk \<times> archive_report) act" where
  "write_chunk aj pc t p fresh rows low high wk report =
     act_bind (sk_write (aj_cold aj) t p (wk_chunk wk) rows) (\<lambda>checksum.
     act_bind (if fresh then (\<lambda>w. tier_upsert (aj_env aj) (aj_state aj)
         (new_job t p (wk_chunk wk) low high (length rows) checksum (te_now (aj_env aj) w)) w) else act_ok ()) (\<lambda>_.
     act_bind (tier_advance (aj_env aj) (aj_state aj) t p (wk_chunk wk) ArCopied (Some checksum)) (\<lambda>_.
     act_bind (verify_mark aj t p checksum wk) (\<lambda>wk' w.
       let report' = report\<lparr>ar_chunks := ar_chunks report + 1, ar_rows := ar_rows report + length rows\<rparr> in
       (Ok (pass_chunk (length rows) high wk', report'), pace aj pc (ar_rows report') w)))))"

text \<open>One round of the loop: it returns from the function, breaks, or goes on.\<close>

datatype walk_next = WalkReturn | WalkBreak walk | WalkOn walk archive_report

definition walk_fresh ::
  "'w archive_job \<Rightarrow> 'w pacer \<Rightarrow> table_tiering_config \<Rightarrow> string \<Rightarrow> bool \<Rightarrow> walk \<Rightarrow> archive_report \<Rightarrow> (tiering_error, 'w, walk_next) act" where
  "walk_fresh aj pc t p fresh wk report =
     act_bind (read_chunk aj t p (wk_cursor wk)) (\<lambda>rows.
     act_bind (act_lift (id_bounds rows (tt_id_col t))) (\<lambda>bounds.
     case bounds of None \<Rightarrow> act_ok (WalkBreak (wk\<lparr>wk_complete := True\<rparr>))
     | Some (low, high) \<Rightarrow>
         if tc_dry_run (aj_config aj)
         then act_ok (WalkOn (wk\<lparr>wk_cursor := high, wk_chunk := wk_chunk wk + 1\<rparr>)
           (report\<lparr>ar_chunks := ar_chunks report + 1, ar_rows := ar_rows report + length rows\<rparr>))
         else act_bind (write_chunk aj pc (tt_name t) p fresh rows low high wk report) (\<lambda>(wk', report'). act_ok (WalkOn wk' report'))))"

definition walk_round ::
  "'w archive_job \<Rightarrow> 'w pacer \<Rightarrow> table_tiering_config \<Rightarrow> string \<Rightarrow> walk \<Rightarrow> archive_report \<Rightarrow> (tiering_error, 'w, walk_next) act" where
  "walk_round aj pc t p wk report w =
     (if pc_elapsed pc w \<ge> aj_run_timeout aj then (Ok (WalkBreak wk), w)
      else act_bind (tier_load (aj_env aj) (aj_state aj) (tt_name t) p (wk_chunk wk)) (\<lambda>state.
        case state of None \<Rightarrow> walk_fresh aj pc t p True wk report
        | Some st \<Rightarrow> (case as_phase st of
              ArDropped \<Rightarrow> act_ok WalkReturn
            | ArVerified \<Rightarrow> act_ok (WalkOn (pass_verified st wk) report)
            | ArCopied \<Rightarrow> act_bind (pass_copied aj (tt_name t) p st wk) (\<lambda>wk'. act_ok (WalkOn wk' report))
            | ArPending \<Rightarrow> walk_fresh aj pc t p False wk report)) w)"

definition tier_cut :: tiering_error where
  "tier_cut = TierPanic ''out of rounds''"

text \<open>The loop; \<open>None\<close> when the function returns out of it.\<close>

fun walk_loop ::
  "'w archive_job \<Rightarrow> 'w pacer \<Rightarrow> table_tiering_config \<Rightarrow> string \<Rightarrow> nat \<Rightarrow> walk \<Rightarrow> archive_report \<Rightarrow>
   (tiering_error, 'w, walk option \<times> archive_report) act" where
  "walk_loop aj pc t p 0 wk report = act_err tier_cut"
| "walk_loop aj pc t p (Suc n) wk report =
     act_bind (walk_round aj pc t p wk report) (\<lambda>next_step.
     case next_step of
       WalkReturn \<Rightarrow> act_ok (None, report)
     | WalkBreak wk' \<Rightarrow> act_ok (Some wk', report)
     | WalkOn wk' report' \<Rightarrow> walk_loop aj pc t p n wk' report')"

fun mark_dropped :: "'w archive_job \<Rightarrow> string \<Rightarrow> string \<Rightarrow> nat list \<Rightarrow> (tiering_error, 'w, unit) act" where
  "mark_dropped aj t p [] = act_ok ()"
| "mark_dropped aj t p (n # ns) =
     act_bind (tier_advance (aj_env aj) (aj_state aj) t p n ArDropped None) (\<lambda>_. mark_dropped aj t p ns)"

definition drop_archived :: "'w archive_job \<Rightarrow> string \<Rightarrow> string \<Rightarrow> walk \<Rightarrow> archive_report \<Rightarrow> (tiering_error, 'w, archive_report) act" where
  "drop_archived aj t p wk report =
     act_bind (row_count_matches aj t p (wk_archived wk)) (\<lambda>matches.
     if \<not> matches then act_ok (report\<lparr>ar_skipped_drops := ar_skipped_drops report + 1\<rparr>)
     else act_bind (archive_drop aj t p) (\<lambda>_.
       act_bind (mark_dropped aj t p [0..<wk_chunk wk]) (\<lambda>_.
       act_ok (report\<lparr>ar_dropped_partitions := ar_dropped_partitions report + 1\<rparr>))))"

definition finish_walk ::
  "'w archive_job \<Rightarrow> table_tiering_config \<Rightarrow> string \<Rightarrow> walk \<Rightarrow> archive_report \<Rightarrow> (tiering_error, 'w, archive_report) act" where
  "finish_walk aj t p wk report =
     (if wk_complete wk \<and> wk_all_verified wk \<and> wk_copied_any wk \<and> tt_filter t = None \<and> \<not> tc_dry_run (aj_config aj)
      then act_bind (retention_passed aj (wk_verified_at wk)) (\<lambda>passed.
        if passed then drop_archived aj (tt_name t) p wk report else act_ok report)
      else act_ok report)"

definition archive_partition ::
  "'w archive_job \<Rightarrow> 'w pacer \<Rightarrow> table_tiering_config \<Rightarrow> string \<Rightarrow> archive_report \<Rightarrow> (tiering_error, 'w, archive_report) act" where
  "archive_partition aj pc t p report =
     act_bind (walk_loop aj pc t p (te_rounds (aj_env aj)) walk_start report) (\<lambda>(walked, report').
     case walked of None \<Rightarrow> act_ok report' | Some wk \<Rightarrow> finish_walk aj t p wk report')"

section \<open>Runs\<close>

fun archive_partitions ::
  "'w archive_job \<Rightarrow> 'w pacer \<Rightarrow> table_tiering_config \<Rightarrow> string list \<Rightarrow> archive_report \<Rightarrow> (tiering_error, 'w, archive_report) act" where
  "archive_partitions aj pc t [] report = act_ok report"
| "archive_partitions aj pc t (p # ps) report =
     act_bind (act_lift (validate_ident p)) (\<lambda>_.
     act_bind (hot_rows aj t p) (\<lambda>n.
     if n > 0 then archive_partitions aj pc t ps report
     else act_bind (archive_partition aj pc t p report) (\<lambda>report'. archive_partitions aj pc t ps report')))"

fun archive_tables ::
  "'w archive_job \<Rightarrow> 'w pacer \<Rightarrow> table_tiering_config list \<Rightarrow> archive_report \<Rightarrow> (tiering_error, 'w, archive_report) act" where
  "archive_tables aj pc [] report = act_ok report"
| "archive_tables aj pc (t # ts) report =
     act_bind (act_lift (validate_ident (tt_name t))) (\<lambda>_. act_bind (act_lift (validate_ident (tt_time_col t))) (\<lambda>_.
     act_bind (act_lift (validate_ident (tt_id_col t))) (\<lambda>_.
     act_bind (tier_partitions aj (tt_name t)) (\<lambda>ps.
     act_bind (archive_partitions aj pc t ps report) (\<lambda>report'. archive_tables aj pc ts report')))))"

definition empty_report :: "bool \<Rightarrow> archive_report" where
  "empty_report dry = \<lparr> ar_chunks = 0, ar_rows = 0, ar_dropped_partitions = 0, ar_skipped_drops = 0, ar_dry_run = dry, ar_skipped = False \<rparr>"

text \<open>The run under the lock, if there is one; a failing release is ignored.\<close>

definition run_locked :: "'w archive_job \<Rightarrow> string option \<Rightarrow> (tiering_error, 'w, archive_report) act" where
  "run_locked aj token w =
     (let pc = (case aj_pacer aj of Some p \<Rightarrow> p | None \<Rightarrow> aj_monotonic aj w) in
      case archive_tables aj pc (tc_tables (aj_config aj)) (empty_report (tc_dry_run (aj_config aj))) w of
        (result, w1) \<Rightarrow> (result, (case (aj_lock aj, token) of
            (Some l, Some tok) \<Rightarrow> snd (tl_release l LOCK_KEY tok w1) | _ \<Rightarrow> w1)))"

definition tier_run_once :: "'w archive_job \<Rightarrow> (tiering_error, 'w, archive_report) act" where
  "tier_run_once aj =
     act_bind (act_lift (tier_validate (aj_config aj))) (\<lambda>_.
     if tc_batch_size (aj_config aj) = 0 then act_err (TierConfig ''batch_size must be > 0'') else
     act_bind (act_lift (window_bounds (aj_config aj))) (\<lambda>win w.
       if \<not> window_allows win (te_now (aj_env aj) w)
       then (Ok ((empty_report (tc_dry_run (aj_config aj)))\<lparr>ar_skipped := True\<rparr>), w)
       else (case aj_lock aj of
           None \<Rightarrow> run_locked aj None w
         | Some l \<Rightarrow> act_bind (act_map_err (\<lambda>e. TierState (''archive lock acquire failed: '' @ e)) (tl_acquire l LOCK_KEY LOCK_TTL)) (\<lambda>got.
             case got of None \<Rightarrow> act_ok ((empty_report (tc_dry_run (aj_config aj)))\<lparr>ar_skipped := True\<rparr>)
             | Some tok \<Rightarrow> run_locked aj (Some tok)) w)))"

text \<open>\<^verbatim>\<open>run_until\<close> over what its \<^verbatim>\<open>select!\<close> sees; \<open>None\<close> while it is still running.\<close>

datatype tier_event = TierShutdown | TierTick

fun tier_run_until :: "'w archive_job \<Rightarrow> tier_event list \<Rightarrow> 'w \<Rightarrow> (tiering_error, unit) result option \<times> 'w" where
  "tier_run_until aj [] w = (None, w)"
| "tier_run_until aj (TierShutdown # es) w = (Some (Ok ()), w)"
| "tier_run_until aj (TierTick # es) w =
     (case tier_run_once aj w of (Inl e, w') \<Rightarrow> (Some (Err e), w') | (Inr _, w') \<Rightarrow> tier_run_until aj es w')"

section \<open>Restoring a partition (partition.rs)\<close>

datatype restore_source = RestoreClickhouse | RestoreS3

record restore_plan =
  rp_table :: string
  rp_partition :: string
  rp_source :: restore_source

definition ensure_mysql :: "'w sql_executor \<Rightarrow> (tiering_error, unit) result" where
  "ensure_mysql db = (if ex_dialect db = MySql then Ok () else Err TierUnsupportedDialect)"

definition drop_partition :: "'w sql_executor \<Rightarrow> string \<Rightarrow> string \<Rightarrow> (tiering_error, 'w, nat) act" where
  "drop_partition db t p =
     act_bind (act_lift (validate_ident t)) (\<lambda>_. act_bind (act_lift (validate_ident p)) (\<lambda>_.
     act_bind (act_lift (ensure_mysql db)) (\<lambda>_. tier_db (ex_execute db (drop_sql t p)))))"

definition staging_name :: "restore_plan \<Rightarrow> (tiering_error, string) result" where
  "staging_name plan =
     (let staging = rp_table plan @ ''_restore_'' @ rp_partition plan in
      try_bind (validate_ident staging) (\<lambda>_. Ok staging))"

definition prepare_staging :: "'w sql_executor \<Rightarrow> restore_plan \<Rightarrow> (tiering_error, 'w, string) act" where
  "prepare_staging db plan =
     act_bind (act_lift (validate_ident (rp_table plan))) (\<lambda>_. act_bind (act_lift (validate_ident (rp_partition plan))) (\<lambda>_.
     act_bind (act_lift (ensure_mysql db)) (\<lambda>_. act_bind (act_lift (staging_name plan)) (\<lambda>staging.
     act_bind (tier_db (ex_execute db (''DROP TABLE IF EXISTS `'' @ staging @ ''`''))) (\<lambda>_.
     act_bind (tier_db (ex_execute db (''CREATE TABLE `'' @ staging @ ''` LIKE `'' @ rp_table plan @ ''`''))) (\<lambda>_.
     act_bind (tier_db (ex_execute db (''ALTER TABLE `'' @ staging @ ''` REMOVE PARTITIONING''))) (\<lambda>_.
     act_ok staging)))))))"

fun source_name :: "restore_source \<Rightarrow> string" where
  "source_name RestoreClickhouse = ''ClickHouse''"
| "source_name RestoreS3 = ''S3''"

definition tier_count_rows :: "'w sql_executor \<Rightarrow> string \<Rightarrow> json_value list \<Rightarrow> (tiering_error, 'w, int) act" where
  "tier_count_rows db sql ps =
     act_bind (tier_db (ex_query_with db sql ps)) (\<lambda>rows.
     act_lift (count_of ''n'' (TierState ''count query returned no `n` column'') rows))"

definition PARTITION_EXISTS_SQL :: string where
  "PARTITION_EXISTS_SQL = ''SELECT COUNT(*) AS n FROM information_schema.PARTITIONS WHERE TABLE_SCHEMA = DATABASE() ''
     @ ''AND TABLE_NAME = ? AND PARTITION_NAME = ?''"

definition restore_partition :: "'w sql_executor \<Rightarrow> restore_plan \<Rightarrow> (tiering_error, 'w, nat) act" where
  "restore_partition db plan =
     act_bind (act_lift (validate_ident (rp_table plan))) (\<lambda>_. act_bind (act_lift (validate_ident (rp_partition plan))) (\<lambda>_.
     act_bind (act_lift (ensure_mysql db)) (\<lambda>_. act_bind (act_lift (staging_name plan)) (\<lambda>staging.
     act_bind (tier_count_rows db (''SELECT COUNT(*) AS n FROM `'' @ staging @ ''`'') []) (\<lambda>n.
     if n = 0 then act_err (TierState (''staging table `'' @ staging @ ''` is empty; load it from '' @ source_name (rp_source plan)
       @ '' before restoring `'' @ rp_table plan @ ''`.`'' @ rp_partition plan @ ''`''))
     else act_bind (tier_count_rows db PARTITION_EXISTS_SQL [JString (rp_table plan), JString (rp_partition plan)]) (\<lambda>k.
     if k = 0 then act_err (TierState (''partition `'' @ rp_partition plan @ ''` does not exist on `'' @ rp_table plan
       @ ''`; ADD PARTITION or REORGANIZE it first''))
     else act_bind (tier_db (ex_execute db (''ALTER TABLE `'' @ rp_table plan @ ''` EXCHANGE PARTITION `'' @ rp_partition plan
         @ ''` WITH TABLE `'' @ staging @ ''`''))) (\<lambda>rows.
       act_bind (reset_partition db (rp_table plan) (rp_partition plan)) (\<lambda>_. act_ok rows))))))))"

end
