(* ===== verification/TierProofs.thy ===== *)
theory TierProofs
  imports TierArchive
begin

text \<open>
  No row is dropped that is not in the cold store: the meaning of the statements on a view of hot
  partitions, jobs and cold objects, and an invariant that every step of the archive loop keeps,
  also one that fails.
\<close>

section \<open>What the statements do\<close>

text \<open>
  \<open>vw_hot\<close>: the rows of a partition in the order of their ids, \<open>None\<close> when it is gone; \<open>vw_cold\<close>:
  the content of the object of a chunk, \<open>vw_digest\<close> its digest; \<open>vw_sum\<close>: the checksum the sink
  computes for the rows of a table.
\<close>

record 'w tier_view =
  vw_hot :: "'w \<Rightarrow> string \<Rightarrow> string \<Rightarrow> db_row list option"
  vw_jobs :: "'w \<Rightarrow> string \<Rightarrow> string \<Rightarrow> nat \<Rightarrow> archive_job_state option"
  vw_cold :: "'w \<Rightarrow> string \<Rightarrow> string \<Rightarrow> nat \<Rightarrow> string option"
  vw_sum :: "string \<Rightarrow> db_row list \<Rightarrow> string"
  vw_digest :: "string \<Rightarrow> string"

definition same_tier :: "'w tier_view \<Rightarrow> 'w \<Rightarrow> 'w \<Rightarrow> bool" where
  "same_tier v w w' \<longleftrightarrow> vw_hot v w' = vw_hot v w \<and> vw_jobs v w' = vw_jobs v w \<and> vw_cold v w' = vw_cold v w"

definition row_id :: "string \<Rightarrow> db_row \<Rightarrow> int" where
  "row_id col row = the (Option.bind (row_get row col) as_i64)"

definition job_fits :: "archive_job_state \<Rightarrow> bool" where
  "job_fits st \<longleftrightarrow> int (as_chunk st) \<le> i64_max \<and> int (as_rows st) \<le> i64_max \<and> is_i64 (as_low_id st) \<and> is_i64 (as_high_id st)"

text \<open>The image of a job in the answer to the query.\<close>

definition tier_image :: "'w tier_env \<Rightarrow> archive_job_state \<Rightarrow> db_row \<Rightarrow> bool" where
  "tier_image env st row \<longleftrightarrow>
     row_get row ''table_name'' = Some (JString (as_table st)) \<and> row_get row ''partition_name'' = Some (JString (as_partition st)) \<and>
     row_get row ''chunk'' = Some (json_int (int (as_chunk st))) \<and> row_get row ''low_id'' = Some (json_int (as_low_id st)) \<and>
     row_get row ''high_id'' = Some (json_int (as_high_id st)) \<and> row_get row ''rows'' = Some (json_int (int (as_rows st))) \<and>
     row_get row ''checksum'' = Some (case as_checksum st of None \<Rightarrow> JNull | Some c \<Rightarrow> JString c) \<and>
     row_get row ''phase'' = Some (JString (archive_phase_as_str (as_phase st))) \<and>
     (\<exists>ut. row_get row ''updated_at'' = Some (JString ut) \<and> te_parse_rfc env ut = Ok (as_updated_at st))"

text \<open>The statements are those on the tables of the configuration.\<close>

definition tabled :: "'w archive_job \<Rightarrow> string \<Rightarrow> bool" where
  "tabled aj tn \<longleftrightarrow> (\<exists>t \<in> set (tc_tables (aj_config aj)). tt_name t = tn)"

definition tier_read_laws :: "'w tier_view \<Rightarrow> 'w archive_job \<Rightarrow> bool" where
  "tier_read_laws v aj \<longleftrightarrow>
     (\<forall>sql ps w. same_tier v w (snd (ex_query_with (aj_hot aj) sql ps w))) \<and>
     (\<forall>sql ps w. same_tier v w (snd (ex_query_with (aj_state aj) sql ps w))) \<and>
     (\<forall>t p cursor w rows w'. t \<in> set (tc_tables (aj_config aj)) \<longrightarrow> tt_filter t = None \<longrightarrow>
        ex_query_with (aj_hot aj) (read_chunk_sql t p) [json_int cursor, json_int (int (tc_batch_size (aj_config aj)))] w = (Ok rows, w') \<longrightarrow>
        (\<exists>R. vw_hot v w (tt_name t) p = Some R \<and>
           rows = take (tc_batch_size (aj_config aj)) (filter (\<lambda>r. row_id (tt_id_col t) r > cursor) R))) \<and>
     (\<forall>t p w rows w' k. tabled aj t \<longrightarrow> ex_query_with (aj_hot aj) (total_rows_sql t p) [] w = (Ok rows, w') \<longrightarrow>
        count_of ''total_rows'' (TierState ''total_rows query returned no count'') rows = Ok k \<longrightarrow>
        (\<exists>R. vw_hot v w t p = Some R \<and> k = int (length R))) \<and>
     (\<forall>t p n w rows w'. ex_query_with (aj_state aj) (tier_load_sql (ex_dialect (aj_state aj))) [JString t, JString p, json_int (int n)] w = (Ok rows, w') \<longrightarrow>
        (case vw_jobs v w t p n of None \<Rightarrow> rows = [] | Some st \<Rightarrow> rows \<noteq> [] \<and> tier_image (aj_env aj) st (hd rows)))"

definition put_job :: "string \<Rightarrow> string \<Rightarrow> nat \<Rightarrow> archive_job_state \<Rightarrow>
  (string \<Rightarrow> string \<Rightarrow> nat \<Rightarrow> archive_job_state option) \<Rightarrow> string \<Rightarrow> string \<Rightarrow> nat \<Rightarrow> archive_job_state option" where
  "put_job t p n st jobs t' p' n' = (if t' = t \<and> p' = p \<and> n' = n then Some st else jobs t' p' n')"

definition advanced :: "archive_phase \<Rightarrow> string option \<Rightarrow> int \<Rightarrow> archive_job_state \<Rightarrow> archive_job_state" where
  "advanced to checksum u st = st\<lparr>as_phase := to, as_checksum := (case checksum of None \<Rightarrow> as_checksum st | Some c \<Rightarrow> Some c), as_updated_at := u\<rparr>"

text \<open>A failed statement may have been carried out or not.\<close>

definition upsert_write :: "'w tier_view \<Rightarrow> 'w archive_job \<Rightarrow> archive_job_state \<Rightarrow> 'w \<Rightarrow> 'w \<Rightarrow> bool" where
  "upsert_write v aj s w w' \<longleftrightarrow> vw_hot v w' = vw_hot v w \<and> vw_cold v w' = vw_cold v w \<and>
     (vw_jobs v w' = vw_jobs v w \<or>
      (\<exists>u. vw_jobs v w' = put_job (as_table s) (as_partition s) (as_chunk s) (s\<lparr>as_updated_at := u\<rparr>) (vw_jobs v w)))"

definition advance_write ::
  "'w tier_view \<Rightarrow> string \<Rightarrow> string \<Rightarrow> nat \<Rightarrow> archive_phase \<Rightarrow> archive_phase \<Rightarrow> string option \<Rightarrow> 'w \<Rightarrow> 'w \<Rightarrow> bool" where
  "advance_write v t p n from to checksum w w' \<longleftrightarrow> vw_hot v w' = vw_hot v w \<and> vw_cold v w' = vw_cold v w \<and>
     (vw_jobs v w' = vw_jobs v w \<or>
      (\<exists>st u. vw_jobs v w t p n = Some st \<and> as_phase st = from \<and>
         vw_jobs v w' = put_job t p n (advanced to checksum u st) (vw_jobs v w)))"

definition drop_write :: "'w tier_view \<Rightarrow> string \<Rightarrow> string \<Rightarrow> 'w \<Rightarrow> 'w \<Rightarrow> bool" where
  "drop_write v t p w w' \<longleftrightarrow> vw_jobs v w' = vw_jobs v w \<and> vw_cold v w' = vw_cold v w \<and>
     (\<forall>t' p'. (t', p') \<noteq> (t, p) \<longrightarrow> vw_hot v w' t' p' = vw_hot v w t' p') \<and>
     (vw_hot v w' t p = vw_hot v w t p \<or> vw_hot v w' t p = None)"

definition tier_write_laws :: "'w tier_view \<Rightarrow> 'w archive_job \<Rightarrow> bool" where
  "tier_write_laws v aj \<longleftrightarrow>
     (\<forall>s ts w. upsert_write v aj s w (snd (ex_execute_with (aj_state aj) (tier_upsert_sql (ex_dialect (aj_state aj))) (upsert_params s ts) w))) \<and>
     (\<forall>t p n from to cs ts w. advance_write v t p n from to cs w
        (snd (ex_execute_with (aj_state aj) (advance_sql (ex_dialect (aj_state aj))) (advance_params t p n from to cs ts) w))) \<and>
     (\<forall>t p w. tabled aj t \<longrightarrow> validate_ident t = Ok () \<longrightarrow> validate_ident p = Ok () \<longrightarrow> drop_write v t p w (snd (ex_execute (aj_hot aj) (drop_sql t p) w)))"

text \<open>
  A write may leave anything in the object of its chunk, but a checksum it returns is that of the
  rows; a verification that says yes has found an object with the checksum.
\<close>

definition sink_laws :: "'w tier_view \<Rightarrow> 'w cold_sink \<Rightarrow> bool" where
  "sink_laws v sk \<longleftrightarrow>
     (\<forall>t p n rows w r w'. sk_write sk t p n rows w = (r, w') \<longrightarrow>
        vw_hot v w' = vw_hot v w \<and> vw_jobs v w' = vw_jobs v w \<and>
        (\<forall>t' p' n'. (t', p', n') \<noteq> (t, p, n) \<longrightarrow> vw_cold v w' t' p' n' = vw_cold v w t' p' n') \<and>
        (\<forall>c. r = Ok c \<longrightarrow> c = vw_sum v t rows)) \<and>
     (\<forall>t p n c w r w'. sk_verify sk t p n c w = (r, w') \<longrightarrow> same_tier v w w' \<and>
        (r = Ok True \<longrightarrow> (\<exists>x. vw_cold v w t p n = Some x \<and> vw_digest v x = c)))"

definition other_laws :: "'w tier_view \<Rightarrow> 'w archive_job \<Rightarrow> bool" where
  "other_laws v aj \<longleftrightarrow>
     (\<forall>pc d w. aj_pacer aj = Some pc \<longrightarrow> same_tier v w (pc_wait pc d w)) \<and>
     (\<forall>w0 d w. same_tier v w (pc_wait (aj_monotonic aj w0) d w)) \<and>
     (\<forall>l k ttl w. aj_lock aj = Some l \<longrightarrow> same_tier v w (snd (tl_acquire l k ttl w))) \<and>
     (\<forall>l k tok w. aj_lock aj = Some l \<longrightarrow> same_tier v w (snd (tl_release l k tok w)))"

definition tier_laws :: "'w tier_view \<Rightarrow> 'w archive_job \<Rightarrow> bool" where
  "tier_laws v aj \<longleftrightarrow> tier_read_laws v aj \<and> tier_write_laws v aj \<and> sink_laws v (aj_cold aj) \<and> other_laws v aj"

lemma tier_readD:
  assumes "tier_laws v aj"
  shows "same_tier v w (snd (ex_query_with (aj_hot aj) sql ps w))" "same_tier v w (snd (ex_query_with (aj_state aj) sql ps w))"
    "t \<in> set (tc_tables (aj_config aj)) \<Longrightarrow> tt_filter t = None \<Longrightarrow>
       ex_query_with (aj_hot aj) (read_chunk_sql t p) [json_int cursor, json_int (int (tc_batch_size (aj_config aj)))] w = (Inr rows, w') \<Longrightarrow>
       \<exists>R. vw_hot v w (tt_name t) p = Some R \<and>
           rows = take (tc_batch_size (aj_config aj)) (filter (\<lambda>r. row_id (tt_id_col t) r > cursor) R)"
    "tabled aj tn \<Longrightarrow> ex_query_with (aj_hot aj) (total_rows_sql tn p) [] w = (Inr rows, w') \<Longrightarrow>
        count_of ''total_rows'' (TierState ''total_rows query returned no count'') rows = Inr k \<Longrightarrow>
        \<exists>R. vw_hot v w tn p = Some R \<and> k = int (length R)"
    "ex_query_with (aj_state aj) (tier_load_sql (ex_dialect (aj_state aj))) [JString tn, JString p, json_int (int n)] w = (Inr rows, w') \<Longrightarrow>
        (case vw_jobs v w tn p n of None \<Rightarrow> rows = [] | Some st \<Rightarrow> rows \<noteq> [] \<and> tier_image (aj_env aj) st (hd rows))"
  using assms by (simp_all add: tier_laws_def tier_read_laws_def)

lemma tier_writeD:
  assumes "tier_laws v aj"
  shows "upsert_write v aj s w (snd (ex_execute_with (aj_state aj) (tier_upsert_sql (ex_dialect (aj_state aj))) (upsert_params s ts) w))"
    "advance_write v tn p n from to cs w
        (snd (ex_execute_with (aj_state aj) (advance_sql (ex_dialect (aj_state aj))) (advance_params tn p n from to cs ts) w))"
    "tabled aj tn \<Longrightarrow> validate_ident tn = Inr () \<Longrightarrow> validate_ident p = Inr () \<Longrightarrow> drop_write v tn p w (snd (ex_execute (aj_hot aj) (drop_sql tn p) w))"
  using assms by (simp_all add: tier_laws_def tier_write_laws_def)

lemma sinkD:
  assumes "tier_laws v aj"
  shows "sk_write (aj_cold aj) tn p n rows w = (r, w') \<Longrightarrow> vw_hot v w' = vw_hot v w \<and> vw_jobs v w' = vw_jobs v w \<and>
        (\<forall>t' p' n'. (t', p', n') \<noteq> (tn, p, n) \<longrightarrow> vw_cold v w' t' p' n' = vw_cold v w t' p' n') \<and> (\<forall>c. r = Ok c \<longrightarrow> c = vw_sum v tn rows)"
    "sk_verify (aj_cold aj) tn p n c' w = (good, w') \<Longrightarrow> same_tier v w w' \<and>
        (good = Ok True \<longrightarrow> (\<exists>x. vw_cold v w tn p n = Some x \<and> vw_digest v x = c'))"
  using assms unfolding tier_laws_def sink_laws_def by blast+

section \<open>Chunks\<close>

definition chunk_rows :: "nat \<Rightarrow> db_row list \<Rightarrow> nat \<Rightarrow> db_row list" where
  "chunk_rows B A n = take B (drop (n * B) A)"

text \<open>The rows the loop can reach: it starts after the smallest \<^verbatim>\<open>i64\<close>.\<close>

definition reached :: "string \<Rightarrow> db_row list \<Rightarrow> db_row list" where
  "reached col R = filter (\<lambda>r. row_id col r > i64_min) R"

definition good_table :: "string \<Rightarrow> db_row list \<Rightarrow> bool" where
  "good_table col R \<longleftrightarrow> sorted_wrt (\<lambda>a b. row_id col a < row_id col b) R \<and> int (length R) \<le> i64_max \<and>
     (\<forall>r \<in> set R. \<exists>i. Option.bind (row_get r col) as_i64 = Some i \<and> is_i64 i)"

lemma reached_good: "good_table col R \<Longrightarrow> good_table col (reached col R)"
proof -
  assume good: "good_table col R"
  have "int (length (reached col R)) \<le> int (length R)" by (simp add: reached_def)
  then have "int (length (reached col R)) \<le> i64_max" using good unfolding good_table_def by linarith
  then show ?thesis using good by (auto simp: good_table_def reached_def sorted_wrt_filter)
qed

lemma chunk_nonempty: "B > 0 \<Longrightarrow> chunk_rows B A n \<noteq> [] \<longleftrightarrow> n * B < length A"
  by (simp add: chunk_rows_def not_le)

lemma chunk_split: "chunk_rows B A n @ drop (Suc n * B) A = drop (n * B) A"
  by (simp add: chunk_rows_def add.commute flip: drop_drop)

lemma chunk_len: "length (chunk_rows B A n) = min B (length A - n * B)"
  by (simp add: chunk_rows_def)

lemma sorted_filter_last:
  assumes "sorted_wrt (\<lambda>a b. f a < (f b :: int)) (xs @ ys)" "xs \<noteq> []"
  shows "filter (\<lambda>r. f r > f (last xs)) (xs @ ys) = ys"
proof -
  have srt: "sorted_wrt (\<lambda>a b. f a < f b) xs" "\<forall>x \<in> set xs. \<forall>y \<in> set ys. f x < f y"
    using assms(1) by (auto simp: sorted_wrt_append)
  have "f x \<le> f (last xs)" if "x \<in> set xs" for x
    using srt(1) that assms(2) by (induction xs) (auto intro: order_less_imp_le)
  then have "filter (\<lambda>r. f r > f (last xs)) xs = []" by (auto simp: filter_empty_conv not_less)
  moreover have "filter (\<lambda>r. f r > f (last xs)) ys = ys" using srt(2) assms(2) last_in_set by (auto simp: filter_id_conv)
  ultimately show ?thesis by simp
qed

text \<open>The rows behind the last row of a chunk are those of the next chunks.\<close>

lemma read_after_chunk:
  assumes "good_table col R" "n * B < length (reached col R)" "B > 0"
  shows "filter (\<lambda>r. row_id col r > row_id col (last (chunk_rows B (reached col R) n))) R = drop (Suc n * B) (reached col R)"
proof -
  let ?A = "reached col R"
  let ?c = "chunk_rows B ?A n"
  let ?pre = "take (n * B) ?A @ ?c"
  have A: "?A = ?pre @ drop (Suc n * B) ?A" using chunk_split [of B ?A n] by simp
  have ne: "?c \<noteq> []" using chunk_nonempty assms(2,3) by blast
  have srt: "sorted_wrt (\<lambda>a b. row_id col a < row_id col b) ?A" using reached_good [OF assms(1)] by (simp add: good_table_def)
  have "last ?pre = last ?c" using ne by simp
  moreover have "last ?c \<in> set ?A" using last_in_set [OF ne] by (auto simp: chunk_rows_def dest: in_set_takeD in_set_dropD)
  then have "row_id col (last ?c) > i64_min" by (simp add: reached_def)
  then have "filter (\<lambda>r. row_id col r > row_id col (last ?c)) R = filter (\<lambda>r. row_id col r > row_id col (last ?c)) ?A"
    unfolding reached_def filter_filter by (intro filter_cong) auto
  moreover have "filter (\<lambda>r. row_id col r > row_id col (last ?pre)) (?pre @ drop (Suc n * B) ?A) = drop (Suc n * B) ?A"
    by (rule sorted_filter_last) (use srt A ne in simp_all)
  ultimately show ?thesis using A by metis
qed

lemma id_bounds_sorted:
  assumes "good_table col R" "rows \<noteq> []" "sorted_wrt (\<lambda>a b. row_id col a < row_id col b) rows" "set rows \<subseteq> set R"
  shows "id_bounds rows col = Inr (Some (row_id col (hd rows), row_id col (last rows)))"
proof -
  have loop: "id_bounds_loop col xs (Some (lo, hi)) = Inr (Some (lo, if xs = [] then hi else row_id col (last xs)))"
    if "set xs \<subseteq> set R" "sorted_wrt (\<lambda>a b. row_id col a < row_id col b) xs" "\<forall>x \<in> set xs. lo \<le> row_id col x \<and> hi \<le> row_id col x" for xs lo hi
    using that
  proof (induction xs arbitrary: hi)
    case (Cons x xs)
    have "\<exists>i. Option.bind (row_get x col) as_i64 = Some i" using assms(1) Cons.prems(1) by (auto simp: good_table_def)
    then have "Option.bind (row_get x col) as_i64 = Some (row_id col x)" by (auto simp: row_id_def)
    moreover have "\<forall>y \<in> set xs. lo \<le> row_id col y \<and> row_id col x \<le> row_id col y" using Cons.prems(2,3) by auto
    ultimately show ?case using Cons.IH [of "row_id col x"] Cons.prems by (auto simp: min_def max_def)
  qed simp
  obtain x xs where rows: "rows = x # xs" using assms(2) by (cases rows) auto
  have "\<exists>i. Option.bind (row_get x col) as_i64 = Some i" using assms(1,4) rows by (auto simp: good_table_def)
  then have "Option.bind (row_get x col) as_i64 = Some (row_id col x)" by (auto simp: row_id_def)
  moreover have "\<forall>y \<in> set xs. row_id col x \<le> row_id col y" using assms(3) rows by auto
  ultimately show ?thesis using assms(3,4) loop [of xs "row_id col x" "row_id col x"] by (auto simp: id_bounds_def rows)
qed

section \<open>The invariant\<close>

definition cold_ok :: "'w tier_view \<Rightarrow> 'w \<Rightarrow> string \<Rightarrow> string \<Rightarrow> nat \<Rightarrow> db_row list \<Rightarrow> nat \<Rightarrow> bool" where
  "cold_ok v w tn p B A n \<longleftrightarrow> (\<exists>x. vw_cold v w tn p n = Some x \<and> vw_digest v x = vw_sum v tn (chunk_rows B A n))"

text \<open>Every chunk of the partition has an object in the cold store with its checksum.\<close>

definition archived :: "'w tier_view \<Rightarrow> 'w \<Rightarrow> string \<Rightarrow> string \<Rightarrow> nat \<Rightarrow> db_row list \<Rightarrow> bool" where
  "archived v w tn p B A \<longleftrightarrow> (\<forall>n. n * B < length A \<longrightarrow> cold_ok v w tn p B A n)"

definition job_right :: "'w tier_view \<Rightarrow> 'w \<Rightarrow> string \<Rightarrow> string \<Rightarrow> string \<Rightarrow> nat \<Rightarrow> db_row list \<Rightarrow> nat \<Rightarrow> archive_job_state \<Rightarrow> bool" where
  "job_right v w tn p col B A n st \<longleftrightarrow> n * B < length A \<and> as_chunk st = n \<and> job_fits st \<and>
     as_rows st = length (chunk_rows B A n) \<and> as_high_id st = row_id col (last (chunk_rows B A n)) \<and>
     as_checksum st = Some (vw_sum v tn (chunk_rows B A n)) \<and>
     (as_phase st = ArVerified \<or> as_phase st = ArDropped \<longrightarrow> cold_ok v w tn p B A n)"

definition tier_inv :: "'w tier_view \<Rightarrow> nat \<Rightarrow> string \<Rightarrow> string \<Rightarrow> string \<Rightarrow> db_row list \<Rightarrow> 'w \<Rightarrow> bool" where
  "tier_inv v B tn p col R w \<longleftrightarrow>
     (vw_hot v w tn p = Some R \<or> vw_hot v w tn p = None \<and> reached col R = R \<and> archived v w tn p B R) \<and>
     (\<forall>n st. vw_jobs v w tn p n = Some st \<longrightarrow> job_right v w tn p col B (reached col R) n st)"

text \<open>What the local variables of the loop mean.\<close>

definition at_chunk :: "string \<Rightarrow> nat \<Rightarrow> db_row list \<Rightarrow> nat \<Rightarrow> int \<Rightarrow> bool" where
  "at_chunk col B A n cursor \<longleftrightarrow>
     (case n of 0 \<Rightarrow> cursor = i64_min | Suc m \<Rightarrow> m * B < length A \<and> cursor = row_id col (last (chunk_rows B A m)))"

definition walk_inv :: "'w tier_view \<Rightarrow> bool \<Rightarrow> nat \<Rightarrow> string \<Rightarrow> string \<Rightarrow> string \<Rightarrow> db_row list \<Rightarrow> 'w \<Rightarrow> walk \<Rightarrow> bool" where
  "walk_inv v dry B tn p col R w wk \<longleftrightarrow>
     at_chunk col B (reached col R) (wk_chunk wk) (wk_cursor wk) \<and>
     (\<not> dry \<longrightarrow> wk_archived wk = min (wk_chunk wk * B) (length (reached col R)) \<and>
        (wk_all_verified wk \<longrightarrow> (\<forall>m < wk_chunk wk. cold_ok v w tn p B (reached col R) m))) \<and>
     (wk_complete wk \<longrightarrow> length (reached col R) \<le> wk_chunk wk * B)"

text \<open>Steps that leave the partition alone.\<close>

definition untouched :: "'w tier_view \<Rightarrow> string \<Rightarrow> string \<Rightarrow> 'w \<Rightarrow> 'w \<Rightarrow> bool" where
  "untouched v tn p w w' \<longleftrightarrow> vw_hot v w' tn p = vw_hot v w tn p \<and> vw_jobs v w' tn p = vw_jobs v w tn p \<and> vw_cold v w' tn p = vw_cold v w tn p"

interpretation ut: kept_relation "untouched v tn p" for v tn p
  by unfold_locales (simp_all add: untouched_def)

lemma same_untouched: "same_tier v w w' \<Longrightarrow> untouched v tn p w w'"
  by (simp add: same_tier_def untouched_def)

lemma untouched_inv: "untouched v tn p w w' \<Longrightarrow> tier_inv v B tn p col R w \<Longrightarrow> tier_inv v B tn p col R w'"
  by (auto simp: untouched_def tier_inv_def archived_def cold_ok_def job_right_def)

lemma untouched_walk: "untouched v tn p w w' \<Longrightarrow> walk_inv v dry B tn p col R w wk \<Longrightarrow> walk_inv v dry B tn p col R w' wk"
  by (simp add: untouched_def walk_inv_def cold_ok_def)

lemma from_image:
  assumes "tier_image env st row" "job_fits st"
  shows "tier_from_row env row = Inr st"
proof -
  obtain ut where ut: "row_get row ''updated_at'' = Some (JString ut)" "te_parse_rfc env ut = Inr (as_updated_at st)"
    using assms(1) by (auto simp: tier_image_def)
  have ints: "as_i64 (json_int (int (as_chunk st))) = Some (int (as_chunk st))" "as_i64 (json_int (int (as_rows st))) = Some (int (as_rows st))"
    "as_i64 (json_int (as_low_id st)) = Some (as_low_id st)" "as_i64 (json_int (as_high_id st)) = Some (as_high_id st)"
    using assms(2) by (auto intro!: as_i64_json_int simp: job_fits_def is_i64_def i64_min_def)
  have ph: "archive_phase_parse (archive_phase_as_str (as_phase st)) = Inr (as_phase st)"
    by (cases "as_phase st") (simp_all add: archive_phase_parse_def)
  have ck: "checksum_of row = Inr (as_checksum st)" using assms(1) by (simp add: tier_image_def checksum_of_def split: option.split)
  show ?thesis using assms(1) ut
    by (simp add: tier_image_def tier_from_row_def tier_text_def tier_uint_def tier_int_def as_str_def ints ph ck)
qed

section \<open>Every call keeps the invariant\<close>

lemma tier_db_keeps: "keeps Q f \<Longrightarrow> keeps Q (tier_db f)"
  by (simp add: tier_db_def keeps_map_err)

interpretation st: kept_relation "same_tier v" for v
  by unfold_locales (simp_all add: same_tier_def)

lemma query_same:
  assumes "tier_laws v aj"
  shows "keeps (same_tier v) (ex_query_with (aj_hot aj) sql ps)" "keeps (same_tier v) (ex_query_with (aj_state aj) sql ps)"
  using tier_readD(1,2) [OF assms] by (simp_all add: keeps_def)

lemma load_same: "tier_laws v aj \<Longrightarrow> keeps (same_tier v) (tier_load (aj_env aj) (aj_state aj) tn p n)"
  unfolding tier_load_def
  by (intro st.keeps_intros tier_db_keeps query_same) (auto intro!: st.keeps_intros split: list.split)

lemma load_found:
  assumes "tier_laws v aj" "\<forall>st. vw_jobs v w tn p n = Some st \<longrightarrow> job_fits st"
    and "tier_load (aj_env aj) (aj_state aj) tn p n w = (Inr found, w')"
  shows "found = vw_jobs v w tn p n"
proof -
  obtain rows w1 where q: "ex_query_with (aj_state aj) (tier_load_sql (ex_dialect (aj_state aj))) [JString tn, JString p, json_int (int n)] w = (Inr rows, w1)"
    and r: "(case rows of [] \<Rightarrow> act_ok None | row # _ \<Rightarrow> act_lift (try_bind (tier_from_row (aj_env aj) row) (\<lambda>s. Ok (Some s)))) w1 = (Inr found, w')"
    using assms(3) by (auto simp: tier_load_def tier_db_def act_inv supported_dialect_def u64_to_i64_def simp del: split_paired_Ex split: if_splits)
  have r': "(case rows of [] \<Rightarrow> found = None | row # _ \<Rightarrow> \<exists>s. tier_from_row (aj_env aj) row = Inr s \<and> found = Some s)"
    using r by (cases rows) (auto simp: try_bind_Inr_iff)
  show ?thesis
  proof (cases "vw_jobs v w tn p n")
    case None
    then show ?thesis using tier_readD(5) [OF assms(1) q] r' by simp
  next
    case (Some st)
    then have img: "rows \<noteq> []" "tier_image (aj_env aj) st (hd rows)" "job_fits st"
      using tier_readD(5) [OF assms(1) q] assms(2) by simp_all
    note from_image [OF img(2,3)]
    then show ?thesis using r' Some img(1) by (cases rows) simp_all
  qed
qed

definition kept_stores :: "'w tier_view \<Rightarrow> 'w \<Rightarrow> 'w \<Rightarrow> bool" where
  "kept_stores v w w' \<longleftrightarrow> vw_hot v w' = vw_hot v w \<and> vw_cold v w' = vw_cold v w"

lemma advance_inv:
  assumes "advance_write v tn p n from to cs w w'" "tier_inv v B tn p col R w"
    and "cs = None \<or> cs = Some (vw_sum v tn (chunk_rows B (reached col R) n))"
    and "to = ArVerified \<or> to = ArDropped \<longrightarrow> cold_ok v w tn p B (reached col R) n"
  shows "tier_inv v B tn p col R w' \<and> kept_stores v w w'"
proof -
  have kept: "vw_hot v w' = vw_hot v w" "vw_cold v w' = vw_cold v w" using assms(1) by (simp_all add: advance_write_def)
  have "job_right v w' tn p col B (reached col R) k s" if s: "vw_jobs v w' tn p k = Some s" for k s
  proof (cases "vw_jobs v w' = vw_jobs v w")
    case True
    then show ?thesis using assms(2) s kept by (simp add: tier_inv_def job_right_def cold_ok_def)
  next
    case False
    then obtain st u where st: "vw_jobs v w tn p n = Some st" "vw_jobs v w' = put_job tn p n (advanced to cs u st) (vw_jobs v w)"
      using assms(1) by (auto simp: advance_write_def)
    show ?thesis
    proof (cases "k = n")
      case True
      have right: "job_right v w tn p col B (reached col R) n st" using assms(2) st(1) by (simp add: tier_inv_def)
      have "s = advanced to cs u st" using s st(2) True by (simp add: put_job_def)
      then show ?thesis using right assms(3,4) kept True
        by (auto simp: job_right_def advanced_def cold_ok_def job_fits_def)
    next
      case False
      then show ?thesis using assms(2) s st(2) kept by (simp add: put_job_def tier_inv_def job_right_def cold_ok_def)
    qed
  qed
  then show ?thesis using assms(2) kept by (simp add: tier_inv_def archived_def cold_ok_def kept_stores_def)
qed

definition kept_inv :: "'w tier_view \<Rightarrow> nat \<Rightarrow> string \<Rightarrow> string \<Rightarrow> string \<Rightarrow> db_row list \<Rightarrow> 'w \<Rightarrow> 'w \<Rightarrow> bool" where
  "kept_inv v B tn p col R w w' \<longleftrightarrow> tier_inv v B tn p col R w' \<and> kept_stores v w w'"

lemma kept_inv_same: "kept_inv v B tn p col R w w1 \<Longrightarrow> same_tier v w1 w' \<Longrightarrow> kept_inv v B tn p col R w w'"
  using untouched_inv [OF same_untouched, of v w1 w' B tn p col R] by (simp add: kept_inv_def kept_stores_def same_tier_def)

lemma kept_inv_refl: "tier_inv v B tn p col R w \<Longrightarrow> kept_inv v B tn p col R w w"
  by (simp add: kept_inv_def kept_stores_def)

lemma keeps_post: "keeps Q f \<Longrightarrow> act_post f (\<lambda>_ w'. Q w w') w"
  by (simp add: keeps_def act_post_def)

lemma advance_post:
  assumes laws: "tier_laws v aj" and inv: "tier_inv v B tn p col R w"
    and cs: "cs = None \<or> cs = Some (vw_sum v tn (chunk_rows B (reached col R) n))"
    and to: "to = ArVerified \<or> to = ArDropped \<longrightarrow> cold_ok v w tn p B (reached col R) n"
  shows "act_post (tier_advance (aj_env aj) (aj_state aj) tn p n to cs) (\<lambda>_. kept_inv v B tn p col R w) w"
proof -
  let ?Q = "kept_inv v B tn p col R w"
  have load: "act_post (tier_load (aj_env aj) (aj_state aj) tn p n) (\<lambda>_. ?Q) w1" if "?Q w1" for w1
    using keeps_post [OF load_same [OF laws]] kept_inv_same [OF that] by (rule act_post_mono)
  have upd: "act_post (tier_db (ex_execute_with (aj_state aj) (advance_sql (ex_dialect (aj_state aj))) (advance_params tn p n fr to cs ts)))
      (\<lambda>_. ?Q) w" for fr ts
    using advance_inv [OF tier_writeD(2) [OF laws] inv cs to] by (simp add: tier_db_def wp_simps) (simp add: act_post_def kept_inv_def)
  have tail: "act_post (if c > 0 then act_ok () else act_bind (tier_load (aj_env aj) (aj_state aj) tn p n) (\<lambda>found. act_err (advance_error tn p n to found)))
      (\<lambda>_. ?Q) w1" if "?Q w1" for c :: nat and w1
    using that by (cases "c > 0") (simp_all add: act_post_simps, rule act_post_seq [OF load], simp_all add: act_post_simps)
  show ?thesis unfolding tier_advance_def
    apply (rule act_post_liftI) subgoal by (rule kept_inv_refl [OF inv])
    apply (rule act_post_liftI) subgoal by (rule kept_inv_refl [OF inv])
    apply (rule act_post_seq [where P = "\<lambda>r w'. w' = w"]) subgoal by (simp add: act_post_def)
     subgoal using kept_inv_refl [OF inv] by simp
    apply (simp only:)
    apply (rule act_post_liftI) subgoal by (rule kept_inv_refl [OF inv])
    apply (rule act_post_seq [where P = "\<lambda>r. ?Q"]) subgoal using upd by (simp add: supported_dialect_def split: if_splits)
     subgoal by simp
    by (rule tail)
qed

lemma upsert_inv:
  assumes "upsert_write v aj s w w'" "tier_inv v B tn p col R w" "as_table s = tn" "as_partition s = p"
    and "\<And>u. job_right v w tn p col B (reached col R) (as_chunk s) (s\<lparr>as_updated_at := u\<rparr>)"
  shows "kept_inv v B tn p col R w w'"
proof -
  have kept: "vw_hot v w' = vw_hot v w" "vw_cold v w' = vw_cold v w" using assms(1) by (simp_all add: upsert_write_def)
  have "job_right v w tn p col B (reached col R) k st" if st: "vw_jobs v w' tn p k = Some st" for k st
  proof (cases "vw_jobs v w' = vw_jobs v w")
    case True
    then show ?thesis using assms(2) st by (simp add: tier_inv_def)
  next
    case False
    then obtain u where u: "vw_jobs v w' = put_job tn p (as_chunk s) (s\<lparr>as_updated_at := u\<rparr>) (vw_jobs v w)"
      using assms(1,3,4) by (auto simp: upsert_write_def)
    show ?thesis
    proof (cases "k = as_chunk s")
      case True
      then show ?thesis using assms(5) [of u] st u by (simp add: put_job_def)
    next
      case False
      then show ?thesis using assms(2) st u by (simp add: put_job_def tier_inv_def)
    qed
  qed
  then show ?thesis using assms(2) kept
    by (simp add: tier_inv_def archived_def cold_ok_def kept_stores_def kept_inv_def job_right_def)
qed

lemma upsert_post:
  assumes laws: "tier_laws v aj" and inv: "tier_inv v B tn p col R w" and "as_table s = tn" "as_partition s = p"
    and right: "\<And>u. job_right v w tn p col B (reached col R) (as_chunk s) (s\<lparr>as_updated_at := u\<rparr>)"
  shows "act_post (tier_upsert (aj_env aj) (aj_state aj) s) (\<lambda>_. kept_inv v B tn p col R w) w"
proof -
  let ?Q = "kept_inv v B tn p col R w"
  have upd: "act_post (tier_db (ex_execute_with (aj_state aj) (tier_upsert_sql (ex_dialect (aj_state aj))) (upsert_params s ts))) (\<lambda>_. ?Q) w" for ts
    using upsert_inv [OF tier_writeD(1) [OF laws] inv assms(3,4) right] by (simp add: tier_db_def wp_simps) (simp add: act_post_def)
  show ?thesis unfolding tier_upsert_def
    by (intro act_post_liftI kept_inv_refl [OF inv])
      (rule act_post_seq [where P = "\<lambda>r. ?Q"], use upd in \<open>simp_all add: supported_dialect_def wp_simps split: if_splits\<close>)
qed

section \<open>The walk keeps it\<close>

lemma kept_cold: "kept_stores v w w' \<Longrightarrow> cold_ok v w' tn p B A m \<longleftrightarrow> cold_ok v w tn p B A m"
  by (simp add: cold_ok_def kept_stores_def)

lemma kept_walk: "kept_stores v w w' \<Longrightarrow> walk_inv v dry B tn p col R w' wk \<longleftrightarrow> walk_inv v dry B tn p col R w wk"
  by (simp add: walk_inv_def kept_cold)

lemma kept_stores_trans: "kept_stores v w w1 \<Longrightarrow> kept_stores v w1 w2 \<Longrightarrow> kept_stores v w w2"
  by (simp add: kept_stores_def)

text \<open>The loop variables after the check of a chunk, before it is counted.\<close>

definition marked :: "'w tier_view \<Rightarrow> nat \<Rightarrow> string \<Rightarrow> string \<Rightarrow> db_row list \<Rightarrow> 'w \<Rightarrow> walk \<Rightarrow> walk \<Rightarrow> bool" where
  "marked v B tn p A w wk wk' \<longleftrightarrow> wk_chunk wk' = wk_chunk wk \<and> wk_archived wk' = wk_archived wk \<and> wk_complete wk' = wk_complete wk \<and>
     (wk_all_verified wk' \<longrightarrow> wk_all_verified wk \<and> cold_ok v w tn p B A (wk_chunk wk))"

lemma verify_post:
  assumes laws: "tier_laws v aj" and inv: "tier_inv v B tn p col R w"
    and c: "c = vw_sum v tn (chunk_rows B (reached col R) (wk_chunk wk))"
  shows "act_post (verify_mark aj tn p c wk) (\<lambda>r w'. kept_inv v B tn p col R w w' \<and>
    (\<forall>wk'. r = Inr wk' \<longrightarrow> marked v B tn p (reached col R) w' wk wk')) w"
proof -
  let ?P = "\<lambda>r w'. same_tier v w w' \<and> (r = Inr True \<longrightarrow> cold_ok v w' tn p B (reached col R) (wk_chunk wk))"
  have ver: "act_post (sk_verify (aj_cold aj) tn p (wk_chunk wk) c) ?P w"
    using sinkD(2) [OF laws, of tn p "wk_chunk wk" c w] c
    by (cases "sk_verify (aj_cold aj) tn p (wk_chunk wk) c w") (auto simp: act_post_def cold_ok_def same_tier_def)
  show ?thesis unfolding verify_mark_def
  proof (rule act_post_seq [OF ver], goal_cases)
    case (1 e w1)
    then show ?case using kept_inv_same [OF kept_inv_refl [OF inv]] by simp
  next
    case (2 good w1)
    have k: "kept_inv v B tn p col R w w1" using 2 kept_inv_same [OF kept_inv_refl [OF inv]] by simp
    show ?case
    proof (cases good)
      case True
      then have cold: "cold_ok v w1 tn p B (reached col R) (wk_chunk wk)" using 2 by simp
      have "act_post (tier_advance (aj_env aj) (aj_state aj) tn p (wk_chunk wk) ArVerified None) (\<lambda>_. kept_inv v B tn p col R w1) w1"
        by (rule advance_post [OF laws]) (use k cold in \<open>simp_all add: kept_inv_def\<close>)
      then have "act_post (act_bind (tier_advance (aj_env aj) (aj_state aj) tn p (wk_chunk wk) ArVerified None)
          (\<lambda>_ w. (Ok (wk\<lparr>wk_verified_at := Some (te_now (aj_env aj) w)\<rparr>), w)))
        (\<lambda>r w'. kept_inv v B tn p col R w w' \<and> (\<forall>wk'. r = Inr wk' \<longrightarrow> marked v B tn p (reached col R) w' wk wk')) w1"
        by (rule act_post_seq)
          (use k cold in \<open>auto simp: act_post_def kept_inv_def marked_def kept_cold intro: kept_stores_trans\<close>)
      then show ?thesis using True by simp
    next
      case False
      then show ?thesis using k by (simp add: wp_simps marked_def)
    qed
  qed
qed

text \<open>Counting a chunk of the partition.\<close>

lemma walk_pass:
  assumes "walk_inv v False B tn p col R w wk" "marked v B tn p (reached col R) w wk wk'" "good_table col R"
    and "wk_chunk wk * B < length (reached col R)" "rows = length (chunk_rows B (reached col R) (wk_chunk wk))"
    and "high = row_id col (last (chunk_rows B (reached col R) (wk_chunk wk)))"
  shows "walk_inv v False B tn p col R w (pass_chunk rows high wk')"
proof -
  let ?A = "reached col R"
  have len: "int (length ?A) \<le> i64_max" using reached_good [OF assms(3)] by (simp add: good_table_def)
  have arch: "wk_archived wk' = wk_chunk wk * B" using assms(1,2,4) by (simp add: walk_inv_def marked_def)
  have "wk_archived wk' + rows = min ((wk_chunk wk + 1) * B) (length ?A)"
    using arch assms(4,5) unfolding chunk_len by (simp add: min_def) linarith
  moreover then have "tier_sat_add (wk_archived wk') rows = wk_archived wk' + rows"
    using len by (simp add: tier_sat_add_def i64_max_def u64_max_def)
  moreover have "\<forall>m < wk_chunk wk + 1. cold_ok v w tn p B ?A m" if "wk_all_verified wk'"
    using that assms(1,2) by (auto simp: walk_inv_def marked_def less_Suc_eq)
  moreover have "length ?A \<le> wk_chunk wk * B \<Longrightarrow> length ?A \<le> (wk_chunk wk + 1) * B" by simp
  ultimately show ?thesis using assms(1,2,4,6)
    by (simp add: walk_inv_def marked_def pass_chunk_def at_chunk_def)
qed

end
