(* ===== verification/TierWalk.thy ===== *)
theory TierWalk
  imports TierProofs
begin

text \<open>
  The archive loop over one partition keeps the invariant, a run leaves the other partitions alone,
  and so does every sequence of runs.
\<close>

section \<open>The loop\<close>

lemma tier_inv_fits: "tier_inv v B tn p col R w \<Longrightarrow> vw_jobs v w tn p n = Some st \<Longrightarrow> job_right v w tn p col B (reached col R) n st"
  by (simp add: tier_inv_def)

lemma copied_post:
  assumes laws: "tier_laws v aj" and inv: "tier_inv v B tn p col R w" and good: "good_table col R"
    and walk: "walk_inv v (tc_dry_run (aj_config aj)) B tn p col R w wk"
    and st: "vw_jobs v w tn p (wk_chunk wk) = Some st"
  shows "act_post (pass_copied aj tn p st wk) (\<lambda>r w'. tier_inv v B tn p col R w' \<and>
    (\<forall>wk'. r = Inr wk' \<longrightarrow> walk_inv v (tc_dry_run (aj_config aj)) B tn p col R w' wk')) w"
proof -
  have right: "job_right v w tn p col B (reached col R) (wk_chunk wk) st" using tier_inv_fits [OF inv st] .
  show ?thesis
  proof (cases "tc_dry_run (aj_config aj)")
    case True
    then show ?thesis using inv walk right
      by (simp add: pass_copied_def wp_simps walk_inv_def at_chunk_def job_right_def)
  next
    case False
    have sum: "as_checksum st = Some (vw_sum v tn (chunk_rows B (reached col R) (wk_chunk wk)))" using right by (simp add: job_right_def)
    have "act_post (act_bind (verify_mark aj tn p (vw_sum v tn (chunk_rows B (reached col R) (wk_chunk wk))) wk)
        (\<lambda>wk'. act_ok (pass_chunk (as_rows st) (as_high_id st) wk')))
      (\<lambda>r w'. tier_inv v B tn p col R w' \<and> (\<forall>wk'. r = Inr wk' \<longrightarrow> walk_inv v False B tn p col R w' wk')) w"
    proof (rule act_post_seq [OF verify_post [OF laws inv refl]], goal_cases)
      case (1 e w1)
      then show ?case by (simp add: kept_inv_def)
    next
      case (2 wk' w1)
      then have k: "kept_stores v w w1" "tier_inv v B tn p col R w1" "marked v B tn p (reached col R) w1 wk wk'" by (simp_all add: kept_inv_def)
      have "walk_inv v False B tn p col R w1 wk" using walk False kept_walk [OF k(1)] by simp
      from walk_pass [OF this k(3) good] show ?case using k(2) right by (simp add: act_post_simps job_right_def)
    qed
    then show ?thesis using False sum by (simp add: pass_copied_def)
  qed
qed

lemma write_inv:
  assumes laws: "tier_laws v aj" and inv: "tier_inv v B tn p col R w" and hot: "vw_hot v w tn p = Some R"
    and pend: "\<And>st. vw_jobs v w tn p n = Some st \<Longrightarrow> as_phase st = ArPending"
    and walk: "walk_inv v dry B tn p col R w wk" "n = wk_chunk wk"
  shows "act_post (sk_write (aj_cold aj) tn p n rows) (\<lambda>r w'. tier_inv v B tn p col R w' \<and> walk_inv v dry B tn p col R w' wk \<and>
     vw_jobs v w' = vw_jobs v w \<and> (\<forall>c. r = Inr c \<longrightarrow> c = vw_sum v tn rows)) w"
proof -
  obtain r w' where w': "sk_write (aj_cold aj) tn p n rows w = (r, w')" by fastforce
  note k = sinkD(1) [OF laws w']
  have other: "cold_ok v w' tn p B (reached col R) m = cold_ok v w tn p B (reached col R) m" if "m \<noteq> n" for m
    using k that by (simp add: cold_ok_def)
  have "job_right v w' tn p col B (reached col R) m st" if st: "vw_jobs v w tn p m = Some st" for m st
  proof (cases "m = n")
    case True
    then show ?thesis using tier_inv_fits [OF inv st] pend st by (simp add: job_right_def)
  next
    case False
    then show ?thesis using tier_inv_fits [OF inv st] other by (simp add: job_right_def)
  qed
  then have "tier_inv v B tn p col R w'" using hot k by (simp add: tier_inv_def)
  moreover have "walk_inv v dry B tn p col R w' wk" using walk other by (simp add: walk_inv_def)
  ultimately show ?thesis using k w' by (simp add: act_post_def)
qed

lemma pace_same: "tier_laws v aj \<Longrightarrow> (\<And>d w. same_tier v w (pc_wait pc d w)) \<Longrightarrow> same_tier v w (pace aj pc rows w)"
  by (auto simp: pace_def same_tier_def Let_def split: option.split)

text \<open>A job for the rows of a chunk.\<close>

lemma chunk_sub: "set (chunk_rows B A n) \<subseteq> set A"
  unfolding chunk_rows_def by (meson in_set_dropD in_set_takeD subsetI)

lemma new_job_right:
  assumes "good_table col R" "n * B < length (reached col R)" "B > 0" "rows = chunk_rows B (reached col R) n" "int n \<le> i64_max"
  shows "job_right v w tn p col B (reached col R) n
    (new_job tn p n (row_id col (hd rows)) (row_id col (last rows)) (length rows) (vw_sum v tn rows) u)"
proof -
  let ?A = "reached col R"
  have ne: "rows \<noteq> []" unfolding assms(4) using chunk_nonempty [OF assms(3)] assms(2) by blast
  have sub: "set rows \<subseteq> set ?A" unfolding assms(4) by (rule chunk_sub)
  have ids: "is_i64 (row_id col r)" if "r \<in> set rows" for r
  proof -
    have "\<exists>i. Option.bind (row_get r col) as_i64 = Some i \<and> is_i64 i"
      using reached_good [OF assms(1)] sub that unfolding good_table_def by blast
    then show ?thesis by (auto simp: row_id_def)
  qed
  have len: "int (length rows) \<le> i64_max"
  proof -
    have "length rows \<le> length ?A" unfolding assms(4) chunk_len by simp
    then show ?thesis using reached_good [OF assms(1)] by (simp add: good_table_def)
  qed
  then show ?thesis using assms ids ne by (simp add: job_right_def new_job_def job_fits_def)
qed

lemma write_post:
  assumes laws: "tier_laws v aj" and inv: "tier_inv v B tn p col R w" and hot: "vw_hot v w tn p = Some R" and good: "good_table col R"
    and B: "B > 0" and walk: "walk_inv v False B tn p col R w wk" and n: "wk_chunk wk * B < length (reached col R)"
    and pend: "\<And>st. vw_jobs v w tn p (wk_chunk wk) = Some st \<Longrightarrow> as_phase st = ArPending"
    and rows: "rows = chunk_rows B (reached col R) (wk_chunk wk)"
    and pc: "\<And>d w. same_tier v w (pc_wait pc d w)"
  shows "act_post (write_chunk aj pc tn p fresh rows (row_id col (hd rows)) (row_id col (last rows)) wk report)
    (\<lambda>r w'. tier_inv v B tn p col R w' \<and> (\<forall>x. r = Inr x \<longrightarrow> walk_inv v False B tn p col R w' (fst x))) w"
proof -
  let ?n = "wk_chunk wk" and ?c = "vw_sum v tn rows"
  let ?I = "\<lambda>w'. tier_inv v B tn p col R w' \<and> walk_inv v False B tn p col R w' wk"
  have fits: "int ?n \<le> i64_max"
  proof -
    have "?n < length (reached col R)" by (rule le_less_trans [OF _ n]) (use B in simp)
    then show ?thesis using reached_good [OF good] by (simp add: good_table_def)
  qed
  have keep: "?I w2" if "kept_inv v B tn p col R w1 w2" "?I w1" for w1 w2
    using that kept_walk [of v w1 w2 False B tn p col R wk] by (simp add: kept_inv_def)
  have up: "act_post (if fresh then (\<lambda>w. tier_upsert (aj_env aj) (aj_state aj)
      (new_job tn p ?n (row_id col (hd rows)) (row_id col (last rows)) (length rows) ?c (te_now (aj_env aj) w)) w) else act_ok ())
    (\<lambda>_. ?I) w1" if "?I w1" for w1
  proof (cases fresh)
    case True
    have "act_post (tier_upsert (aj_env aj) (aj_state aj)
      (new_job tn p ?n (row_id col (hd rows)) (row_id col (last rows)) (length rows) ?c (te_now (aj_env aj) w1))) (\<lambda>_. kept_inv v B tn p col R w1) w1"
      by (rule upsert_post [OF laws])
        (use that new_job_right [OF good n B rows fits] in \<open>simp_all add: new_job_def\<close>)
    then show ?thesis using True keep [OF _ that] by (simp add: act_post_def)
  next
    case False
    then show ?thesis using that by (simp add: act_post_simps)
  qed
  have adv: "act_post (tier_advance (aj_env aj) (aj_state aj) tn p ?n ArCopied (Some ?c)) (\<lambda>_. ?I) w1" if "?I w1" for w1
    using advance_post [OF laws, of B tn p col R w1 "Some ?c" ?n ArCopied] that keep [OF _ that] rows by (simp add: act_post_def)
  have fin: "act_post (act_bind (verify_mark aj tn p ?c wk) (\<lambda>wk' w.
       let report' = report\<lparr>ar_chunks := ar_chunks report + 1, ar_rows := ar_rows report + length rows\<rparr> in
       (Ok (pass_chunk (length rows) (row_id col (last rows)) wk', report'), pace aj pc (ar_rows report') w)))
     (\<lambda>r w'. tier_inv v B tn p col R w' \<and> (\<forall>x. r = Inr x \<longrightarrow> walk_inv v False B tn p col R w' (fst x))) w1" if I: "?I w1" for w1
  proof (rule act_post_seq [OF verify_post [OF laws conjunct1 [OF I], where wk = wk and c = ?c]], goal_cases)
    case (3 wk' w2)
    then have k: "?I w2" "marked v B tn p (reached col R) w2 wk wk'" using keep [OF _ I] by simp_all
    let ?w3 = "\<lambda>k. pace aj pc k w2"
    have same: "untouched v tn p w2 (?w3 k)" for k using same_untouched [OF pace_same [OF laws pc]] .
    have "walk_inv v False B tn p col R w2 (pass_chunk (length rows) (row_id col (last rows)) wk')"
      by (rule walk_pass [OF _ k(2) good n]) (use k(1) rows in simp_all)
    then show ?case using untouched_inv [OF same] untouched_walk [OF same] k(1) by (simp add: act_post_def Let_def)
  qed (use I rows in \<open>simp_all add: kept_inv_def\<close>)
  let ?up = "\<lambda>c. if fresh then (\<lambda>w. tier_upsert (aj_env aj) (aj_state aj)
      (new_job tn p ?n (row_id col (hd rows)) (row_id col (last rows)) (length rows) c (te_now (aj_env aj) w)) w) else act_ok ()"
  show ?thesis unfolding write_chunk_def
  proof (rule act_post_seq [OF write_inv [OF laws inv hot pend walk refl]], goal_cases)
    case (3 c w1)
    then have "c = ?c" "?I w1" by simp_all
    then show ?case
      by (simp only:) (rule act_post_seq [OF up], assumption, simp, rule act_post_seq [OF adv], assumption, simp, rule fin, assumption)
  qed simp_all
qed

lemma read_post:
  assumes laws: "tier_laws v aj" and inv: "tier_inv v B (tt_name t) p col R w" and good: "good_table col R"
    and t: "tt_filter t = None" "tt_id_col t = col" "B = tc_batch_size (aj_config aj)" "B > 0" "t \<in> set (tc_tables (aj_config aj))"
    and at: "at_chunk col B (reached col R) n cursor"
  shows "act_post (read_chunk aj t p cursor) (\<lambda>r w'. same_tier v w w' \<and>
     (\<forall>rows. r = Inr rows \<longrightarrow> vw_hot v w (tt_name t) p = Some R \<and> rows = chunk_rows B (reached col R) n)) w"
proof -
  have key: "filter (\<lambda>r. row_id col r > cursor) R = drop (n * B) (reached col R)"
  proof (cases n)
    case 0
    then show ?thesis using at by (simp add: at_chunk_def reached_def)
  next
    case (Suc m)
    then show ?thesis using at read_after_chunk [OF good _ t(4), of m] by (simp add: at_chunk_def)
  qed
  have "vw_hot v w (tt_name t) p = Some R \<and> rows = chunk_rows B (reached col R) n"
    if q: "ex_query_with (aj_hot aj) (read_chunk_sql t p) [json_int cursor, json_int (int (tc_batch_size (aj_config aj)))] w = (Inr rows, w')"
    for rows w'
  proof -
    obtain R' where R': "vw_hot v w (tt_name t) p = Some R'" "rows = take B (filter (\<lambda>r. row_id col r > cursor) R')"
      using tier_readD(3) [OF laws t(5,1) q] t(2,3) by auto
    then have "R' = R" using inv by (auto simp: tier_inv_def)
    then show ?thesis using R' key by (simp add: chunk_rows_def)
  qed
  then show ?thesis using tier_readD(1) [OF laws]
    by (simp add: read_chunk_def tier_db_def wp_simps) (simp add: act_post_def map_err_Inr_iff prod_eq_iff)
qed

definition next_inv :: "'w tier_view \<Rightarrow> bool \<Rightarrow> nat \<Rightarrow> string \<Rightarrow> string \<Rightarrow> string \<Rightarrow> db_row list \<Rightarrow> 'w \<Rightarrow> walk_next \<Rightarrow> bool" where
  "next_inv v dry B tn p col R w nx \<longleftrightarrow> (case nx of WalkReturn \<Rightarrow> True
     | WalkBreak wk \<Rightarrow> walk_inv v dry B tn p col R w wk | WalkOn wk rep \<Rightarrow> walk_inv v dry B tn p col R w wk)"

lemma chunk_bounds:
  assumes "good_table col R" "B > 0"
  shows "id_bounds (chunk_rows B (reached col R) n) col =
    Inr (let rows = chunk_rows B (reached col R) n in if rows = [] then None else Some (row_id col (hd rows), row_id col (last rows)))"
proof (cases "chunk_rows B (reached col R) n = []")
  case False
  have "sorted_wrt (\<lambda>a b. row_id col a < row_id col b) (chunk_rows B (reached col R) n)"
    using reached_good [OF assms(1)] by (simp add: good_table_def chunk_rows_def sorted_wrt_take sorted_wrt_drop)
  moreover have "set (chunk_rows B (reached col R) n) \<subseteq> set R"
    using chunk_sub [of B "reached col R" n] by (auto simp: reached_def)
  ultimately show ?thesis using id_bounds_sorted [OF assms(1) False] False by (simp add: Let_def)
qed (simp add: id_bounds_def)

lemma fresh_post:
  assumes laws: "tier_laws v aj" and inv: "tier_inv v B (tt_name t) p col R w" and good: "good_table col R"
    and t: "tt_filter t = None" "tt_id_col t = col" "B = tc_batch_size (aj_config aj)" "B > 0" "t \<in> set (tc_tables (aj_config aj))"
    and walk: "walk_inv v (tc_dry_run (aj_config aj)) B (tt_name t) p col R w wk"
    and pend: "\<And>st. vw_jobs v w (tt_name t) p (wk_chunk wk) = Some st \<Longrightarrow> as_phase st = ArPending"
    and pc: "\<And>d w. same_tier v w (pc_wait pc d w)"
  shows "act_post (walk_fresh aj pc t p fresh wk report) (\<lambda>r w'. tier_inv v B (tt_name t) p col R w' \<and>
     (\<forall>nx. r = Inr nx \<longrightarrow> next_inv v (tc_dry_run (aj_config aj)) B (tt_name t) p col R w' nx)) w"
proof -
  let ?n = "wk_chunk wk" and ?A = "reached col R" and ?dry = "tc_dry_run (aj_config aj)"
  let ?rows = "chunk_rows B ?A ?n"
  have at: "at_chunk col B ?A ?n (wk_cursor wk)" using walk by (simp add: walk_inv_def)
  show ?thesis unfolding walk_fresh_def
  proof (rule act_post_seq [OF read_post [OF laws inv good t at]], goal_cases)
    case (1 e w1)
    then show ?case using untouched_inv [OF same_untouched inv] by simp
  next
    case (2 rows w1)
    then have rows: "rows = ?rows" and hot: "vw_hot v w (tt_name t) p = Some R" and same: "same_tier v w w1" by simp_all
    have inv1: "tier_inv v B (tt_name t) p col R w1" using untouched_inv [OF same_untouched [OF same] inv] .
    have walk1: "walk_inv v ?dry B (tt_name t) p col R w1 wk" using untouched_walk [OF same_untouched [OF same] walk] .
    have hot1: "vw_hot v w1 (tt_name t) p = Some R" and jobs1: "vw_jobs v w1 = vw_jobs v w" using same hot by (simp_all add: same_tier_def)
    show ?case
    proof (cases "?rows = []")
      case True
      then have "length ?A \<le> ?n * B" using chunk_nonempty [OF t(4), of ?A ?n] by simp
      then show ?thesis using True rows t(2) inv1 walk1 by (simp add: id_bounds_def wp_simps next_inv_def walk_inv_def)
    next
      case False
      then have n: "?n * B < length ?A" using chunk_nonempty [OF t(4), of ?A ?n] by simp
      show ?thesis
      proof (cases ?dry)
        case True
        then show ?thesis using False rows t(2) inv1 walk1 n
          by (simp add: chunk_bounds [OF good t(4)] wp_simps next_inv_def walk_inv_def at_chunk_def Let_def)
      next
        case dry: False
        have "act_post (act_bind (write_chunk aj pc (tt_name t) p fresh ?rows (row_id col (hd ?rows)) (row_id col (last ?rows)) wk report)
            (\<lambda>(wk', report'). act_ok (WalkOn wk' report')))
          (\<lambda>r w'. tier_inv v B (tt_name t) p col R w' \<and> (\<forall>nx. r = Inr nx \<longrightarrow> next_inv v False B (tt_name t) p col R w' nx)) w1"
          by (rule act_post_seq [OF write_post [OF laws inv1 hot1 good t(4) _ n _ refl pc]])
            (use walk1 dry pend jobs1 in \<open>auto simp: act_post_simps next_inv_def\<close>)
        then show ?thesis using False dry rows t(2) by (simp add: chunk_bounds [OF good t(4)] Let_def)
      qed
    qed
  qed
qed

lemma verified_walk:
  assumes "walk_inv v dry B tn p col R w wk" "good_table col R" "job_right v w tn p col B (reached col R) (wk_chunk wk) st" "as_phase st = ArVerified"
  shows "walk_inv v dry B tn p col R w (pass_verified st wk)"
proof (cases dry)
  case True
  then show ?thesis using assms by (simp add: walk_inv_def pass_verified_def pass_chunk_def at_chunk_def job_right_def)
next
  case False
  have "marked v B tn p (reached col R) w wk (wk\<lparr>wk_verified_at := u\<rparr>)" for u
    using assms(3,4) by (simp add: marked_def job_right_def)
  from walk_pass [OF _ this assms(2)] show ?thesis
    using assms False by (simp add: pass_verified_def job_right_def)
qed

lemma round_post:
  assumes laws: "tier_laws v aj" and inv: "tier_inv v B (tt_name t) p col R w" and good: "good_table col R"
    and t: "tt_filter t = None" "tt_id_col t = col" "B = tc_batch_size (aj_config aj)" "B > 0" "t \<in> set (tc_tables (aj_config aj))"
    and walk: "walk_inv v (tc_dry_run (aj_config aj)) B (tt_name t) p col R w wk"
    and pc: "\<And>d w. same_tier v w (pc_wait pc d w)"
  shows "act_post (walk_round aj pc t p wk report) (\<lambda>r w'. tier_inv v B (tt_name t) p col R w' \<and>
     (\<forall>nx. r = Inr nx \<longrightarrow> next_inv v (tc_dry_run (aj_config aj)) B (tt_name t) p col R w' nx)) w"
proof (cases "pc_elapsed pc w \<ge> aj_run_timeout aj")
  case True
  then show ?thesis using inv walk by (simp add: walk_round_def act_post_def next_inv_def)
next
  case False
  let ?n = "wk_chunk wk" and ?dry = "tc_dry_run (aj_config aj)"
  let ?Q = "\<lambda>r w'. tier_inv v B (tt_name t) p col R w' \<and> (\<forall>nx. r = Inr nx \<longrightarrow> next_inv v ?dry B (tt_name t) p col R w' nx)"
  have fits: "\<forall>st. vw_jobs v w (tt_name t) p ?n = Some st \<longrightarrow> job_fits st" using tier_inv_fits [OF inv] by (simp add: job_right_def)
  have load: "act_post (tier_load (aj_env aj) (aj_state aj) (tt_name t) p ?n)
      (\<lambda>r w'. same_tier v w w' \<and> (\<forall>found. r = Inr found \<longrightarrow> found = vw_jobs v w (tt_name t) p ?n)) w"
    using keeps_post [OF load_same [OF laws]] load_found [OF laws fits] by (auto simp: act_post_def prod_eq_iff)
  have body: "act_post (case vw_jobs v w1 (tt_name t) p ?n of None \<Rightarrow> walk_fresh aj pc t p True wk report
        | Some st \<Rightarrow> (case as_phase st of
              ArDropped \<Rightarrow> act_ok WalkReturn
            | ArVerified \<Rightarrow> act_ok (WalkOn (pass_verified st wk) report)
            | ArCopied \<Rightarrow> act_bind (pass_copied aj (tt_name t) p st wk) (\<lambda>wk'. act_ok (WalkOn wk' report))
            | ArPending \<Rightarrow> walk_fresh aj pc t p False wk report)) ?Q w1"
    if inv1: "tier_inv v B (tt_name t) p col R w1" and walk1: "walk_inv v ?dry B (tt_name t) p col R w1 wk" for w1
  proof (cases "vw_jobs v w1 (tt_name t) p ?n")
    case None
    then show ?thesis using fresh_post [OF laws inv1 good t walk1 _ pc] by simp
  next
    case (Some st)
    note right = tier_inv_fits [OF inv1 Some]
    have copied: "act_post (act_bind (pass_copied aj (tt_name t) p st wk) (\<lambda>wk'. act_ok (WalkOn wk' report))) ?Q w1"
      by (rule act_post_seq [OF copied_post [OF laws inv1 good walk1 Some]]) (simp_all add: act_post_simps next_inv_def)
    show ?thesis
    proof (cases "as_phase st")
      case ArPending
      then show ?thesis using Some fresh_post [OF laws inv1 good t walk1 _ pc] by simp
    next
      case ArVerified
      then show ?thesis using Some inv1 verified_walk [OF walk1 good right] by (simp add: act_post_simps next_inv_def)
    qed (use Some inv1 copied in \<open>simp_all add: act_post_simps next_inv_def\<close>)
  qed
  have "act_post (act_bind (tier_load (aj_env aj) (aj_state aj) (tt_name t) p ?n) (\<lambda>state.
        case state of None \<Rightarrow> walk_fresh aj pc t p True wk report
        | Some st \<Rightarrow> (case as_phase st of
              ArDropped \<Rightarrow> act_ok WalkReturn
            | ArVerified \<Rightarrow> act_ok (WalkOn (pass_verified st wk) report)
            | ArCopied \<Rightarrow> act_bind (pass_copied aj (tt_name t) p st wk) (\<lambda>wk'. act_ok (WalkOn wk' report))
            | ArPending \<Rightarrow> walk_fresh aj pc t p False wk report))) ?Q w"
  proof (rule act_post_seq [OF load], goal_cases)
    case (1 e w1)
    then show ?case using untouched_inv [OF same_untouched inv] by simp
  next
    case (2 found w1)
    then have "found = vw_jobs v w1 (tt_name t) p ?n" by (simp add: same_tier_def)
    then show ?case using body [of w1] 2 untouched_inv [OF same_untouched inv] untouched_walk [OF same_untouched walk] by simp
  qed
  then show ?thesis using False by (simp add: walk_round_def act_post_def)
qed

lemma loop_post:
  assumes laws: "tier_laws v aj" and good: "good_table col R"
    and t: "tt_filter t = None" "tt_id_col t = col" "B = tc_batch_size (aj_config aj)" "B > 0" "t \<in> set (tc_tables (aj_config aj))"
    and pc: "\<And>d w. same_tier v w (pc_wait pc d w)"
  shows "tier_inv v B (tt_name t) p col R w \<Longrightarrow> walk_inv v (tc_dry_run (aj_config aj)) B (tt_name t) p col R w wk \<Longrightarrow>
    act_post (walk_loop aj pc t p n wk report) (\<lambda>r w'. tier_inv v B (tt_name t) p col R w' \<and>
     (\<forall>wk' rep. r = Inr (Some wk', rep) \<longrightarrow> walk_inv v (tc_dry_run (aj_config aj)) B (tt_name t) p col R w' wk')) w"
proof (induction n arbitrary: w wk report)
  case 0
  then show ?case by (simp add: act_post_simps)
next
  case (Suc n)
  show ?case unfolding walk_loop.simps
  proof (rule act_post_seq [OF round_post [OF laws Suc.prems(1) good t Suc.prems(2) pc]], goal_cases)
    case (2 nx w1)
    then show ?case using Suc.IH by (cases nx) (simp_all add: act_post_simps next_inv_def)
  qed simp
qed

section \<open>The drop\<close>

lemma walk_start_inv: "walk_inv v dry B tn p col R w walk_start"
  by (simp add: walk_inv_def walk_start_def at_chunk_def)

lemma mark_dropped_inv:
  assumes laws: "tier_laws v aj"
  shows "tier_inv v B tn p col R w \<Longrightarrow> \<forall>n \<in> set ns. cold_ok v w tn p B (reached col R) n \<Longrightarrow>
    act_post (mark_dropped aj tn p ns) (\<lambda>_. tier_inv v B tn p col R) w"
proof (induction ns arbitrary: w)
  case Nil
  then show ?case by (simp add: act_post_simps)
next
  case (Cons n ns)
  have adv: "act_post (tier_advance (aj_env aj) (aj_state aj) tn p n ArDropped None) (\<lambda>_. kept_inv v B tn p col R w) w"
    by (rule advance_post [OF laws Cons.prems(1)]) (use Cons.prems(2) in simp_all)
  show ?case unfolding mark_dropped.simps
  proof (rule act_post_seq [OF adv], goal_cases)
    case (2 x w1)
    then have "kept_stores v w w1" by (simp add: kept_inv_def)
    then have "\<forall>n \<in> set ns. cold_ok v w1 tn p B (reached col R) n" using Cons.prems(2) by (simp add: kept_cold)
    then show ?case using Cons.IH 2 by (simp add: kept_inv_def)
  qed (simp add: kept_inv_def)
qed

lemma drop_inv:
  assumes "drop_write v tn p w w'" "tier_inv v B tn p col R w" "reached col R = R" "archived v w tn p B R"
  shows "tier_inv v B tn p col R w' \<and> vw_cold v w' = vw_cold v w"
  using assms by (auto simp: drop_write_def tier_inv_def archived_def cold_ok_def job_right_def)

lemma drop_post:
  assumes laws: "tier_laws v aj" and inv: "tier_inv v B tn p col R w" and B: "B > 0" and tab: "tabled aj tn"
    and walk: "walk_inv v False B tn p col R w wk" "wk_complete wk" "wk_all_verified wk"
  shows "act_post (drop_archived aj tn p wk report) (\<lambda>_. tier_inv v B tn p col R) w"
proof -
  let ?A = "reached col R"
  have all: "length ?A \<le> wk_chunk wk * B" "wk_archived wk = length ?A" "\<forall>m < wk_chunk wk. cold_ok v w tn p B ?A m"
    using walk by (simp_all add: walk_inv_def)
  have count: "act_post (row_count_matches aj tn p (wk_archived wk)) (\<lambda>r w'. same_tier v w w' \<and> (r = Inr True \<longrightarrow> ?A = R)) w"
  proof -
    have "?A = R" if "row_count_matches aj tn p (wk_archived wk) w = (Inr True, w')" for w'
    proof -
      obtain rows w1 k where q: "ex_query_with (aj_hot aj) (total_rows_sql tn p) [] w = (Inr rows, w1)"
        "count_of ''total_rows'' (TierState ''total_rows query returned no count'') rows = Inr k" "k \<ge> 0" "nat k = length ?A"
        using \<open>row_count_matches aj tn p (wk_archived wk) w = (Inr True, w')\<close> all(2)
        by (auto simp: row_count_matches_def tier_db_def act_inv)
      obtain R' where R': "vw_hot v w tn p = Some R'" "k = int (length R')" using tier_readD(4) [OF laws tab q(1,2)] by blast
      then have "R' = R" using inv by (auto simp: tier_inv_def)
      then have "length (filter (\<lambda>r. row_id col r > i64_min) R) = length R" using q(4) R' by (simp add: reached_def)
      then show ?thesis unfolding reached_def by (metis filter_id_conv length_filter_less nat_less_le)
    qed
    moreover have "keeps (same_tier v) (row_count_matches aj tn p (wk_archived wk))"
      unfolding row_count_matches_def by (intro st.keeps_intros tier_db_keeps query_same [OF laws])
    ultimately show ?thesis by (auto simp: act_post_def keeps_def prod_eq_iff)
  qed
  have arch: "archived v w' tn p B R" if "?A = R" "same_tier v w w'" for w'
  proof (unfold archived_def, intro allI impI)
    fix n
    assume "n * B < length R"
    moreover have "length R \<le> wk_chunk wk * B" using all(1) that(1) by simp
    ultimately have "n * B < wk_chunk wk * B" by (rule less_le_trans)
    then have "n < wk_chunk wk" by simp
    then show "cold_ok v w' tn p B R n" using all(3) that by (simp add: cold_ok_def same_tier_def)
  qed
  have dropped: "act_post (archive_drop aj tn p) (\<lambda>_ w2. tier_inv v B tn p col R w2 \<and> vw_cold v w2 = vw_cold v w1) w1"
    if "tier_inv v B tn p col R w1" "?A = R" "archived v w1 tn p B R" for w1
  proof -
    let ?Q = "\<lambda>w2. tier_inv v B tn p col R w2 \<and> vw_cold v w2 = vw_cold v w1"
    have "act_post (tier_db (ex_execute (aj_hot aj) (drop_sql tn p))) (\<lambda>_. ?Q) w1" if "validate_ident tn = Inr ()" "validate_ident p = Inr ()"
      using drop_inv [OF tier_writeD(3) [OF laws tab that]] \<open>tier_inv v B tn p col R w1\<close> \<open>?A = R\<close> \<open>archived v w1 tn p B R\<close>
      by (simp add: tier_db_def wp_simps) (simp add: act_post_def)
    then show ?thesis unfolding archive_drop_def
      by (intro act_post_liftI) (use that(1) in \<open>auto simp: act_post_simps intro!: act_post_seq\<close>)
  qed
  show ?thesis unfolding drop_archived_def
  proof (rule act_post_seq [OF count], goal_cases)
    case (1 e w1)
    then show ?case using untouched_inv [OF same_untouched inv] by simp
  next
    case (2 matches w1)
    have inv1: "tier_inv v B tn p col R w1" using 2 untouched_inv [OF same_untouched inv] by simp
    show ?case
    proof (cases matches)
      case True
      then have R: "?A = R" and same: "same_tier v w w1" using 2 by simp_all
      show ?thesis using True
      proof (simp, intro act_post_seq [OF dropped [OF inv1 R arch [OF R same]]], goal_cases)
        case (2 x w2)
        then have "\<forall>n \<in> set [0..<wk_chunk wk]. cold_ok v w2 tn p B ?A n" using all(3) same by (simp add: cold_ok_def same_tier_def)
        then show ?case
          by (intro act_post_seq [OF mark_dropped_inv [OF laws]]) (use 2 in \<open>simp_all add: act_post_simps\<close>)
      qed simp
    qed (use inv1 in \<open>simp add: act_post_simps\<close>)
  qed
qed

lemma partition_post:
  assumes laws: "tier_laws v aj" and inv: "tier_inv v B (tt_name t) p col R w" and good: "good_table col R"
    and t: "tt_filter t = None" "tt_id_col t = col" "B = tc_batch_size (aj_config aj)" "B > 0" "t \<in> set (tc_tables (aj_config aj))"
    and pc: "\<And>d w. same_tier v w (pc_wait pc d w)"
  shows "act_post (archive_partition aj pc t p report) (\<lambda>_. tier_inv v B (tt_name t) p col R) w"
proof -
  let ?dry = "tc_dry_run (aj_config aj)"
  have fin: "act_post (finish_walk aj t p wk rep) (\<lambda>_. tier_inv v B (tt_name t) p col R) w1"
    if "tier_inv v B (tt_name t) p col R w1" "walk_inv v ?dry B (tt_name t) p col R w1 wk" for wk rep w1
  proof (cases "wk_complete wk \<and> wk_all_verified wk \<and> wk_copied_any wk \<and> tt_filter t = None \<and> \<not> ?dry")
    case True
    have ret: "act_post (retention_passed aj (wk_verified_at wk)) (\<lambda>_ w2. w2 = w1) w1"
      by (simp add: retention_passed_def act_post_def split: option.split)
    have "act_post (act_bind (retention_passed aj (wk_verified_at wk)) (\<lambda>passed.
        if passed then drop_archived aj (tt_name t) p wk rep else act_ok rep)) (\<lambda>_. tier_inv v B (tt_name t) p col R) w1"
      by (rule act_post_seq [OF ret]) (use that True drop_post [OF laws that(1) t(4)] t(5) in \<open>auto simp: act_post_simps tabled_def\<close>)
    then show ?thesis using True by (simp add: finish_walk_def)
  next
    case False
    then show ?thesis unfolding finish_walk_def if_not_P [OF False] using that by (simp add: act_post_simps)
  qed
  show ?thesis unfolding archive_partition_def
  proof (rule act_post_seq [OF loop_post [OF laws good t pc inv walk_start_inv]], goal_cases)
    case (2 x w1)
    then show ?case using fin by (cases x; cases "fst x") (auto simp: act_post_simps)
  qed simp
qed

section \<open>Runs\<close>

text \<open>What a run does to one partition, and to the others.\<close>

definition ours :: "'w tier_view \<Rightarrow> nat \<Rightarrow> string \<Rightarrow> string \<Rightarrow> string \<Rightarrow> db_row list \<Rightarrow> 'w \<Rightarrow> 'w \<Rightarrow> bool" where
  "ours v B tn p col R w w' \<longleftrightarrow> (tier_inv v B tn p col R w \<longrightarrow> tier_inv v B tn p col R w')"

interpretation ou: kept_relation "ours v B tn p col R" for v B tn p col R
  by unfold_locales (simp_all add: ours_def)

lemma untouched_ours: "untouched v tn p w w' \<Longrightarrow> ours v B tn p col R w w'"
  using untouched_inv by (auto simp: ours_def)

lemma same_ours: "keeps (same_tier v) f \<Longrightarrow> keeps (ours v B tn p col R) f"
  by (erule keeps_weaken) (rule untouched_ours [OF same_untouched])

lemma same_ut: "keeps (same_tier v) f \<Longrightarrow> keeps (untouched v tn p) f"
  by (erule keeps_weaken) (rule same_untouched)

lemma sink_same: "tier_laws v aj \<Longrightarrow> keeps (same_tier v) (sk_verify (aj_cold aj) tn p n c)"
  unfolding keeps_def using sinkD(2) by (metis prod.collapse)

lemma advance_other:
  assumes "tier_laws v aj" "(t', p') \<noteq> (tn, p)"
  shows "keeps (untouched v tn p) (tier_advance (aj_env aj) (aj_state aj) t' p' n to cs)"
proof -
  have upd: "keeps (untouched v tn p) (ex_execute_with (aj_state aj) (advance_sql (ex_dialect (aj_state aj))) (advance_params t' p' n fr to cs ts))" for fr ts
  proof (unfold keeps_def, intro allI)
    fix w
    show "untouched v tn p w (snd (ex_execute_with (aj_state aj) (advance_sql (ex_dialect (aj_state aj))) (advance_params t' p' n fr to cs ts) w))"
      using tier_writeD(2) [OF assms(1), of t' p' n fr to cs w ts] assms(2) by (auto simp: advance_write_def untouched_def put_job_def fun_eq_iff)
  qed
  show ?thesis unfolding tier_advance_def
    by (intro ut.keeps_intros tier_db_keeps ut.keeps_pure same_ut [OF load_same [OF assms(1)]])
      (use upd in \<open>auto simp: supported_dialect_def split: if_splits\<close>)
qed

end
