(* ===== verification/TierRuns.thy ===== *)
theory TierRuns
  imports TierWalk
begin

text \<open>
  The work on one partition leaves the others alone; so a run, and every sequence of runs, keeps the
  invariant of each partition.
\<close>

section \<open>Other partitions\<close>

lemma upsert_other:
  assumes "tier_laws v aj" "(as_table s, as_partition s) \<noteq> (tn, p)"
  shows "keeps (untouched v tn p) (tier_upsert (aj_env aj) (aj_state aj) s)"
proof -
  have upd: "keeps (untouched v tn p) (ex_execute_with (aj_state aj) (tier_upsert_sql (ex_dialect (aj_state aj))) (upsert_params s ts))" for ts
  proof (unfold keeps_def, intro allI)
    fix w
    show "untouched v tn p w (snd (ex_execute_with (aj_state aj) (tier_upsert_sql (ex_dialect (aj_state aj))) (upsert_params s ts) w))"
      using tier_writeD(1) [OF assms(1), of s w ts] assms(2) by (auto simp: upsert_write_def untouched_def put_job_def fun_eq_iff)
  qed
  show ?thesis unfolding tier_upsert_def
    by (intro ut.keeps_intros tier_db_keeps) (use upd in \<open>auto simp: supported_dialect_def split: if_splits\<close>)
qed

lemma write_other: "tier_laws v aj \<Longrightarrow> (t', p') \<noteq> (tn, p) \<Longrightarrow> keeps (untouched v tn p) (sk_write (aj_cold aj) t' p' n rows)"
  unfolding keeps_def
proof (intro allI)
  fix w
  assume "tier_laws v aj" "(t', p') \<noteq> (tn, p)"
  then show "untouched v tn p w (snd (sk_write (aj_cold aj) t' p' n rows w))"
    using sinkD(1) [of v aj t' p' n rows w "fst (sk_write (aj_cold aj) t' p' n rows w)" "snd (sk_write (aj_cold aj) t' p' n rows w)"]
    by (auto simp: untouched_def fun_eq_iff)
qed

lemma drop_other:
  assumes "tier_laws v aj" "(t', p') \<noteq> (tn, p)" "tabled aj t'"
  shows "keeps (untouched v tn p) (archive_drop aj t' p')"
proof -
  have "keeps (untouched v tn p) (ex_execute (aj_hot aj) (drop_sql t' p'))" if "validate_ident t' = Inr ()" "validate_ident p' = Inr ()"
  proof (unfold keeps_def, intro allI)
    fix w
    show "untouched v tn p w (snd (ex_execute (aj_hot aj) (drop_sql t' p') w))"
      using tier_writeD(3) [OF assms(1,3) that, of w] assms(2) by (auto simp: drop_write_def untouched_def)
  qed
  then show ?thesis unfolding archive_drop_def by (intro ut.keeps_intros tier_db_keeps) simp_all
qed

lemma keeps_pace:
  assumes "tier_laws v aj" "\<And>d w. same_tier v w (pc_wait pc d w)"
  shows "keeps (untouched v tn p) (\<lambda>w. (r w, pace aj pc k w))"
  using same_untouched [OF pace_same [OF assms]] by (simp add: keeps_def)

lemma verify_other:
  assumes "tier_laws v aj" "(t', p') \<noteq> (tn, p)"
  shows "keeps (untouched v tn p) (verify_mark aj t' p' c wk)"
  unfolding verify_mark_def
  by (intro ut.keeps_intros ut.keeps_pure same_ut [OF sink_same] advance_other assms)

lemma fresh_other:
  assumes "tier_laws v aj" "(tt_name t, p') \<noteq> (tn, p)" "\<And>d w. same_tier v w (pc_wait pc d w)"
  shows "keeps (untouched v tn p) (walk_fresh aj pc t p' fresh wk report)"
proof -
  have up: "keeps (untouched v tn p) (\<lambda>w. tier_upsert (aj_env aj) (aj_state aj)
      (new_job (tt_name t) p' n low high k c (te_now (aj_env aj) w)) w)" for n low high k c
  proof (unfold keeps_def, intro allI)
    fix w
    show "untouched v tn p w (snd (tier_upsert (aj_env aj) (aj_state aj) (new_job (tt_name t) p' n low high k c (te_now (aj_env aj) w)) w))"
      using upsert_other [OF assms(1), of "new_job (tt_name t) p' n low high k c (te_now (aj_env aj) w)" tn p] assms(2)
      by (simp add: new_job_def keeps_def)
  qed
  have wr: "keeps (untouched v tn p) (write_chunk aj pc (tt_name t) p' fresh rows low high wk report)" for rows low high
    unfolding write_chunk_def Let_def
    by (intro ut.keeps_intros up write_other advance_other verify_other keeps_pace assms)
  show ?thesis unfolding walk_fresh_def read_chunk_def
    by (intro ut.keeps_intros tier_db_keeps same_ut [OF query_same(1)] assms)
      (auto split: option.split intro!: ut.keeps_intros wr)
qed

lemma round_other:
  assumes "tier_laws v aj" "(tt_name t, p') \<noteq> (tn, p)" "\<And>d w. same_tier v w (pc_wait pc d w)"
  shows "keeps (untouched v tn p) (walk_round aj pc t p' wk report)"
proof -
  have "keeps (untouched v tn p) (act_bind (tier_load (aj_env aj) (aj_state aj) (tt_name t) p' (wk_chunk wk)) (\<lambda>state.
        case state of None \<Rightarrow> walk_fresh aj pc t p' True wk report
        | Some st \<Rightarrow> (case as_phase st of
              ArDropped \<Rightarrow> act_ok WalkReturn
            | ArVerified \<Rightarrow> act_ok (WalkOn (pass_verified st wk) report)
            | ArCopied \<Rightarrow> act_bind (pass_copied aj (tt_name t) p' st wk) (\<lambda>wk'. act_ok (WalkOn wk' report))
            | ArPending \<Rightarrow> walk_fresh aj pc t p' False wk report)))"
    by (rule ut.keeps_bind [OF same_ut [OF load_same [OF assms(1)]]])
      (auto split: option.split archive_phase.split simp: pass_copied_def
        intro!: ut.keeps_intros fresh_other verify_other assms(1,3) assms(2))
  then show ?thesis by (auto simp: keeps_def walk_round_def ut.kept_refl)
qed

lemma loop_other:
  assumes "tier_laws v aj" "(tt_name t, p') \<noteq> (tn, p)" "\<And>d w. same_tier v w (pc_wait pc d w)"
  shows "keeps (untouched v tn p) (walk_loop aj pc t p' n wk report)"
proof (induction n arbitrary: wk report)
  case (Suc n)
  show ?case unfolding walk_loop.simps
    by (rule ut.keeps_bind [OF round_other [OF assms]]) (auto split: walk_next.split intro!: ut.keeps_intros Suc)
qed (simp add: ut.keeps_err)

lemma mark_other:
  assumes "tier_laws v aj" "(t', p') \<noteq> (tn, p)"
  shows "keeps (untouched v tn p) (mark_dropped aj t' p' ns)"
  by (induction ns) (auto intro!: ut.keeps_intros advance_other assms(1) assms(2))

lemma partition_other:
  assumes "tier_laws v aj" "(tt_name t, p') \<noteq> (tn, p)" "\<And>d w. same_tier v w (pc_wait pc d w)" "t \<in> set (tc_tables (aj_config aj))"
  shows "keeps (untouched v tn p) (archive_partition aj pc t p' report)"
proof -
  have cnt: "keeps (untouched v tn p) (row_count_matches aj (tt_name t) p' k)" for k
    unfolding row_count_matches_def by (intro ut.keeps_intros tier_db_keeps same_ut [OF query_same(1)] assms)
  have tab: "tabled aj (tt_name t)" using assms(4) by (auto simp: tabled_def)
  have drp: "keeps (untouched v tn p) (drop_archived aj (tt_name t) p' wk rep)" for wk rep
    unfolding drop_archived_def by (intro ut.keeps_intros cnt drop_other mark_other tab assms(1,2))
  have ret: "keeps (untouched v tn p) (retention_passed aj (wk_verified_at wk))" for wk
    by (simp add: keeps_def retention_passed_def ut.kept_refl split: option.split)
  have fin: "keeps (untouched v tn p) (finish_walk aj t p' wk rep)" for wk rep
    unfolding finish_walk_def by (intro ut.keeps_intros ret drp)
  show ?thesis unfolding archive_partition_def
    by (rule ut.keeps_bind [OF loop_other [OF assms(1-3)]]) (auto split: option.split intro!: ut.keeps_intros fin)
qed

section \<open>Runs\<close>

text \<open>The configuration names the table with its id column and without a filter.\<close>

definition configured :: "string \<Rightarrow> string \<Rightarrow> tiering_config \<Rightarrow> bool" where
  "configured tn col c \<longleftrightarrow> list_all (\<lambda>t. tt_name t = tn \<longrightarrow> tt_filter t = None \<and> tt_id_col t = col) (tc_tables c)"

lemma partition_keeps:
  assumes "tier_laws v aj" "good_table col R" "B = tc_batch_size (aj_config aj)" "B > 0"
    and "tt_name t = tn \<longrightarrow> tt_filter t = None \<and> tt_id_col t = col" and "\<And>d w. same_tier v w (pc_wait pc d w)" and "t \<in> set (tc_tables (aj_config aj))"
  shows "keeps (ours v B tn p col R) (archive_partition aj pc t q report)"
proof (cases "tt_name t = tn \<and> q = p")
  case True
  then show ?thesis using partition_post [OF assms(1) _ assms(2) _ _ assms(3,4,7,6), of p _ report] assms(5)
    by (simp add: keeps_def ours_def act_post_def)
next
  case False
  then show ?thesis by (intro keeps_weaken [OF partition_other [OF assms(1) _ assms(6,7)] untouched_ours]) auto
qed

lemma tables_keep:
  assumes "tier_laws v aj" "good_table col R" "B = tc_batch_size (aj_config aj)" "B > 0" "\<And>d w. same_tier v w (pc_wait pc d w)"
  shows "list_all (\<lambda>t. tt_name t = tn \<longrightarrow> tt_filter t = None \<and> tt_id_col t = col) ts \<Longrightarrow> set ts \<subseteq> set (tc_tables (aj_config aj)) \<Longrightarrow>
    keeps (ours v B tn p col R) (archive_tables aj pc ts report)"
proof (induction ts arbitrary: report)
  case (Cons t ts)
  have part: "keeps (ours v B tn p col R) (archive_partition aj pc t q rep)" for q rep
    by (rule partition_keeps [OF assms(1-4) _ assms(5)]) (use Cons.prems in auto)
  have hot: "keeps (ours v B tn p col R) (hot_rows aj t q)" for q
    unfolding hot_rows_def by (intro ou.keeps_intros ou.keeps_pure tier_db_keeps same_ours [OF query_same(1)] assms)
  have parts: "keeps (ours v B tn p col R) (archive_partitions aj pc t ps rep)" for ps rep
    by (induction ps arbitrary: rep) (auto intro!: ou.keeps_intros hot part)
  have list: "keeps (ours v B tn p col R) (tier_partitions aj (tt_name t))"
    unfolding tier_partitions_def by (intro ou.keeps_intros tier_db_keeps same_ours [OF query_same(1)] assms)
  show ?case unfolding archive_tables.simps
    by (intro ou.keeps_intros list parts Cons.IH) (use Cons.prems in auto)
qed (simp add: ou.keeps_ok)

lemma other_lawsD:
  assumes "tier_laws v aj"
  shows "aj_pacer aj = Some pc \<Longrightarrow> same_tier v w (pc_wait pc d w)" "same_tier v w (pc_wait (aj_monotonic aj w0) d w)"
    "aj_lock aj = Some l \<Longrightarrow> same_tier v w (snd (tl_acquire l k ttl w))" "aj_lock aj = Some l \<Longrightarrow> same_tier v w (snd (tl_release l k tok w))"
  using assms by (simp_all add: tier_laws_def other_laws_def)

lemma run_keeps:
  assumes laws: "tier_laws v aj" and good: "good_table col R" and B: "B = tc_batch_size (aj_config aj)" and conf: "configured tn col (aj_config aj)"
  shows "keeps (ours v B tn p col R) (tier_run_once aj)"
proof -
  have locked: "keeps (ours v B tn p col R) (run_locked aj token)" if "B > 0" for token
  proof (unfold keeps_def, intro allI)
    fix w
    let ?pc = "case aj_pacer aj of Some p \<Rightarrow> p | None \<Rightarrow> aj_monotonic aj w"
    have "keeps (ours v B tn p col R) (archive_tables aj ?pc (tc_tables (aj_config aj)) (empty_report (tc_dry_run (aj_config aj))))"
      by (rule tables_keep [OF laws good B that _ conf [unfolded configured_def] order_refl])
        (use other_lawsD(1,2) [OF laws] in \<open>simp split: option.split\<close>)
    then have tabs: "ours v B tn p col R w (snd (archive_tables aj ?pc (tc_tables (aj_config aj)) (empty_report (tc_dry_run (aj_config aj))) w))"
      by (simp add: keeps_def)
    have rel: "ours v B tn p col R w1 (case (aj_lock aj, token) of (Some l, Some tok) \<Rightarrow> snd (tl_release l LOCK_KEY tok w1) | _ \<Rightarrow> w1)" for w1
      using untouched_ours [OF same_untouched [OF other_lawsD(4) [OF laws]]] by (auto simp: ou.kept_refl split: option.split)
    show "ours v B tn p col R w (snd (run_locked aj token w))"
      using ou.kept_trans [OF tabs rel] by (simp add: run_locked_def Let_def case_prod_beta)
  qed
  have acq: "keeps (ours v B tn p col R) (tl_acquire l LOCK_KEY LOCK_TTL)" if "aj_lock aj = Some l" for l
    using untouched_ours [OF same_untouched [OF other_lawsD(3) [OF laws that]]] by (simp add: keeps_def)
  show ?thesis
  proof (cases "B = 0")
    case True
    then show ?thesis unfolding tier_run_once_def using B by (intro ou.keeps_intros) simp_all
  next
    case False
    have body: "keeps (ours v B tn p col R) (\<lambda>w. if \<not> window_allows win (te_now (aj_env aj) w) then (Ok skipped, w)
       else (case aj_lock aj of None \<Rightarrow> run_locked aj None w
         | Some l \<Rightarrow> act_bind (act_map_err (\<lambda>e. TierState (''archive lock acquire failed: '' @ e)) (tl_acquire l LOCK_KEY LOCK_TTL)) (\<lambda>got.
             case got of None \<Rightarrow> act_ok skipped | Some tok \<Rightarrow> run_locked aj (Some tok)) w))" for win skipped
    proof (cases "aj_lock aj")
      case None
      then show ?thesis using locked False by (simp add: keeps_def ou.kept_refl)
    next
      case (Some l)
      have "keeps (ours v B tn p col R) (act_bind (act_map_err (\<lambda>e. TierState (''archive lock acquire failed: '' @ e)) (tl_acquire l LOCK_KEY LOCK_TTL)) (\<lambda>got.
             case got of None \<Rightarrow> act_ok skipped | Some tok \<Rightarrow> run_locked aj (Some tok)))"
        by (rule ou.keeps_bind [OF keeps_map_err [OF acq [OF Some]]]) (use locked False in \<open>auto split: option.split intro: ou.keeps_intros\<close>)
      then show ?thesis using Some by (simp add: keeps_def ou.kept_refl)
    qed
    then show ?thesis unfolding tier_run_once_def using B False by (intro ou.keeps_intros) simp_all
  qed
qed

text \<open>Any sequence of runs, by any processes.\<close>

lemma runs_keep:
  assumes "good_table col R"
  shows "list_all (\<lambda>aj. tier_laws v aj \<and> tc_batch_size (aj_config aj) = B \<and> configured tn col (aj_config aj)) ajs \<Longrightarrow>
    tier_inv v B tn p col R w \<Longrightarrow> tier_inv v B tn p col R (fold (\<lambda>aj w. snd (tier_run_once aj w)) ajs w)"
proof (induction ajs arbitrary: w)
  case (Cons aj ajs)
  have "keeps (ours v B tn p col R) (tier_run_once aj)" by (rule run_keeps [OF _ assms]) (use Cons.prems(1) in auto)
  then have "tier_inv v B tn p col R (snd (tier_run_once aj w))" using Cons.prems(2) by (simp add: keeps_def ours_def)
  then show ?case using Cons by simp
qed simp

end
