(* ===== verification/TierProps.thy ===== *)
theory TierProps
  imports TierRuns
begin

text \<open>
  The property of the archive loop, with a witness on a hot database, a table of jobs and a cold store in
  memory.
\<close>

section \<open>Property\<close>

text \<open>
  C32. A partition leaves the hot database only once every one of its rows is in a chunk that the cold
  store holds with that chunk's checksum: after any number of archive runs, by any processes and with
  any failures in between, the partition is still there with its rows, or it is gone and every chunk
  of it has been archived. All runs use the same batch size.
\<close>

theorem dropped_only_when_archived:
  assumes "list_all (\<lambda>aj. tier_laws v aj \<and> tc_batch_size (aj_config aj) = B \<and> configured tn col (aj_config aj)) ajs"
    and "good_table col R" and "vw_hot v w tn p = Some R" and "vw_jobs v w tn p = (\<lambda>_. None)"
    and "w' = fold (\<lambda>aj w. snd (tier_run_once aj w)) ajs w"
  shows "vw_hot v w' tn p = Some R \<or> vw_hot v w' tn p = None \<and> archived v w' tn p B R"
proof -
  have "tier_inv v B tn p col R w" using assms(3,4) by (simp add: tier_inv_def)
  from runs_keep [OF assms(2,1) this] show ?thesis using assms(5) by (auto simp: tier_inv_def)
qed

section \<open>Witness\<close>

record mem_tier =
  mt_hot :: "string \<Rightarrow> string \<Rightarrow> db_row list option"
  mt_jobs :: "string \<Rightarrow> string \<Rightarrow> nat \<Rightarrow> archive_job_state option"
  mt_cold :: "string \<Rightarrow> string \<Rightarrow> nat \<Rightarrow> string option"

definition mt_encode :: "db_row list \<Rightarrow> string" where
  "mt_encode rows = concat (map (\<lambda>r. dec_int (row_id ''id'' r) @ '','') rows)"

definition mt_jobs_view :: "'a mem_tier_scheme \<Rightarrow> string \<Rightarrow> string \<Rightarrow> nat \<Rightarrow> archive_job_state option" where
  "mt_jobs_view w t p n = map_option (as_updated_at_update (\<lambda>_. 0)) (mt_jobs w t p n)"

definition mt_view :: "mem_tier tier_view" where
  "mt_view = \<lparr> vw_hot = mt_hot, vw_jobs = mt_jobs_view, vw_cold = mt_cold, vw_sum = (\<lambda>_. mt_encode), vw_digest = (\<lambda>x. x) \<rparr>"

text \<open>A view of the databases, whatever the cold store is.\<close>

definition mt_shows :: "'a mem_tier_scheme tier_view \<Rightarrow> bool" where
  "mt_shows v \<longleftrightarrow> vw_hot v = mt_hot \<and> vw_jobs v = mt_jobs_view \<and>
     (\<forall>w f. vw_cold v (w\<lparr>mt_hot := f\<rparr>) = vw_cold v w) \<and> (\<forall>w f. vw_cold v (w\<lparr>mt_jobs := f\<rparr>) = vw_cold v w)"

definition mt_between :: "string \<Rightarrow> string \<Rightarrow> string \<Rightarrow> string" where
  "mt_between pre suf s = take (length s - length pre - length suf) (drop (length pre) s)"

lemma mt_between [simp]: "mt_between pre suf (pre @ x @ suf) = x"
  by (simp add: mt_between_def)

definition mt_row :: "string \<Rightarrow> json_value \<Rightarrow> db_row" where
  "mt_row col x = \<lparr> row_columns = [col], row_values = [x] \<rparr>"

definition mt_table :: table_tiering_config where
  "mt_table = \<lparr> tt_name = ''t'', tt_time_col = ''ts'', tt_id_col = ''id'', tt_retention_days = 1, tt_target = TargetS3, tt_filter = None \<rparr>"

definition mt_config :: tiering_config where
  "mt_config = \<lparr> tc_enabled = True, tc_hot_days = 1, tc_partition_months = 1, tc_tables = [mt_table], tc_batch_size = 2,
     tc_max_rows_per_sec = None, tc_verify_sample = None, tc_retain_s3_days = 0, tc_window = None, tc_dry_run = False \<rparr>"

definition mt_read_pre :: string where "mt_read_pre = ''SELECT * FROM `t` PARTITION (`''"
definition mt_read_suf :: string where "mt_read_suf = ''`) WHERE `id` > ? ORDER BY `id` LIMIT ?''"
definition mt_total_pre :: string where "mt_total_pre = ''SELECT COUNT(*) AS total_rows FROM `t` PARTITION (`''"
definition mt_total_suf :: string where "mt_total_suf = ''`)''"
definition mt_drop_pre :: string where "mt_drop_pre = ''ALTER TABLE `t` DROP PARTITION `''"
definition mt_drop_suf :: string where "mt_drop_suf = ''`''"

lemma mt_sql:
  "read_chunk_sql mt_table p = mt_read_pre @ p @ mt_read_suf" "total_rows_sql ''t'' p = mt_total_pre @ p @ mt_total_suf"
  "drop_sql ''t'' p = mt_drop_pre @ p @ mt_drop_suf"
  by (simp_all add: read_chunk_sql_def total_rows_sql_def drop_sql_def mt_table_def mt_read_pre_def mt_read_suf_def
      mt_total_pre_def mt_total_suf_def mt_drop_pre_def mt_drop_suf_def)

lemma mt_cut [simp]:
  "mt_between mt_read_pre mt_read_suf (read_chunk_sql mt_table p) = p"
  "mt_between mt_total_pre mt_total_suf (total_rows_sql ''t'' p) = p" "mt_between mt_drop_pre mt_drop_suf (drop_sql ''t'' p) = p"
  by (simp_all only: mt_sql mt_between)

definition mt_down :: rdbms_error where "mt_down = RdbmsDatabase []"

definition mt_hot_query :: "string \<Rightarrow> json_value list \<Rightarrow> 'a mem_tier_scheme \<Rightarrow> (rdbms_error, db_row list) result" where
  "mt_hot_query sql ps w = (case ps of
       [] \<Rightarrow> (case mt_hot w ''t'' (mt_between mt_total_pre mt_total_suf sql) of None \<Rightarrow> Err mt_down
         | Some R \<Rightarrow> Ok [mt_row ''total_rows'' (json_int (int (length R)))])
     | [x] \<Rightarrow> if sql = partitions_sql then Ok (if mt_hot w ''t'' ''p'' = None then [] else [mt_row ''partition_name'' (JString ''p'')])
         else Ok [mt_row ''hot_rows'' (json_int 0)]
     | x # _ \<Rightarrow> (case (as_i64 x, mt_hot w ''t'' (mt_between mt_read_pre mt_read_suf sql)) of
           (Some i, Some R) \<Rightarrow> Ok (take 2 (filter (\<lambda>r. row_id ''id'' r > i) R))
         | _ \<Rightarrow> Err mt_down))"

definition mt_hot_db :: "'a mem_tier_scheme sql_executor" where
  "mt_hot_db = (default_executor (\<lambda>sql w. (Ok 0, w\<lparr>mt_hot := (mt_hot w)(''t'' := (mt_hot w ''t'')(mt_between mt_drop_pre mt_drop_suf sql := None))\<rparr>))
     (\<lambda>_. act_ok []) MySql)\<lparr>ex_query_with := (\<lambda>sql ps w. (mt_hot_query sql ps w, w))\<rparr>"

definition mt_image :: "archive_job_state \<Rightarrow> db_row" where
  "mt_image st = \<lparr> row_columns = [''table_name'', ''partition_name'', ''chunk'', ''low_id'', ''high_id'', ''rows'', ''checksum'', ''phase'', ''updated_at''],
     row_values = upsert_params st [] \<rparr>"

definition mt_int :: "json_value \<Rightarrow> int" where
  "mt_int x = (case x of JNumber (PosInt k) \<Rightarrow> int k | JNumber (NegInt i) \<Rightarrow> i | _ \<Rightarrow> 0)"

definition mt_str :: "json_value \<Rightarrow> string" where
  "mt_str x = (case x of JString s \<Rightarrow> s | _ \<Rightarrow> [])"

text \<open>An upsert has nine parameters, an update of the phase seven.\<close>

definition mt_update :: "json_value list \<Rightarrow> 'a mem_tier_scheme \<Rightarrow> (rdbms_error, nat) result \<times> 'a mem_tier_scheme" where
  "mt_update ps w =
     (if length ps = 9 then
        (case archive_phase_parse (mt_str (ps ! 7)) of Inl _ \<Rightarrow> (Err mt_down, w)
         | Inr f \<Rightarrow> (let t = mt_str (ps ! 0); p = mt_str (ps ! 1); n = nat (mt_int (ps ! 2)) in
             (Ok 1, w\<lparr>mt_jobs := put_job t p n \<lparr> as_table = t, as_partition = p, as_chunk = n, as_low_id = mt_int (ps ! 3), as_high_id = mt_int (ps ! 4),
                as_rows = nat (mt_int (ps ! 5)), as_checksum = as_str (ps ! 6), as_phase = f, as_updated_at = 0 \<rparr> (mt_jobs w)\<rparr>)))
      else
        (let t = mt_str (ps ! 3); p = mt_str (ps ! 4); n = nat (mt_int (ps ! 5)) in
         case (archive_phase_parse (mt_str (ps ! 0)), mt_jobs w t p n) of
            (Inr f, Some st) \<Rightarrow> if archive_phase_as_str (as_phase st) = mt_str (ps ! 6)
              then (Ok 1, w\<lparr>mt_jobs := put_job t p n (advanced f (as_str (ps ! 1)) 0 st) (mt_jobs w)\<rparr>) else (Ok 0, w)
          | _ \<Rightarrow> (Ok 0, w)))"

definition mt_state_db :: "'a mem_tier_scheme sql_executor" where
  "mt_state_db = (default_executor (\<lambda>_. act_ok 0) (\<lambda>_. act_ok []) MySql)
     \<lparr>ex_query_with := (\<lambda>sql ps w. (case ps of
          [JString t, JString p, JNumber (PosInt n)] \<Rightarrow> Ok (case mt_jobs w t p n of None \<Rightarrow> [] | Some st \<Rightarrow> [mt_image st])
        | _ \<Rightarrow> Err mt_down, w)),
      ex_execute_with := (\<lambda>sql ps w. mt_update ps w)\<rparr>"

definition mt_sink :: "mem_tier cold_sink" where
  "mt_sink = \<lparr> sk_write = (\<lambda>t p n rows w. (Ok (mt_encode rows), w\<lparr>mt_cold := (mt_cold w)(t := (mt_cold w t)(p := (mt_cold w t p)(n := Some (mt_encode rows))))\<rparr>)),
     sk_verify = (\<lambda>t p n c w. (Ok (mt_cold w t p n = Some c), w)), sk_health_check = act_ok () \<rparr>"

definition mt_env :: "'a tier_env" where
  "mt_env = \<lparr> te_now = (\<lambda>_. days_ns 10), te_in_range = (\<lambda>_. True), te_fmt_rfc = (\<lambda>_. Ok []), te_parse_rfc = (\<lambda>_. Ok 0),
     te_fmt_sql = (\<lambda>_. Ok []), te_required = (\<lambda>_ _. 0), te_rounds = Suc (Suc (Suc (Suc 0))) \<rparr>"

definition mt_job :: "'a mem_tier_scheme cold_sink \<Rightarrow> 'a mem_tier_scheme archive_job" where
  "mt_job sink = archive_job_new mt_env (\<lambda>_. \<lparr> pc_elapsed = (\<lambda>_. 0), pc_wait = (\<lambda>_ w. w) \<rparr>) mt_hot_db sink mt_state_db mt_config None"

lemma mt_job_simps [simp]:
  "aj_hot (mt_job sink) = mt_hot_db" "aj_cold (mt_job sink) = sink" "aj_state (mt_job sink) = mt_state_db" "aj_config (mt_job sink) = mt_config" "aj_lock (mt_job sink) = None"
  "aj_pacer (mt_job sink) = None" "aj_run_timeout (mt_job sink) > 0" "aj_run_timeout (mt_job sink) \<noteq> 0" "aj_env (mt_job sink) = mt_env" "aj_monotonic (mt_job sink) w = \<lparr> pc_elapsed = (\<lambda>_. 0), pc_wait = (\<lambda>_ w. w) \<rparr>"
  "tc_tables mt_config = [mt_table]" "tc_batch_size mt_config = 2" "tabled (mt_job sink) tn \<longleftrightarrow> tn = ''t''"
  "tt_name mt_table = ''t''" "tt_id_col mt_table = ''id''" "tt_filter mt_table = None" "tt_time_col mt_table = ''ts''" "tt_retention_days mt_table = 1"
  by (auto simp: mt_job_def archive_job_new_def mt_config_def mt_table_def tabled_def DEFAULT_RUN_TIMEOUT_def)

lemma mt_db_simps [simp]:
  "ex_query_with mt_hot_db sql ps w = (mt_hot_query sql ps w, w)" "ex_dialect mt_hot_db = MySql" "ex_dialect mt_state_db = MySql"
  "ex_execute_with mt_state_db sql ps w = mt_update ps w"
  "ex_execute mt_hot_db sql w = (Ok 0, w\<lparr>mt_hot := (mt_hot w)(''t'' := (mt_hot w ''t'')(mt_between mt_drop_pre mt_drop_suf sql := None))\<rparr>)"
  "ex_query_with mt_state_db sql ps w = (case ps of
          [JString t, JString p, JNumber (PosInt n)] \<Rightarrow> Ok (case mt_jobs w t p n of None \<Rightarrow> [] | Some st \<Rightarrow> [mt_image st])
        | _ \<Rightarrow> Err mt_down, w)"
  by (simp_all add: mt_hot_db_def mt_state_db_def default_executor_def)

lemma mt_int_json [simp]: "mt_int (json_int i) = i"
  by (simp add: mt_int_def json_int_def)

lemma mt_str_simps [simp]: "mt_str (JString s) = s" "mt_int (JNumber (PosInt n)) = int n"
  by (simp_all add: mt_str_def mt_int_def)

lemma json_int_nat [simp]: "json_int (int n) = JNumber (PosInt n)"
  by (simp add: json_int_def)

lemma mt_view_simps [simp]:
  "vw_sum mt_view t = mt_encode" "vw_digest mt_view x = x" "vw_hot mt_view = mt_hot" "vw_cold mt_view = mt_cold" "vw_jobs mt_view = mt_jobs_view" "mt_shows mt_view"
  by (simp_all add: mt_view_def mt_shows_def)

lemma mt_showsD:
  assumes "mt_shows v"
  shows "vw_hot v = mt_hot" "vw_jobs v w t p n = map_option (as_updated_at_update (\<lambda>_. 0)) (mt_jobs w t p n)"
    "vw_cold v (w\<lparr>mt_hot := f\<rparr>) = vw_cold v w" "vw_cold v (w\<lparr>mt_jobs := g\<rparr>) = vw_cold v w"
  using assms by (simp_all add: mt_shows_def mt_jobs_view_def)

lemma mt_image: "tier_image mt_env (as_updated_at_update (\<lambda>_. 0) st) (mt_image st)"
  by (simp add: tier_image_def mt_image_def upsert_params_def row_get_def mt_env_def)

lemma mt_as_i64: "as_i64 (json_int i) = Some k \<Longrightarrow> k = i" "as_i64 (JNumber (PosInt n)) = Some k \<Longrightarrow> k = int n"
  by (auto simp: as_i64_def json_int_def number_as_i64_def split: if_splits)

lemma mt_reads:
  assumes "mt_shows v"
  shows "tier_read_laws v (mt_job sink)"
  unfolding tier_read_laws_def
proof (intro conjI allI impI, goal_cases)
  case (3 t p cursor w rows w')
  then show ?case
    by (auto simp: mt_hot_query_def mt_showsD [OF assms] split: option.splits dest!: mt_as_i64)
next
  case (4 t p w rows w' k)
  then show ?case by (auto simp: mt_hot_query_def mt_showsD [OF assms] count_of_def mt_row_def row_get_def ok_or_def split: option.splits dest!: mt_as_i64)
next
  case (5 t p n w rows w')
  then show ?case using mt_image by (auto simp: mt_showsD [OF assms] split: option.splits)
qed (simp_all add: same_tier_def)

lemma mt_phase: "archive_phase_parse (archive_phase_as_str ph) = Inr ph"
  by (cases ph) (simp_all add: archive_phase_parse_def)

lemma mt_str_json [simp]: "as_str (case cs of None \<Rightarrow> JNull | Some c \<Rightarrow> JString c) = cs"
  by (simp add: as_str_def split: option.split)

lemma mt_put: "(\<lambda>t p n. map_option g (put_job t' p' n' st jobs t p n)) = put_job t' p' n' (g st) (\<lambda>t p n. map_option g (jobs t p n))"
  by (auto simp: put_job_def fun_eq_iff)

lemma mt_jobs_put:
  assumes "mt_shows v"
  shows "vw_jobs v (w\<lparr>mt_jobs := put_job t p n st (mt_jobs w)\<rparr>) = put_job t p n (st\<lparr>as_updated_at := 0\<rparr>) (vw_jobs v w)"
  by (auto simp: put_job_def fun_eq_iff mt_showsD [OF assms])

lemma mt_upsert:
  assumes "mt_shows v"
  shows "upsert_write v (mt_job sink) s w (snd (mt_update (upsert_params s ts) w))"
proof -
  have "snd (mt_update (upsert_params s ts) w) = w\<lparr>mt_jobs := put_job (as_table s) (as_partition s) (as_chunk s) (s\<lparr>as_updated_at := 0\<rparr>) (mt_jobs w)\<rparr>"
    by (cases s) (simp add: mt_update_def upsert_params_def mt_phase Let_def)
  then show ?thesis unfolding upsert_write_def by (auto simp only: mt_jobs_put [OF assms] mt_showsD [OF assms]) auto
qed

lemma mt_advance:
  assumes v: "mt_shows v"
  shows "advance_write v t p n fr to cs w (snd (mt_update (advance_params t p n fr to cs ts) w))"
proof (cases "mt_jobs w t p n")
  case None
  then show ?thesis by (simp add: advance_write_def advance_params_def mt_update_def mt_phase Let_def)
next
  case (Some st)
  have inj: "archive_phase_as_str a = archive_phase_as_str b \<longleftrightarrow> a = b" for a b by (metis mt_phase sum.inject(2))
  have w': "snd (mt_update (advance_params t p n fr to cs ts) w) =
      (if as_phase st = fr then w\<lparr>mt_jobs := put_job t p n (advanced to cs 0 st) (mt_jobs w)\<rparr> else w)"
    using Some by (simp add: advance_params_def mt_update_def mt_phase Let_def inj)
  have upd: "(advanced to cs 0 st)\<lparr>as_updated_at := 0\<rparr> = advanced to cs 0 (st\<lparr>as_updated_at := 0\<rparr>)" by (simp add: advanced_def split: option.split)
  show ?thesis
  proof (cases "as_phase st = fr")
    case True
    then have "\<exists>x u. vw_jobs v w t p n = Some x \<and> as_phase x = fr \<and>
        vw_jobs v (snd (mt_update (advance_params t p n fr to cs ts) w)) = put_job t p n (advanced to cs u x) (vw_jobs v w)"
      using Some unfolding w' by (intro exI [of _ "st\<lparr>as_updated_at := 0\<rparr>"] exI [of _ 0]) (simp add: mt_jobs_put [OF v] mt_showsD [OF v] upd)
    then show ?thesis using True unfolding advance_write_def w' by (simp add: mt_showsD [OF v])
  qed (simp add: advance_write_def w')
qed

lemma mt_db_laws:
  assumes "mt_shows v"
  shows "tier_read_laws v (mt_job sink)" "tier_write_laws v (mt_job sink)" "other_laws v (mt_job sink)"
proof -
  show "tier_write_laws v (mt_job sink)"
    unfolding tier_write_laws_def using mt_upsert [OF assms] mt_advance [OF assms] by (auto simp: drop_write_def fun_eq_iff mt_showsD [OF assms])
qed (simp_all add: mt_reads assms other_laws_def same_tier_def)

lemma mt_laws: "tier_laws mt_view (mt_job mt_sink)"
proof -
  have "sink_laws mt_view mt_sink" by (auto simp: sink_laws_def mt_sink_def same_tier_def mt_jobs_view_def fun_eq_iff)
  then show ?thesis by (simp add: tier_laws_def mt_db_laws)
qed

definition mt_rows :: "db_row list" where
  "mt_rows = map (\<lambda>k. mt_row ''id'' (JNumber (PosInt k))) [1, 2, 3]"

definition mt_start :: mem_tier where
  "mt_start = \<lparr> mt_hot = (\<lambda>t p. if t = ''t'' \<and> p = ''p'' then Some mt_rows else None), mt_jobs = (\<lambda>_ _ _. None), mt_cold = (\<lambda>_ _ _. None) \<rparr>"

lemmas mt_eval = tier_validate_def window_bounds_def validate_ident_def is_ascii_alpha_def is_ascii_alnum_def
    mt_config_def window_allows_def mt_env_def ts_plus_def days_ns_def tier_fmt_time_def tier_fmt_ts_def
    tier_partitions_def hot_rows_def hot_rows_sql_def partitions_sql_def mt_hot_query_def mt_row_def row_get_def count_of_def
    act_bind_def act_map_err_def tier_db_def as_str_def as_i64_def number_as_i64_def i64_max_def i64_min_def json_int_def Let_def

lemmas mt_walk = archive_partition_def walk_round_def walk_fresh_def write_chunk_def verify_mark_def pass_chunk_def tier_load_def read_chunk_def
    supported_dialect_def u64_to_i64_def tier_upsert_def tier_advance_def mt_update_def upsert_params_def advance_params_def new_job_def put_job_def
    advanced_def archive_phase_parse_def id_bounds_def finish_walk_def retention_passed_def drop_archived_def row_count_matches_def archive_drop_def
    walk_start_def tier_sat_add_def u64_max_def pace_def mt_sink_def mt_rows_def row_id_def mt_start_def

lemma mt_drops:
  "mt_hot (snd (archive_partition (mt_job mt_sink) \<lparr>pc_elapsed = (\<lambda>_. 0), pc_wait = (\<lambda>_ w. w)\<rparr> mt_table ''p'' (empty_report False) mt_start)) ''t'' ''p'' = None"
  by (simp add: mt_eval mt_walk upt_rec)

lemma mt_dropped: "mt_hot (snd (tier_run_once (mt_job mt_sink) mt_start)) ''t'' ''p'' = None"
  using mt_drops
  by (cases "archive_partition (mt_job mt_sink) \<lparr>pc_elapsed = (\<lambda>_. 0), pc_wait = (\<lambda>_ w. w)\<rparr> mt_table ''p'' (empty_report False) mt_start")
    (simp add: tier_run_once_def mt_eval run_locked_def mt_start_def split: sum.split)

theorem dropped_only_when_archived_witness:
  "let w' = snd (tier_run_once (mt_job mt_sink) mt_start) in
     mt_hot w' ''t'' ''p'' = None \<and> archived mt_view w' ''t'' ''p'' 2 mt_rows"
proof -
  have conf: "list_all (\<lambda>aj. tier_laws mt_view aj \<and> tc_batch_size (aj_config aj) = 2 \<and> configured ''t'' ''id'' (aj_config aj)) [mt_job mt_sink]"
    using mt_laws by (simp add: configured_def)
  have good: "good_table ''id'' mt_rows"
    by (simp add: good_table_def mt_rows_def mt_row_def row_id_def row_get_def as_i64_def number_as_i64_def i64_max_def i64_min_def is_i64_def)
  have start: "vw_hot mt_view mt_start ''t'' ''p'' = Some mt_rows" "vw_jobs mt_view mt_start ''t'' ''p'' = (\<lambda>_. None)"
    by (simp_all add: mt_start_def mt_jobs_view_def fun_eq_iff)
  from dropped_only_when_archived [OF conf good start refl] show ?thesis using mt_dropped by (simp add: Let_def)
qed

end
