(* ===== verification/TierSink.thy ===== *)
theory TierSink
  imports TierArchive "HOL-Library.List_Lexorder" "HOL-Library.Char_ord"
begin

text \<open>
  \<^verbatim>\<open>ecat-data-tiering\<close>: the cold sinks, \<^verbatim>\<open>sink/mod.rs\<close>, \<^verbatim>\<open>sink/s3.rs\<close> and \<^verbatim>\<open>sink/clickhouse.rs\<close>.
  The storage client, the ClickHouse client, \<^verbatim>\<open>serde_json\<close> and the hash are parameters.
\<close>

section \<open>Parameters\<close>

record storage_manifest =
  mf_table :: string
  mf_partition :: string
  mf_chunk :: nat
  mf_checksum :: string
  mf_bytes :: nat
  mf_rows :: nat
  mf_sample_step :: nat
  mf_sample_checksum :: string
  mf_sample_rows :: nat

text \<open>
  \<^verbatim>\<open>to_string\<close>, \<^verbatim>\<open>Number::to_string\<close> and \<^verbatim>\<open>from_str\<close> of \<^verbatim>\<open>serde_json\<close>, and what it derives for the
  manifest; the bytes of the SHA-256 digest; the reason why bytes are not UTF-8. A sampling rate, an
  \<^verbatim>\<open>f32\<close>, is its bit pattern: whether it is finite and within 0 and 1, whether it is zero or positive, its text,
  and the step \<open>\<lceil>1 / rate\<rceil>\<close>.
\<close>

record sink_env =
  sn_to_string :: "json_value \<Rightarrow> (string, string) result"
  sn_number_text :: "json_number \<Rightarrow> string"
  sn_from_str :: "string \<Rightarrow> (string, json_value) result"
  sn_manifest_text :: "storage_manifest \<Rightarrow> (string, string) result"
  sn_manifest_of :: "string \<Rightarrow> (string, storage_manifest) result"
  sn_sha256 :: "string \<Rightarrow> nat list"
  sn_not_utf8 :: "string \<Rightarrow> string option"
  sn_rate_ok :: "u32 \<Rightarrow> bool"
  sn_rate_zero :: "u32 \<Rightarrow> bool"
  sn_rate_positive :: "u32 \<Rightarrow> bool"
  sn_rate_text :: "u32 \<Rightarrow> string"
  sn_step :: "u32 \<Rightarrow> nat"

record 'w storage_client =
  sc_put :: "string \<Rightarrow> string \<Rightarrow> string \<Rightarrow> (string, 'w, unit) act"
  sc_get :: "string \<Rightarrow> string \<Rightarrow> (string, 'w, string) act"
  sc_list :: "string \<Rightarrow> string \<Rightarrow> (string, 'w, string list) act"

section \<open>SQL literals (sink/mod.rs)\<close>

definition sql_escape :: "char \<Rightarrow> string" where
  "sql_escape c = (if c = CHR 0x5C then [CHR 0x5C, CHR 0x5C] else if c = CHR 0x27 then [CHR 0x5C, CHR 0x27] else [c])"

definition sql_string :: "string \<Rightarrow> string" where
  "sql_string s = CHR 0x27 # concat (map sql_escape s) @ [CHR 0x27]"

definition render_sql_value :: "sink_env \<Rightarrow> json_value \<Rightarrow> (tiering_error, string) result" where
  "render_sql_value env v = (case v of
       JNull \<Rightarrow> Ok ''NULL''
     | JBool b \<Rightarrow> Ok (if b then ''true'' else ''false'')
     | JNumber n \<Rightarrow> Ok (sn_number_text env n)
     | JString s \<Rightarrow> Ok (sql_string s)
     | _ \<Rightarrow> try_bind (map_err (\<lambda>e. TierCold (''failed to serialize SQL value: '' @ e)) (sn_to_string env v)) (\<lambda>j. Ok (sql_string j)))"

section \<open>Shared by both sinks\<close>

definition sha_digit :: "nat \<Rightarrow> char" where
  "sha_digit k = (if k < 10 then digit_char k else char_of (87 + k))"

definition sha256_hex :: "sink_env \<Rightarrow> string \<Rightarrow> string" where
  "sha256_hex env bytes = concat (map (\<lambda>b. [sha_digit (b div 16), sha_digit (b mod 16)]) (sn_sha256 env bytes))"

text \<open>\<^verbatim>\<open>str::parse::<i64>\<close>.\<close>

definition parse_i64 :: "string \<Rightarrow> int option" where
  "parse_i64 s = (case s of
       CHR ''-'' # ds \<Rightarrow> (if ds = [] then None else case digits_uint (nat (- i64_min)) 0 ds of Inr n \<Rightarrow> Some (- int n) | Inl _ \<Rightarrow> None)
     | _ \<Rightarrow> (case parse_uint (nat i64_max) s of Inr n \<Rightarrow> Some (int n) | Inl _ \<Rightarrow> None))"

definition json_i64 :: "json_value \<Rightarrow> int option" where
  "json_i64 v = (case v of JNumber n \<Rightarrow> number_as_i64 n | JString s \<Rightarrow> parse_i64 s | _ \<Rightarrow> None)"

definition json_u64 :: "json_value \<Rightarrow> nat option" where
  "json_u64 v = (case v of JNumber (PosInt k) \<Rightarrow> Some k
     | JString s \<Rightarrow> (case parse_uint u64_max s of Inr n \<Rightarrow> Some n | Inl _ \<Rightarrow> None) | _ \<Rightarrow> None)"

definition rate_checked :: "sink_env \<Rightarrow> u32 option \<Rightarrow> (tiering_error, u32 option) result" where
  "rate_checked env sample = (case sample of None \<Rightarrow> Ok None
     | Some r \<Rightarrow> if \<not> sn_rate_ok env r then Err (TierConfig (''verify_sample must be in [0, 1], got '' @ sn_rate_text env r))
         else if sn_rate_zero env r then Ok None else Ok (Some r))"

text \<open>Picking by the id: at least one row.\<close>

definition pick_sample :: "(int \<times> 'a) list \<Rightarrow> nat \<Rightarrow> 'a list" where
  "pick_sample keyed step =
     (let st = max 1 (if int step > i64_max then i64_max else int step);
          picked = map snd (filter (\<lambda>(i, _). i mod st = 0) keyed)
      in if picked = [] then map snd (take 1 keyed) else picked)"

text \<open>A table of the sink: name and primary key.\<close>

type_synonym sink_table = "string \<times> string"

definition table_spec :: "string \<Rightarrow> sink_table list \<Rightarrow> string \<Rightarrow> (tiering_error, sink_table) result" where
  "table_spec kind tables table =
     try_bind (validate_ident table) (\<lambda>_.
     ok_or (TierCold (''table `'' @ table @ ''` is not in the '' @ kind @ '' sink whitelist'')) (find (\<lambda>t. fst t = table) tables))"

definition check_tables :: "sink_table list \<Rightarrow> (tiering_error, unit) result" where
  "check_tables tables = for_each (\<lambda>t. try_bind (validate_ident (fst t)) (\<lambda>_. validate_ident (snd t))) tables"

definition no_integer :: "string \<Rightarrow> tiering_error" where
  "no_integer col = TierCold (''cold sink row has no integer `'' @ col @ ''`'')"

section \<open>S3 (sink/s3.rs)\<close>

definition MAX_CHUNK_BYTES :: nat where "MAX_CHUNK_BYTES = 64 * 1024 * 1024"
definition MANIFEST_SUFFIX :: string where "MANIFEST_SUFFIX = ''.manifest.json''"

record 'w s3_sink =
  s3_client :: "'w storage_client"
  s3_bucket :: string
  s3_prefix :: string
  s3_tables :: "sink_table list"
  s3_verify_sample :: "u32 option"

record chunk_object =
  co_ndjson :: string
  co_checksum :: string
  co_rows :: nat
  co_sample_step :: nat
  co_sample_checksum :: string
  co_sample_rows :: nat

definition trim_slashes :: "string \<Rightarrow> string" where
  "trim_slashes s = rev (dropWhile (\<lambda>c. c = CHR ''/'') (rev (dropWhile (\<lambda>c. c = CHR ''/'') s)))"

definition s3_new ::
  "sink_env \<Rightarrow> 'w storage_client \<Rightarrow> string \<Rightarrow> string \<Rightarrow> sink_table list \<Rightarrow> u32 option \<Rightarrow> (tiering_error, 'w s3_sink) result" where
  "s3_new env client bucket prefix_arg tables sample =
     (if bucket = [] then Err (TierConfig ''s3 bucket must not be empty'')
      else try_bind (check_tables tables) (\<lambda>_.
        try_bind (rate_checked env sample) (\<lambda>rate.
        let trimmed = trim_slashes prefix_arg in
        Ok \<lparr> s3_client = client, s3_bucket = bucket, s3_prefix = (if trimmed = [] then [] else trimmed @ ''/''),
             s3_tables = tables, s3_verify_sample = rate \<rparr>)))"

definition base_key :: "'w s3_sink \<Rightarrow> string \<Rightarrow> string \<Rightarrow> string" where
  "base_key s table part = s3_prefix s @ table @ ''/'' @ part"

definition chunk_key :: "'w s3_sink \<Rightarrow> string \<Rightarrow> string \<Rightarrow> nat \<Rightarrow> string" where
  "chunk_key s table part n = base_key s table part @ ''/'' @ dec_nat n @ ''.ndjson''"

definition manifest_key :: "'w s3_sink \<Rightarrow> string \<Rightarrow> string \<Rightarrow> nat \<Rightarrow> string" where
  "manifest_key s table part n = base_key s table part @ ''/'' @ dec_nat n @ MANIFEST_SUFFIX"

definition s3_put :: "'w s3_sink \<Rightarrow> string \<Rightarrow> string \<Rightarrow> (tiering_error, 'w, unit) act" where
  "s3_put s key data = act_map_err (\<lambda>e. TierCold (''s3 put `'' @ key @ ''`: '' @ e)) (sc_put (s3_client s) (s3_bucket s) key data)"

definition s3_get :: "'w s3_sink \<Rightarrow> string \<Rightarrow> (tiering_error, 'w, string) act" where
  "s3_get s key = act_map_err (\<lambda>e. TierCold (''s3 get `'' @ key @ ''`: '' @ e)) (sc_get (s3_client s) (s3_bucket s) key)"

definition s3_list :: "'w s3_sink \<Rightarrow> string \<Rightarrow> (tiering_error, 'w, string list) act" where
  "s3_list s key = act_map_err (\<lambda>e. TierCold (''s3 list `'' @ key @ ''`: '' @ e)) (sc_list (s3_client s) (s3_bucket s) key)"

definition s3_exists :: "'w s3_sink \<Rightarrow> string \<Rightarrow> (tiering_error, 'w, bool) act" where
  "s3_exists s key = act_bind (s3_list s key) (\<lambda>keys. act_ok (key \<in> set keys))"

text \<open>\<^verbatim>\<open>row_json\<close>: a later column of the same name wins; the map is ordered by name.\<close>

definition map_insert :: "string \<times> json_value \<Rightarrow> (string \<times> json_value) list \<Rightarrow> (string \<times> json_value) list" where
  "map_insert m ms = sort_key fst (m # filter (\<lambda>x. fst x \<noteq> fst m) ms)"

definition row_json :: "sink_env \<Rightarrow> db_row \<Rightarrow> (tiering_error, string) result" where
  "row_json env row = map_err (\<lambda>e. TierCold (''failed to serialize S3 chunk row: '' @ e))
     (sn_to_string env (JObject (fold map_insert (row_iter row) [])))"

definition join_lines :: "string list \<Rightarrow> string" where
  "join_lines ls = concat (map (\<lambda>l. l @ [CHR 0x0A]) ls)"

definition keyed_json :: "sink_env \<Rightarrow> string \<Rightarrow> db_row \<Rightarrow> (tiering_error, int \<times> string) result" where
  "keyed_json env col row =
     try_bind (ok_or (no_integer col) (Option.bind (row_get row col) json_i64)) (\<lambda>i.
     try_bind (row_json env row) (\<lambda>j. Ok (i, j)))"

definition build_chunk :: "sink_env \<Rightarrow> db_row list \<Rightarrow> string \<Rightarrow> u32 option \<Rightarrow> (tiering_error, chunk_object) result" where
  "build_chunk env rows col sample =
     (if rows = [] then Err (TierCold ''cannot write an empty chunk'')
      else try_bind (collect_results (keyed_json env col) rows) (\<lambda>pairs.
        let keyed = sort_key fst pairs; ndjson = join_lines (map snd keyed);
            (step, sum, n) = (case sample of
                Some rate \<Rightarrow> if sn_rate_positive env rate
                  then let picked = pick_sample keyed (sn_step env rate) in
                    (sn_step env rate, sha256_hex env (join_lines picked), length picked)
                  else (0, [], 0)
              | None \<Rightarrow> (0, [], 0))
        in Ok \<lparr> co_ndjson = ndjson, co_checksum = sha256_hex env ndjson, co_rows = length rows,
                co_sample_step = step, co_sample_checksum = sum, co_sample_rows = n \<rparr>))"

definition ensure_chunk_size :: "nat \<Rightarrow> (tiering_error, unit) result" where
  "ensure_chunk_size n = (if n > MAX_CHUNK_BYTES
     then Err (TierCold (''chunk is '' @ dec_nat n @ '' bytes, exceeding the '' @ dec_nat MAX_CHUNK_BYTES @ '' byte S3 sink limit''))
     else Ok ())"

text \<open>\<^verbatim>\<open>str::lines\<close>: a carriage return before the end of a line is dropped.\<close>

fun lines_from :: "string \<Rightarrow> string \<Rightarrow> string list" where
  "lines_from cur [] = (if cur = [] then [] else [rev cur])"
| "lines_from cur (c # cs) =
     (if c = CHR 0x0A then rev (case cur of CHR 0x0D # r \<Rightarrow> r | _ \<Rightarrow> cur) # lines_from [] cs else lines_from (c # cur) cs)"

definition json_member :: "json_value \<Rightarrow> string \<Rightarrow> json_value option" where
  "json_member v k = (case v of JObject ms \<Rightarrow> map_of ms k | _ \<Rightarrow> None)"

definition keyed_line :: "sink_env \<Rightarrow> string \<Rightarrow> string \<Rightarrow> (tiering_error, int \<times> string) result" where
  "keyed_line env col line =
     try_bind (map_err (\<lambda>e. TierCold (''s3 chunk line is not json: '' @ e)) (sn_from_str env line)) (\<lambda>v.
     try_bind (ok_or (TierCold (''s3 chunk line has no integer `'' @ col @ ''`'')) (Option.bind (json_member v col) json_i64)) (\<lambda>i.
     Ok (i, line)))"

definition parse_keyed_lines :: "sink_env \<Rightarrow> string \<Rightarrow> string \<Rightarrow> (tiering_error, (int \<times> string) list) result" where
  "parse_keyed_lines env bytes col = (case sn_not_utf8 env bytes of
       Some e \<Rightarrow> Err (TierCold (''s3 chunk is not utf-8: '' @ e))
     | None \<Rightarrow> try_bind (collect_results (keyed_line env col) (filter (\<lambda>l. l \<noteq> []) (lines_from [] bytes))) (\<lambda>keyed.
         Ok (sort_key fst keyed)))"

definition manifest_for :: "string \<Rightarrow> string \<Rightarrow> nat \<Rightarrow> chunk_object \<Rightarrow> storage_manifest" where
  "manifest_for table part n ob =
     \<lparr> mf_table = table, mf_partition = part, mf_chunk = n, mf_checksum = co_checksum ob, mf_bytes = length (co_ndjson ob),
       mf_rows = co_rows ob, mf_sample_step = co_sample_step ob, mf_sample_checksum = co_sample_checksum ob, mf_sample_rows = co_sample_rows ob \<rparr>"

definition s3_write_chunk ::
  "sink_env \<Rightarrow> 'w s3_sink \<Rightarrow> string \<Rightarrow> string \<Rightarrow> nat \<Rightarrow> db_row list \<Rightarrow> (tiering_error, 'w, string) act" where
  "s3_write_chunk env s table part n rows =
     act_bind (act_lift (table_spec ''S3'' (s3_tables s) table)) (\<lambda>spec.
     act_bind (act_lift (validate_ident part)) (\<lambda>_.
     act_bind (act_lift (build_chunk env rows (snd spec) (s3_verify_sample s))) (\<lambda>ob.
     act_bind (act_lift (ensure_chunk_size (length (co_ndjson ob)))) (\<lambda>_.
     act_bind (s3_exists s (chunk_key s table part n)) (\<lambda>there.
     act_bind (if there then act_ok () else s3_put s (chunk_key s table part n) (co_ndjson ob)) (\<lambda>_.
     act_bind (act_lift (map_err (\<lambda>e. TierCold (''s3 manifest encode: '' @ e)) (sn_manifest_text env (manifest_for table part n ob)))) (\<lambda>encoded.
     act_bind (s3_put s (manifest_key s table part n) encoded) (\<lambda>_.
     act_ok (co_checksum ob)))))))))"

definition manifest_fits :: "storage_manifest \<Rightarrow> string \<Rightarrow> string \<Rightarrow> nat \<Rightarrow> string \<Rightarrow> nat \<Rightarrow> bool" where
  "manifest_fits m table part n checksum len \<longleftrightarrow> mf_table m = table \<and> mf_partition m = part \<and> mf_chunk m = n \<and>
     mf_checksum m = checksum \<and> mf_sample_step m \<noteq> 0 \<and> mf_bytes m = len"

definition sample_matches :: "sink_env \<Rightarrow> string \<Rightarrow> string \<Rightarrow> storage_manifest \<Rightarrow> (tiering_error, bool) result" where
  "sample_matches env col bytes m =
     try_bind (parse_keyed_lines env bytes col) (\<lambda>keyed.
     if length keyed \<noteq> mf_rows m then Ok False
     else let picked = pick_sample keyed (mf_sample_step m) in
       Ok (length picked = mf_sample_rows m \<and> sha256_hex env (join_lines picked) = mf_sample_checksum m))"

definition s3_verify_chunk ::
  "sink_env \<Rightarrow> 'w s3_sink \<Rightarrow> string \<Rightarrow> string \<Rightarrow> nat \<Rightarrow> string \<Rightarrow> (tiering_error, 'w, bool) act" where
  "s3_verify_chunk env s table part n checksum =
     act_bind (act_lift (table_spec ''S3'' (s3_tables s) table)) (\<lambda>spec.
     act_bind (act_lift (validate_ident part)) (\<lambda>_.
     act_bind (s3_get s (chunk_key s table part n)) (\<lambda>bytes.
     if sha256_hex env bytes \<noteq> checksum then act_ok False
     else if s3_verify_sample s = None then act_ok True
     else let mkey = manifest_key s table part n in
       act_bind (s3_exists s mkey) (\<lambda>there.
       if \<not> there then act_ok False
       else act_bind (s3_get s mkey) (\<lambda>enc.
         act_bind (act_lift (map_err (\<lambda>e. TierCold (''s3 manifest `'' @ mkey @ ''`: '' @ e)) (sn_manifest_of env enc))) (\<lambda>m.
         if \<not> manifest_fits m table part n checksum (length bytes) then act_ok False
         else act_lift (sample_matches env (snd spec) bytes m)))))))"

definition s3_health_check :: "'w s3_sink \<Rightarrow> (tiering_error, 'w, unit) act" where
  "s3_health_check s = act_bind (s3_list s (s3_prefix s)) (\<lambda>_. act_ok ())"

definition s3_cold_sink :: "sink_env \<Rightarrow> 'w s3_sink \<Rightarrow> 'w cold_sink" where
  "s3_cold_sink env s = \<lparr> sk_write = s3_write_chunk env s, sk_verify = s3_verify_chunk env s, sk_health_check = s3_health_check s \<rparr>"

section \<open>ClickHouse (sink/clickhouse.rs)\<close>

definition CHECKSUM_TABLE :: string where "CHECKSUM_TABLE = ''ecat_tier_checksums''"

definition CHECKSUM_TABLE_DDL :: string where
  "CHECKSUM_TABLE_DDL = ''CREATE TABLE IF NOT EXISTS ecat_tier_checksums (`table` String, `partition` String, `chunk` UInt64, `checksum` String, ''
     @ ''`sample_checksum` String, `sample_rows` UInt64, `low_id` Int64, `high_id` Int64) ENGINE = ReplacingMergeTree ORDER BY (`table`, `partition`, `chunk`)''"

text \<open>\<open>cs_ready\<close> and \<open>cs_set_ready\<close> are the \<^verbatim>\<open>OnceCell\<close> for the table of checksums.\<close>

record 'w clickhouse_sink =
  cs_client :: "'w sql_executor"
  cs_tables :: "sink_table list"
  cs_verify_sample :: "u32 option"
  cs_ready :: "'w \<Rightarrow> bool"
  cs_set_ready :: "'w \<Rightarrow> 'w"

definition clickhouse_new ::
  "sink_env \<Rightarrow> ('w \<Rightarrow> bool) \<Rightarrow> ('w \<Rightarrow> 'w) \<Rightarrow> 'w sql_executor \<Rightarrow> sink_table list \<Rightarrow> u32 option \<Rightarrow> (tiering_error, 'w clickhouse_sink) result" where
  "clickhouse_new env ready set_ready client tables sample =
     try_bind (check_tables tables) (\<lambda>_. try_bind (rate_checked env sample) (\<lambda>rate.
     Ok \<lparr> cs_client = client, cs_tables = tables, cs_verify_sample = rate, cs_ready = ready, cs_set_ready = set_ready \<rparr>))"

definition ensure_metadata_table :: "'w clickhouse_sink \<Rightarrow> (tiering_error, 'w, unit) act" where
  "ensure_metadata_table s w = (if cs_ready s w then (Ok (), w)
     else act_bind (tier_db (ex_execute (cs_client s) CHECKSUM_TABLE_DDL)) (\<lambda>_ w'. (Ok (), cs_set_ready s w')) w)"

record chunk_digest =
  cd_checksum :: string
  cd_sample_checksum :: string
  cd_sample_rows :: nat
  cd_low_id :: int
  cd_high_id :: int

definition sorted_by_id :: "db_row list \<Rightarrow> string \<Rightarrow> (tiering_error, (int \<times> db_row) list) result" where
  "sorted_by_id rows col =
     try_bind (collect_results (\<lambda>row. try_bind (ok_or (no_integer col) (Option.bind (row_get row col) json_i64)) (\<lambda>i. Ok (i, row))) rows) (\<lambda>keyed.
     Ok (sort_key fst keyed))"

text \<open>An id that is a decimal string is written as a number.\<close>

definition canonical_json_value :: "sink_env \<Rightarrow> string \<Rightarrow> string \<Rightarrow> json_value \<Rightarrow> (tiering_error, string) result" where
  "canonical_json_value env col id_col v = (case v of
       JString s \<Rightarrow> (case (col = id_col, json_i64 v) of
           (True, Some i) \<Rightarrow> Ok (dec_int i)
         | _ \<Rightarrow> map_err TierCold (sn_to_string env v))
     | _ \<Rightarrow> map_err TierCold (sn_to_string env v))"

definition canonical_member :: "sink_env \<Rightarrow> string \<Rightarrow> string \<times> json_value \<Rightarrow> (tiering_error, string) result" where
  "canonical_member env id_col m =
     try_bind (map_err TierCold (sn_to_string env (JString (fst m)))) (\<lambda>key.
     try_bind (canonical_json_value env (fst m) id_col (snd m)) (\<lambda>v. Ok (key @ '':'' @ v)))"

definition canonical_line :: "sink_env \<Rightarrow> string \<Rightarrow> db_row \<Rightarrow> (tiering_error, string) result" where
  "canonical_line env id_col row =
     try_bind (collect_results (canonical_member env id_col) (sort_key fst (row_iter row))) (\<lambda>ms.
     Ok (''{'' @ str_join '','' ms @ ''}'' @ [CHR 0x0A]))"

definition canonical_ndjson :: "sink_env \<Rightarrow> db_row list \<Rightarrow> string \<Rightarrow> (tiering_error, string) result" where
  "canonical_ndjson env rows id_col = try_bind (collect_results (canonical_line env id_col) rows) (\<lambda>ls. Ok (concat ls))"

definition chunk_digest_of :: "sink_env \<Rightarrow> db_row list \<Rightarrow> string \<Rightarrow> u32 option \<Rightarrow> (tiering_error, chunk_digest) result" where
  "chunk_digest_of env rows col sample =
     try_bind (sorted_by_id rows col) (\<lambda>keyed.
     if keyed = [] then Err (TierCold ''cannot write an empty chunk'')
     else try_bind (canonical_ndjson env (map snd keyed) col) (\<lambda>body.
       try_bind (case sample of
           Some rate \<Rightarrow> if sn_rate_positive env rate
             then let picked = pick_sample keyed (sn_step env rate) in
               try_bind (canonical_ndjson env picked col) (\<lambda>b. Ok (sha256_hex env b, length picked))
             else Ok ([], 0)
         | None \<Rightarrow> Ok ([], 0)) (\<lambda>(sum, n).
       Ok \<lparr> cd_checksum = sha256_hex env body, cd_sample_checksum = sum, cd_sample_rows = n,
            cd_low_id = fst (hd keyed), cd_high_id = fst (last keyed) \<rparr>)))"

definition row_literal :: "sink_env \<Rightarrow> db_row \<Rightarrow> (tiering_error, string) result" where
  "row_literal env row = try_bind (collect_results (\<lambda>m. render_sql_value env (snd m)) (row_iter row)) (\<lambda>vs. Ok (''('' @ str_join '', '' vs @ '')''))"

definition metadata_sql :: "string \<Rightarrow> string \<Rightarrow> nat \<Rightarrow> chunk_digest \<Rightarrow> string" where
  "metadata_sql table part n d =
     ''INSERT INTO '' @ CHECKSUM_TABLE @ '' (`table`, `partition`, `chunk`, `checksum`, `sample_checksum`, `sample_rows`, `low_id`, `high_id`) VALUES (''
     @ sql_string table @ '', '' @ sql_string part @ '', '' @ dec_nat n @ '', '' @ sql_string (cd_checksum d) @ '', ''
     @ sql_string (cd_sample_checksum d) @ '', '' @ dec_nat (cd_sample_rows d) @ '', '' @ dec_int (cd_low_id d) @ '', '' @ dec_int (cd_high_id d) @ '')''"

definition ch_write_chunk ::
  "sink_env \<Rightarrow> 'w clickhouse_sink \<Rightarrow> string \<Rightarrow> string \<Rightarrow> nat \<Rightarrow> db_row list \<Rightarrow> (tiering_error, 'w, string) act" where
  "ch_write_chunk env s table part n rows =
     act_bind (act_lift (table_spec ''ClickHouse'' (cs_tables s) table)) (\<lambda>spec.
     act_bind (act_lift (validate_ident part)) (\<lambda>_.
     act_bind (act_lift (chunk_digest_of env rows (snd spec) (cs_verify_sample s))) (\<lambda>d.
     act_bind (act_lift (collect_results (row_literal env) rows)) (\<lambda>lits.
     act_bind (ensure_metadata_table s) (\<lambda>_.
     act_bind (tier_db (ex_execute (cs_client s) (''INSERT INTO `'' @ table @ ''` VALUES '' @ str_join '', '' lits))) (\<lambda>_.
     act_bind (tier_db (ex_execute (cs_client s) (metadata_sql table part n d))) (\<lambda>_.
     act_ok (cd_checksum d))))))))"

definition meta_sql :: "string \<Rightarrow> string \<Rightarrow> nat \<Rightarrow> string" where
  "meta_sql table part n =
     ''SELECT `checksum`, `sample_checksum`, `sample_rows`, `low_id`, `high_id` FROM '' @ CHECKSUM_TABLE @ '' FINAL WHERE `table` = ''
     @ sql_string table @ '' AND `partition` = '' @ sql_string part @ '' AND `chunk` = '' @ dec_nat n"

definition cold_range_sql :: "string \<Rightarrow> string \<Rightarrow> int \<Rightarrow> int \<Rightarrow> string" where
  "cold_range_sql table col low high =
     ''SELECT * FROM `'' @ table @ ''` FINAL WHERE `'' @ col @ ''` >= '' @ dec_int low @ '' AND `'' @ col @ ''` <= '' @ dec_int high
     @ '' ORDER BY `'' @ col @ ''` SETTINGS output_format_json_quote_64bit_integers = 0''"

definition meta_field :: "db_row \<Rightarrow> string \<Rightarrow> (json_value \<Rightarrow> 'a option) \<Rightarrow> (tiering_error, 'a) result" where
  "meta_field row col f = ok_or (TierCold (''checksum row has no `'' @ col @ ''`'')) (Option.bind (row_get row col) f)"

definition ch_check_sample ::
  "sink_env \<Rightarrow> 'w clickhouse_sink \<Rightarrow> string \<Rightarrow> string \<Rightarrow> nat \<Rightarrow> db_row \<Rightarrow> (tiering_error, 'w, bool) act" where
  "ch_check_sample env s table col step meta =
     act_bind (act_lift (meta_field meta ''sample_checksum'' as_str)) (\<lambda>sum.
     act_bind (act_lift (meta_field meta ''sample_rows'' json_u64)) (\<lambda>n.
     act_bind (act_lift (meta_field meta ''low_id'' json_i64)) (\<lambda>low.
     act_bind (act_lift (meta_field meta ''high_id'' json_i64)) (\<lambda>high.
     act_bind (tier_db (ex_query (cs_client s) (cold_range_sql table col low high))) (\<lambda>cold.
     act_lift (try_bind (sorted_by_id cold col) (\<lambda>keyed.
       let picked = pick_sample keyed step in
       if length picked \<noteq> n then Ok False
       else try_bind (canonical_ndjson env picked col) (\<lambda>b. Ok (sha256_hex env b = sum)))))))))"

definition ch_verify_chunk ::
  "sink_env \<Rightarrow> 'w clickhouse_sink \<Rightarrow> string \<Rightarrow> string \<Rightarrow> nat \<Rightarrow> string \<Rightarrow> (tiering_error, 'w, bool) act" where
  "ch_verify_chunk env s table part n checksum =
     act_bind (act_lift (table_spec ''ClickHouse'' (cs_tables s) table)) (\<lambda>spec.
     act_bind (act_lift (validate_ident part)) (\<lambda>_.
     act_bind (tier_db (ex_query (cs_client s) (meta_sql table part n))) (\<lambda>rows.
     case rows of [] \<Rightarrow> act_ok False
     | meta # _ \<Rightarrow>
         act_bind (act_lift (meta_field meta ''checksum'' as_str)) (\<lambda>stored.
         if stored \<noteq> checksum then act_ok False
         else (case cs_verify_sample s of None \<Rightarrow> act_ok True
           | Some rate \<Rightarrow> ch_check_sample env s table (snd spec) (sn_step env rate) meta)))))"

definition ch_health_check :: "'w clickhouse_sink \<Rightarrow> (tiering_error, 'w, unit) act" where
  "ch_health_check s = act_bind (tier_db (ex_query (cs_client s) ''SELECT 1'')) (\<lambda>_. act_ok ())"

definition ch_cold_sink :: "sink_env \<Rightarrow> 'w clickhouse_sink \<Rightarrow> 'w cold_sink" where
  "ch_cold_sink env s = \<lparr> sk_write = ch_write_chunk env s, sk_verify = ch_verify_chunk env s, sk_health_check = ch_health_check s \<rparr>"

text \<open>
  Without sampling a verification is one query of the table of checksums: it says yes whenever the row the
  sink wrote there has the checksum the sink computed from the hot rows, whatever rows ClickHouse holds.
\<close>

lemma clickhouse_verifies_metadata_only:
  assumes "cs_verify_sample s = None" "table_spec ''ClickHouse'' (cs_tables s) t = Inr spec" "validate_ident p = Inr ()"
    and "ex_query (cs_client s) (meta_sql t p n) w = (Inr (meta # ms), w')" "row_get meta ''checksum'' = Some (JString c)"
  shows "ch_verify_chunk env s t p n c w = (Inr True, w')"
  using assms by (simp add: ch_verify_chunk_def tier_db_def act_bind_def act_map_err_def meta_field_def as_str_def)

end
