(* ===== verification/TierS3.thy ===== *)
theory TierS3
  imports TierSink TierProofs
begin

text \<open>
  The S3 sink keeps the contract the archive loop relies on, and what becomes of a chunk whose rows
  changed after its object was written.
\<close>

section \<open>The store\<close>

text \<open>
  What the sink relies on of a storage client: an upload changes at most the object it names, a
  download returns the object, a listing names the objects under the prefix. \<open>rest\<close> is the state the
  client does not reach.
\<close>

definition put_law :: "('w \<Rightarrow> string \<Rightarrow> string \<Rightarrow> string option) \<Rightarrow> ('w \<Rightarrow> 'r) \<Rightarrow> 'w storage_client \<Rightarrow> bool" where
  "put_law objs rest c \<longleftrightarrow> (\<forall>b k d w. rest (snd (sc_put c b k d w)) = rest w \<and>
     (\<forall>b' k'. (b', k') \<noteq> (b, k) \<longrightarrow> objs (snd (sc_put c b k d w)) b' k' = objs w b' k') \<and>
     (fst (sc_put c b k d w) = Ok () \<longrightarrow> objs (snd (sc_put c b k d w)) b k = Some d))"

definition get_law :: "('w \<Rightarrow> string \<Rightarrow> string \<Rightarrow> string option) \<Rightarrow> ('w \<Rightarrow> 'r) \<Rightarrow> 'w storage_client \<Rightarrow> bool" where
  "get_law objs rest c \<longleftrightarrow> (\<forall>b k w. rest (snd (sc_get c b k w)) = rest w \<and> objs (snd (sc_get c b k w)) = objs w \<and>
     (\<forall>d. fst (sc_get c b k w) = Ok d \<longrightarrow> objs w b k = Some d))"

definition list_law :: "('w \<Rightarrow> string \<Rightarrow> string \<Rightarrow> string option) \<Rightarrow> ('w \<Rightarrow> 'r) \<Rightarrow> 'w storage_client \<Rightarrow> bool" where
  "list_law objs rest c \<longleftrightarrow> (\<forall>b k w. rest (snd (sc_list c b k w)) = rest w \<and> objs (snd (sc_list c b k w)) = objs w \<and>
     (\<forall>ks. fst (sc_list c b k w) = Ok ks \<longrightarrow> (\<forall>k'. k' \<in> set ks \<longleftrightarrow> objs w b k' \<noteq> None \<and> take (length k) k' = k)))"

definition storage_laws :: "('w \<Rightarrow> string \<Rightarrow> string \<Rightarrow> string option) \<Rightarrow> ('w \<Rightarrow> 'r) \<Rightarrow> 'w storage_client \<Rightarrow> bool" where
  "storage_laws objs rest c \<longleftrightarrow> put_law objs rest c \<and> get_law objs rest c \<and> list_law objs rest c"

definition same_store :: "('w \<Rightarrow> string \<Rightarrow> string \<Rightarrow> string option) \<Rightarrow> ('w \<Rightarrow> 'r) \<Rightarrow> 'w \<Rightarrow> 'w \<Rightarrow> bool" where
  "same_store objs rest w w' \<longleftrightarrow> rest w' = rest w \<and> objs w' = objs w"

interpretation ss: kept_relation "same_store objs rest" for objs rest
  by unfold_locales (simp_all add: same_store_def)

lemma list_same: "storage_laws objs rest (s3_client s) \<Longrightarrow> keeps (same_store objs rest) (s3_list s k)"
  unfolding s3_list_def by (rule keeps_map_err) (simp add: keeps_def same_store_def storage_laws_def list_law_def)

lemma exists_post:
  assumes "storage_laws objs rest (s3_client s)"
  shows "act_post (s3_exists s k) (\<lambda>r w'. same_store objs rest w w' \<and> (\<forall>b. r = Inr b \<longrightarrow> b = (objs w (s3_bucket s) k \<noteq> None))) w"
proof -
  have "act_post (s3_list s k) (\<lambda>r w'. same_store objs rest w w' \<and> (\<forall>ks. r = Inr ks \<longrightarrow> k \<in> set ks \<longleftrightarrow> objs w (s3_bucket s) k \<noteq> None)) w"
    using assms by (simp add: s3_list_def act_post_def fst_act_map_err map_err_Inr_iff storage_laws_def list_law_def same_store_def)
  then show ?thesis unfolding s3_exists_def by (rule act_post_seq) (simp_all add: act_post_simps)
qed

lemma get_post:
  assumes "storage_laws objs rest (s3_client s)"
  shows "act_post (s3_get s k) (\<lambda>r w'. same_store objs rest w w' \<and> (\<forall>d. r = Inr d \<longrightarrow> objs w (s3_bucket s) k = Some d)) w"
  using assms by (simp add: s3_get_def act_post_def fst_act_map_err map_err_Inr_iff storage_laws_def get_law_def same_store_def)

lemma put_post:
  assumes "storage_laws objs rest (s3_client s)"
  shows "act_post (s3_put s k d) (\<lambda>r w'. rest w' = rest w \<and>
    (\<forall>b' k'. (b', k') \<noteq> (s3_bucket s, k) \<longrightarrow> objs w' b' k' = objs w b' k') \<and> (r = Inr () \<longrightarrow> objs w' (s3_bucket s) k = Some d)) w"
  using assms by (simp add: s3_put_def act_post_def fst_act_map_err map_err_Inr_iff storage_laws_def put_law_def same_store_def)

section \<open>Keys\<close>

lemma ident_no_slash:
  assumes "validate_ident s = Inr ()"
  shows "CHR ''/'' \<notin> set s"
proof -
  have ok: "is_ascii_alnum c \<or> c = CHR ''_''" if "c \<in> set s" for c
    using assms that by (cases s) (auto simp: validate_ident_def list_all_iff is_ascii_alnum_def Let_def split: if_splits)
  show ?thesis using ok [of "CHR ''/''"] by (auto simp: is_ascii_alnum_def is_ascii_alpha_def)
qed

lemma split_at_slash:
  assumes "CHR ''/'' \<notin> set a" "CHR ''/'' \<notin> set b" "a @ CHR ''/'' # x = b @ CHR ''/'' # y"
  shows "a = b \<and> x = y"
  using assms(3,1,2) by (induction a b rule: list_induct2') auto

lemma chunk_key_inj:
  assumes "validate_ident t = Inr ()" "validate_ident p = Inr ()" "validate_ident t' = Inr ()" "validate_ident p' = Inr ()"
    and "chunk_key s t p n = chunk_key s t' p' n'"
  shows "t = t' \<and> p = p' \<and> n = n'"
proof -
  have "t @ CHR ''/'' # p @ CHR ''/'' # dec_nat n @ ''.ndjson'' = t' @ CHR ''/'' # p' @ CHR ''/'' # dec_nat n' @ ''.ndjson''"
    using assms(5) by (simp add: chunk_key_def base_key_def)
  from split_at_slash [OF ident_no_slash [OF assms(1)] ident_no_slash [OF assms(3)] this]
  have "t = t'" and rest: "p @ CHR ''/'' # dec_nat n @ ''.ndjson'' = p' @ CHR ''/'' # dec_nat n' @ ''.ndjson''" by simp_all
  from split_at_slash [OF ident_no_slash [OF assms(2)] ident_no_slash [OF assms(4)] rest]
  show ?thesis using \<open>t = t'\<close> by (simp add: dec_nat_inj)
qed

lemma chunk_not_manifest: "chunk_key s t p n \<noteq> manifest_key s' t' p' n'"
proof
  assume "chunk_key s t p n = manifest_key s' t' p' n'"
  then have "take 5 (rev (chunk_key s t p n)) = take 5 (rev (manifest_key s' t' p' n'))" by simp
  then show False by (simp add: chunk_key_def manifest_key_def MANIFEST_SUFFIX_def)
qed

section \<open>Writing\<close>

text \<open>The object the sink builds for the rows of a table.\<close>

definition s3_object :: "sink_env \<Rightarrow> 'w s3_sink \<Rightarrow> string \<Rightarrow> db_row list \<Rightarrow> (tiering_error, chunk_object) result" where
  "s3_object env s t rows = try_bind (table_spec ''S3'' (s3_tables s) t) (\<lambda>spec. build_chunk env rows (snd spec) (s3_verify_sample s))"

definition wrote :: "('w \<Rightarrow> string \<Rightarrow> string \<Rightarrow> string option) \<Rightarrow> ('w \<Rightarrow> 'r) \<Rightarrow> string \<Rightarrow> string set \<Rightarrow> 'w \<Rightarrow> 'w \<Rightarrow> bool" where
  "wrote objs rest b ks w w' \<longleftrightarrow> rest w' = rest w \<and> (\<forall>b' k'. b' \<noteq> b \<or> k' \<notin> ks \<longrightarrow> objs w' b' k' = objs w b' k')"

interpretation wr: kept_relation "wrote objs rest b ks" for objs rest b ks
  by unfold_locales (simp_all add: wrote_def)

lemma put_wrote:
  assumes "storage_laws objs rest (s3_client s)" "k \<in> ks"
  shows "keeps (wrote objs rest (s3_bucket s) ks) (s3_put s k d)"
proof (unfold keeps_def, intro allI)
  fix w
  show "wrote objs rest (s3_bucket s) ks w (snd (s3_put s k d w))"
    using put_post [OF assms(1), of k d w] assms(2) by (auto simp: act_post_def wrote_def)
qed

lemma exists_wrote:
  assumes "storage_laws objs rest (s3_client s)"
  shows "keeps (wrote objs rest b ks) (s3_exists s k)"
proof -
  have "keeps (wrote objs rest b ks) (s3_list s k)"
    by (rule keeps_weaken [OF list_same [OF assms]]) (simp add: same_store_def wrote_def)
  then show ?thesis unfolding s3_exists_def by (intro wr.keeps_intros)
qed

lemma write_keys:
  assumes "storage_laws objs rest (s3_client s)"
  shows "keeps (wrote objs rest (s3_bucket s) {chunk_key s t p n, manifest_key s t p n}) (s3_write_chunk env s t p n rows)"
  unfolding s3_write_chunk_def
  by (intro wr.keeps_intros exists_wrote put_wrote assms) simp_all

lemma write_valid:
  assumes "s3_write_chunk env s t p n rows w = (r, w')" "validate_ident t \<noteq> Inr () \<or> validate_ident p \<noteq> Inr ()"
  shows "w' = w \<and> (\<forall>c. r \<noteq> Inr c)"
  using assms by (auto simp: s3_write_chunk_def act_bind_def act_lift_def table_spec_def try_bind_def split: sum.splits prod.splits)

lemma write_sum:
  assumes "s3_write_chunk env s t p n rows w = (Inr c, w')"
  shows "\<exists>ob. s3_object env s t rows = Inr ob \<and> c = co_checksum ob"
  using assms by (auto simp: s3_write_chunk_def act_inv s3_object_def)

text \<open>What the sink leaves of its chunks: the view of the archive loop.\<close>

definition s3_view ::
  "('w \<Rightarrow> string \<Rightarrow> string \<Rightarrow> string option) \<Rightarrow> sink_env \<Rightarrow> 'w s3_sink \<Rightarrow> ('w \<Rightarrow> string \<Rightarrow> string \<Rightarrow> db_row list option) \<Rightarrow>
   ('w \<Rightarrow> string \<Rightarrow> string \<Rightarrow> nat \<Rightarrow> archive_job_state option) \<Rightarrow> 'w tier_view" where
  "s3_view objs env s hot jobs =
     \<lparr> vw_hot = hot, vw_jobs = jobs,
       vw_cold = (\<lambda>w t p n. if validate_ident t = Ok () \<and> validate_ident p = Ok () then objs w (s3_bucket s) (chunk_key s t p n) else None),
       vw_sum = (\<lambda>t rows. case s3_object env s t rows of Inr ob \<Rightarrow> co_checksum ob | Inl _ \<Rightarrow> []),
       vw_digest = sha256_hex env \<rparr>"

lemma verify_store:
  assumes "storage_laws objs rest (s3_client s)"
  shows "act_post (s3_verify_chunk env s t p n c) (\<lambda>r w'. same_store objs rest w w' \<and>
    (r = Inr True \<longrightarrow> validate_ident t = Inr () \<and> validate_ident p = Inr () \<and>
       (\<exists>x. objs w (s3_bucket s) (chunk_key s t p n) = Some x \<and> sha256_hex env x = c))) w"
    (is "act_post _ ?Q w")
proof -
  let ?G = "\<lambda>x. validate_ident t = Inr () \<and> validate_ident p = Inr () \<and> objs w (s3_bucket s) (chunk_key s t p n) = Some x \<and> sha256_hex env x = c"
  have sample: "act_post (act_bind (s3_exists s k) (\<lambda>there. if \<not> there then act_ok False
       else act_bind (s3_get s k) (\<lambda>enc. act_bind (act_lift (f enc)) (\<lambda>m.
         if \<not> g m then act_ok False else act_lift (h m))))) ?Q w1" if "same_store objs rest w w1" "?G x" for w1 k f g h x
  proof (rule act_post_seq [OF exists_post [OF assms]], goal_cases)
    case (2 b w2)
    have s2: "same_store objs rest w w2" using ss.kept_trans [OF that(1)] 2 by blast
    have "act_post (act_bind (s3_get s k) (\<lambda>enc. act_bind (act_lift (f enc)) (\<lambda>m. if \<not> g m then act_ok False else act_lift (h m)))) ?Q w2"
    proof (rule act_post_seq [OF get_post [OF assms]], goal_cases)
      case (2 enc w3)
      have s3: "same_store objs rest w w3" using ss.kept_trans [OF s2] 2 by blast
      show ?case by (rule act_post_liftI) (use s3 that(2) in \<open>auto simp: act_post_simps\<close>)
    qed (use ss.kept_trans [OF s2] in auto)
    then show ?case using s2 that(2) by (auto simp: act_post_simps)
  qed (use ss.kept_trans [OF that(1)] in auto)
  show ?thesis unfolding s3_verify_chunk_def Let_def
  proof (rule act_post_liftI, goal_cases)
    case (2 spec)
    then have t: "validate_ident t = Inr ()" by (auto simp: table_spec_def try_bind_Inr_iff)
    show ?case
    proof (rule act_post_liftI, goal_cases)
      case (2 u)
      show ?case
      proof (rule act_post_seq [OF get_post [OF assms]], goal_cases)
        case (2 x w1)
        then show ?case using t \<open>validate_ident p = Inr u\<close> sample [of w1 x] by (auto simp: act_post_simps)
      qed auto
    qed (auto simp: ss.kept_refl)
  qed (auto simp: ss.kept_refl)
qed

lemma sink_contract:
  assumes "storage_laws objs (\<lambda>w. (hot w, jobs w)) (s3_client s)"
  shows "sink_laws (s3_view objs env s hot jobs) (s3_cold_sink env s)"
proof (unfold sink_laws_def, intro conjI allI impI, goal_cases)
  case (1 t p n rows w r w')
  then show ?case using keepsD [OF write_keys [OF assms]] by (auto simp: s3_cold_sink_def wrote_def s3_view_def)
next
  case (2 t p n rows w r w')
  then show ?case using keepsD [OF write_keys [OF assms]] by (auto simp: s3_cold_sink_def wrote_def s3_view_def)
next
  case (3 t p n rows w r w' t' p' n')
  then have run: "s3_write_chunk env s t p n rows w = (r, w')" by (simp add: s3_cold_sink_def)
  show ?case
  proof (cases "validate_ident t = Inr () \<and> validate_ident p = Inr ()")
    case True
    have "objs w' (s3_bucket s) (chunk_key s t' p' n') = objs w (s3_bucket s) (chunk_key s t' p' n')"
      if "validate_ident t' = Inr ()" "validate_ident p' = Inr ()"
    proof -
      have "chunk_key s t' p' n' \<noteq> chunk_key s t p n" using chunk_key_inj [of t' p' t p s n' n] that True 3(2) by blast
      then show ?thesis using keepsD [OF write_keys [OF assms] run] chunk_not_manifest [of s t' p' n' s t p n]
        by (simp add: wrote_def)
    qed
    then show ?thesis by (simp add: s3_view_def)
  next
    case False
    then show ?thesis using write_valid [OF run] by auto
  qed
next
  case (4 t p n rows w r w' c)
  then show ?case using write_sum [of env s t p n rows w c w'] by (auto simp: s3_cold_sink_def s3_view_def)
next
  case (5 t p n c w r w')
  then show ?case using act_postD [OF verify_store [OF assms, of env t p n c w]]
    by (auto simp: s3_cold_sink_def s3_view_def same_tier_def same_store_def fun_eq_iff)
next
  case (6 t p n c w r w')
  then show ?case using act_postD [OF verify_store [OF assms, of env t p n c w]] by (auto simp: s3_cold_sink_def s3_view_def)
qed

section \<open>Properties\<close>

text \<open>
  The S3 sink keeps the contract of the archive loop over any storage client that stores what it is
  given: a write touches no other chunk and returns the SHA-256 of the lines of the rows in the order
  of their ids, and a verification that says yes has found an object with the checksum asked for.
  Rows and jobs are not touched.
\<close>

theorem s3_sink_meets_contract:
  assumes "storage_laws objs (\<lambda>w. (hot w, jobs w)) (s3_client s)"
  shows "sink_laws (s3_view objs env s hot jobs) (s3_cold_sink env s)"
  using assms by (rule sink_contract)

lemma write_object:
  assumes laws: "storage_laws objs rest (s3_client s)" and run: "s3_write_chunk env s t p n rows w = (Inr c, w')"
    and ob: "s3_object env s t rows = Inr ob"
  shows "objs w' (s3_bucket s) (chunk_key s t p n) = Some (case objs w (s3_bucket s) (chunk_key s t p n) of None \<Rightarrow> co_ndjson ob | Some old \<Rightarrow> old)"
proof -
  let ?k = "chunk_key s t p n" and ?b = "s3_bucket s"
  obtain there w1 w2 enc where steps: "s3_exists s ?k w = (Inr there, w1)"
    "(if there then act_ok () else s3_put s ?k (co_ndjson ob)) w1 = (Inr (), w2)" "s3_put s (manifest_key s t p n) enc w2 = (Inr (), w')"
    using run ob by (auto simp: s3_write_chunk_def act_inv s3_object_def try_bind_Inr_iff)
  have there: "there \<longleftrightarrow> objs w ?b ?k \<noteq> None" "objs w1 = objs w"
    using act_postD [OF exists_post [OF laws] steps(1)] by (simp_all add: same_store_def)
  have "objs w2 ?b ?k = Some (case objs w ?b ?k of None \<Rightarrow> co_ndjson ob | Some old \<Rightarrow> old)"
  proof (cases there)
    case True
    then show ?thesis using steps(2) there by auto
  next
    case False
    then show ?thesis using act_postD [OF put_post [OF laws], of ?k "co_ndjson ob" w1 "Inr ()" w2] steps(2) there by auto
  qed
  moreover have "objs w' ?b ?k = objs w2 ?b ?k"
    using act_postD [OF put_post [OF laws] steps(3)] chunk_not_manifest [of s t p n s t p n] by simp
  ultimately show ?thesis by simp
qed

text \<open>
  C34. The S3 sink verifies what is in the store, and never replaces it: after a write that succeeded, a
  verification without sampling that returns says yes if the chunk had no object or one with the same
  digest, and no otherwise; the object is the one that was there before, if there was one. So
  a chunk whose rows changed after its object was written can never be verified.
\<close>

theorem s3_verify_after_write:
  assumes laws: "storage_laws objs rest (s3_client s)" and "s3_verify_sample s = None"
    and wrt: "s3_write_chunk env s t p n rows w = (Ok c, w1)" and ver: "s3_verify_chunk env s t p n c w1 = (Ok good, w2)"
    and before: "before = objs w (s3_bucket s) (chunk_key s t p n)"
  shows "\<exists>ob. s3_object env s t rows = Ok ob \<and> c = sha256_hex env (co_ndjson ob) \<and>
    objs w2 (s3_bucket s) (chunk_key s t p n) = Some (case before of None \<Rightarrow> co_ndjson ob | Some old \<Rightarrow> old) \<and>
    good = (case before of None \<Rightarrow> True | Some old \<Rightarrow> sha256_hex env old = c)"
proof -
  obtain ob where ob: "s3_object env s t rows = Inr ob" "c = co_checksum ob" using write_sum [OF wrt] by blast
  have sum: "co_checksum ob = sha256_hex env (co_ndjson ob)"
    using ob(1) assms(2) by (auto simp: s3_object_def build_chunk_def try_bind_Inr_iff Let_def split: if_splits)
  note stored = write_object [OF laws wrt ob(1)]
  obtain x w3 where get: "s3_get s (chunk_key s t p n) w1 = (Inr x, w3)" "(good, w2) = (sha256_hex env x = c, w3)"
    using ver assms(2) by (auto simp: s3_verify_chunk_def act_inv split: if_splits)
  have "objs w1 (s3_bucket s) (chunk_key s t p n) = Some x" "objs w3 = objs w1"
    using act_postD [OF get_post [OF laws] get(1)] by (simp_all add: same_store_def)
  then show ?thesis using ob sum stored get(2) before by (auto split: option.splits)
qed

section \<open>Witnesses\<close>

text \<open>A store in memory: the objects by bucket and key.\<close>

type_synonym mem_store = "((string \<times> string) \<times> string) list"

definition mem_objects :: "mem_store \<Rightarrow> string \<Rightarrow> string \<Rightarrow> string option" where
  "mem_objects w b k = map_of w (b, k)"

definition mem_storage :: "mem_store storage_client" where
  "mem_storage = \<lparr> sc_put = (\<lambda>b k d w. (Ok (), ((b, k), d) # w)),
     sc_get = (\<lambda>b k w. (case map_of w (b, k) of None \<Rightarrow> Err ''no such key'' | Some d \<Rightarrow> Ok d, w)),
     sc_list = (\<lambda>b k w. (Ok (filter (\<lambda>k'. take (length k) k' = k) (map (snd \<circ> fst) (filter (\<lambda>e. fst (fst e) = b) w))), w)) \<rparr>"

lemma mem_storage_laws: "storage_laws mem_objects (\<lambda>_. ()) mem_storage"
proof -
  have "k' \<in> (snd \<circ> fst) ` {e \<in> set w. fst (fst e) = b} \<longleftrightarrow> map_of w (b, k') \<noteq> None" for k' b and w :: mem_store
    by (force simp: map_of_eq_None_iff image_iff)
  then show ?thesis
    by (auto simp: storage_laws_def put_law_def get_law_def list_law_def mem_storage_def mem_objects_def split: option.splits)
qed

text \<open>A stand-in for the text of rows and for the digest.\<close>

definition mem_sink_env :: sink_env where
  "mem_sink_env = \<lparr> sn_to_string = (\<lambda>v. Ok (case v of JObject [(_, JNumber (PosInt k))] \<Rightarrow> dec_nat k | _ \<Rightarrow> [])), sn_number_text = (\<lambda>_. []),
     sn_from_str = (\<lambda>_. Err []), sn_manifest_text = (\<lambda>m. Ok (mf_checksum m)), sn_manifest_of = (\<lambda>_. Err []),
     sn_sha256 = map of_char, sn_not_utf8 = (\<lambda>_. None), sn_rate_ok = (\<lambda>_. True), sn_rate_zero = (\<lambda>_. False),
     sn_rate_positive = (\<lambda>_. True), sn_rate_text = (\<lambda>_. []), sn_step = (\<lambda>_. 1) \<rparr>"

definition mem_sink :: "mem_store s3_sink" where
  "mem_sink = \<lparr> s3_client = mem_storage, s3_bucket = ''b'', s3_prefix = [], s3_tables = [(''t'', ''id'')], s3_verify_sample = None \<rparr>"

definition id_row :: "nat \<Rightarrow> db_row" where
  "id_row k = \<lparr> row_columns = [''id''], row_values = [JNumber (PosInt k)] \<rparr>"

lemma digit_chars: "char_of (48 :: nat) = CHR ''0''" "char_of (51 :: nat) = CHR ''3''" "char_of (55 :: nat) = CHR ''7''"
  "char_of (56 :: nat) = CHR ''8''" "char_of (97 :: nat) = CHR ''a''"
  by (simp_all add: char_of_def bit_0)

lemmas mem_sink_simps = s3_write_chunk_def s3_verify_chunk_def table_spec_def validate_ident_def is_ascii_alpha_def is_ascii_alnum_def
  mem_sink_def mem_sink_env_def mem_storage_def build_chunk_def keyed_json_def row_json_def map_insert_def row_iter_def row_get_def id_row_def
  json_i64_def number_as_i64_def join_lines_def sha256_hex_def sha_digit_def digit_char_def ensure_chunk_size_def MAX_CHUNK_BYTES_def
  s3_exists_def s3_list_def s3_put_def s3_get_def chunk_key_def base_key_def manifest_key_def MANIFEST_SUFFIX_def manifest_for_def
  dec_nat.simps act_bind_def act_map_err_def i64_max_def Let_def digit_chars

theorem s3_sink_meets_contract_witness:
  "sink_laws (s3_view mem_objects mem_sink_env mem_sink (\<lambda>_ _ _. None) (\<lambda>_ _ _ _. None)) (s3_cold_sink mem_sink_env mem_sink) \<and>
   fst (s3_write_chunk mem_sink_env mem_sink ''t'' ''p'' 0 [id_row 7] []) = Ok ''370a''"
proof
  have "storage_laws mem_objects (\<lambda>w. ((\<lambda>_ _. None :: db_row list option), (\<lambda>_ _ _. None :: archive_job_state option))) (s3_client mem_sink)"
    using mem_storage_laws by (simp add: mem_sink_def storage_laws_def put_law_def get_law_def list_law_def)
  from s3_sink_meets_contract [OF this]
  show "sink_laws (s3_view mem_objects mem_sink_env mem_sink (\<lambda>_ _ _. None) (\<lambda>_ _ _ _. None)) (s3_cold_sink mem_sink_env mem_sink)" .
  show "fst (s3_write_chunk mem_sink_env mem_sink ''t'' ''p'' 0 [id_row 7] []) = Ok ''370a''" by (simp add: mem_sink_simps del: set_filter set_map)
qed

text \<open>Row 7 was archived, then the chunk became row 8.\<close>

theorem s3_verify_after_write_witness:
  "\<exists>c w1 w2. s3_write_chunk mem_sink_env mem_sink ''t'' ''p'' 0 [id_row 8] [((''b'', ''t/p/0.ndjson''), [CHR ''7'', CHR 0x0A])] = (Ok c, w1) \<and>
     s3_verify_chunk mem_sink_env mem_sink ''t'' ''p'' 0 c w1 = (Ok False, w2) \<and>
     mem_objects w2 ''b'' ''t/p/0.ndjson'' = Some [CHR ''7'', CHR 0x0A]"
proof -
  let ?w = "[((''b'', ''t/p/0.ndjson''), [CHR ''7'', CHR 0x0A])]"
  let ?w1 = "((''b'', ''t/p/0.manifest.json''), ''380a'') # ?w"
  have wrt: "s3_write_chunk mem_sink_env mem_sink ''t'' ''p'' 0 [id_row 8] ?w = (Ok ''380a'', ?w1)" by (simp add: mem_sink_simps del: set_filter set_map)
  have ver: "s3_verify_chunk mem_sink_env mem_sink ''t'' ''p'' 0 ''380a'' ?w1 = (Ok False, ?w1)" by (simp add: mem_sink_simps del: set_filter set_map)
  have key: "chunk_key mem_sink ''t'' ''p'' 0 = ''t/p/0.ndjson''" by (simp add: mem_sink_simps del: set_filter set_map)
  have laws: "storage_laws mem_objects (\<lambda>_. ()) (s3_client mem_sink)" using mem_storage_laws by (simp add: mem_sink_def)
  have "mem_objects ?w1 ''b'' ''t/p/0.ndjson'' = Some [CHR ''7'', CHR 0x0A]"
    using s3_verify_after_write [OF laws _ wrt ver refl] by (auto simp: key mem_objects_def mem_sink_def)
  then show ?thesis using wrt ver by blast
qed

end
