(* ===== verification/TierQuery.thy ===== *)
theory TierQuery
  imports TierSink
begin

text \<open>
  \<^verbatim>\<open>ecat-data-tiering\<close>: the query across the boundary between hot and cold (\<^verbatim>\<open>query.rs\<close>) and its
  ClickHouse side (\<^verbatim>\<open>query/clickhouse.rs\<close>). A page that is merged from a prefix of each side is
  the page of all rows.
\<close>

section \<open>Model\<close>

record 'w cold_query =
  cq_query_range :: "string \<Rightarrow> int \<Rightarrow> int \<Rightarrow> json_value list \<Rightarrow> nat \<Rightarrow> nat \<Rightarrow> (tiering_error, 'w, db_row list) act"

record tiered_table =
  td_name :: string
  td_time_col :: string
  td_id_col :: string
  td_hot_days :: nat

record 'w tiered_query =
  tq_hot :: "'w sql_executor"
  tq_cold :: "'w cold_query"
  tq_tables :: "tiered_table list"

datatype ordering = OLess | OEqual | OGreater

definition cmp_of :: "'a::linorder \<Rightarrow> 'a \<Rightarrow> ordering" where
  "cmp_of x y = (if x < y then OLess else if x = y then OEqual else OGreater)"

text \<open>\<open>qe_f64_cmp\<close> compares the doubles nearest to two numbers; \<open>qe_text\<close> is the text of a value.\<close>

record query_env =
  qe_f64_cmp :: "json_number \<Rightarrow> json_number \<Rightarrow> ordering option"
  qe_text :: "json_value \<Rightarrow> string"

fun type_rank :: "json_value \<Rightarrow> nat" where
  "type_rank (JNumber _) = 0"
| "type_rank (JString _) = 1"
| "type_rank (JBool _) = 2"
| "type_rank JNull = 3"
| "type_rank (JArray _) = 4"
| "type_rank (JObject _) = 5"

definition cmp_pk :: "query_env \<Rightarrow> json_value \<Rightarrow> json_value \<Rightarrow> ordering" where
  "cmp_pk qe a b = (case (a, b) of
       (JNumber m, JNumber n) \<Rightarrow> (case (number_as_i64 m, number_as_i64 n) of
           (Some i, Some j) \<Rightarrow> cmp_of i j
         | _ \<Rightarrow> (case qe_f64_cmp qe m n of Some c \<Rightarrow> c | None \<Rightarrow> OEqual))
     | (JString s, JString t) \<Rightarrow> cmp_of s t
     | _ \<Rightarrow> (case cmp_of (type_rank a) (type_rank b) of OEqual \<Rightarrow> cmp_of (qe_text qe a) (qe_text qe b) | c \<Rightarrow> c))"

text \<open>\<^verbatim>\<open>slice::sort_by\<close> is stable; \<^verbatim>\<open>Vec::dedup_by\<close> compares with the last element it has kept.\<close>

fun insert_by :: "('a \<Rightarrow> 'a \<Rightarrow> ordering) \<Rightarrow> 'a \<Rightarrow> 'a list \<Rightarrow> 'a list" where
  "insert_by c x [] = [x]"
| "insert_by c x (y # ys) = (if c x y = OGreater then y # insert_by c x ys else x # y # ys)"

definition sort_by :: "('a \<Rightarrow> 'a \<Rightarrow> ordering) \<Rightarrow> 'a list \<Rightarrow> 'a list" where
  "sort_by c xs = foldr (insert_by c) xs []"

fun dedup_by :: "('a \<Rightarrow> 'a \<Rightarrow> bool) \<Rightarrow> 'a list \<Rightarrow> 'a list" where
  "dedup_by same [] = []"
| "dedup_by same [x] = [x]"
| "dedup_by same (x # y # ys) = (if same y x then dedup_by same (x # ys) else x # dedup_by same (y # ys))"

definition keyed_row :: "string \<Rightarrow> db_row \<Rightarrow> (tiering_error, json_value \<times> db_row) result" where
  "keyed_row col row =
     try_bind (ok_or (TierState (''row has no `'' @ col @ ''` column'')) (row_get row col)) (\<lambda>key.
     if is_null key then Err (TierState (''row has a NULL `'' @ col @ ''` primary key'')) else Ok (key, row))"

definition sort_dedupe_paginate :: "query_env \<Rightarrow> tiered_table \<Rightarrow> db_row list \<Rightarrow> nat \<Rightarrow> nat \<Rightarrow> (tiering_error, db_row list) result" where
  "sort_dedupe_paginate qe table rows limit offset =
     try_bind (collect_results (keyed_row (td_id_col table)) rows) (\<lambda>keyed.
     let sorted_rows = sort_by (\<lambda>a b. cmp_pk qe (fst a) (fst b)) keyed;
         kept = dedup_by (\<lambda>a b. cmp_pk qe (fst a) (fst b) = OEqual) sorted_rows
     in Ok (map snd (take limit (drop offset kept))))"

definition tq_quote_ident :: "string \<Rightarrow> string" where
  "tq_quote_ident s = ''`'' @ s @ ''`''"

definition tq_as_i64 :: "nat \<Rightarrow> string \<Rightarrow> (tiering_error, int) result" where
  "tq_as_i64 n what = (if int n > i64_max then Err (TierConfig (what @ '' out of range: '' @ dec_nat n)) else Ok (int n))"

definition tq_fmt_time :: "'w tier_env \<Rightarrow> int \<Rightarrow> (tiering_error, string) result" where
  "tq_fmt_time env ts = map_err (\<lambda>e. TierState (''failed to format boundary: '' @ e)) (te_fmt_sql env ts)"

definition hot_range_sql :: "tiered_table \<Rightarrow> string" where
  "hot_range_sql t =
     ''SELECT * FROM '' @ tq_quote_ident (td_name t) @ '' WHERE '' @ tq_quote_ident (td_time_col t) @ '' >= ? AND ''
     @ tq_quote_ident (td_time_col t) @ '' <= ? ORDER BY '' @ tq_quote_ident (td_id_col t) @ '' LIMIT ? OFFSET ?''"

definition hot_range ::
  "'w tier_env \<Rightarrow> 'w tiered_query \<Rightarrow> tiered_table \<Rightarrow> int \<Rightarrow> int \<Rightarrow> nat \<Rightarrow> nat \<Rightarrow> (tiering_error, 'w, db_row list) act" where
  "hot_range env q t from_ts to_ts limit offset =
     act_bind (act_lift (tq_fmt_time env from_ts)) (\<lambda>a. act_bind (act_lift (tq_fmt_time env to_ts)) (\<lambda>b.
     act_bind (act_lift (tq_as_i64 limit ''limit'')) (\<lambda>l. act_bind (act_lift (tq_as_i64 offset ''offset'')) (\<lambda>ofs.
     tier_db (ex_query_with (tq_hot q) (hot_range_sql t) [JString a, JString b, json_int l, json_int ofs])))))"

definition tq_boundary :: "'w tier_env \<Rightarrow> tiered_table \<Rightarrow> (tiering_error, 'w, int) act" where
  "tq_boundary env t w = (ts_plus env (te_now env w) (- days_ns (td_hot_days t)), w)"

definition tiered_query_range ::
  "'w tier_env \<Rightarrow> query_env \<Rightarrow> 'w tiered_query \<Rightarrow> string \<Rightarrow> int \<Rightarrow> int \<Rightarrow> json_value list \<Rightarrow> nat \<Rightarrow> nat \<Rightarrow>
   (tiering_error, 'w, db_row list) act" where
  "tiered_query_range env qe q name from_ts to_ts params limit offset =
     (if ex_dialect (tq_hot q) \<noteq> MySql then act_err TierUnsupportedDialect else
      act_bind (act_lift (ok_or (TierConfig (''unknown tiered table `'' @ name @ ''`'')) (find (\<lambda>t. td_name t = name) (tq_tables q)))) (\<lambda>t.
      act_bind (act_lift (validate_ident (td_name t))) (\<lambda>_. act_bind (act_lift (validate_ident (td_time_col t))) (\<lambda>_.
      act_bind (act_lift (validate_ident (td_id_col t))) (\<lambda>_.
      act_bind (tq_boundary env t) (\<lambda>boundary.
      if to_ts \<ge> boundary \<and> params \<noteq> []
      then act_err (TierConfig (''params are cold-side only; the hot side cannot apply them (table `'' @ td_name t @ ''`)''))
      else if from_ts \<ge> boundary then hot_range env q t from_ts to_ts limit offset
      else if to_ts < boundary then cq_query_range (tq_cold q) (td_name t) from_ts to_ts params limit offset
      else let pushdown = tier_sat_add limit offset in
        act_bind (hot_range env q t boundary to_ts pushdown 0) (\<lambda>hot.
        act_bind (cq_query_range (tq_cold q) (td_name t) from_ts boundary params pushdown 0) (\<lambda>cold.
        act_lift (sort_dedupe_paginate qe t (hot @ cold) limit offset)))))))))"

text \<open>The ClickHouse side.\<close>

record 'w clickhouse_query =
  ck_client :: "'w sql_executor"
  ck_table :: string
  ck_time_col :: string
  ck_id_col :: string

definition clickhouse_query_new :: "'w sql_executor \<Rightarrow> string \<Rightarrow> string \<Rightarrow> string \<Rightarrow> (tiering_error, 'w clickhouse_query) result" where
  "clickhouse_query_new client table time_col id_col =
     try_bind (for_each validate_ident [table, time_col, id_col]) (\<lambda>_.
     Ok \<lparr> ck_client = client, ck_table = table, ck_time_col = time_col, ck_id_col = id_col \<rparr>)"

definition build_range_sql ::
  "sink_env \<Rightarrow> string \<Rightarrow> string \<Rightarrow> string \<Rightarrow> string \<Rightarrow> string \<Rightarrow> nat \<Rightarrow> nat \<Rightarrow> (tiering_error, string) result" where
  "build_range_sql env table time_col id_col from_text to_text limit offset =
     try_bind (for_each validate_ident [table, time_col, id_col]) (\<lambda>_.
     try_bind (render_sql_value env (JString from_text)) (\<lambda>a. try_bind (render_sql_value env (JString to_text)) (\<lambda>b.
     Ok (''SELECT * FROM '' @ table @ '' WHERE '' @ time_col @ '' >= '' @ a @ '' AND '' @ time_col @ '' < '' @ b
       @ '' ORDER BY '' @ id_col @ '' ASC LIMIT '' @ dec_nat limit @ '' OFFSET '' @ dec_nat offset))))"

definition clickhouse_query_range ::
  "'w tier_env \<Rightarrow> sink_env \<Rightarrow> 'w clickhouse_query \<Rightarrow> string \<Rightarrow> int \<Rightarrow> int \<Rightarrow> json_value list \<Rightarrow> nat \<Rightarrow> nat \<Rightarrow>
   (tiering_error, 'w, db_row list) act" where
  "clickhouse_query_range env sn q table from_ts to_ts params limit offset =
     (if table \<noteq> ck_table q then act_err (TierConfig (''ClickHouse cold query is bound to table `'' @ ck_table q @ ''`, got `'' @ table @ ''`''))
      else if params \<noteq> [] then act_err (TierConfig ''ClickHouse cold query does not support bound parameters'')
      else act_bind (act_lift (tq_fmt_time env from_ts)) (\<lambda>a. act_bind (act_lift (tq_fmt_time env to_ts)) (\<lambda>b.
        act_bind (act_lift (build_range_sql sn (ck_table q) (ck_time_col q) (ck_id_col q) a b limit offset)) (\<lambda>sql.
        tier_db (ex_query (ck_client q) sql)))))"

section \<open>Merging\<close>

text \<open>The union of two lists in the order of their keys; of two elements with the same key the first list's.\<close>

fun merge_keys :: "('a \<Rightarrow> int) \<Rightarrow> 'a list \<Rightarrow> 'a list \<Rightarrow> 'a list" where
  "merge_keys f [] ys = ys"
| "merge_keys f xs [] = xs"
| "merge_keys f (x # xs) (y # ys) =
     (if f x < f y then x # merge_keys f xs (y # ys)
      else if f x = f y then x # merge_keys f xs ys
      else y # merge_keys f (x # xs) ys)"

text \<open>The same with both elements.\<close>

fun merge_all :: "('a \<Rightarrow> int) \<Rightarrow> 'a list \<Rightarrow> 'a list \<Rightarrow> 'a list" where
  "merge_all f [] ys = ys"
| "merge_all f xs [] = xs"
| "merge_all f (x # xs) (y # ys) = (if f x \<le> f y then x # merge_all f xs (y # ys) else y # merge_all f (x # xs) ys)"

abbreviation ascending :: "('a \<Rightarrow> int) \<Rightarrow> 'a list \<Rightarrow> bool" where
  "ascending f \<equiv> sorted_wrt (\<lambda>a b. f a < f b)"

lemma merge_Nil2 [simp]: "merge_keys f xs [] = xs" "merge_all f xs [] = xs"
  by (cases xs; simp)+

lemma set_merge_all [simp]: "set (merge_all f xs ys) = set xs \<union> set ys"
  by (induction f xs ys rule: merge_all.induct) auto

lemma merge_keys_take:
  "take k xs = take k xs' \<Longrightarrow> take k ys = take k ys' \<Longrightarrow> take k (merge_keys f xs ys) = take k (merge_keys f xs' ys')"
proof (induction k arbitrary: xs xs' ys ys')
  case (Suc k)
  have less: "take k a = take k b" if "take (Suc k) a = take (Suc k) b" for a b :: "'a list"
    using arg_cong [OF that, of "take k"] by (simp add: min_def)
  show ?case
  proof (cases xs)
    case Nil
    then have "xs' = []" using Suc.prems(1) by simp
    then show ?thesis using Nil Suc.prems(2) by simp
  next
    case (Cons x xt)
    then obtain xt' where xs': "xs' = x # xt'" "take k xt = take k xt'" using Suc.prems(1) by (cases xs') auto
    show ?thesis
    proof (cases ys)
      case Nil
      then have "ys' = []" using Suc.prems(2) by simp
      then show ?thesis using Nil Suc.prems(1) by simp
    next
      case (Cons y yt)
      then obtain yt' where ys': "ys' = y # yt'" "take k yt = take k yt'" using Suc.prems(2) by (cases ys') auto
      have IHs: "take k (merge_keys f xt (y # yt)) = take k (merge_keys f xt' (y # yt'))"
        "take k (merge_keys f xt yt) = take k (merge_keys f xt' yt')"
        "take k (merge_keys f (x # xt) yt) = take k (merge_keys f (x # xt') yt')"
        using Suc.IH [OF xs'(2) less [OF Suc.prems(2)]] Suc.IH [OF xs'(2) ys'(2)] Suc.IH [OF less [OF Suc.prems(1)] ys'(2)]
          \<open>xs = x # xt\<close> \<open>ys = y # yt\<close> xs'(1) ys'(1) by simp_all
      then show ?thesis using \<open>xs = x # xt\<close> \<open>ys = y # yt\<close> xs'(1) ys'(1) by simp
    qed
  qed
qed simp

text \<open>Merging what sorting a concatenation gives.\<close>

lemma insert_front: "\<forall>y \<in> set ys. f x \<le> f y \<Longrightarrow> insert_by (\<lambda>a b. cmp_of (f a) (f b)) x ys = x # (ys :: 'a list)"
  for f :: "'a \<Rightarrow> int"
  by (cases ys) (auto simp: cmp_of_def)

lemma insert_merge:
  fixes f :: "'a \<Rightarrow> int"
  assumes "ascending f (x # xs)" "ascending f ys"
  shows "insert_by (\<lambda>a b. cmp_of (f a) (f b)) x (merge_all f xs ys) = merge_all f (x # xs) ys"
  using assms(2)
proof (induction ys)
  case Nil
  then show ?case using assms(1) by (simp add: insert_front order_less_imp_le)
next
  case (Cons y ys)
  show ?case
  proof (cases "f x \<le> f y")
    case True
    then have "insert_by (\<lambda>a b. cmp_of (f a) (f b)) x (merge_all f xs (y # ys)) = x # merge_all f xs (y # ys)"
      using assms(1) Cons.prems by (intro insert_front) (auto intro: order_less_imp_le)
    then show ?thesis using True by simp
  next
    case False
    then have "merge_all f xs (y # ys) = y # merge_all f xs ys" using assms(1) by (cases xs) auto
    then show ?thesis using False Cons by (simp add: cmp_of_def)
  qed
qed

lemma sort_by_append:
  fixes f :: "'a \<Rightarrow> int"
  assumes "ascending f xs" "ascending f ys"
  shows "sort_by (\<lambda>a b. cmp_of (f a) (f b)) (xs @ ys) = merge_all f xs ys"
proof -
  have "foldr (insert_by (\<lambda>a b. cmp_of (f a) (f b))) ys [] = ys" using assms(2)
    by (induction ys) (auto simp: insert_front order_less_imp_le)
  moreover have "foldr (insert_by (\<lambda>a b. cmp_of (f a) (f b))) xs ys = merge_all f xs ys" using assms(1)
    by (induction xs) (simp_all add: insert_merge assms(2))
  ultimately show ?thesis by (simp add: sort_by_def)
qed

lemma dedup_Cons:
  "\<forall>y \<in> set ys. f x < f y \<Longrightarrow> dedup_by (\<lambda>a b. cmp_of (f a) (f b) = OEqual) (x # ys) = x # dedup_by (\<lambda>a b. cmp_of (f a) (f b) = OEqual) ys"
  for f :: "'a \<Rightarrow> int"
  by (cases ys) (auto simp: cmp_of_def)

lemma dedup_ascending: "ascending f xs \<Longrightarrow> dedup_by (\<lambda>a b. cmp_of (f a) (f b) = OEqual) xs = xs" for f :: "'a \<Rightarrow> int"
  by (induction xs) (simp_all add: dedup_Cons)

lemma dedup_merge:
  fixes f :: "'a \<Rightarrow> int"
  shows "ascending f xs \<Longrightarrow> ascending f ys \<Longrightarrow> dedup_by (\<lambda>a b. cmp_of (f a) (f b) = OEqual) (merge_all f xs ys) = merge_keys f xs ys"
proof (induction f xs ys rule: merge_keys.induct)
  case (1 f ys)
  then show ?case by (simp add: dedup_ascending)
next
  case (2 f x xs)
  then show ?case by (simp add: dedup_ascending)
next
  case (3 f x xs y ys)
  consider "f x < f y" | "f x = f y" | "f y < f x" by linarith
  then show ?case
  proof cases
    case 1
    have "dedup_by (\<lambda>a b. cmp_of (f a) (f b) = OEqual) (x # merge_all f xs (y # ys)) = x # dedup_by (\<lambda>a b. cmp_of (f a) (f b) = OEqual) (merge_all f xs (y # ys))"
      by (rule dedup_Cons) (use 3 1 in auto)
    then show ?thesis using 1 3 by simp
  next
    case 2
    have eq: "merge_all f xs (y # ys) = y # merge_all f xs ys" using 3 2 by (cases xs) auto
    have "dedup_by (\<lambda>a b. cmp_of (f a) (f b) = OEqual) (x # merge_all f xs ys) = x # dedup_by (\<lambda>a b. cmp_of (f a) (f b) = OEqual) (merge_all f xs ys)"
      by (rule dedup_Cons) (use 3 2 in auto)
    then show ?thesis using 2 3 eq by (simp add: cmp_of_def)
  next
    case gt: 3
    have "dedup_by (\<lambda>a b. cmp_of (f a) (f b) = OEqual) (y # merge_all f (x # xs) ys) = y # dedup_by (\<lambda>a b. cmp_of (f a) (f b) = OEqual) (merge_all f (x # xs) ys)"
      by (rule dedup_Cons) (use 3 gt in auto)
    then show ?thesis using gt 3 by simp
  qed
qed

section \<open>The page\<close>

lemma merge_keys_sub: "z \<in> set (merge_keys f xs ys) \<Longrightarrow> z \<in> set xs \<or> z \<in> set ys"
  by (induction f xs ys rule: merge_keys.induct) (auto split: if_splits)

lemma merge_keys_ascending: "ascending f xs \<Longrightarrow> ascending f ys \<Longrightarrow> ascending f (merge_keys f xs ys)"
  by (induction f xs ys rule: merge_keys.induct) (auto dest!: merge_keys_sub, force+)

lemma set_merge_keys: "ascending f xs \<Longrightarrow> ascending f ys \<Longrightarrow> set (merge_keys f xs ys) = set xs \<union> {y \<in> set ys. f y \<notin> f ` set xs}"
proof (induction f xs ys rule: merge_keys.induct)
  case (3 f x xs y ys)
  consider "f x < f y" | "f x = f y" | "f y < f x" by linarith
  then show ?case by cases (use 3 in auto)
qed auto

text \<open>The integer key of a row.\<close>

definition pk_of :: "string \<Rightarrow> db_row \<Rightarrow> int" where
  "pk_of col row = the (Option.bind (row_get row col) as_i64)"

definition int_keyed :: "string \<Rightarrow> db_row list \<Rightarrow> bool" where
  "int_keyed col rows \<longleftrightarrow> list_all (\<lambda>r. Option.bind (row_get r col) as_i64 \<noteq> None) rows \<and> ascending (pk_of col) rows"

lemma int_keyed_take: "int_keyed col rows \<Longrightarrow> int_keyed col (take k rows)"
  by (auto simp: int_keyed_def list_all_iff sorted_wrt_take dest: in_set_takeD)

lemma int_keyed_row:
  assumes "Option.bind (row_get r col) as_i64 \<noteq> None"
  shows "\<exists>m. row_get r col = Some (JNumber m) \<and> number_as_i64 m = Some (pk_of col r)"
  using assms by (cases "row_get r col") (auto simp: pk_of_def as_i64_def split: json_value.splits)

definition key_pair :: "string \<Rightarrow> db_row \<Rightarrow> json_value \<times> db_row" where
  "key_pair col r = (the (row_get r col), r)"

lemma collect_keyed:
  "list_all (\<lambda>r. Option.bind (row_get r col) as_i64 \<noteq> None) rows \<Longrightarrow> collect_results (keyed_row col) rows = Inr (map (key_pair col) rows)"
proof (induction rows)
  case (Cons r rows)
  obtain m where "row_get r col = Some (JNumber m)" using int_keyed_row [of r col] Cons.prems by auto
  then show ?case using Cons by (simp add: keyed_row_def key_pair_def is_null_def)
qed simp

lemma insert_by_map: "(\<And>y. y \<in> set ys \<Longrightarrow> c (g x) (g y) = d x y) \<Longrightarrow> insert_by c (g x) (map g ys) = map g (insert_by d x ys)"
  by (induction ys) auto

lemma set_insert_by [simp]: "set (insert_by c x ys) = insert x (set ys)"
  by (induction ys) auto

lemma sort_by_map:
  assumes "\<And>x y. x \<in> set xs \<Longrightarrow> y \<in> set xs \<Longrightarrow> c (g x) (g y) = d x y"
  shows "sort_by c (map g xs) = map g (sort_by d xs) \<and> set (sort_by d xs) = set xs"
  using assms
proof (induction xs)
  case (Cons x xs)
  then have IH: "sort_by c (map g xs) = map g (sort_by d xs)" "set (sort_by d xs) = set xs" by simp_all
  have "insert_by c (g x) (map g (sort_by d xs)) = map g (insert_by d x (sort_by d xs))"
    by (rule insert_by_map) (use Cons.prems IH(2) in auto)
  then show ?case using IH by (simp add: sort_by_def)
qed (simp add: sort_by_def)

lemma dedup_by_map:
  "(\<And>x y. x \<in> set xs \<Longrightarrow> y \<in> set xs \<Longrightarrow> c (g x) (g y) = d x y) \<Longrightarrow> dedup_by c (map g xs) = map g (dedup_by d xs)"
  by (induction d xs rule: dedup_by.induct) auto

lemma merged_page:
  assumes H: "int_keyed (td_id_col t) H" and C: "int_keyed (td_id_col t) C"
  shows "sort_dedupe_paginate qe t (H @ C) limit offset = Inr (take limit (drop offset (merge_keys (pk_of (td_id_col t)) H C)))"
proof -
  let ?col = "td_id_col t" and ?f = "pk_of (td_id_col t)"
  let ?c = "\<lambda>a b. cmp_pk qe (fst a) (fst b)" and ?d = "\<lambda>a b. cmp_of (?f a) (?f b)"
  have keys: "list_all (\<lambda>r. Option.bind (row_get r ?col) as_i64 \<noteq> None) (H @ C)" using H C by (simp add: int_keyed_def)
  have cmp: "?c (key_pair ?col x) (key_pair ?col y) = ?d x y" if x: "x \<in> set (H @ C)" and y: "y \<in> set (H @ C)" for x y
  proof -
    have "Option.bind (row_get x ?col) as_i64 \<noteq> None" "Option.bind (row_get y ?col) as_i64 \<noteq> None"
      using keys x y unfolding list_all_iff by blast+
    then obtain m n where "row_get x ?col = Some (JNumber m)" "number_as_i64 m = Some (?f x)" "row_get y ?col = Some (JNumber n)" "number_as_i64 n = Some (?f y)"
      using int_keyed_row by metis
    then show ?thesis by (simp add: key_pair_def cmp_pk_def)
  qed
  have asc: "ascending ?f H" "ascending ?f C" using H C by (simp_all add: int_keyed_def)
  note sorted = sort_by_map [of "H @ C" ?c "key_pair ?col" ?d, OF cmp]
  have srt: "sort_by ?c (map (key_pair ?col) (H @ C)) = map (key_pair ?col) (merge_all ?f H C)"
    using sorted sort_by_append [OF asc] by simp
  have "dedup_by (\<lambda>a b. ?c a b = OEqual) (map (key_pair ?col) (merge_all ?f H C)) = map (key_pair ?col) (dedup_by (\<lambda>a b. ?d a b = OEqual) (merge_all ?f H C))"
    by (rule dedup_by_map) (use cmp in simp)
  then have "dedup_by (\<lambda>a b. ?c a b = OEqual) (sort_by ?c (map (key_pair ?col) (H @ C))) = map (key_pair ?col) (merge_keys ?f H C)"
    using srt dedup_merge [OF asc] by simp
  then show ?thesis by (simp add: sort_dedupe_paginate_def collect_keyed [OF keys] Let_def take_map drop_map comp_def) (simp add: key_pair_def)
qed

text \<open>
  C35. A page across the boundary is the page of all rows: when the hot side holds the rows \<open>H\<close> from the boundary
  on and the cold side the rows \<open>C\<close> before it, each in the order of distinct integer ids, the query, which
  asks each side only for its first \<open>limit + offset\<close> rows, returns the page of the list \<open>U\<close> of all
  these rows in the order of their ids, where a row that is on both sides is the hot copy.
\<close>

theorem boundary_page_is_global:
  assumes table: "ex_dialect (tq_hot q) = MySql" "find (\<lambda>t. td_name t = name) (tq_tables q) = Some t"
      "validate_ident (td_name t) = Ok ()" "validate_ident (td_time_col t) = Ok ()" "validate_ident (td_id_col t) = Ok ()"
    and bound: "ts_plus env (te_now env w) (- days_ns (td_hot_days t)) = Ok boundary" "from_ts < boundary" "boundary \<le> to_ts"
    and k: "k = limit + offset" "int k \<le> i64_max"
    and texts: "tq_fmt_time env boundary = Ok a" "tq_fmt_time env to_ts = Ok b"
    and hot: "ex_query_with (tq_hot q) (hot_range_sql t) [JString a, JString b, json_int (int k), json_int 0] w = (Ok (take k H), w1)"
    and cold: "cq_query_range (tq_cold q) (td_name t) from_ts boundary [] k 0 w1 = (Ok (take k C), w2)"
    and keys: "int_keyed (td_id_col t) H" "int_keyed (td_id_col t) C"
  shows "\<exists>U. sorted_wrt (\<lambda>x y. pk_of (td_id_col t) x < pk_of (td_id_col t) y) U \<and>
    set U = set H \<union> {r \<in> set C. pk_of (td_id_col t) r \<notin> pk_of (td_id_col t) ` set H} \<and>
    tiered_query_range env qe q name from_ts to_ts [] limit offset w = (Ok (take limit (drop offset U)), w2)"
proof (intro exI conjI)
  let ?f = "pk_of (td_id_col t)"
  let ?U = "merge_keys ?f H C"
  have asc: "ascending ?f H" "ascending ?f C" using keys by (simp_all add: int_keyed_def)
  show "ascending ?f ?U" by (rule merge_keys_ascending [OF asc])
  show "set ?U = set H \<union> {r \<in> set C. ?f r \<notin> ?f ` set H}" by (rule set_merge_keys [OF asc])
  have sat: "tier_sat_add limit offset = k" using k by (simp add: tier_sat_add_def u64_max_def i64_max_def)
  have "take k (merge_keys ?f (take k H) (take k C)) = take k ?U" by (rule merge_keys_take) simp_all
  then have "take limit (drop offset (merge_keys ?f (take k H) (take k C))) = take limit (drop offset ?U)"
    using k(1) by (metis add.commute take_drop)
  then have page: "sort_dedupe_paginate qe t (take k H @ take k C) limit offset = Inr (take limit (drop offset ?U))"
    using merged_page [OF int_keyed_take [OF keys(1)] int_keyed_take [OF keys(2)]] by simp
  have hotq: "hot_range env q t boundary to_ts k 0 w = (Inr (take k H), w1)"
    using texts hot k(2) by (simp add: hot_range_def tq_as_i64_def tier_db_def act_map_err_def i64_max_def act_bind_def)
  show "tiered_query_range env qe q name from_ts to_ts [] limit offset w = (Ok (take limit (drop offset ?U)), w2)"
    using table bound by (simp add: tiered_query_range_def tq_boundary_def sat act_bind_def hotq cold page)
qed

section \<open>Witness\<close>

text \<open>Rows 2 and 4 are hot, rows 1, 2 and 3 cold; the second page of one row is the hot copy of row 2.\<close>

definition page_row :: "nat \<Rightarrow> string \<Rightarrow> db_row" where
  "page_row k tier = \<lparr> row_columns = [''id'', ''tier''], row_values = [JNumber (PosInt k), JString tier] \<rparr>"

definition page_table :: tiered_table where
  "page_table = \<lparr> td_name = ''t'', td_time_col = ''ts'', td_id_col = ''id'', td_hot_days = 1 \<rparr>"

definition page_env :: "unit tier_env" where
  "page_env = \<lparr> te_now = (\<lambda>_. days_ns 3), te_in_range = (\<lambda>_. True), te_fmt_rfc = (\<lambda>_. Ok []), te_parse_rfc = (\<lambda>_. Ok 0),
     te_fmt_sql = (\<lambda>_. Ok []), te_required = (\<lambda>_ _. 0), te_rounds = 0 \<rparr>"

definition page_hot :: "db_row list" where "page_hot = [page_row 2 ''hot'', page_row 4 ''hot'']"
definition page_cold :: "db_row list" where "page_cold = [page_row 1 ''cold'', page_row 2 ''cold'', page_row 3 ''cold'']"

definition page_query :: "unit tiered_query" where
  "page_query = \<lparr> tq_hot = (default_executor (\<lambda>_. act_ok 0) (\<lambda>_. act_ok []) MySql)
       \<lparr>ex_query_with := (\<lambda>sql ps w. (Ok (take (case ps of [_, _, JNumber (PosInt k), _] \<Rightarrow> k | _ \<Rightarrow> 0) page_hot), w))\<rparr>,
     tq_cold = \<lparr> cq_query_range = (\<lambda>_ _ _ _ k _ w. (Ok (take k page_cold), w)) \<rparr>, tq_tables = [page_table] \<rparr>"

definition page_qe :: query_env where
  "page_qe = \<lparr> qe_f64_cmp = (\<lambda>_ _. None), qe_text = (\<lambda>_. []) \<rparr>"

lemmas page_simps = page_row_def page_table_def page_env_def page_hot_def page_cold_def page_query_def row_get_def pk_of_def
  as_i64_def number_as_i64_def i64_max_def days_ns_def default_executor_def

theorem boundary_page_is_global_witness:
  "\<exists>U. set U = {page_row 1 ''cold'', page_row 2 ''hot'', page_row 3 ''cold'', page_row 4 ''hot''} \<and>
     sorted_wrt (\<lambda>x y. pk_of ''id'' x < pk_of ''id'' y) U \<and>
     tiered_query_range page_env page_qe page_query ''t'' 0 (days_ns 3) [] 1 1 () = (Ok (take 1 (drop 1 U)), ())"
proof -
  have fields: "td_id_col page_table = ''id''" "td_name page_table = ''t''" "td_time_col page_table = ''ts''" by (simp_all add: page_table_def)
  have idents: "validate_ident ''t'' = Ok ()" "validate_ident ''ts'' = Ok ()" "validate_ident ''id'' = Ok ()"
    by (simp_all add: validate_ident_def is_ascii_alpha_def is_ascii_alnum_def)
  have keys: "int_keyed ''id'' page_hot" "int_keyed ''id'' page_cold" by (simp_all add: int_keyed_def page_simps)
  have union: "set page_hot \<union> {r \<in> set page_cold. pk_of ''id'' r \<notin> pk_of ''id'' ` set page_hot} =
      {page_row 1 ''cold'', page_row 2 ''hot'', page_row 3 ''cold'', page_row 4 ''hot''}" by (auto simp: page_simps)
  from boundary_page_is_global [where q = page_query and name = "''t''" and t = page_table and env = page_env and w = "()" and boundary = "days_ns 2"
      and from_ts = 0 and to_ts = "days_ns 3" and k = 2 and limit = 1 and offset = 1 and a = "[]" and b = "[]" and H = page_hot and C = page_cold
      and ?w1.0 = "()" and ?w2.0 = "()" and qe = page_qe, unfolded fields]
  show ?thesis using idents keys unfolding union
    by (simp add: page_query_def page_table_def page_env_def ts_plus_def days_ns_def tq_fmt_time_def i64_max_def default_executor_def json_int_def map_err_def) blast
qed

end
