(* ===== verification/OrmDialect.thy ===== *)
theory OrmDialect
  imports Rdbms
begin

text \<open>
  \<^verbatim>\<open>ecat-orm\<close>: the metadata of entities (\<^verbatim>\<open>entity.rs\<close>) and the dialect layer (\<^verbatim>\<open>dialect/\<close>), five
  implementations of \<^verbatim>\<open>DialectSpec\<close> as records of pure functions, with the statements that create
  and drop tables (\<^verbatim>\<open>migrate/ddl.rs\<close>).
\<close>

section \<open>Metadata (entity.rs)\<close>

datatype col_type = ColI64 | ColI32 | ColF64 | ColBool | ColText | ColBytes | ColTimestamp | ColDate | ColJson

record column_meta =
  cm_name :: string
  cm_ty :: col_type
  cm_nullable :: bool
  cm_pk :: bool
  cm_auto_increment :: bool

record entity_flags =
  ef_created_at :: "string option"
  ef_updated_at :: "string option"
  ef_soft_delete :: "string option"
  ef_version :: "string option"

definition flags_none :: entity_flags where
  "flags_none = \<lparr> ef_created_at = None, ef_updated_at = None, ef_soft_delete = None, ef_version = None \<rparr>"

datatype relation_kind = HasMany | HasOne | BelongsTo

record relation_meta =
  rm_name :: string
  rm_kind :: relation_kind
  rm_target_table :: string
  rm_foreign_key :: string
  rm_local_key :: string

record entity_meta =
  em_table :: string
  em_pk :: string
  em_columns :: "column_meta list"
  em_relations :: "relation_meta list"
  em_flags :: entity_flags

definition meta_column :: "entity_meta \<Rightarrow> string \<Rightarrow> column_meta option" where
  "meta_column m name = find (\<lambda>c. cm_name c = name) (em_columns m)"

definition insertable_columns :: "entity_meta \<Rightarrow> column_meta list" where
  "insertable_columns m = filter (\<lambda>c. \<not> (cm_pk c \<and> cm_auto_increment c)) (em_columns m)"

definition updatable_columns :: "entity_meta \<Rightarrow> column_meta list" where
  "updatable_columns m = filter (\<lambda>c. \<not> cm_pk c) (em_columns m)"

definition meta_relation :: "entity_meta \<Rightarrow> string \<Rightarrow> relation_meta option" where
  "meta_relation m name = find (\<lambda>r. rm_name r = name) (em_relations m)"

section \<open>Dialects (dialect/mod.rs)\<close>

text \<open>What pagination adds to a statement, before the columns and at the end.\<close>

record limit_frag =
  lm_prefix :: string
  lm_suffix :: string

definition limit_none :: limit_frag where
  "limit_none = \<lparr> lm_prefix = [], lm_suffix = [] \<rparr>"

datatype insert_plan = InsertSingle string | InsertThen string string

record dialect_spec =
  ds_quote :: "string \<Rightarrow> string"
  ds_placeholder :: "nat \<Rightarrow> string"
  ds_limit_clause :: "nat option \<Rightarrow> nat \<Rightarrow> bool \<Rightarrow> limit_frag"
  ds_insert_plan :: "string \<Rightarrow> string list \<Rightarrow> string \<Rightarrow> nat \<Rightarrow> insert_plan"
  ds_upsert :: "string \<Rightarrow> string list \<Rightarrow> string \<Rightarrow> nat \<Rightarrow> string"
  ds_update_many_stmt :: "string \<Rightarrow> string \<Rightarrow> string list \<Rightarrow> string list \<Rightarrow> nat \<Rightarrow> string"
  ds_bool_literal :: "bool \<Rightarrow> string"
  ds_col_type :: "col_type \<Rightarrow> string"
  ds_create_table_prefix :: "string \<Rightarrow> string"
  ds_needs_exists_check :: bool
  ds_autoincrement_ddl :: "col_type \<Rightarrow> string"
  ds_max_params :: nat

definition comma_list :: "('a \<Rightarrow> string) \<Rightarrow> 'a list \<Rightarrow> string" where
  "comma_list f xs = str_join '', '' (map f xs)"

text \<open>The placeholders from 1 to \<open>n\<close>, and those of row \<open>r\<close> of a statement with \<open>k\<close> per row.\<close>

definition ph_list :: "(nat \<Rightarrow> string) \<Rightarrow> nat \<Rightarrow> string" where
  "ph_list ph n = comma_list ph [1..<n + 1]"

definition ph_row :: "(nat \<Rightarrow> string) \<Rightarrow> nat \<Rightarrow> nat \<Rightarrow> string" where
  "ph_row ph k r = CHR ''('' # comma_list (\<lambda>c. ph (r * k + c + 1)) [0..<k] @ '')''"

definition update_many_aliases :: "(string \<Rightarrow> string) \<Rightarrow> string \<Rightarrow> string list \<Rightarrow> string list \<Rightarrow> string list" where
  "update_many_aliases q pk set_cols extra = map q (pk # set_cols @ map (\<lambda>c. c @ ''__old'') extra)"

definition update_many_from_values ::
  "(string \<Rightarrow> string) \<Rightarrow> (nat \<Rightarrow> string) \<Rightarrow> string \<Rightarrow> string \<Rightarrow> string list \<Rightarrow> string list \<Rightarrow> nat \<Rightarrow> string" where
  "update_many_from_values q ph table pk set_cols extra n_rows =
     (let alias = str_join '', '' (update_many_aliases q pk set_cols extra);
          per_row = 1 + length set_cols + length extra;
          rows = comma_list (ph_row ph per_row) [0..<n_rows];
          sets = comma_list (\<lambda>c. q c @ '' = v.'' @ q c) set_cols;
          conds = (q table @ ''.'' @ q pk @ '' = v.'' @ q pk) # map (\<lambda>c. q table @ ''.'' @ q c @ '' = v.'' @ q (c @ ''__old'')) extra
      in ''UPDATE '' @ q table @ '' SET '' @ sets @ '' FROM (VALUES '' @ rows @ '') AS v('' @ alias @ '') WHERE '' @ str_join '' AND '' conds)"

text \<open>Shapes that several dialects write alike.\<close>

definition limit_offset :: "nat option \<Rightarrow> nat \<Rightarrow> limit_frag" where
  "limit_offset limit offset = \<lparr> lm_prefix = [],
     lm_suffix = (case limit of
         None \<Rightarrow> if offset = 0 then [] else '' OFFSET '' @ dec_nat offset
       | Some l \<Rightarrow> if offset = 0 then '' LIMIT '' @ dec_nat l else '' LIMIT '' @ dec_nat l @ '' OFFSET '' @ dec_nat offset) \<rparr>"

definition insert_values :: "(string \<Rightarrow> string) \<Rightarrow> (nat \<Rightarrow> string) \<Rightarrow> string \<Rightarrow> string list \<Rightarrow> string" where
  "insert_values q ph table cols = ''INSERT INTO '' @ q table @ '' ('' @ comma_list q cols @ '') VALUES ('' @ ph_list ph (length cols) @ '')''"

definition insert_returning :: "(string \<Rightarrow> string) \<Rightarrow> (nat \<Rightarrow> string) \<Rightarrow> string \<Rightarrow> string list \<Rightarrow> string \<Rightarrow> insert_plan" where
  "insert_returning q ph table cols pk = InsertSingle (insert_values q ph table cols @ '' RETURNING '' @ q pk)"

definition upsert_on_conflict :: "(string \<Rightarrow> string) \<Rightarrow> (nat \<Rightarrow> string) \<Rightarrow> string \<Rightarrow> string list \<Rightarrow> string \<Rightarrow> string" where
  "upsert_on_conflict q ph table cols pk =
     (let assigns = comma_list (\<lambda>c. q c @ '' = excluded.'' @ q c) (filter (\<lambda>c. c \<noteq> pk) cols);
          act = (if assigns = [] then ''DO NOTHING'' else ''DO UPDATE SET '' @ assigns)
      in insert_values q ph table cols @ '' ON CONFLICT ('' @ q pk @ '') '' @ act)"

definition create_if_not_exists :: "(string \<Rightarrow> string) \<Rightarrow> string \<Rightarrow> string" where
  "create_if_not_exists q table = ''CREATE TABLE IF NOT EXISTS '' @ q table"

definition double_quoted :: "string \<Rightarrow> string" where
  "double_quoted ident = CHR 0x22 # ident @ [CHR 0x22]"

section \<open>The five dialects\<close>

definition true_false :: "bool \<Rightarrow> string" where
  "true_false b = (if b then ''TRUE'' else ''FALSE'')"

definition one_zero :: "bool \<Rightarrow> string" where
  "one_zero b = (if b then ''1'' else ''0'')"

definition question_mark :: "nat \<Rightarrow> string" where
  "question_mark _ = ''?''"

fun standard_col_type :: "col_type \<Rightarrow> string" where
  "standard_col_type ColI64 = ''BIGINT''"
| "standard_col_type ColI32 = ''INTEGER''"
| "standard_col_type ColF64 = ''DOUBLE PRECISION''"
| "standard_col_type ColBool = ''BOOLEAN''"
| "standard_col_type ColText = ''TEXT''"
| "standard_col_type ColJson = ''TEXT''"
| "standard_col_type ColBytes = ''BLOB''"
| "standard_col_type ColTimestamp = ''TIMESTAMP''"
| "standard_col_type ColDate = ''DATE''"

definition standard_spec :: dialect_spec where
  "standard_spec =
     \<lparr> ds_quote = double_quoted, ds_placeholder = question_mark, ds_limit_clause = (\<lambda>l k _. limit_offset l k),
       ds_insert_plan = (\<lambda>t cols pk _. insert_returning double_quoted question_mark t cols pk),
       ds_upsert = (\<lambda>t cols pk _. upsert_on_conflict double_quoted question_mark t cols pk),
       ds_update_many_stmt = update_many_from_values double_quoted question_mark,
       ds_bool_literal = true_false, ds_col_type = standard_col_type, ds_create_table_prefix = create_if_not_exists double_quoted,
       ds_needs_exists_check = False, ds_autoincrement_ddl = (\<lambda>ty. standard_col_type ty @ '' GENERATED BY DEFAULT AS IDENTITY''),
       ds_max_params = 65535 \<rparr>"

fun sqlite_col_type :: "col_type \<Rightarrow> string" where
  "sqlite_col_type ColI64 = ''INTEGER''"
| "sqlite_col_type ColI32 = ''INTEGER''"
| "sqlite_col_type ColBool = ''INTEGER''"
| "sqlite_col_type ColF64 = ''REAL''"
| "sqlite_col_type ColText = ''TEXT''"
| "sqlite_col_type ColJson = ''TEXT''"
| "sqlite_col_type ColTimestamp = ''TEXT''"
| "sqlite_col_type ColDate = ''TEXT''"
| "sqlite_col_type ColBytes = ''BLOB''"

text \<open>SQLite names the columns of \<^verbatim>\<open>VALUES\<close> by their position.\<close>

definition sqlite_update_many :: "string \<Rightarrow> string \<Rightarrow> string list \<Rightarrow> string list \<Rightarrow> nat \<Rightarrow> string" where
  "sqlite_update_many table pk set_cols extra n_rows =
     (let q = double_quoted; per_row = 1 + length set_cols + length extra;
          rows = comma_list (ph_row question_mark per_row) [0..<n_rows];
          sets = comma_list (\<lambda>(i, c). q c @ '' = v.'' @ q (''column'' @ dec_nat (i + 2))) (enumerate 0 set_cols);
          conds = (q table @ ''.'' @ q pk @ '' = v.'' @ q ''column1'') #
            map (\<lambda>(i, c). q table @ ''.'' @ q c @ '' = v.'' @ q (''column'' @ dec_nat (length set_cols + i + 2))) (enumerate 0 extra)
      in ''UPDATE '' @ q table @ '' SET '' @ sets @ '' FROM (VALUES '' @ rows @ '') AS v WHERE '' @ str_join '' AND '' conds)"

definition sqlite_spec :: dialect_spec where
  "sqlite_spec =
     \<lparr> ds_quote = double_quoted, ds_placeholder = question_mark, ds_limit_clause = (\<lambda>l k _. limit_offset l k),
       ds_insert_plan = (\<lambda>t cols pk _. insert_returning double_quoted question_mark t cols pk),
       ds_upsert = (\<lambda>t cols pk _. upsert_on_conflict double_quoted question_mark t cols pk),
       ds_update_many_stmt = sqlite_update_many,
       ds_bool_literal = one_zero, ds_col_type = sqlite_col_type, ds_create_table_prefix = create_if_not_exists double_quoted,
       ds_needs_exists_check = False, ds_autoincrement_ddl = (\<lambda>_. ''INTEGER PRIMARY KEY AUTOINCREMENT''), ds_max_params = 999 \<rparr>"

definition dollar_number :: "nat \<Rightarrow> string" where
  "dollar_number n = CHR ''$'' # dec_nat n"

fun postgres_col_type :: "col_type \<Rightarrow> string" where
  "postgres_col_type ColI64 = ''BIGINT''"
| "postgres_col_type ColI32 = ''INTEGER''"
| "postgres_col_type ColF64 = ''DOUBLE PRECISION''"
| "postgres_col_type ColBool = ''BOOLEAN''"
| "postgres_col_type ColText = ''TEXT''"
| "postgres_col_type ColJson = ''TEXT''"
| "postgres_col_type ColBytes = ''BYTEA''"
| "postgres_col_type ColTimestamp = ''TIMESTAMPTZ''"
| "postgres_col_type ColDate = ''DATE''"

definition postgres_spec :: dialect_spec where
  "postgres_spec =
     \<lparr> ds_quote = double_quoted, ds_placeholder = dollar_number, ds_limit_clause = (\<lambda>l k _. limit_offset l k),
       ds_insert_plan = (\<lambda>t cols pk _. insert_returning double_quoted dollar_number t cols pk),
       ds_upsert = (\<lambda>t cols pk _. upsert_on_conflict double_quoted dollar_number t cols pk),
       ds_update_many_stmt = update_many_from_values double_quoted dollar_number,
       ds_bool_literal = true_false, ds_col_type = postgres_col_type, ds_create_table_prefix = create_if_not_exists double_quoted,
       ds_needs_exists_check = False,
       ds_autoincrement_ddl = (\<lambda>ty. if ty = ColI64 then ''BIGSERIAL'' else postgres_col_type ty @ '' GENERATED BY DEFAULT AS IDENTITY''),
       ds_max_params = 65535 \<rparr>"

definition backquoted :: "string \<Rightarrow> string" where
  "backquoted ident = ''`'' @ ident @ ''`''"

fun mysql_col_type :: "col_type \<Rightarrow> string" where
  "mysql_col_type ColI64 = ''BIGINT''"
| "mysql_col_type ColI32 = ''INT''"
| "mysql_col_type ColF64 = ''DOUBLE''"
| "mysql_col_type ColBool = ''TINYINT(1)''"
| "mysql_col_type ColText = ''TEXT''"
| "mysql_col_type ColJson = ''TEXT''"
| "mysql_col_type ColBytes = ''BLOB''"
| "mysql_col_type ColTimestamp = ''DATETIME''"
| "mysql_col_type ColDate = ''DATE''"

definition mysql_insert_plan :: "string \<Rightarrow> string list \<Rightarrow> insert_plan" where
  "mysql_insert_plan table cols = InsertThen (insert_values backquoted question_mark table cols) ''SELECT LAST_INSERT_ID()''"

definition mysql_upsert :: "string \<Rightarrow> string list \<Rightarrow> string \<Rightarrow> string" where
  "mysql_upsert table cols pk =
     (let q = backquoted; assigns = comma_list (\<lambda>c. q c @ '' = VALUES('' @ q c @ '')'') (filter (\<lambda>c. c \<noteq> pk) cols);
          assigns = (if assigns = [] then q pk @ '' = '' @ q pk else assigns)
      in insert_values q question_mark table cols @ '' ON DUPLICATE KEY UPDATE '' @ assigns)"

definition mysql_update_many :: "string \<Rightarrow> string \<Rightarrow> string list \<Rightarrow> string list \<Rightarrow> nat \<Rightarrow> string" where
  "mysql_update_many table pk set_cols extra n_rows =
     (let q = backquoted; alias = update_many_aliases q pk set_cols extra; per_row = length alias;
          selects = str_join '' UNION ALL '' (map (\<lambda>r. ''SELECT '' @ comma_list (\<lambda>c.
            let ph = question_mark (r * per_row + c + 1) in if r = 0 then ph @ '' AS '' @ alias ! c else ph) [0..<per_row]) [0..<n_rows]);
          sets = comma_list (\<lambda>c. q table @ ''.'' @ q c @ '' = v.'' @ q c) set_cols;
          sql = ''UPDATE '' @ q table @ '' JOIN ('' @ selects @ '') AS v ON '' @ q table @ ''.'' @ q pk @ '' = v.'' @ q pk @ '' SET '' @ sets
      in if extra = [] then sql
         else sql @ '' WHERE '' @ str_join '' AND '' (map (\<lambda>c. q table @ ''.'' @ q c @ '' = v.'' @ q (c @ ''__old'')) extra))"

definition mysql_spec :: dialect_spec where
  "mysql_spec =
     \<lparr> ds_quote = backquoted, ds_placeholder = question_mark, ds_limit_clause = (\<lambda>l k _. limit_offset l k),
       ds_insert_plan = (\<lambda>t cols _ _. mysql_insert_plan t cols), ds_upsert = (\<lambda>t cols pk _. mysql_upsert t cols pk),
       ds_update_many_stmt = mysql_update_many, ds_bool_literal = one_zero, ds_col_type = mysql_col_type,
       ds_create_table_prefix = create_if_not_exists backquoted, ds_needs_exists_check = False,
       ds_autoincrement_ddl = (\<lambda>ty. mysql_col_type ty @ '' AUTO_INCREMENT''), ds_max_params = 65535 \<rparr>"

definition bracketed :: "string \<Rightarrow> string" where
  "bracketed ident = ''['' @ ident @ '']''"

definition at_p :: "nat \<Rightarrow> string" where
  "at_p n = ''@P'' @ dec_nat n"

definition mssql_limit_clause :: "nat option \<Rightarrow> nat \<Rightarrow> bool \<Rightarrow> limit_frag" where
  "mssql_limit_clause limit offset has_order =
     (if offset = 0 then
        (case limit of Some l \<Rightarrow> \<lparr> lm_prefix = ''TOP ('' @ dec_nat l @ '') '', lm_suffix = [] \<rparr> | None \<Rightarrow> limit_none)
      else
        (let order = (if has_order then [] else '' ORDER BY (SELECT NULL)'');
             fetch = (case limit of Some l \<Rightarrow> '' FETCH NEXT '' @ dec_nat l @ '' ROWS ONLY'' | None \<Rightarrow> [])
         in \<lparr> lm_prefix = [], lm_suffix = order @ '' OFFSET '' @ dec_nat offset @ '' ROWS'' @ fetch \<rparr>))"

definition mssql_insert_plan :: "string \<Rightarrow> string list \<Rightarrow> string \<Rightarrow> insert_plan" where
  "mssql_insert_plan table cols pk =
     InsertSingle (''INSERT INTO '' @ bracketed table @ '' ('' @ comma_list bracketed cols @ '') OUTPUT INSERTED.'' @ bracketed pk @
       '' VALUES ('' @ ph_list at_p (length cols) @ '')'')"

definition mssql_upsert :: "string \<Rightarrow> string list \<Rightarrow> string \<Rightarrow> string" where
  "mssql_upsert table cols pk =
     (let q = bracketed; assigns = comma_list (\<lambda>c. ''[t].'' @ q c @ '' = [s].'' @ q c) (filter (\<lambda>c. c \<noteq> pk) cols);
          matched = (if assigns = [] then [] else ''WHEN MATCHED THEN UPDATE SET '' @ assigns @ '' '')
      in ''MERGE INTO '' @ q table @ '' AS [t] USING (VALUES ('' @ ph_list at_p (length cols) @ '')) AS [s] ('' @ comma_list q cols @
         '') ON [t].'' @ q pk @ '' = [s].'' @ q pk @ '' '' @ matched @ ''WHEN NOT MATCHED THEN INSERT ('' @ comma_list q cols @
         '') VALUES ('' @ comma_list (\<lambda>c. ''[s].'' @ q c) cols @ '');'')"

fun mssql_col_type :: "col_type \<Rightarrow> string" where
  "mssql_col_type ColI64 = ''BIGINT''"
| "mssql_col_type ColI32 = ''INT''"
| "mssql_col_type ColF64 = ''FLOAT''"
| "mssql_col_type ColBool = ''BIT''"
| "mssql_col_type ColText = ''NVARCHAR(MAX)''"
| "mssql_col_type ColJson = ''NVARCHAR(MAX)''"
| "mssql_col_type ColBytes = ''VARBINARY(MAX)''"
| "mssql_col_type ColTimestamp = ''DATETIME2''"
| "mssql_col_type ColDate = ''DATE''"

definition mssql_spec :: dialect_spec where
  "mssql_spec =
     \<lparr> ds_quote = bracketed, ds_placeholder = at_p, ds_limit_clause = mssql_limit_clause,
       ds_insert_plan = (\<lambda>t cols pk _. mssql_insert_plan t cols pk), ds_upsert = (\<lambda>t cols pk _. mssql_upsert t cols pk),
       ds_update_many_stmt = update_many_from_values bracketed at_p, ds_bool_literal = one_zero, ds_col_type = mssql_col_type,
       ds_create_table_prefix = (\<lambda>t. ''CREATE TABLE '' @ bracketed t), ds_needs_exists_check = True,
       ds_autoincrement_ddl = (\<lambda>ty. mssql_col_type ty @ '' IDENTITY(1,1)''), ds_max_params = 2100 \<rparr>"

fun lookup_spec :: "dialect \<Rightarrow> dialect_spec" where
  "lookup_spec Standard = standard_spec"
| "lookup_spec Sqlite = sqlite_spec"
| "lookup_spec Postgres = postgres_spec"
| "lookup_spec MySql = mysql_spec"
| "lookup_spec Mssql = mssql_spec"

section \<open>Tables (migrate/ddl.rs)\<close>

definition column_ddl :: "dialect_spec \<Rightarrow> column_meta \<Rightarrow> string" where
  "column_ddl spec c =
     (let quoted = ds_quote spec (cm_name c); ty = ds_col_type spec (cm_ty c) in
      if cm_pk c \<and> cm_auto_increment c then
        (let ddl = ds_autoincrement_ddl spec (cm_ty c) in
         if str_contains ''PRIMARY KEY'' ddl then quoted @ '' '' @ ddl else quoted @ '' '' @ ddl @ '' PRIMARY KEY'')
      else if cm_pk c then quoted @ '' '' @ ty @ '' PRIMARY KEY''
      else if cm_nullable c then quoted @ '' '' @ ty
      else quoted @ '' '' @ ty @ '' NOT NULL'')"

definition create_table_sql :: "entity_meta \<Rightarrow> dialect \<Rightarrow> string" where
  "create_table_sql meta d =
     (let spec = lookup_spec d in ds_create_table_prefix spec (em_table meta) @ '' ('' @ comma_list (column_ddl spec) (em_columns meta) @ '')'')"

definition drop_table_sql :: "entity_meta \<Rightarrow> dialect \<Rightarrow> string" where
  "drop_table_sql meta d = ''DROP TABLE IF EXISTS '' @ ds_quote (lookup_spec d) (em_table meta)"

section \<open>What the proofs use of the dialects\<close>

lemma max_params_pos: "ds_max_params (lookup_spec d) > 1"
  by (cases d) (simp_all add: standard_spec_def sqlite_spec_def postgres_spec_def mysql_spec_def mssql_spec_def)

end
