(* ===== verification/OrmQuery.thy ===== *)
theory OrmQuery
  imports OrmDialect
begin

text \<open>
  \<^verbatim>\<open>ecat-orm\<close>: the query builder (\<^verbatim>\<open>query/mod.rs\<close>, \<^verbatim>\<open>query/filter.rs\<close>), the text and the parameters of
  its statements (\<^verbatim>\<open>query/sql.rs\<close>), loading of relations (\<^verbatim>\<open>relation.rs\<close>) and pages (\<^verbatim>\<open>page.rs\<close>).
  What \<^verbatim>\<open>#[derive(Entity)]\<close> generates for a type is a record of the trait's functions.
\<close>

section \<open>Errors and values (error.rs, value.rs)\<close>

text \<open>\<open>OrmPanic\<close> stands for a panic (\<^verbatim>\<open>expect\<close>, \<^verbatim>\<open>unreachable!\<close>).\<close>

datatype orm_error =
    OrmRdbms rdbms_error
  | UnknownColumn string
  | OptimisticLockConflict
  | OrmNotFound
  | MigrationIrreversible string
  | InvalidMigrationName string
  | MigrationNotApplied int
  | UnexpectedNull string
  | TypeMismatch string string
  | MigrationFailed int string orm_error
  | OrmPanic string

definition i64_from_row_col :: "db_row \<Rightarrow> string \<Rightarrow> (orm_error, int) result" where
  "i64_from_row_col row column = (case row_get row column of
       None \<Rightarrow> Err (UnknownColumn column)
     | Some v \<Rightarrow> if is_null v then Err (UnexpectedNull column)
         else ok_or (TypeMismatch column ''i64'') (as_i64 v))"

text \<open>The trait \<^verbatim>\<open>Entity\<close>.\<close>

record 'e entity_trait =
  et_table :: string
  et_pk :: string
  et_meta :: entity_meta
  et_from_row :: "db_row \<Rightarrow> (orm_error, 'e) result"
  et_to_values :: "'e \<Rightarrow> (string \<times> json_value) list"
  et_pk_value :: "'e \<Rightarrow> json_value"
  et_set_relation :: "string \<Rightarrow> db_row list \<Rightarrow> 'e \<Rightarrow> (orm_error, 'e) result"

section \<open>Filters (query/filter.rs)\<close>

datatype op = OpEq | OpNe | OpLt | OpLe | OpGt | OpGe | OpLike | OpIn | OpNotIn | OpIsNull | OpNotNull

text \<open>\<^verbatim>\<open>Op::as_sql\<close> panics on the last four.\<close>

fun op_as_sql :: "op \<Rightarrow> string option" where
  "op_as_sql OpEq = Some ''=''"
| "op_as_sql OpNe = Some ''<>''"
| "op_as_sql OpLt = Some ''<''"
| "op_as_sql OpLe = Some ''<=''"
| "op_as_sql OpGt = Some ''>''"
| "op_as_sql OpGe = Some ''>=''"
| "op_as_sql OpLike = Some ''LIKE''"
| "op_as_sql _ = None"

fun op_as_str :: "op \<Rightarrow> string" where
  "op_as_str OpEq = ''Eq''"
| "op_as_str OpNe = ''Ne''"
| "op_as_str OpLt = ''Lt''"
| "op_as_str OpLe = ''Le''"
| "op_as_str OpGt = ''Gt''"
| "op_as_str OpGe = ''Ge''"
| "op_as_str OpLike = ''Like''"
| "op_as_str OpIn = ''In''"
| "op_as_str OpNotIn = ''NotIn''"
| "op_as_str OpIsNull = ''IsNull''"
| "op_as_str OpNotNull = ''NotNull''"

definition takes_value :: "op \<Rightarrow> bool" where
  "takes_value x \<longleftrightarrow> \<not> (x = OpIsNull \<or> x = OpNotNull)"

datatype order = Asc | Desc

fun order_as_sql :: "order \<Rightarrow> string" where
  "order_as_sql Asc = ''ASC''"
| "order_as_sql Desc = ''DESC''"

datatype join_type = JoinInner | JoinLeft

fun join_as_sql :: "join_type \<Rightarrow> string" where
  "join_as_sql JoinInner = ''INNER JOIN''"
| "join_as_sql JoinLeft = ''LEFT JOIN''"

datatype expr =
    ECmp string op json_value
  | EIn string "json_value list" bool
  | ENull string bool
  | ERaw string

section \<open>The builder (query/mod.rs)\<close>

text \<open>
  The type states \<^verbatim>\<open>Unfiltered\<close> and \<^verbatim>\<open>Filtered\<close> are phantom types; \<^verbatim>\<open>delete_where\<close> exists only on
  \<^verbatim>\<open>Filtered\<close>, which \<^verbatim>\<open>filter\<close> and \<^verbatim>\<open>filter_raw\<close> return.
\<close>

record orm_query =
  q_meta :: entity_meta
  q_filters :: "expr list"
  q_orders :: "(string \<times> order) list"
  q_joins :: "(join_type \<times> string \<times> string) list"
  q_limit :: "nat option"
  q_offset :: "nat option"
  q_with_trashed :: bool
  q_relations :: "string list"

definition query_new :: "entity_meta \<Rightarrow> orm_query" where
  "query_new meta = \<lparr> q_meta = meta, q_filters = [], q_orders = [], q_joins = [], q_limit = None, q_offset = None,
     q_with_trashed = False, q_relations = [] \<rparr>"

definition q_with :: "string list \<Rightarrow> orm_query \<Rightarrow> orm_query" where
  "q_with names q = q\<lparr>q_relations := q_relations q @ names\<rparr>"

definition q_trashed :: "orm_query \<Rightarrow> orm_query" where
  "q_trashed q = q\<lparr>q_with_trashed := True\<rparr>"

definition check_column :: "orm_query \<Rightarrow> string \<Rightarrow> (orm_error, unit) result" where
  "check_column q column = (if meta_column (q_meta q) column \<noteq> None then Ok () else Err (UnknownColumn column))"

definition q_order_by :: "string \<Rightarrow> order \<Rightarrow> orm_query \<Rightarrow> (orm_error, orm_query) result" where
  "q_order_by column dir q = try_bind (check_column q column) (\<lambda>_. Ok (q\<lparr>q_orders := q_orders q @ [(column, dir)]\<rparr>))"

definition q_set_limit :: "nat \<Rightarrow> orm_query \<Rightarrow> orm_query" where
  "q_set_limit n q = q\<lparr>q_limit := Some n\<rparr>"

definition q_set_offset :: "nat \<Rightarrow> orm_query \<Rightarrow> orm_query" where
  "q_set_offset n q = q\<lparr>q_offset := Some n\<rparr>"

definition q_join :: "join_type \<Rightarrow> string \<Rightarrow> string \<Rightarrow> orm_query \<Rightarrow> orm_query" where
  "q_join kind table on q = q\<lparr>q_joins := q_joins q @ [(kind, table, on)]\<rparr>"

definition push_filter :: "expr \<Rightarrow> orm_query \<Rightarrow> orm_query" where
  "push_filter e q = q\<lparr>q_filters := q_filters q @ [e]\<rparr>"

definition q_filter_raw :: "string \<Rightarrow> orm_query \<Rightarrow> (orm_error, orm_query) result" where
  "q_filter_raw e q = Ok (push_filter (ERaw e) q)"

text \<open>\<open>text_of\<close> is the text of a JSON value, for the message.\<close>

definition q_filter :: "(json_value \<Rightarrow> string) \<Rightarrow> string \<Rightarrow> op \<Rightarrow> json_value \<Rightarrow> orm_query \<Rightarrow> (orm_error, orm_query) result" where
  "q_filter text_of column x v q =
     try_bind (check_column q column) (\<lambda>_.
     try_bind (case x of
         OpIsNull \<Rightarrow> Ok (ENull column False)
       | OpNotNull \<Rightarrow> Ok (ENull column True)
       | _ \<Rightarrow> if x = OpIn \<or> x = OpNotIn then
           (case v of JArray vs \<Rightarrow> Ok (EIn column vs (x = OpNotIn))
            | _ \<Rightarrow> Err (OrmRdbms (RdbmsDatabase (''`'' @ op_as_str x @ ''` requires an array value, got: '' @ text_of v))))
           else Ok (ECmp column x v)) (\<lambda>e.
     Ok (push_filter e q)))"

definition clone_with_limit :: "nat \<Rightarrow> nat \<Rightarrow> orm_query \<Rightarrow> orm_query" where
  "clone_with_limit limit offset q = q\<lparr>q_limit := Some limit, q_offset := Some offset\<rparr>"

section \<open>Statements (query/sql.rs)\<close>

record built =
  bt_sql :: string
  bt_params :: "json_value list"

definition COUNT_ALIAS :: string where "COUNT_ALIAS = ''ecat_count''"

text \<open>
  A condition, with the number of placeholders handed out before it: its text, the number after it
  and its parameters. \<open>None\<close> is the panic of \<^verbatim>\<open>as_sql\<close>.
\<close>

fun render_expr :: "dialect_spec \<Rightarrow> expr \<Rightarrow> nat \<Rightarrow> (string \<times> nat \<times> json_value list) option" where
  "render_expr spec (ECmp column x v) n =
     map_option (\<lambda>o_sql. (ds_quote spec column @ '' '' @ o_sql @ '' '' @ ds_placeholder spec (n + 1), n + 1, [v])) (op_as_sql x)"
| "render_expr spec (EIn column vs negated) n =
     (if vs = [] then Some (if negated then ''1 = 1'' else ''1 = 0'', n, [])
      else Some (ds_quote spec column @ '' '' @ (if negated then ''NOT '' else []) @ ''IN ('' @
             comma_list (\<lambda>i. ds_placeholder spec (n + i + 1)) [0..<length vs] @ '')'', n + length vs, vs))"
| "render_expr spec (ENull column negated) n =
     Some (if negated then ds_quote spec column @ '' IS NOT NULL'' else ds_quote spec column @ '' IS NULL'', n, [])"
| "render_expr spec (ERaw e) n = Some (e, n, [])"

fun render_filters :: "dialect_spec \<Rightarrow> expr list \<Rightarrow> nat \<Rightarrow> (string list \<times> nat \<times> json_value list) option" where
  "render_filters spec [] n = Some ([], n, [])"
| "render_filters spec (f # fs) n =
     Option.bind (render_expr spec f n) (\<lambda>(c, n1, ps).
     Option.bind (render_filters spec fs n1) (\<lambda>(cs, n2, qs). Some (c # cs, n2, ps @ qs)))"

definition soft_gate :: "entity_meta \<Rightarrow> bool \<Rightarrow> dialect_spec \<Rightarrow> string list" where
  "soft_gate meta with_trashed spec = (case ef_soft_delete (em_flags meta) of
       Some sd \<Rightarrow> if with_trashed then [] else [ds_quote spec sd @ '' IS NULL'']
     | None \<Rightarrow> [])"

definition render_where ::
  "entity_meta \<Rightarrow> expr list \<Rightarrow> bool \<Rightarrow> dialect_spec \<Rightarrow> nat \<Rightarrow> (string option \<times> nat \<times> json_value list) option" where
  "render_where meta filters with_trashed spec n =
     map_option (\<lambda>(cs, n', ps).
       let conds = soft_gate meta with_trashed spec @ cs in
       (if conds = [] then None else Some (str_join '' AND '' conds), n', ps)) (render_filters spec filters n)"

definition join_sql :: "dialect_spec \<Rightarrow> join_type \<times> string \<times> string \<Rightarrow> string" where
  "join_sql spec j = (case j of (kind, table, on) \<Rightarrow> '' '' @ join_as_sql kind @ '' '' @ ds_quote spec table @ '' ON '' @ on)"

definition order_sql :: "dialect_spec \<Rightarrow> orm_query \<Rightarrow> string" where
  "order_sql spec q = (if q_orders q = [] then []
     else '' ORDER BY '' @ comma_list (\<lambda>(c, dir). ds_quote spec c @ '' '' @ order_as_sql dir) (q_orders q))"

definition select_head :: "orm_query \<Rightarrow> dialect_spec \<Rightarrow> bool \<Rightarrow> limit_frag \<Rightarrow> string" where
  "select_head q spec for_count limit =
     ''SELECT '' @ lm_prefix limit @
     (if for_count then ''COUNT(*) AS '' @ ds_quote spec COUNT_ALIAS
      else comma_list (\<lambda>c. ds_quote spec (cm_name c)) (em_columns (q_meta q))) @
     '' FROM '' @ ds_quote spec (em_table (q_meta q)) @ concat (map (join_sql spec) (q_joins q))"

definition select_limit :: "orm_query \<Rightarrow> dialect_spec \<Rightarrow> bool \<Rightarrow> limit_frag" where
  "select_limit q spec for_count = (if for_count then limit_none
     else ds_limit_clause spec (q_limit q) (case q_offset q of None \<Rightarrow> 0 | Some k \<Rightarrow> k) (q_orders q \<noteq> []))"

definition build_select :: "orm_query \<Rightarrow> dialect \<Rightarrow> bool \<Rightarrow> built option" where
  "build_select q d for_count =
     (let spec = lookup_spec d; limit = select_limit q spec for_count in
      map_option (\<lambda>(w, n, ps).
        \<lparr> bt_sql = select_head q spec for_count limit @ (case w of None \<Rightarrow> [] | Some c \<Rightarrow> '' WHERE '' @ c) @
            (if for_count then [] else order_sql spec q) @ lm_suffix limit,
          bt_params = ps \<rparr>) (render_where (q_meta q) (q_filters q) (q_with_trashed q) spec 0))"

section \<open>Chunks (batch.rs)\<close>

definition chunk_size :: "nat \<Rightarrow> nat \<Rightarrow> nat" where
  "chunk_size max_params per_row = max (max_params div (max per_row 1)) 1"

function split_chunks :: "nat \<Rightarrow> nat \<Rightarrow> nat list" where
  "split_chunks left_over per_chunk =
     (if left_over = 0 then [] else let k = min left_over (max per_chunk 1) in k # split_chunks (left_over - k) per_chunk)"
  by pat_completeness auto
termination by (relation "measure fst") (auto simp: Let_def)

declare split_chunks.simps [simp del]

section \<open>Relations (relation.rs)\<close>

datatype side = Subject | Target

fun join_sides :: "relation_kind \<Rightarrow> side \<times> side" where
  "join_sides HasMany = (Subject, Target)"
| "join_sides HasOne = (Subject, Target)"
| "join_sides BelongsTo = (Target, Subject)"

definition is_single_valued :: "relation_kind \<Rightarrow> bool" where
  "is_single_valued kind \<longleftrightarrow> kind = HasOne \<or> kind = BelongsTo"

text \<open>
  \<^verbatim>\<open>Value\<close> compares doubles by value, so the two zeros are equal: keys are compared by their
  representative.
\<close>

fun json_key :: "json_value \<Rightarrow> json_value" where
  "json_key (JNumber (Float b)) = JNumber (Float (if b = 0x8000000000000000 then 0 else b))"
| "json_key (JArray vs) = JArray (map json_key vs)"
| "json_key (JObject ms) = JObject (map (\<lambda>(k, v). (k, json_key v)) ms)"
| "json_key v = v"

fun distinct_keys_from :: "json_value list \<Rightarrow> json_value list \<Rightarrow> json_value list" where
  "distinct_keys_from out [] = out"
| "distinct_keys_from out (k # ks) =
     distinct_keys_from (if is_null k \<or> json_key k \<in> set (map json_key out) then out else out @ [k]) ks"

definition distinct_keys :: "json_value list \<Rightarrow> json_value list" where
  "distinct_keys ks = distinct_keys_from [] ks"

text \<open>\<^verbatim>\<open>HashMap<Value, Vec<Row>>\<close>: the rows of each key.\<close>

type_synonym buckets = "json_value \<Rightarrow> db_row list"

definition push_bucket :: "json_value \<times> db_row \<Rightarrow> buckets \<Rightarrow> buckets" where
  "push_bucket p b = b(json_key (fst p) := b (json_key (fst p)) @ [snd p])"

definition subject_value :: "'e entity_trait \<Rightarrow> 'e \<Rightarrow> string \<Rightarrow> json_value" where
  "subject_value E s column = (if column = et_pk E then et_pk_value E s
     else case find (\<lambda>(n, _). n = column) (et_to_values E s) of Some (_, v) \<Rightarrow> v | None \<Rightarrow> JNull)"

definition relation_sql :: "dialect_spec \<Rightarrow> string \<Rightarrow> string \<Rightarrow> nat \<Rightarrow> string" where
  "relation_sql spec table col n = ''SELECT * FROM '' @ ds_quote spec table @ '' WHERE '' @ ds_quote spec col @ '' IN ('' @
     ph_list (ds_placeholder spec) n @ '')''"

definition missing_target :: "string \<Rightarrow> string \<Rightarrow> orm_error" where
  "missing_target name col = UnknownColumn (''relation `'' @ name @ ''`: target column `'' @ col @
     ''` missing from the result set; the relation's foreign_key / local_key may be swapped'')"

fun load_chunks ::
  "'w sql_executor \<Rightarrow> string \<Rightarrow> string \<Rightarrow> string \<Rightarrow> nat list \<Rightarrow> json_value list \<Rightarrow> buckets \<Rightarrow> (orm_error, 'w, buckets) act" where
  "load_chunks db name table col [] keys b = act_ok b"
| "load_chunks db name table col (k_rows # sizes) keys b =
     act_bind (act_map_err OrmRdbms (ex_query_with db (relation_sql (lookup_spec (ex_dialect db)) table col (length (take k_rows keys))) (take k_rows keys))) (\<lambda>rows.
     act_bind (act_lift (collect_results (\<lambda>r. try_bind (ok_or (missing_target name col) (row_get r col)) (\<lambda>k. Ok (k, r))) rows)) (\<lambda>pairs.
     load_chunks db name table col sizes (drop k_rows keys) (fold push_bucket pairs b)))"

definition relation_rows :: "relation_kind \<Rightarrow> db_row list \<Rightarrow> db_row list" where
  "relation_rows kind rows = (if is_single_valued kind then take 1 rows else rows)"

definition subject_col :: "relation_meta \<Rightarrow> string" where
  "subject_col m = (case fst (join_sides (rm_kind m)) of Subject \<Rightarrow> rm_local_key m | Target \<Rightarrow> rm_foreign_key m)"

definition target_col :: "relation_meta \<Rightarrow> string" where
  "target_col m = (case snd (join_sides (rm_kind m)) of Subject \<Rightarrow> rm_local_key m | Target \<Rightarrow> rm_foreign_key m)"

definition load_relation :: "'e entity_trait \<Rightarrow> 'w sql_executor \<Rightarrow> string \<Rightarrow> 'e list \<Rightarrow> (orm_error, 'w, 'e list) act" where
  "load_relation E db name subjects =
     act_bind (act_lift (ok_or (UnknownColumn (''unknown relation `'' @ name @ ''`'')) (meta_relation (et_meta E) name))) (\<lambda>m.
     let keys = distinct_keys (map (\<lambda>s. subject_value E s (subject_col m)) subjects);
         per_chunk = chunk_size (ds_max_params (lookup_spec (ex_dialect db))) 1
     in act_bind (load_chunks db name (rm_target_table m) (target_col m) (split_chunks (length keys) per_chunk) keys (\<lambda>_. [])) (\<lambda>b.
        act_lift (collect_results (\<lambda>s. et_set_relation E name (relation_rows (rm_kind m) (b (json_key (subject_value E s (subject_col m))))) s) subjects)))"

section \<open>Fetching and pages (query/mod.rs, page.rs)\<close>

fun load_relations :: "'e entity_trait \<Rightarrow> 'w sql_executor \<Rightarrow> string list \<Rightarrow> 'e list \<Rightarrow> (orm_error, 'w, 'e list) act" where
  "load_relations E db [] items = act_ok items"
| "load_relations E db (name # names) items = act_bind (load_relation E db name items) (load_relations E db names)"

definition query_built :: "'w sql_executor \<Rightarrow> orm_query \<Rightarrow> bool \<Rightarrow> (orm_error, 'w, db_row list) act" where
  "query_built db q for_count =
     act_bind (act_lift (ok_or (OrmPanic ''no infix SQL form'') (build_select q (ex_dialect db) for_count))) (\<lambda>b.
     act_map_err OrmRdbms (ex_query_with db (bt_sql b) (bt_params b)))"

definition q_fetch :: "'e entity_trait \<Rightarrow> 'w sql_executor \<Rightarrow> orm_query \<Rightarrow> (orm_error, 'w, 'e list) act" where
  "q_fetch E db q =
     act_bind (query_built db q False) (\<lambda>rows.
     act_bind (act_lift (collect_results (et_from_row E) rows)) (\<lambda>items.
     load_relations E db (q_relations q) items))"

record 'e page =
  pg_items :: "'e list"
  pg_total :: "nat option"
  pg_page :: nat
  pg_per_page :: nat

definition total_pages :: "'e page \<Rightarrow> nat option" where
  "total_pages p = Option.bind (pg_total p) (\<lambda>total.
     if pg_per_page p = 0 then None else Some ((total + pg_per_page p - 1) div pg_per_page p))"

definition has_next :: "'e page \<Rightarrow> bool" where
  "has_next p = (case total_pages p of None \<Rightarrow> False | Some t \<Rightarrow> pg_page p < t)"

definition u64_sat_mul :: "nat \<Rightarrow> nat \<Rightarrow> nat" where
  "u64_sat_mul a b = min (a * b) u64_max"

definition page_items :: "'e entity_trait \<Rightarrow> 'w sql_executor \<Rightarrow> nat \<Rightarrow> nat \<Rightarrow> orm_query \<Rightarrow> (orm_error, 'w, 'e list) act" where
  "page_items E db page per_page q = q_fetch E db (clone_with_limit per_page (u64_sat_mul (page - 1) per_page) q)"

definition paginate :: "'e entity_trait \<Rightarrow> 'w sql_executor \<Rightarrow> nat \<Rightarrow> nat \<Rightarrow> orm_query \<Rightarrow> (orm_error, 'w, 'e page) act" where
  "paginate E db page per_page q =
     act_bind (query_built db q True) (\<lambda>rows.
     act_bind (act_lift (case rows of [] \<Rightarrow> Ok 0 | r # _ \<Rightarrow> i64_from_row_col r COUNT_ALIAS)) (\<lambda>total.
     act_bind (page_items E db page per_page q) (\<lambda>items.
     act_ok \<lparr> pg_items = items, pg_total = Some (nat (max total 0)), pg_page = page, pg_per_page = per_page \<rparr>)))"

definition paginate_without_count :: "'e entity_trait \<Rightarrow> 'w sql_executor \<Rightarrow> nat \<Rightarrow> nat \<Rightarrow> orm_query \<Rightarrow> (orm_error, 'w, 'e page) act" where
  "paginate_without_count E db page per_page q =
     act_bind (page_items E db page per_page q) (\<lambda>items.
     act_ok \<lparr> pg_items = items, pg_total = None, pg_page = page, pg_per_page = per_page \<rparr>)"

end
