(* ===== verification/OrmWrite.thy ===== *)
theory OrmWrite
  imports OrmQuery
begin

text \<open>
  \<^verbatim>\<open>ecat-orm\<close>: single rows (\<^verbatim>\<open>crud.rs\<close>) and batches (\<^verbatim>\<open>batch.rs\<close>). The clock is a parameter: \<open>oe_now\<close> is
  the text of its reading when a column of a row is filled.
\<close>

record 'w orm_env =
  oe_now :: "'w \<Rightarrow> nat \<Rightarrow> string \<Rightarrow> json_value"

section \<open>Columns of a row (crud.rs)\<close>

definition auto_timestamp :: "string option \<Rightarrow> string \<Rightarrow> json_value \<Rightarrow> bool \<Rightarrow> json_value \<Rightarrow> json_value" where
  "auto_timestamp flag column current always_overwrite now_value =
     (if flag = Some column \<and> (always_overwrite \<or> is_null current) then now_value else current)"

definition unknown_value :: orm_error where
  "unknown_value = OrmPanic ''to_values returned an unknown column''"

definition insert_value :: "'e entity_trait \<Rightarrow> (string \<Rightarrow> json_value) \<Rightarrow> string \<times> json_value \<Rightarrow> (orm_error, (string \<times> json_value) option) result" where
  "insert_value E now p = (case p of (name, v) \<Rightarrow>
     try_bind (ok_or unknown_value (meta_column (et_meta E) name)) (\<lambda>m.
     if cm_pk m \<and> cm_auto_increment m then Ok None
     else let fl = em_flags (et_meta E); v1 = auto_timestamp (ef_created_at fl) name v False (now name) in
       Ok (Some (name, auto_timestamp (ef_updated_at fl) name v1 True (now name)))))"

definition update_value :: "'e entity_trait \<Rightarrow> (string \<Rightarrow> json_value) \<Rightarrow> string \<times> json_value \<Rightarrow> (orm_error, (string \<times> json_value) option) result" where
  "update_value E now p = (case p of (name, v) \<Rightarrow>
     try_bind (ok_or unknown_value (meta_column (et_meta E) name)) (\<lambda>m.
     if cm_pk m then Ok None
     else Ok (Some (name, auto_timestamp (ef_updated_at (em_flags (et_meta E))) name v True (now name)))))"

definition unzip_some :: "('a \<times> 'b) option list \<Rightarrow> 'a list \<times> 'b list" where
  "unzip_some xs = (let ys = List.map_filter id xs in (map fst ys, map snd ys))"

definition insert_parts :: "'e entity_trait \<Rightarrow> (string \<Rightarrow> json_value) \<Rightarrow> 'e \<Rightarrow> (orm_error, string list \<times> json_value list) result" where
  "insert_parts E now e = try_bind (collect_results (insert_value E now) (et_to_values E e)) (\<lambda>xs. Ok (unzip_some xs))"

definition update_parts :: "'e entity_trait \<Rightarrow> (string \<Rightarrow> json_value) \<Rightarrow> 'e \<Rightarrow> (orm_error, string list \<times> json_value list) result" where
  "update_parts E now e = try_bind (collect_results (update_value E now) (et_to_values E e)) (\<lambda>xs. Ok (unzip_some xs))"

definition read_returned_pk :: "'e entity_trait \<Rightarrow> db_row list \<Rightarrow> (orm_error, int) result" where
  "read_returned_pk E rows = (case rows of
       [] \<Rightarrow> Err (OrmRdbms (RdbmsDatabase ''INSERT returned no row for the generated primary key''))
     | r # _ \<Rightarrow> i64_from_row_col r (et_pk E))"

definition orm_insert :: "'w orm_env \<Rightarrow> 'e entity_trait \<Rightarrow> 'w sql_executor \<Rightarrow> 'e \<Rightarrow> (orm_error, 'w, int) act" where
  "orm_insert env E db e =
     act_bind (\<lambda>w. (insert_parts E (oe_now env w 0) e, w)) (\<lambda>(cols, vals).
     case ds_insert_plan (lookup_spec (ex_dialect db)) (et_table E) cols (et_pk E) (length vals) of
       InsertSingle sql \<Rightarrow> act_bind (act_map_err OrmRdbms (ex_query_write db sql vals)) (\<lambda>rows. act_lift (read_returned_pk E rows))
     | InsertThen ins fetch \<Rightarrow>
         act_bind (act_map_err OrmRdbms (ex_execute_then_query db ins vals fetch)) (\<lambda>rows. act_lift (read_returned_pk E rows)))"

definition find_by_id :: "(json_value \<Rightarrow> string) \<Rightarrow> 'e entity_trait \<Rightarrow> 'w sql_executor \<Rightarrow> json_value \<Rightarrow> (orm_error, 'w, 'e option) act" where
  "find_by_id text_of E db pk =
     act_bind (act_lift (q_filter text_of (et_pk E) OpEq pk (query_new (et_meta E)))) (\<lambda>q.
     act_bind (q_fetch E db q) (\<lambda>items. act_ok (case items of [] \<Rightarrow> None | x # _ \<Rightarrow> Some x)))"

definition find_all :: "'e entity_trait \<Rightarrow> 'w sql_executor \<Rightarrow> (orm_error, 'w, 'e list) act" where
  "find_all E db = q_fetch E db (query_new (et_meta E))"

record update_row_parts =
  up_set_cols :: "string list"
  up_set_values :: "json_value list"
  up_old_version :: "json_value option"

text \<open>The new version is the old one plus one, which wraps in a release build.\<close>

definition next_version :: "json_value \<Rightarrow> json_value" where
  "next_version v = (let old = (case as_i64 v of Some i \<Rightarrow> i | None \<Rightarrow> 0) in
     json_int (if old = i64_max then i64_min else old + 1))"

definition update_row :: "'e entity_trait \<Rightarrow> (string \<Rightarrow> json_value) \<Rightarrow> 'e \<Rightarrow> (orm_error, update_row_parts) result" where
  "update_row E now e = try_bind (update_parts E now e) (\<lambda>(cols, vals).
     Ok (case Option.bind (ef_version (em_flags (et_meta E))) (\<lambda>vc. position_of vc cols) of
         Some pos \<Rightarrow> \<lparr> up_set_cols = cols, up_set_values = vals[pos := next_version (vals ! pos)], up_old_version = Some (vals ! pos) \<rparr>
       | None \<Rightarrow> \<lparr> up_set_cols = cols, up_set_values = vals, up_old_version = None \<rparr>))"

definition update_sql :: "'e entity_trait \<Rightarrow> dialect_spec \<Rightarrow> update_row_parts \<Rightarrow> string" where
  "update_sql E spec row =
     (let n = length (up_set_values row);
          set_part = comma_list (\<lambda>(i, c). ds_quote spec c @ '' = '' @ ds_placeholder spec (i + 1)) (enumerate 0 (up_set_cols row));
          pk_part = ds_quote spec (et_pk E) @ '' = '' @ ds_placeholder spec (n + 1);
          version_part = (case (ef_version (em_flags (et_meta E)), up_old_version row) of
             (Some vc, Some _) \<Rightarrow> [ds_quote spec vc @ '' = '' @ ds_placeholder spec (n + 2)] | _ \<Rightarrow> [])
      in ''UPDATE '' @ ds_quote spec (et_table E) @ '' SET '' @ set_part @ '' WHERE '' @ str_join '' AND '' (pk_part # version_part))"

definition update_params :: "'e entity_trait \<Rightarrow> 'e \<Rightarrow> update_row_parts \<Rightarrow> json_value list" where
  "update_params E e row = up_set_values row @ [et_pk_value E e] @
     (case (ef_version (em_flags (et_meta E)), up_old_version row) of (Some _, Some old) \<Rightarrow> [old] | _ \<Rightarrow> [])"

definition orm_update :: "'w orm_env \<Rightarrow> 'e entity_trait \<Rightarrow> 'w sql_executor \<Rightarrow> 'e \<Rightarrow> (orm_error, 'w, nat) act" where
  "orm_update env E db e =
     act_bind (\<lambda>w. (update_row E (oe_now env w 0) e, w)) (\<lambda>row.
     act_bind (act_map_err OrmRdbms (ex_execute_with db (update_sql E (lookup_spec (ex_dialect db)) row) (update_params E e row))) (\<lambda>n.
     if n = 0 then act_err (if ef_version (em_flags (et_meta E)) \<noteq> None then OptimisticLockConflict else OrmNotFound)
     else act_ok n))"

text \<open>Soft-delete entities get an \<^verbatim>\<open>UPDATE\<close>, the others a \<^verbatim>\<open>DELETE\<close>.\<close>

definition delete_by_pk_sql :: "'e entity_trait \<Rightarrow> dialect_spec \<Rightarrow> string" where
  "delete_by_pk_sql E spec = ''DELETE FROM '' @ ds_quote spec (et_table E) @ '' WHERE '' @ ds_quote spec (et_pk E) @ '' = '' @ ds_placeholder spec 1"

definition delete_by_id_stmt :: "'e entity_trait \<Rightarrow> dialect_spec \<Rightarrow> json_value \<Rightarrow> json_value \<Rightarrow> string \<times> json_value list" where
  "delete_by_id_stmt E spec now_value pk = (case ef_soft_delete (em_flags (et_meta E)) of
       Some sd \<Rightarrow> (''UPDATE '' @ ds_quote spec (et_table E) @ '' SET '' @ ds_quote spec sd @ '' = '' @ ds_placeholder spec 1 @ '' WHERE '' @
         ds_quote spec (et_pk E) @ '' = '' @ ds_placeholder spec 2 @ '' AND '' @ ds_quote spec sd @ '' IS NULL'', [now_value, pk])
     | None \<Rightarrow> (delete_by_pk_sql E spec, [pk]))"

definition found_rows :: "nat \<Rightarrow> (orm_error, 'w, nat) act" where
  "found_rows n = (if n = 0 then act_err OrmNotFound else act_ok n)"

definition delete_by_id :: "'w orm_env \<Rightarrow> 'e entity_trait \<Rightarrow> 'w sql_executor \<Rightarrow> json_value \<Rightarrow> (orm_error, 'w, nat) act" where
  "delete_by_id env E db pk w =
     (let (sql, params) = delete_by_id_stmt E (lookup_spec (ex_dialect db)) (oe_now env w 0 []) pk in
      act_bind (act_map_err OrmRdbms (ex_execute_with db sql params)) found_rows w)"

definition hard_delete_by_id :: "'e entity_trait \<Rightarrow> 'w sql_executor \<Rightarrow> json_value \<Rightarrow> (orm_error, 'w, nat) act" where
  "hard_delete_by_id E db pk =
     act_bind (act_map_err OrmRdbms (ex_execute_with db (delete_by_pk_sql E (lookup_spec (ex_dialect db))) [pk])) found_rows"

definition orm_save :: "'w orm_env \<Rightarrow> 'e entity_trait \<Rightarrow> 'w sql_executor \<Rightarrow> 'e \<Rightarrow> (orm_error, 'w, unit) act" where
  "orm_save env E db e =
     act_bind (act_lift (ok_or (OrmPanic ''PK must be a declared column'') (meta_column (et_meta E) (et_pk E)))) (\<lambda>m.
     if cm_auto_increment m \<and> as_i64 (et_pk_value E e) = Some 0
     then act_bind (orm_insert env E db e) (\<lambda>_. act_ok ()) else act_bind (orm_update env E db e) (\<lambda>_. act_ok ()))"

text \<open>
  On MySQL the generated key is read from a column named like the key, which the answer to
  \<^verbatim>\<open>SELECT LAST_INSERT_ID()\<close> does not have: the row is inserted, and the call reports an error.
\<close>

lemma mysql_insert_reports_error:
  assumes "ex_dialect db = MySql" "insert_parts E (oe_now env w 0) e = Inr (cols, vals)" "et_pk E \<noteq> ''LAST_INSERT_ID()''"
    and "ex_execute_then_query db (insert_values backquoted question_mark (et_table E) cols) vals ''SELECT LAST_INSERT_ID()'' w =
      (Inr [\<lparr> row_columns = [''LAST_INSERT_ID()''], row_values = [v] \<rparr>], w')"
  shows "orm_insert env E db e w = (Inl (UnknownColumn (et_pk E)), w')"
  using assms by (simp add: orm_insert_def act_bind_def act_map_err_def mysql_spec_def mysql_insert_plan_def read_returned_pk_def i64_from_row_col_def row_get_def)

section \<open>Batches (batch.rs)\<close>

definition column_count_differs :: orm_error where
  "column_count_differs = OrmRdbms (RdbmsDatabase ''to_values() returned a different column count for a later row'')"

text \<open>The tuples of a multi-row \<^verbatim>\<open>INSERT\<close> with their parameters, after \<open>n\<close> placeholders.\<close>

fun insert_tuples ::
  "'e entity_trait \<Rightarrow> dialect_spec \<Rightarrow> (nat \<Rightarrow> string \<Rightarrow> json_value) \<Rightarrow> nat \<Rightarrow> nat \<Rightarrow> nat \<Rightarrow> 'e list \<Rightarrow> (orm_error, string list \<times> json_value list) result" where
  "insert_tuples E spec now ncols i n [] = Ok ([], [])"
| "insert_tuples E spec now ncols i n (r # rs) =
     try_bind (insert_parts E (now i) r) (\<lambda>(row_cols, vals).
     if length row_cols \<noteq> ncols then Err column_count_differs
     else try_bind (insert_tuples E spec now ncols (Suc i) (n + length vals) rs) (\<lambda>(ts, ps).
       Ok ((CHR ''('' # comma_list (\<lambda>j. ds_placeholder spec (n + j + 1)) [0..<length vals] @ '')'') # ts, vals @ ps)))"

definition insert_chunk ::
  "'w orm_env \<Rightarrow> 'e entity_trait \<Rightarrow> 'w sql_executor \<Rightarrow> string list \<Rightarrow> 'e list \<Rightarrow> (orm_error, 'w, nat) act" where
  "insert_chunk env E db cols rows =
     (let spec = lookup_spec (ex_dialect db) in
      act_bind (\<lambda>w. (insert_tuples E spec (oe_now env w) (length cols) 0 0 rows, w)) (\<lambda>(ts, ps).
      act_map_err OrmRdbms (ex_execute_with db
        (''INSERT INTO '' @ ds_quote spec (et_table E) @ '' ('' @ comma_list (ds_quote spec) cols @ '') VALUES '' @ str_join '', '' ts) ps)))"

text \<open>Chunks of the sizes given, one statement each; the counts add up.\<close>

fun by_sizes :: "('e list \<Rightarrow> (orm_error, 'w, nat) act) \<Rightarrow> nat list \<Rightarrow> 'e list \<Rightarrow> nat \<Rightarrow> (orm_error, 'w, nat) act" where
  "by_sizes f [] xs acc = act_ok acc"
| "by_sizes f (k # ks) xs acc = act_bind (f (take k xs)) (\<lambda>n. by_sizes f ks (drop k xs) (acc + n))"

definition insert_many :: "'w orm_env \<Rightarrow> 'e entity_trait \<Rightarrow> 'w sql_executor \<Rightarrow> 'e list \<Rightarrow> (orm_error, 'w, nat) act" where
  "insert_many env E db entities = (case entities of
       [] \<Rightarrow> act_ok 0
     | e # _ \<Rightarrow>
         act_bind (\<lambda>w. (insert_parts E (oe_now env w 0) e, w)) (\<lambda>(cols, _).
         if cols = [] then act_err (OrmRdbms (RdbmsDatabase ''entity has no insertable columns''))
         else by_sizes (insert_chunk env E db cols)
           (split_chunks (length entities) (chunk_size (ds_max_params (lookup_spec (ex_dialect db))) (length cols))) entities 0))"

fun update_chunk_params ::
  "'e entity_trait \<Rightarrow> (nat \<Rightarrow> string \<Rightarrow> json_value) \<Rightarrow> nat \<Rightarrow> string list \<Rightarrow> nat \<Rightarrow> 'e list \<Rightarrow> (orm_error, json_value list) result" where
  "update_chunk_params E now ncols extra i [] = Ok []"
| "update_chunk_params E now ncols extra i (r # rs) =
     try_bind (update_row E (now i) r) (\<lambda>row.
     if length (up_set_cols row) \<noteq> ncols then Err column_count_differs
     else try_bind (update_chunk_params E now ncols extra (Suc i) rs) (\<lambda>ps.
       Ok (et_pk_value E r # up_set_values row @
         map (\<lambda>c. if ef_version (em_flags (et_meta E)) = Some c then (case up_old_version row of Some v \<Rightarrow> v | None \<Rightarrow> JNull) else JNull) extra @ ps)))"

definition update_chunk ::
  "'w orm_env \<Rightarrow> 'e entity_trait \<Rightarrow> 'w sql_executor \<Rightarrow> string list \<Rightarrow> string list \<Rightarrow> 'e list \<Rightarrow> (orm_error, 'w, nat) act" where
  "update_chunk env E db set_cols extra rows =
     act_bind (\<lambda>w. (update_chunk_params E (oe_now env w) (length set_cols) extra 0 rows, w)) (\<lambda>ps.
     act_map_err OrmRdbms (ex_execute_with db
       (ds_update_many_stmt (lookup_spec (ex_dialect db)) (et_table E) (et_pk E) set_cols extra (length rows)) ps))"

definition update_many :: "'w orm_env \<Rightarrow> 'e entity_trait \<Rightarrow> 'w sql_executor \<Rightarrow> 'e list \<Rightarrow> (orm_error, 'w, nat) act" where
  "update_many env E db entities = (case entities of
       [] \<Rightarrow> act_ok 0
     | e # _ \<Rightarrow>
         act_bind (\<lambda>w. (update_row E (oe_now env w 0) e, w)) (\<lambda>first.
         if up_set_cols first = [] then act_err (OrmRdbms (RdbmsDatabase ''entity has no updatable columns''))
         else let extra = (case ef_version (em_flags (et_meta E)) of
                  Some vc \<Rightarrow> if vc \<in> set (up_set_cols first) then [vc] else [] | None \<Rightarrow> []);
                per_row = 1 + length (up_set_cols first) + length extra
           in by_sizes (update_chunk env E db (up_set_cols first) extra)
             (split_chunks (length entities) (chunk_size (ds_max_params (lookup_spec (ex_dialect db))) per_row)) entities 0))"

definition orm_upsert :: "'w orm_env \<Rightarrow> 'e entity_trait \<Rightarrow> 'w sql_executor \<Rightarrow> 'e \<Rightarrow> (orm_error, 'w, nat) act" where
  "orm_upsert env E db e =
     act_bind (\<lambda>w. (insert_parts E (oe_now env w 0) e, w)) (\<lambda>(cols, vals).
     if cols = [] then act_err (OrmRdbms (RdbmsDatabase ''entity has no insertable columns''))
     else act_map_err OrmRdbms (ex_execute_with db
       (ds_upsert (lookup_spec (ex_dialect db)) (et_table E) cols (et_pk E) (length vals)) vals))"

section \<open>Deleting by filters (batch.rs)\<close>

fun fixed_param_cost :: "expr \<Rightarrow> nat" where
  "fixed_param_cost (ECmp _ _ _) = 1"
| "fixed_param_cost _ = 0"

fun is_in :: "expr \<Rightarrow> bool" where
  "is_in (EIn _ _ _) = True"
| "is_in _ = False"

text \<open>\<^verbatim>\<open>slice::chunks\<close>.\<close>

function chunks_of :: "nat \<Rightarrow> 'a list \<Rightarrow> 'a list list" where
  "chunks_of n xs = (if xs = [] \<or> n = 0 then [] else take n xs # chunks_of n (drop n xs))"
  by pat_completeness auto
termination by (relation "measure (length \<circ> snd)") auto

declare chunks_of.simps [simp del]

fun expr_values :: "expr \<Rightarrow> json_value list" where
  "expr_values (EIn _ vs _) = vs"
| "expr_values _ = []"

fun set_values :: "json_value list \<Rightarrow> expr \<Rightarrow> expr" where
  "set_values vs (EIn c _ neg) = EIn c vs neg"
| "set_values vs e = e"

definition in_slices :: "nat \<Rightarrow> expr \<Rightarrow> json_value list list" where
  "in_slices share e = (if expr_values e = [] then [[]] else chunks_of share (expr_values e))"

definition in_share :: "expr list \<Rightarrow> nat \<Rightarrow> nat" where
  "in_share filters budget = max ((budget - sum_list (map fixed_param_cost filters)) div length (filter is_in filters)) 1"

definition split_in_filters :: "expr list \<Rightarrow> nat \<Rightarrow> expr list list" where
  "split_in_filters filters budget =
     (let ins = filter (\<lambda>i. is_in (filters ! i)) [0..<length filters] in
      if ins = [] then [filters]
      else fold (\<lambda>idx out. concat (map (\<lambda>base. map (\<lambda>vs. base[idx := set_values vs (base ! idx)])
             (in_slices (in_share filters budget) (filters ! idx))) out)) ins [filters])"

definition delete_head :: "dialect_spec \<Rightarrow> entity_meta \<Rightarrow> string option \<Rightarrow> string" where
  "delete_head spec meta soft = (case soft of
       Some sd \<Rightarrow> ''UPDATE '' @ ds_quote spec (em_table meta) @ '' SET '' @ ds_quote spec sd @ '' = '' @ ds_placeholder spec 1
     | None \<Rightarrow> ''DELETE FROM '' @ ds_quote spec (em_table meta))"

text \<open>The statement for one group of filters and its parameters; \<open>now_value\<close> is the time of the deletion.\<close>

definition delete_stmt ::
  "dialect_spec \<Rightarrow> entity_meta \<Rightarrow> bool \<Rightarrow> json_value \<Rightarrow> expr list \<Rightarrow> (orm_error, string \<times> json_value list) result" where
  "delete_stmt spec meta hard now_value filters =
     (let soft = (if hard then None else ef_soft_delete (em_flags meta)) in
      try_bind (ok_or (OrmPanic ''no infix SQL form'') (render_where meta filters hard spec (if soft = None then 0 else 1))) (\<lambda>(w, _, ps).
      case w of None \<Rightarrow> Err (OrmRdbms (RdbmsDatabase ''delete_where requires at least one filter''))
      | Some c \<Rightarrow> Ok (delete_head spec meta soft @ '' WHERE '' @ c, (if soft = None then [] else [now_value]) @ ps)))"

fun delete_groups ::
  "'w orm_env \<Rightarrow> 'w sql_executor \<Rightarrow> entity_meta \<Rightarrow> bool \<Rightarrow> expr list list \<Rightarrow> nat \<Rightarrow> (orm_error, 'w, nat) act" where
  "delete_groups env db meta hard [] acc = act_ok acc"
| "delete_groups env db meta hard (g # gs) acc =
     act_bind (\<lambda>w. (delete_stmt (lookup_spec (ex_dialect db)) meta hard (oe_now env w 0 []) g, w)) (\<lambda>(sql, ps).
     act_bind (act_map_err OrmRdbms (ex_execute_with db sql ps)) (\<lambda>n. delete_groups env db meta hard gs (acc + n)))"

definition delete_where :: "'w orm_env \<Rightarrow> 'w sql_executor \<Rightarrow> entity_meta \<Rightarrow> expr list \<Rightarrow> bool \<Rightarrow> (orm_error, 'w, nat) act" where
  "delete_where env db meta filters hard =
     (let soft = (if hard then None else ef_soft_delete (em_flags meta));
          budget = ds_max_params (lookup_spec (ex_dialect db)) - (if soft = None then 0 else 1)
      in delete_groups env db meta hard (split_in_filters filters budget) 0)"

definition q_delete_where :: "'w orm_env \<Rightarrow> 'w sql_executor \<Rightarrow> orm_query \<Rightarrow> (orm_error, 'w, nat) act" where
  "q_delete_where env db q = delete_where env db (q_meta q) (q_filters q) False"

definition q_hard_delete_where :: "'w orm_env \<Rightarrow> 'w sql_executor \<Rightarrow> orm_query \<Rightarrow> (orm_error, 'w, nat) act" where
  "q_hard_delete_where env db q = delete_where env db (q_meta q) (q_filters q) True"

end
