(* ===== verification/OrmDelete.thy ===== *)
theory OrmDelete
  imports OrmWrite
begin

text \<open>
  What \<^verbatim>\<open>delete_where\<close> does when its \<^verbatim>\<open>IN\<close> lists are spread over several statements: the meaning of
  filters on rows, the groups of \<^verbatim>\<open>split_in_filters\<close>, and the deletion.
\<close>

section \<open>What filters mean\<close>

text \<open>
  \<open>sm_cmp x a v\<close>: the comparison of the column's value \<open>a\<close> with \<open>v\<close> is true (neither false nor
  unknown); \<open>sm_raw\<close> is the meaning of a raw condition.
\<close>

record filter_sem =
  sm_cmp :: "op \<Rightarrow> json_value \<Rightarrow> json_value \<Rightarrow> bool"
  sm_raw :: "string \<Rightarrow> db_row \<Rightarrow> bool"

definition col_sat :: "db_row \<Rightarrow> string \<Rightarrow> (json_value \<Rightarrow> bool) \<Rightarrow> bool" where
  "col_sat row c P = (case row_get row c of Some a \<Rightarrow> P a | None \<Rightarrow> False)"

fun holds :: "filter_sem \<Rightarrow> db_row \<Rightarrow> expr \<Rightarrow> bool" where
  "holds sm row (ECmp c x v) = col_sat row c (\<lambda>a. sm_cmp sm x a v)"
| "holds sm row (EIn c vs negated) = (if vs = [] then negated
     else col_sat row c (\<lambda>a. if negated then list_all (sm_cmp sm OpNe a) vs else list_ex (sm_cmp sm OpEq a) vs))"
| "holds sm row (ENull c negated) = col_sat row c (\<lambda>a. is_null a \<noteq> negated)"
| "holds sm row (ERaw e) = sm_raw sm e row"

definition soft_col :: "entity_meta \<Rightarrow> bool \<Rightarrow> string option" where
  "soft_col meta hard = (if hard then None else ef_soft_delete (em_flags meta))"

definition hit :: "filter_sem \<Rightarrow> entity_meta \<Rightarrow> bool \<Rightarrow> expr list \<Rightarrow> db_row \<Rightarrow> bool" where
  "hit sm meta hard g row \<longleftrightarrow>
     (case soft_col meta hard of Some sd \<Rightarrow> col_sat row sd is_null | None \<Rightarrow> True) \<and> list_all (holds sm row) g"

definition row_set :: "string \<Rightarrow> json_value \<Rightarrow> db_row \<Rightarrow> db_row" where
  "row_set c v row = (case position_of c (row_columns row) of None \<Rightarrow> row | Some i \<Rightarrow> row\<lparr>row_values := (row_values row)[i := v]\<rparr>)"

definition struck :: "entity_meta \<Rightarrow> bool \<Rightarrow> json_value \<Rightarrow> db_row \<Rightarrow> db_row list" where
  "struck meta hard t row = (case soft_col meta hard of Some sd \<Rightarrow> [row_set sd t row] | None \<Rightarrow> [])"

text \<open>The rows after a deletion of those that satisfy \<open>P\<close>, at times \<open>ts\<close>.\<close>

definition after_delete :: "entity_meta \<Rightarrow> bool \<Rightarrow> (db_row \<Rightarrow> json_value) \<Rightarrow> (db_row \<Rightarrow> bool) \<Rightarrow> db_row list \<Rightarrow> db_row list" where
  "after_delete meta hard ts P rows = concat (map (\<lambda>r. if P r then struck meta hard (ts r) r else [r]) rows)"

text \<open>The database carries out a statement within its parameter limit as its filters mean.\<close>

definition delete_law ::
  "filter_sem \<Rightarrow> 'w orm_env \<Rightarrow> 'w sql_executor \<Rightarrow> ('w \<Rightarrow> db_row list) \<Rightarrow> entity_meta \<Rightarrow> bool \<Rightarrow> expr list \<Rightarrow> bool" where
  "delete_law sm env db tbl meta hard g \<longleftrightarrow> (\<forall>w sql ps.
     delete_stmt (lookup_spec (ex_dialect db)) meta hard (oe_now env w 0 []) g = Ok (sql, ps) \<longrightarrow>
     length ps \<le> ds_max_params (lookup_spec (ex_dialect db)) \<longrightarrow>
     fst (ex_execute_with db sql ps w) = Ok (length (filter (hit sm meta hard g) (tbl w))) \<and>
     tbl (snd (ex_execute_with db sql ps w)) = after_delete meta hard (\<lambda>_. oe_now env w 0 []) (hit sm meta hard g) (tbl w))"

section \<open>Splitting\<close>

lemma chunks_of_concat: "n > 0 \<Longrightarrow> concat (chunks_of n xs) = xs"
  by (induction n xs rule: chunks_of.induct) (subst chunks_of.simps, auto)

lemma chunks_of_mem: "c \<in> set (chunks_of n xs) \<Longrightarrow> c \<noteq> [] \<and> length c \<le> n"
proof (induction n xs rule: chunks_of.induct)
  case (1 n xs)
  from 1(2) show ?case by (subst (asm) chunks_of.simps) (auto split: if_splits dest!: 1(1)[rotated])
qed

lemma chunks_of_short: "xs \<noteq> [] \<Longrightarrow> length xs \<le> n \<Longrightarrow> chunks_of n xs = [xs]"
  by (cases xs) (simp_all add: chunks_of.simps [of n] chunks_of.simps [of n "[]"])

text \<open>A negated list must not be spread over several statements.\<close>

fun spread_ok :: "nat \<Rightarrow> expr \<Rightarrow> bool" where
  "spread_ok share (EIn c vs negated) \<longleftrightarrow> (negated \<longrightarrow> length vs \<le> share)"
| "spread_ok share e \<longleftrightarrow> True"

lemma slices_hold:
  assumes "is_in e" "share > 0" "spread_ok share e"
  shows "(\<exists>vs \<in> set (in_slices share e). holds sm row (set_values vs e)) \<longleftrightarrow> holds sm row e"
proof (cases e)
  case (EIn c vs negated)
  show ?thesis
  proof (cases "vs = []")
    case True
    then show ?thesis using EIn by (simp add: in_slices_def)
  next
    case ne: False
    show ?thesis
    proof (cases negated)
      case True
      then show ?thesis using EIn ne assms(3) by (simp add: in_slices_def chunks_of_short)
    next
      case False
      have "(\<exists>us \<in> set (chunks_of share vs). us \<noteq> [] \<and> list_ex P us) \<longleftrightarrow> list_ex P vs" for P
        using chunks_of_concat [OF assms(2), of vs] chunks_of_mem [of _ share vs]
        by (metis (no_types, lifting) list_ex_iff UN_iff set_concat)
      then show ?thesis using EIn ne False chunks_of_mem [of _ share vs]
        by (auto simp: in_slices_def col_sat_def split: option.splits)
    qed
  qed
qed (use assms(1) in auto)

definition spread_step :: "nat \<Rightarrow> expr list \<Rightarrow> nat \<Rightarrow> expr list list \<Rightarrow> expr list list" where
  "spread_step share filters idx out =
     concat (map (\<lambda>base. map (\<lambda>vs. base[idx := set_values vs (base ! idx)]) (in_slices share (filters ! idx))) out)"

lemma list_all_update:
  "i < length g \<Longrightarrow> list_all P (g[i := x]) \<longleftrightarrow> P x \<and> (\<forall>j < length g. j \<noteq> i \<longrightarrow> P (g ! j))"
  by (auto simp: list_all_length nth_list_update)

text \<open>What the loop keeps: the groups have the filters that it has not come to.\<close>

definition spread_inv :: "expr list \<Rightarrow> nat set \<Rightarrow> expr list list \<Rightarrow> bool" where
  "spread_inv filters todo out \<longleftrightarrow> (\<forall>g \<in> set out. length g = length filters \<and> (\<forall>i \<in> todo. g ! i = filters ! i))"

lemma spread_step_inv:
  assumes "spread_inv filters todo out"
  shows "spread_inv filters (todo - {idx}) (spread_step share filters idx out)"
  using assms by (auto simp: spread_inv_def spread_step_def)

lemma spread_step_hold:
  assumes inv: "spread_inv filters todo out" and idx: "idx \<in> todo" "idx < length filters"
    and e: "is_in (filters ! idx)" "share > 0" "spread_ok share (filters ! idx)"
  shows "(\<exists>g \<in> set (spread_step share filters idx out). list_all (holds sm row) g) \<longleftrightarrow> (\<exists>g \<in> set out. list_all (holds sm row) g)"
proof -
  have base: "(\<exists>vs \<in> set (in_slices share (filters ! idx)). list_all (holds sm row) (g[idx := set_values vs (g ! idx)])) \<longleftrightarrow>
      list_all (holds sm row) g" if "g \<in> set out" for g
  proof -
    have g: "length g = length filters" "g ! idx = filters ! idx" using inv that idx(1) by (auto simp: spread_inv_def)
    then have "(\<exists>vs \<in> set (in_slices share (filters ! idx)). list_all (holds sm row) (g[idx := set_values vs (g ! idx)])) \<longleftrightarrow>
        (\<exists>vs \<in> set (in_slices share (filters ! idx)). holds sm row (set_values vs (filters ! idx))) \<and>
        (\<forall>j < length g. j \<noteq> idx \<longrightarrow> holds sm row (g ! j))"
      using idx(2) by (auto simp: list_all_update)
    then show ?thesis using slices_hold [OF e] g idx(2) by (auto simp: list_all_length)
  qed
  have "(\<exists>g \<in> set (spread_step share filters idx out). list_all (holds sm row) g) \<longleftrightarrow>
      (\<exists>g \<in> set out. \<exists>vs \<in> set (in_slices share (filters ! idx)). list_all (holds sm row) (g[idx := set_values vs (g ! idx)]))"
    by (auto simp: spread_step_def)
  then show ?thesis using base by (simp only:) blast
qed

lemma spread_hold:
  assumes "distinct ins" "\<forall>i \<in> set ins. i < length filters \<and> is_in (filters ! i) \<and> spread_ok share (filters ! i)" "share > 0"
    and "spread_inv filters (set ins) out"
  shows "(\<exists>g \<in> set (fold (spread_step share filters) ins out). list_all (holds sm row) g) \<longleftrightarrow> (\<exists>g \<in> set out. list_all (holds sm row) g)"
  using assms
proof (induction ins arbitrary: out)
  case (Cons i ins)
  have "spread_inv filters (set ins) (spread_step share filters i out)"
    using spread_step_inv [OF Cons.prems(4), of i share] Cons.prems(1) by (auto simp: spread_inv_def)
  then show ?case using Cons spread_step_hold [OF Cons.prems(4), of i share sm row] by simp
qed simp

lemma split_fold:
  "split_in_filters filters budget =
     fold (spread_step (in_share filters budget) filters) (filter (\<lambda>i. is_in (filters ! i)) [0..<length filters]) [filters]"
  by (simp add: split_in_filters_def spread_step_def [abs_def] Let_def)

lemma in_share_pos: "in_share filters budget > 0"
  by (simp add: in_share_def)

lemma split_hold:
  assumes "\<forall>e \<in> set filters. spread_ok (in_share filters budget) e"
  shows "(\<exists>g \<in> set (split_in_filters filters budget). list_all (holds sm row) g) \<longleftrightarrow> list_all (holds sm row) filters"
  unfolding split_fold using assms
  by (subst spread_hold) (auto simp: in_share_pos spread_inv_def)

lemma split_hit:
  assumes "\<forall>e \<in> set filters. spread_ok (in_share filters budget) e"
  shows "(\<exists>g \<in> set (split_in_filters filters budget). hit sm meta hard g row) \<longleftrightarrow> hit sm meta hard filters row"
  using split_hold [OF assms, of sm row] by (auto simp: hit_def)


section \<open>The statements\<close>

fun expr_ok :: "expr \<Rightarrow> bool" where
  "expr_ok (ECmp c x v) \<longleftrightarrow> op_as_sql x \<noteq> None"
| "expr_ok e \<longleftrightarrow> True"

fun expr_cost :: "expr \<Rightarrow> nat" where
  "expr_cost (ECmp c x v) = 1"
| "expr_cost (EIn c vs negated) = length vs"
| "expr_cost e = 0"

lemma render_expr_ok:
  assumes "expr_ok e"
  shows "\<exists>c ps. render_expr spec e n = Some (c, n + length ps, ps) \<and> length ps = expr_cost e"
  using assms by (cases e) auto

lemma render_filters_ok:
  assumes "list_all expr_ok fs"
  shows "\<exists>cs ps. render_filters spec fs n = Some (cs, n + length ps, ps) \<and> length cs = length fs \<and> length ps = sum_list (map expr_cost fs)"
  using assms
proof (induction fs arbitrary: n)
  case (Cons f fs)
  obtain c ps where "render_expr spec f n = Some (c, n + length ps, ps)" "length ps = expr_cost f"
    using render_expr_ok [of f spec n] Cons.prems by auto
  moreover obtain cs qs where "render_filters spec fs (n + length ps) = Some (cs, n + length ps + length qs, qs)" "length cs = length fs"
    "length qs = sum_list (map expr_cost fs)" using Cons by fastforce
  ultimately show ?case by simp
qed simp

lemma delete_stmt_ok:
  assumes "list_all expr_ok g" "g \<noteq> []"
  shows "\<exists>sql ps. delete_stmt spec meta hard t g = Inr (sql, ps) \<and>
    length ps = sum_list (map expr_cost g) + (if soft_col meta hard = None then 0 else 1)"
proof -
  obtain cs ps where r: "render_filters spec g (if soft_col meta hard = None then 0 else 1) =
      Some (cs, (if soft_col meta hard = None then 0 else 1) + length ps, ps)" "length cs = length g" "length ps = sum_list (map expr_cost g)"
    using render_filters_ok [OF assms(1)] by blast
  then have "cs \<noteq> []" using assms(2) by auto
  then show ?thesis using r by (simp add: delete_stmt_def render_where_def soft_col_def [symmetric] Let_def)
qed

text \<open>A group has the filters, with a slice for each list.\<close>

definition sliced :: "nat \<Rightarrow> expr \<Rightarrow> expr \<Rightarrow> bool" where
  "sliced share e e' \<longleftrightarrow> is_in e \<and> (\<exists>vs. length vs \<le> share \<and> e' = set_values vs e)"

definition group_inv :: "nat \<Rightarrow> expr list \<Rightarrow> nat set \<Rightarrow> expr list list \<Rightarrow> bool" where
  "group_inv share filters todo out \<longleftrightarrow> (\<forall>g \<in> set out. length g = length filters \<and>
     (\<forall>i < length filters. sliced share (filters ! i) (g ! i) \<or> g ! i = filters ! i \<and> (is_in (filters ! i) \<longrightarrow> i \<in> todo)))"

lemma slices_length: "vs \<in> set (in_slices share e) \<Longrightarrow> length vs \<le> share"
  by (auto simp: in_slices_def dest: chunks_of_mem split: if_splits)

lemma set_values_twice [simp]: "set_values vs (set_values us e) = set_values vs e"
  by (cases e) auto

lemma group_step:
  assumes inv: "group_inv share filters todo out" and idx: "is_in (filters ! idx)"
  shows "group_inv share filters (todo - {idx}) (spread_step share filters idx out)"
  unfolding group_inv_def
proof (intro ballI conjI allI impI)
  fix g' assume "g' \<in> set (spread_step share filters idx out)"
  then obtain g vs where g: "g \<in> set out" and vs: "vs \<in> set (in_slices share (filters ! idx))" and g': "g' = g[idx := set_values vs (g ! idx)]"
    by (auto simp: spread_step_def)
  have len: "length g = length filters" using inv g by (simp add: group_inv_def)
  then show "length g' = length filters" using g' by simp
  fix i assume i: "i < length filters"
  have old: "sliced share (filters ! i) (g ! i) \<or> g ! i = filters ! i \<and> (is_in (filters ! i) \<longrightarrow> i \<in> todo)"
    using inv g i by (simp add: group_inv_def)
  show "sliced share (filters ! i) (g' ! i) \<or> g' ! i = filters ! i \<and> (is_in (filters ! i) \<longrightarrow> i \<in> todo - {idx})"
  proof (cases "i = idx")
    case True
    have "sliced share (filters ! i) (set_values vs (g ! i))"
      using old slices_length [OF vs] idx True unfolding sliced_def by auto
    then show ?thesis using True g' i len by simp
  next
    case False
    then show ?thesis using old g' by simp
  qed
qed

lemma group_fold:
  assumes "\<forall>i \<in> set ins. is_in (filters ! i)" "group_inv share filters todo out"
  shows "group_inv share filters (todo - set ins) (fold (spread_step share filters) ins out)"
  using assms
proof (induction ins arbitrary: out todo)
  case Nil
  then show ?case by simp
next
  case (Cons i ins)
  have i: "is_in (filters ! i)" and rest: "\<forall>j \<in> set ins. is_in (filters ! j)" using Cons.prems(1) by simp_all
  from Cons.IH [OF rest group_step [OF Cons.prems(2) i]]
  have "group_inv share filters (todo - {i} - set ins) (fold (spread_step share filters) ins (spread_step share filters i out))" .
  then show ?case unfolding list.set Diff_insert2 [of todo i "set ins"] fold_simps .
qed

lemma split_group:
  assumes "g \<in> set (split_in_filters filters budget)"
  shows "length g = length filters" "i < length filters \<Longrightarrow>
    sliced (in_share filters budget) (filters ! i) (g ! i) \<or> g ! i = filters ! i \<and> \<not> is_in (filters ! i)"
proof -
  let ?ins = "filter (\<lambda>i. is_in (filters ! i)) [0..<length filters]"
  have "group_inv (in_share filters budget) filters (set ?ins) [filters]" by (simp add: group_inv_def)
  from group_fold [OF _ this, of ?ins] have "group_inv (in_share filters budget) filters {} (split_in_filters filters budget)"
    by (simp add: split_fold)
  then show "length g = length filters" "i < length filters \<Longrightarrow>
      sliced (in_share filters budget) (filters ! i) (g ! i) \<or> g ! i = filters ! i \<and> \<not> is_in (filters ! i)"
    using assms by (auto simp: group_inv_def)
qed

lemma sum_list_pointwise:
  assumes "length xs = length ys" "\<And>i. i < length xs \<Longrightarrow> f (xs ! i) \<le> (h (ys ! i) :: nat)"
  shows "sum_list (map f xs) \<le> sum_list (map h ys)"
  using assms
proof (induction xs ys rule: list_induct2)
  case (Cons x xs y ys)
  have "f x \<le> h y" using Cons.prems [of 0] by simp
  moreover have "sum_list (map f xs) \<le> sum_list (map h ys)" using Cons.IH Cons.prems [of "Suc _"] by simp
  ultimately show ?case by simp
qed simp

text \<open>With room for one value per list, every statement is within the limit.\<close>

definition has_room :: "expr list \<Rightarrow> nat \<Rightarrow> bool" where
  "has_room filters budget \<longleftrightarrow> sum_list (map fixed_param_cost filters) + length (filter is_in filters) \<le> budget"

lemma share_fits:
  assumes "has_room filters budget"
  shows "sum_list (map fixed_param_cost filters) + in_share filters budget * length (filter is_in filters) \<le> budget"
proof (cases "filter is_in filters = []")
  case True
  then show ?thesis using assms by (simp add: has_room_def)
next
  case False
  let ?k = "length (filter is_in filters)" and ?f = "sum_list (map fixed_param_cost filters)"
  have "?k > 0" using False by simp
  then have "(budget - ?f) div ?k \<ge> 1" using assms by (simp add: has_room_def div_greater_zero_iff Suc_le_eq)
  then have "in_share filters budget = (budget - ?f) div ?k" by (simp add: in_share_def)
  then have "in_share filters budget * ?k \<le> budget - ?f" by (simp only: div_times_less_eq_dividend)
  moreover have "?f \<le> budget" using assms by (simp add: has_room_def)
  ultimately show ?thesis by linarith
qed

lemma group_cost:
  assumes "g \<in> set (split_in_filters filters budget)" "has_room filters budget"
  shows "sum_list (map expr_cost g) \<le> budget"
proof -
  let ?s = "in_share filters budget"
  have "sum_list (map expr_cost g) \<le> sum_list (map (\<lambda>e. fixed_param_cost e + (if is_in e then ?s else 0)) filters)"
  proof (rule sum_list_pointwise)
    fix i assume "i < length g"
    then show "expr_cost (g ! i) \<le> fixed_param_cost (filters ! i) + (if is_in (filters ! i) then ?s else 0)"
      using split_group(2) [OF assms(1), of i] split_group(1) [OF assms(1)] by (cases "filters ! i") (auto simp: sliced_def)
  qed (simp add: split_group(1) [OF assms(1)])
  also have "sum_list (map (\<lambda>e. fixed_param_cost e + (if is_in e then s else 0)) fs) = sum_list (map fixed_param_cost fs) + s * length (filter is_in fs)" for s fs
    by (induction fs) (simp_all add: algebra_simps)
  finally show ?thesis using share_fits [OF assms(2)] by simp
qed

lemma group_ok:
  assumes "g \<in> set (split_in_filters filters budget)" "list_all expr_ok filters"
  shows "list_all expr_ok g"
  unfolding list_all_length
proof (intro allI impI)
  fix i assume i: "i < length g"
  have "expr_ok (filters ! i)" using assms i split_group(1) [OF assms(1)] by (simp add: list_all_length)
  then show "expr_ok (g ! i)" using split_group(2) [OF assms(1), of i] split_group(1) [OF assms(1)] i
    by (cases "filters ! i") (auto simp: sliced_def)
qed


section \<open>The deletion\<close>

lemma row_get_set:
  assumes "row_get row c = Some a"
  shows "row_get (row_set c v row) c = Some v"
  using assms by (auto simp: row_get_def row_set_def split: option.splits if_splits)

lemma struck_not_hit:
  assumes "hit sm meta hard g row" "\<not> is_null t" "r \<in> set (struck meta hard t row)"
  shows "\<not> hit sm meta hard h r"
  using assms row_get_set [of row _ _ t]
  by (auto simp: struck_def hit_def col_sat_def split: option.splits)

lemma after_delete_again:
  assumes "\<And>row r. P row \<Longrightarrow> r \<in> set (struck meta hard t row) \<Longrightarrow> \<not> Q r"
  shows "after_delete meta hard ts Q (after_delete meta hard (\<lambda>_. t) P rows) =
      after_delete meta hard (\<lambda>r. if P r then t else ts r) (\<lambda>r. P r \<or> Q r) rows" (is ?A)
    and "length (filter P rows) + length (filter Q (after_delete meta hard (\<lambda>_. t) P rows)) = length (filter (\<lambda>r. P r \<or> Q r) rows)" (is ?B)
proof -
  have keep: "concat (map (\<lambda>r. if Q r then struck meta hard (ts r) r else [r]) (struck meta hard t row)) = struck meta hard t row"
    "filter Q (struck meta hard t row) = []" if "P row" for row
    using assms [OF that] by (auto simp: struck_def split: option.splits)
  show ?A ?B unfolding after_delete_def by (induction rows) (auto simp: keep)
qed

lemma delete_groups_effect:
  assumes "\<forall>g \<in> set gs. delete_law sm env db tbl meta hard g"
    and "\<forall>g \<in> set gs. \<forall>t. \<exists>sql ps. delete_stmt (lookup_spec (ex_dialect db)) meta hard t g = Inr (sql, ps) \<and> length ps \<le> ds_max_params (lookup_spec (ex_dialect db))"
    and clock: "\<And>w. soft_col meta hard \<noteq> None \<Longrightarrow> \<not> is_null (oe_now env w 0 [])"
  shows "\<exists>ts w'. delete_groups env db meta hard gs acc w = (Inr (acc + length (filter (\<lambda>r. \<exists>g \<in> set gs. hit sm meta hard g r) (tbl w))), w') \<and>
    tbl w' = after_delete meta hard ts (\<lambda>r. \<exists>g \<in> set gs. hit sm meta hard g r) (tbl w)"
  using assms(1,2)
proof (induction gs arbitrary: acc w)
  case Nil
  have "rows = after_delete meta hard ts (\<lambda>r. False) rows" for ts rows by (induction rows) (simp_all add: after_delete_def)
  then show ?case by auto
next
  case (Cons g gs)
  let ?t = "oe_now env w 0 []" and ?H = "hit sm meta hard g" and ?Q = "\<lambda>r. \<exists>h \<in> set gs. hit sm meta hard h r"
  obtain sql ps where stmt: "delete_stmt (lookup_spec (ex_dialect db)) meta hard ?t g = Inr (sql, ps)" "length ps \<le> ds_max_params (lookup_spec (ex_dialect db))"
    using Cons.prems(2) by fastforce
  obtain w1 where run: "ex_execute_with db sql ps w = (Inr (length (filter ?H (tbl w))), w1)" and tbl1: "tbl w1 = after_delete meta hard (\<lambda>_. ?t) ?H (tbl w)"
    using Cons.prems(1) stmt by (simp add: delete_law_def) (metis prod.collapse)
  obtain ts w2 where rest: "delete_groups env db meta hard gs (acc + length (filter ?H (tbl w))) w1 =
      (Inr (acc + length (filter ?H (tbl w)) + length (filter ?Q (tbl w1))), w2)" and tbl2: "tbl w2 = after_delete meta hard ts ?Q (tbl w1)"
    using Cons by fastforce
  have no: "\<And>row r. ?H row \<Longrightarrow> r \<in> set (struck meta hard ?t row) \<Longrightarrow> \<not> ?Q r"
    using struck_not_hit clock by (cases "soft_col meta hard") (simp add: struck_def, blast)
  have both: "(\<lambda>r. \<exists>h \<in> set (g # gs). hit sm meta hard h r) = (\<lambda>r. ?H r \<or> ?Q r)" by auto
  have "delete_groups env db meta hard (g # gs) acc w = delete_groups env db meta hard gs (acc + length (filter ?H (tbl w))) w1"
    using stmt(1) run by (simp add: act_bind_def act_map_err_def)
  then have "delete_groups env db meta hard (g # gs) acc w = (Inr (acc + length (filter (\<lambda>r. ?H r \<or> ?Q r) (tbl w))), w2)"
    using rest after_delete_again(2) [OF no, where rows = "tbl w"] tbl1 by (simp add: add.assoc)
  moreover have "tbl w2 = after_delete meta hard (\<lambda>r. if ?H r then ?t else ts r) (\<lambda>r. ?H r \<or> ?Q r) (tbl w)"
    unfolding tbl2 tbl1 by (rule after_delete_again(1) [OF no])
  ultimately show ?case unfolding both by blast
qed

lemma delete_where_effect:
  assumes law: "\<forall>g \<in> set (split_in_filters filters budget). delete_law sm env db tbl meta hard g"
    and budget: "budget = ds_max_params (lookup_spec (ex_dialect db)) - (if soft_col meta hard = None then 0 else 1)"
    and ok: "list_all expr_ok filters" "filters \<noteq> []" and room: "has_room filters budget"
    and clock: "\<And>w. soft_col meta hard \<noteq> None \<Longrightarrow> \<not> is_null (oe_now env w 0 [])"
  shows "\<exists>ts w'. delete_where env db meta filters hard w =
      (Inr (length (filter (\<lambda>r. \<exists>g \<in> set (split_in_filters filters budget). hit sm meta hard g r) (tbl w))), w') \<and>
    tbl w' = after_delete meta hard ts (\<lambda>r. \<exists>g \<in> set (split_in_filters filters budget). hit sm meta hard g r) (tbl w)"
proof -
  have "\<exists>sql ps. delete_stmt (lookup_spec (ex_dialect db)) meta hard t g = Inr (sql, ps) \<and> length ps \<le> ds_max_params (lookup_spec (ex_dialect db))"
    if g: "g \<in> set (split_in_filters filters budget)" for g t
  proof -
    have "g \<noteq> []" using split_group(1) [OF g] ok(2) by auto
    then show ?thesis using delete_stmt_ok [OF group_ok [OF g ok(1)], of "lookup_spec (ex_dialect db)" meta hard t] group_cost [OF g room] budget max_params_pos [of "ex_dialect db"]
      by (auto split: if_splits)
  qed
  moreover have "delete_where env db meta filters hard = delete_groups env db meta hard (split_in_filters filters budget) 0"
    using budget by (simp add: delete_where_def soft_col_def Let_def)
  ultimately show ?thesis using delete_groups_effect [OF law _ clock, of 0 w] by simp
qed


lemma in_groups:
  assumes "vs \<noteq> []"
  shows "split_in_filters [EIn c vs negated] budget = map (\<lambda>us. [EIn c us negated]) (chunks_of (max budget 1) vs)"
  using assms by (simp add: split_in_filters_def in_share_def in_slices_def)

section \<open>Properties\<close>

text \<open>
  C36. \<^verbatim>\<open>delete_where\<close> deletes exactly the rows its filters select and returns their number, whatever number of
  statements its \<^verbatim>\<open>IN\<close> lists are spread over: every statement is within the parameter limit of the
  dialect, every selected row is deleted (marked with a time of deletion for a soft delete) and
  counted once, and no other row changes. Negated lists must fit into one statement, and there must
  be room for one value of each list beside the other filters.
\<close>

theorem delete_where_is_exact:
  assumes law: "\<forall>g \<in> set (split_in_filters filters budget). delete_law sm env db tbl meta hard g"
    and budget: "budget = ds_max_params (lookup_spec (ex_dialect db)) - (if soft_col meta hard = None then 0 else 1)"
    and ok: "list_all expr_ok filters" "filters \<noteq> []" and room: "has_room filters budget"
    and clock: "\<And>w. soft_col meta hard \<noteq> None \<Longrightarrow> \<not> is_null (oe_now env w 0 [])"
    and spread: "\<forall>e \<in> set filters. spread_ok (in_share filters budget) e"
  shows "\<exists>ts w'. delete_where env db meta filters hard w = (Ok (length (filter (hit sm meta hard filters) (tbl w))), w') \<and>
    tbl w' = after_delete meta hard ts (hit sm meta hard filters) (tbl w)"
  using delete_where_effect [OF law budget ok room clock, of w] unfolding split_hit [OF spread] .


section \<open>Witnesses\<close>

text \<open>A table in memory; its database knows the statements of the groups it is given.\<close>

definition mem_delete_db ::
  "dialect \<Rightarrow> filter_sem \<Rightarrow> entity_meta \<Rightarrow> bool \<Rightarrow> json_value \<Rightarrow> expr list list \<Rightarrow> db_row list sql_executor" where
  "mem_delete_db d sm meta hard t groups = (default_executor (\<lambda>_. act_ok 0) (\<lambda>_. act_ok []) d)\<lparr>ex_execute_with :=
     (\<lambda>sql ps rows. case find (\<lambda>g. delete_stmt (lookup_spec d) meta hard t g = Ok (sql, ps)) groups of
        Some g \<Rightarrow> (Ok (length (filter (hit sm meta hard g) rows)), after_delete meta hard (\<lambda>_. t) (hit sm meta hard g) rows)
      | None \<Rightarrow> (Err (RdbmsDatabase []), rows))\<rparr>"

definition mem_clock :: "json_value \<Rightarrow> 'w orm_env" where
  "mem_clock t = \<lparr> oe_now = (\<lambda>_ _ _. t) \<rparr>"

definition mem_sem :: filter_sem where
  "mem_sem = \<lparr> sm_cmp = (\<lambda>x a v. if x = OpEq then a = v else if x = OpNe then a \<noteq> v else False), sm_raw = (\<lambda>_ _. False) \<rparr>"

lemma mem_delete_law:
  assumes "g \<in> set groups" "inj_on (delete_stmt (lookup_spec d) meta hard t) (set groups)"
  shows "delete_law mem_sem (mem_clock t) (mem_delete_db d mem_sem meta hard t groups) (\<lambda>w. w) meta hard g"
proof -
  have "find (\<lambda>h. delete_stmt (lookup_spec d) meta hard t h = Inr (sql, ps)) groups = Some g" if "delete_stmt (lookup_spec d) meta hard t g = Inr (sql, ps)" for sql ps
  proof (cases "find (\<lambda>h. delete_stmt (lookup_spec d) meta hard t h = Inr (sql, ps)) groups")
    case None
    then show ?thesis using assms(1) that by (auto simp: find_None_iff)
  next
    case (Some h)
    then have "h \<in> set groups" "delete_stmt (lookup_spec d) meta hard t h = Inr (sql, ps)" by (auto simp: find_Some_iff)
    then show ?thesis using inj_onD [OF assms(2), of h g] assms(1) that Some by simp
  qed
  then show ?thesis by (simp add: delete_law_def mem_clock_def mem_delete_db_def default_executor_def)
qed

definition num :: "nat \<Rightarrow> json_value" where "num k = JNumber (PosInt k)"

definition nums :: "nat \<Rightarrow> json_value list" where "nums n = map num [0..<n]"

definition note_meta :: entity_meta where
  "note_meta = \<lparr> em_table = ''notes'', em_pk = ''id'', em_columns = [], em_relations = [],
     em_flags = flags_none\<lparr>ef_soft_delete := Some ''gone''\<rparr> \<rparr>"

definition note_row :: "nat \<Rightarrow> json_value \<Rightarrow> db_row" where
  "note_row k gone = \<lparr> row_columns = [''id'', ''gone''], row_values = [num k, gone] \<rparr>"

lemma nums_simps [simp]: "length (nums n) = n" "num k \<in> set (nums n) \<longleftrightarrow> k < n" "distinct (nums n)" "nums n = [] \<longleftrightarrow> n = 0"
  by (auto simp: nums_def num_def distinct_map inj_on_def)

lemma in_stmt_inj: "inj_on (\<lambda>us. delete_stmt spec meta hard t [EIn c us negated]) {us. us \<noteq> []}"
  by (rule inj_onI) (auto simp: delete_stmt_def render_where_def Let_def split: if_splits)

lemma in_groups_inj:
  assumes "vs \<noteq> []"
  shows "inj_on (delete_stmt spec meta hard t) (set (split_in_filters [EIn c vs negated] budget))"
proof (rule inj_onI)
  fix g h assume *: "g \<in> set (split_in_filters [EIn c vs negated] budget)" "h \<in> set (split_in_filters [EIn c vs negated] budget)"
    "delete_stmt spec meta hard t g = delete_stmt spec meta hard t h"
  then obtain us us' where "g = [EIn c us negated]" "h = [EIn c us' negated]" "us \<noteq> []" "us' \<noteq> []"
    using chunks_of_mem by (fastforce simp: in_groups [OF assms])
  then show "g = h" using *(3) inj_onD [OF in_stmt_inj [of spec meta hard t c negated]] by blast
qed

text \<open>A soft delete of notes 0 to 1199 on SQLite, in two statements; notes 5 and 1100 are there.\<close>

definition in_filter :: "bool \<Rightarrow> expr list" where "in_filter negated = [EIn ''id'' (nums 1200) negated]"

definition note_db :: "bool \<Rightarrow> bool \<Rightarrow> db_row list sql_executor" where
  "note_db hard negated = mem_delete_db Sqlite mem_sem note_meta hard (JString ''now'')
     (split_in_filters (in_filter negated) (if hard then 999 else 998))"

lemma note_db_laws:
  assumes "b = (if hard then 999 else 998)"
  shows "\<forall>g \<in> set (split_in_filters (in_filter negated) b). delete_law mem_sem (mem_clock (JString ''now'')) (note_db hard negated) (\<lambda>w. w) note_meta hard g"
  unfolding note_db_def assms in_filter_def by (intro ballI mem_delete_law in_groups_inj) auto

lemma note_simps [simp]: "ex_dialect (note_db hard negated) = Sqlite" "ds_max_params sqlite_spec = 999"
  "row_get (note_row k g) ''id'' = Some (num k)" "row_get (note_row k g) ''gone'' = Some g"
  by (simp_all add: note_db_def mem_delete_db_def default_executor_def sqlite_spec_def row_get_def note_row_def)

lemma note_hit: "hit mem_sem note_meta hard (in_filter negated) (note_row k JNull) \<longleftrightarrow> (k < 1200) \<noteq> negated"
  by (auto simp: hit_def soft_col_def note_meta_def flags_none_def col_sat_def is_null_def in_filter_def mem_sem_def list_all_iff list_ex_iff)

theorem delete_where_is_exact_witness:
  "\<exists>w'. delete_where (mem_clock (JString ''now'')) (note_db False False) note_meta (in_filter False) False
       [note_row 5 JNull, note_row 1100 JNull, note_row 2000 JNull] = (Ok 2, w') \<and> last w' = note_row 2000 JNull \<and> length w' = 3"
proof -
  let ?w = "[note_row 5 JNull, note_row 1100 JNull, note_row 2000 JNull]"
  let ?db = "note_db False False" and ?clock = "mem_clock (JString ''now'')"
  have soft: "soft_col note_meta False = Some ''gone''" by (simp add: soft_col_def note_meta_def)
  have law: "\<forall>g \<in> set (split_in_filters (in_filter False) 998). delete_law mem_sem ?clock ?db (\<lambda>w. w) note_meta False g"
    by (rule note_db_laws) simp
  have budget: "998 = ds_max_params (lookup_spec (ex_dialect ?db)) - (if soft_col note_meta False = None then 0 else 1)" by (simp add: soft)
  have ok: "list_all expr_ok (in_filter False)" "in_filter False \<noteq> []" and room: "has_room (in_filter False) 998"
    and spread: "\<forall>e \<in> set (in_filter False). spread_ok (in_share (in_filter False) 998) e"
    by (simp_all add: in_filter_def has_room_def)
  have clock: "\<not> is_null (oe_now ?clock w 0 [])" for w :: "db_row list" by (simp add: mem_clock_def is_null_def)
  from delete_where_is_exact [OF law budget ok room clock spread, of ?w] obtain ts w' where
    "delete_where ?clock ?db note_meta (in_filter False) False ?w = (Ok (length (filter (hit mem_sem note_meta False (in_filter False)) ?w)), w')"
    "w' = after_delete note_meta False ts (hit mem_sem note_meta False (in_filter False)) ?w" by auto
  then show ?thesis by (simp add: note_hit after_delete_def struck_def soft)
qed


end
