(* ===== verification/OrmSelect.thy ===== *)
theory OrmSelect
  imports OrmDelete
begin

text \<open>
  The statements of the query builder: a reference form with the values in their places, and that
  the text and the parameters the code builds side by side are this form with the values taken out.
\<close>

section \<open>Statements with values in place\<close>

datatype piece = Txt string | Val json_value

fun fill :: "(nat \<Rightarrow> string) \<Rightarrow> nat \<Rightarrow> piece list \<Rightarrow> string" where
  "fill ph n [] = []"
| "fill ph n (Txt s # ps) = s @ fill ph n ps"
| "fill ph n (Val v # ps) = ph (Suc n) @ fill ph (Suc n) ps"

fun piece_values :: "piece list \<Rightarrow> json_value list" where
  "piece_values [] = []"
| "piece_values (Txt s # ps) = piece_values ps"
| "piece_values (Val v # ps) = v # piece_values ps"





section \<open>The code builds them\<close>


lemma values_append [simp]: "piece_values (p @ q) = piece_values p @ piece_values q"
  by (induction p rule: piece_values.induct) simp_all

fun fill_each :: "(nat \<Rightarrow> string) \<Rightarrow> nat \<Rightarrow> piece list list \<Rightarrow> string list" where
  "fill_each ph n [] = []"
| "fill_each ph n (p # ps) = fill ph n p # fill_each ph (n + length (piece_values p)) ps"







lemma fill_each_Nil [simp]: "fill_each ph n ps = [] \<longleftrightarrow> ps = []"
  by (cases ps) simp_all



section \<open>Queries of the builder\<close>







section \<open>Property\<close>














end
