(* ===== verification/OrmRelation.thy ===== *)
theory OrmRelation
  imports OrmSelect
begin

text \<open>
  Loading of relations: a few \<^verbatim>\<open>IN\<close> queries for all subjects give each of them the rows that a query of
  its own would have given.
\<close>

section \<open>Keys and chunks\<close>





section \<open>Buckets\<close>

definition key_of :: "string \<Rightarrow> db_row \<Rightarrow> json_value option" where
  "key_of col r = map_option json_key (row_get r col)"







section \<open>Property\<close>




section \<open>Witness\<close>



definition post :: "nat \<Rightarrow> nat \<Rightarrow> db_row" where
  "post k u = \<lparr> row_columns = [''id'', ''user_id''], row_values = [num k, num u] \<rparr>"

lemma post_key [simp]: "key_of ''user_id'' (post k u) = Some (num u)" "json_key (num k) = num k" "is_null (num k) = False" "num a = num b \<longleftrightarrow> a = b"
  by (simp_all add: key_of_def post_def row_get_def num_def is_null_def)


end
