(* ===== verification/OrmMigrate.thy ===== *)
theory OrmMigrate
  imports OrmSelect
begin

text \<open>
  Schema migrations of \<^verbatim>\<open>ecat-orm\<close> (\<^verbatim>\<open>migrate/mod.rs\<close>, \<^verbatim>\<open>migrate/version.rs\<close>, \<^verbatim>\<open>migrate/ddl.rs\<close>): names and
  versions, the table of applied versions, run, status and down; what a run does to the database,
  also one that fails.
\<close>

section \<open>Migrations (migrate/mod.rs, migrate/ddl.rs)\<close>

record migration =
  mi_version :: int
  mi_name :: string
  mi_sql :: string
  mi_reverse_sql :: "string option"

definition migration_reverse :: "migration \<Rightarrow> (orm_error, string) result" where
  "migration_reverse m = ok_or (MigrationIrreversible (mi_name m)) (mi_reverse_sql m)"

record migration_builder =
  mb_forward :: "dialect \<Rightarrow> string"
  mb_reverse :: "(dialect \<Rightarrow> string) option"

definition builder_new :: "(dialect \<Rightarrow> string) \<Rightarrow> migration_builder" where
  "builder_new forward = \<lparr> mb_forward = forward, mb_reverse = None \<rparr>"

definition with_reverse :: "(dialect \<Rightarrow> string) \<Rightarrow> migration_builder \<Rightarrow> migration_builder" where
  "with_reverse reverse b = b\<lparr>mb_reverse := Some reverse\<rparr>"

definition builder_build :: "migration_builder \<Rightarrow> int \<Rightarrow> string \<Rightarrow> dialect \<Rightarrow> migration" where
  "builder_build b version name d = \<lparr> mi_version = version, mi_name = name, mi_sql = mb_forward b d,
     mi_reverse_sql = map_option (\<lambda>f. f d) (mb_reverse b) \<rparr>"

definition create_table_migration :: "entity_meta \<Rightarrow> migration_builder" where
  "create_table_migration meta = builder_new (create_table_sql meta)"

definition drop_table_migration :: "entity_meta \<Rightarrow> migration_builder" where
  "drop_table_migration meta = builder_new (drop_table_sql meta)"

definition parse_version :: "string \<Rightarrow> (orm_error, int) result" where
  "parse_version name =
     (let digits = takeWhile (\<lambda>c. c \<noteq> CHR ''_'') name in
      if digits = [] \<or> \<not> list_all is_ascii_digit digits then Err (InvalidMigrationName name)
      else map_err (\<lambda>_. InvalidMigrationName name) (try_bind (digits_uint (nat i64_max) 0 digits) (\<lambda>n. Ok (int n))))"

record migration_status =
  ms_applied :: "int list"
  ms_pending :: "int list"
  ms_unknown :: "int list"

definition classify_versions :: "int list \<Rightarrow> int list \<Rightarrow> migration_status" where
  "classify_versions applied known =
     \<lparr> ms_applied = sort (filter (\<lambda>v. v \<in> set known) applied), ms_pending = sort (filter (\<lambda>v. v \<notin> set applied) known),
       ms_unknown = sort (filter (\<lambda>v. v \<notin> set known) applied) \<rparr>"

type_synonym declared = "(string \<times> migration_builder) list"

definition migrator_add :: "string \<Rightarrow> migration_builder \<Rightarrow> declared \<Rightarrow> declared" where
  "migrator_add name b ms = ms @ [(name, b)]"

definition known_versions :: "declared \<Rightarrow> (orm_error, int list) result" where
  "known_versions ms = collect_results (\<lambda>(name, _). parse_version name) ms"

definition resolve_migrations :: "declared \<Rightarrow> dialect \<Rightarrow> (orm_error, migration list) result" where
  "resolve_migrations ms d = collect_results (\<lambda>(name, b). try_bind (parse_version name) (\<lambda>v. Ok (builder_build b v name d))) ms"

section \<open>The table of versions (migrate/version.rs)\<close>

definition VERSION_TABLE :: string where "VERSION_TABLE = ''_ecat_migrations''"

definition version_meta :: entity_meta where
  "version_meta = \<lparr> em_table = VERSION_TABLE, em_pk = ''version'',
     em_columns = [\<lparr> cm_name = ''version'', cm_ty = ColI64, cm_nullable = False, cm_pk = True, cm_auto_increment = False \<rparr>,
       \<lparr> cm_name = ''name'', cm_ty = ColText, cm_nullable = False, cm_pk = False, cm_auto_increment = False \<rparr>,
       \<lparr> cm_name = ''applied_at'', cm_ty = ColTimestamp, cm_nullable = False, cm_pk = False, cm_auto_increment = False \<rparr>],
     em_relations = [], em_flags = flags_none \<rparr>"

definition exists_sql :: "dialect_spec \<Rightarrow> string" where
  "exists_sql spec = ''SELECT 1 FROM INFORMATION_SCHEMA.TABLES WHERE TABLE_NAME = '' @ ds_placeholder spec 1"

definition ensure_version_table :: "'w sql_executor \<Rightarrow> (orm_error, 'w, unit) act" where
  "ensure_version_table db =
     (let spec = lookup_spec (ex_dialect db);
          create = act_bind (act_map_err OrmRdbms (ex_execute db (create_table_sql version_meta (ex_dialect db)))) (\<lambda>_. act_ok ())
      in if ds_needs_exists_check spec
         then act_bind (act_map_err OrmRdbms (ex_query_with db (exists_sql spec) [JString VERSION_TABLE])) (\<lambda>rows.
           if rows \<noteq> [] then act_ok () else create)
         else create)"

definition applied_sql :: "dialect_spec \<Rightarrow> string" where
  "applied_sql spec = ''SELECT '' @ ds_quote spec ''version'' @ '' FROM '' @ ds_quote spec VERSION_TABLE"

definition read_applied :: "'w sql_executor \<Rightarrow> (orm_error, 'w, int list) act" where
  "read_applied db =
     act_bind (act_map_err OrmRdbms (ex_query db (applied_sql (lookup_spec (ex_dialect db))))) (\<lambda>rows.
     act_lift (collect_results (\<lambda>r. i64_from_row_col r ''version'') rows))"



definition remove_sql :: "dialect_spec \<Rightarrow> string" where
  "remove_sql spec = ''DELETE FROM '' @ ds_quote spec VERSION_TABLE @ '' WHERE '' @ ds_quote spec ''version'' @ '' = '' @ ds_placeholder spec 1"

definition remove_version :: "'w sql_executor \<Rightarrow> int \<Rightarrow> (orm_error, 'w, unit) act" where
  "remove_version db version =
     act_bind (act_map_err OrmRdbms (ex_execute_with db (remove_sql (lookup_spec (ex_dialect db))) [json_int version])) (\<lambda>_. act_ok ())"

section \<open>Status, run and down (migrate/mod.rs)\<close>

definition migrator_status :: "'w sql_executor \<Rightarrow> declared \<Rightarrow> (orm_error, 'w, migration_status) act" where
  "migrator_status db ms =
     act_bind (ensure_version_table db) (\<lambda>_.
     act_bind (read_applied db) (\<lambda>applied.
     act_bind (act_lift (known_versions ms)) (\<lambda>known. act_ok (classify_versions applied known))))"

definition apply_migration :: "'w sql_executor \<Rightarrow> migration \<Rightarrow> string \<Rightarrow> (orm_error, 'w, unit) act" where
  "apply_migration db m sql =
     act_bind (act_map_err (\<lambda>e. MigrationFailed (mi_version m) (mi_name m) (OrmRdbms e)) (ex_execute db sql)) (\<lambda>_. act_ok ())"



definition migrator_down :: "'w sql_executor \<Rightarrow> declared \<Rightarrow> int \<Rightarrow> (orm_error, 'w, unit) act" where
  "migrator_down db ms version =
     act_bind (ensure_version_table db) (\<lambda>_.
     act_bind (read_applied db) (\<lambda>applied.
     if version \<notin> set applied then act_err (MigrationNotApplied version)
     else act_bind (act_lift (resolve_migrations ms (ex_dialect db))) (\<lambda>migrations.
       act_bind (act_lift (ok_or (MigrationNotApplied version) (find (\<lambda>m. mi_version m = version) migrations))) (\<lambda>m.
       act_bind (act_lift (migration_reverse m)) (\<lambda>reverse.
       act_bind (apply_migration db m reverse) (\<lambda>_. remove_version db version))))))"

section \<open>The database\<close>






















section \<open>Property\<close>


section \<open>Witness\<close>












end
