(* ===== verification/Spec2Isabelle.thy ===== *)
theory Spec2Isabelle
  imports Breaker Saga TwoPhase Snowflake Outbox MigrationProps GraphQLPrint TierProps TierS3 TierQuery
    OrmDelete OrmSelect OrmRelation OrmMigrate
begin

text \<open>
  \<^bold>\<open>The program.\<close> Ecat is a framework for microservices in Rust, a workspace of about eighty
  crates. This library models the crates that keep state across failures and that have an algorithm
  of their own: the circuit breaker, sagas, two-phase commit, sharding, the tiering of old data, the
  object-relational mapper and the GraphQL front end. They meet in the data layer \<^verbatim>\<open>ecat-data\<close>: all
  of them talk to databases through the traits of \<^verbatim>\<open>rdbms.rs\<close>, and the breaker wraps such a client. A
  service reads and writes entities (mapper), routes a key to a shard (catalog, router), writes events beside its rows (outbox), takes identifiers from a
  generator (Snowflake), moves rows when the topology changes (migration), archives partitions that
  have grown old (tiering) and spans several databases by two-phase commit or by a saga.

  \<^bold>\<open>How the code becomes definitions.\<close> Each Rust function is one definition, in the order of the
  source, with the source's names where possible; \<^verbatim>\<open>Result\<close> is a sum type with the error on the
  left, every early return is a branch, and every statement a component sends is a value with its
  text and its parameters. Fixed-width integers are words, or integers with the wrap, saturation or
  overflow error of the source written out. A stateful component takes its state and returns it;
  where calls interleave (breaker, Snowflake, router, outbox) their atomic sections are the steps of
  an inductive relation. What is not in the repository is a parameter of the definitions: databases
  and storage clients are functions from a state and a statement to an answer and a new state, and
  likewise the clock, the locks, UUIDs, SHA-256, base64, the text of JSON numbers and times, and
  operations on doubles. What a theorem needs of them is a premise of the theorem, and its witness
  gives a database in memory (and so on) that satisfies it.

  \<^bold>\<open>Shared theories.\<close>
  \<^item> \<open>Prelude\<close>: results, words, lists, maps, sorting; the locale \<open>kept_relation\<close> (a relation between
    the states before and after a sequence of calls, which composes) and the locale
    \<open>inductive_invariant\<close> (a step relation, its initial states and an invariant), which
    the components interpret.
  \<^item> \<open>Rdbms\<close>: \<^verbatim>\<open>ecat-data/src/rdbms.rs\<close> and \<^verbatim>\<open>dialect.rs\<close>: JSON values, rows and their accessors,
    errors, dialects, executors and transactions.

  \<^bold>\<open>Circuit breaker.\<close> \<open>Breaker\<close> models \<^verbatim>\<open>ecat-circuit-breaker\<close> (\<^verbatim>\<open>window.rs\<close>, \<^verbatim>\<open>breaker.rs\<close>,
  \<^verbatim>\<open>tower.rs\<close>) and \<^verbatim>\<open>ecat-data/src/breaker.rs\<close>. A call is two critical sections with the user's
  operation in between, which may be cancelled; the lemmas show when the breaker trips, that it can
  always recover with at least one probe and that it can be stuck with none, and that the SQL wrapper
  refuses exactly when the breaker reports Open.

  \<^bold>\<open>Sagas.\<close> \<open>Saga\<close> models \<^verbatim>\<open>ecat-saga\<close>: the engine of \<^verbatim>\<open>saga.rs\<close> over the stores of \<^verbatim>\<open>state.rs\<close>.
  The stores' contract is the locale \<open>saga_store\<close>, an extension of \<open>unreliable_store\<close>, whose calls
  may fail or crash. A run refines the reference semantics (steps in order, compensation in reverse);
  a stored Completed is true under every failure; the SQL store meets the contract; and three
  crashes are exhibited after which a resumed saga forgets a step or its context.

  \<^bold>\<open>Two-phase commit.\<close> \<open>TwoPhase\<close> models \<^verbatim>\<open>ecat-data-2pc\<close>, \<^verbatim>\<open>coordinator.rs\<close> and \<^verbatim>\<open>recovery.rs\<close>. Any
  call to a participant or to the log may fail before or after its effect. No transaction is ever
  committed on one branch and rolled back on another, the log tells the truth, and recovery settles
  every transaction.

  \<^bold>\<open>Sharding\<close>, \<^verbatim>\<open>ecat-data-sharding\<close>.
  \<^item> \<open>Catalog\<close>: \<^verbatim>\<open>catalog.rs\<close>, \<^verbatim>\<open>config.rs\<close>, \<^verbatim>\<open>budget.rs\<close>, \<^verbatim>\<open>router.rs\<close>, \<^verbatim>\<open>client.rs\<close>. Validation,
    hashing and routing; a validated catalog routes exactly as its algorithm says, and a router does
    so through every history of reloads.
  \<^item> \<open>MigratePlan\<close>: \<^verbatim>\<open>migrate/plan.rs\<close>. The plan moves exactly the keys whose shard changes.
  \<^item> \<open>Migrator\<close>: the executor, \<^verbatim>\<open>migrate/mod.rs\<close>, \<^verbatim>\<open>schema.rs\<close>, \<^verbatim>\<open>backfill.rs\<close>, \<^verbatim>\<open>verify.rs\<close>,
    \<^verbatim>\<open>cutover.rs\<close>. \<open>MigrationProofs\<close> gives its statements a meaning on a view of the databases,
    \<open>MigrationRun\<close> and \<open>MigrationSuccess\<close> follow an undisturbed migration, and
    \<open>MigrationProps\<close> has the properties: it succeeds, a cutover needs verified jobs, and a
    migration that keeps a shard of a hash table can fail to verify for ever.
  \<^item> \<open>Snowflake\<close>: \<^verbatim>\<open>id.rs\<close>. Identifiers are unique under all interleavings and clocks.
  \<^item> \<open>Outbox\<close>: \<^verbatim>\<open>outbox.rs\<close> and \<^verbatim>\<open>outbox/relay.rs\<close>. No message is lost, claims take the due rows,
    and a round of the relay settles its batch.

  \<^bold>\<open>GraphQL.\<close> \<open>GraphQL\<close> models \<^verbatim>\<open>ecat-graphql\<close> (scanner, parser, budget, execution): the parser
  returns on every input, accepted queries are bounded, a request is resolved within its budget, and
  some malformed values are accepted. \<open>GraphQLPrint\<close> adds a printer and shows the round trip.

  \<^bold>\<open>Tiering\<close>, \<^verbatim>\<open>ecat-data-tiering\<close>.
  \<^item> \<open>TierState\<close>: \<^verbatim>\<open>config.rs\<close> and \<^verbatim>\<open>state.rs\<close>, the configuration and the table of archive jobs.
  \<^item> \<open>TierArchive\<close>: \<^verbatim>\<open>archive.rs\<close>, \<^verbatim>\<open>archive/pacer.rs\<close> and \<^verbatim>\<open>partition.rs\<close>, the archive loop over hot
    partitions. \<open>TierProofs\<close>, \<open>TierWalk\<close> and \<open>TierRuns\<close> carry an invariant through every step of it,
    also the failing ones, and \<open>TierProps\<close> concludes that a dropped partition is archived.
  \<^item> \<open>TierSink\<close>: \<^verbatim>\<open>sink/\<close>, the S3 and the ClickHouse sink. \<open>TierS3\<close> shows that the S3 sink keeps the
    contract the archive loop assumes, and what its verification says after a write.
  \<^item> \<open>TierQuery\<close>: \<^verbatim>\<open>query.rs\<close> and \<^verbatim>\<open>query/clickhouse.rs\<close>. A page merged from both sides of the
    boundary is the page of all rows.

  \<^bold>\<open>The mapper\<close>, \<^verbatim>\<open>ecat-orm\<close>. The code the derive macro generates for an entity is a parameter, the
  record \<open>entity_trait\<close>; the clock is another, \<open>orm_env\<close>.
  \<^item> \<open>OrmDialect\<close>: \<^verbatim>\<open>entity.rs\<close>, \<^verbatim>\<open>dialect/\<close> and the statements of \<^verbatim>\<open>migrate/ddl.rs\<close>: the metadata of
    entities and the five dialects, each a value of \<open>dialect_spec\<close>.
  \<^item> \<open>OrmQuery\<close>: \<^verbatim>\<open>error.rs\<close>, \<^verbatim>\<open>query/\<close>, \<^verbatim>\<open>relation.rs\<close>, \<^verbatim>\<open>page.rs\<close>. \<open>OrmSelect\<close> shows that every query
    of the builder binds its values by position and names known columns only; \<open>OrmRelation\<close> that
    relations loaded in chunks of keys are those loaded one by one.
  \<^item> \<open>OrmWrite\<close>: \<^verbatim>\<open>crud.rs\<close> and \<^verbatim>\<open>batch.rs\<close>. \<open>OrmDelete\<close> gives the filters a meaning on rows and shows
    that \<^verbatim>\<open>delete_where\<close> deletes exactly what they select, unless a negated list is too long for one
    statement: then it deletes everything.
  \<^item> \<open>OrmMigrate\<close>: \<^verbatim>\<open>migrate/\<close>. Migrations run in the order of their versions and are recorded after
    they have run, also when a run fails half-way.

  \<^bold>\<open>Fuel.\<close> The loops of the GraphQL parser get one round per remaining byte plus one, and
  \<open>parse_query_never_out_of_fuel\<close> shows that this is always enough. The scanning loops of the
  migrator and of the archive walk end when a chunk is short, which depends on the database; they take
  a number of rounds from their environment (\<open>en_rounds\<close>, \<open>te_rounds\<close>), and running out is an error of
  its own. \<open>migration_succeeds\<close> states how many rounds are enough and that the run then succeeds;
  the property of the archive loop holds for every number of rounds. \<open>next_id\<close> takes the clock's
  readings as a list, one per round, and \<open>next_id_returns_fresh_id\<close> shows that it returns once a
  reading passes the last millisecond. All other loops recur on a list or a decreasing number.

  \<^bold>\<open>Not modelled.\<close> Logging, tracing and metrics; what \<^verbatim>\<open>serde\<close> derives; the drivers (sqlx, redis, S3,
  Kafka and so on) and the crates that only adapt one of them to a trait of \<^verbatim>\<open>ecat-data\<close>,
  \<^verbatim>\<open>ecat-mq\<close>, \<^verbatim>\<open>ecat-registry\<close> or \<^verbatim>\<open>ecat-workflow\<close>: what they do is what the driver or the service
  behind it does. The transports, TLS and the command line tools are glue around axum, tonic and
  rustls. The calendar arithmetic of \<^verbatim>\<open>plan_range_partitions\<close> rests on the time crate, and
  so do the column codecs of the mapper for times; of its codecs only the one for 64-bit integers, which
  keys, versions and counts go through, is modelled.
\<close>

section \<open>The archive loop on the S3 sink\<close>

lemma s3_sum_ok:
  assumes "sha256_hex env x = vw_sum (s3_view objs env s hot jobs) t rows" and sha: "length (sn_sha256 env x) = 32"
  shows "\<exists>ob. s3_object env s t rows = Inr ob \<and> sha256_hex env x = sha256_hex env (co_ndjson ob)"
proof -
  have "sha256_hex env x \<noteq> []" using sha by (cases "sn_sha256 env x") (simp_all add: sha256_hex_def)
  then obtain ob where ob: "s3_object env s t rows = Inr ob" "sha256_hex env x = co_checksum ob"
    using assms(1) by (auto simp: s3_view_def split: sum.splits)
  moreover have "co_checksum ob = sha256_hex env (co_ndjson ob)"
    using ob(1) by (auto simp: s3_object_def build_chunk_def try_bind_Inr_iff split_def Let_def split: if_splits)
  ultimately show ?thesis by auto
qed

text \<open>
  C33. The archive loop on the S3 sink: a partition leaves the hot database only once each of its chunks
  has an object in the bucket, under the key of the chunk, with the SHA-256 of the lines of its rows.
  This holds after any number of runs, by any processes and with any failures of the databases and of
  the store in between; all runs use the same sink and batch size.
\<close>

theorem archived_partition_is_in_the_bucket:
  assumes v: "v = s3_view objs env s hot jobs" and store: "storage_laws objs (\<lambda>w. (hot w, jobs w)) (s3_client s)"
    and sha: "\<And>x. length (sn_sha256 env x) = 32"
    and runs: "list_all (\<lambda>aj. tier_read_laws v aj \<and> tier_write_laws v aj \<and> other_laws v aj \<and> aj_cold aj = s3_cold_sink env s \<and>
      tc_batch_size (aj_config aj) = B \<and> configured tn col (aj_config aj)) ajs"
    and good: "good_table col R" and start: "hot w tn p = Some R" "jobs w tn p = (\<lambda>_. None)"
    and w': "w' = fold (\<lambda>aj w. snd (tier_run_once aj w)) ajs w"
  shows "hot w' tn p = Some R \<or>
    hot w' tn p = None \<and> (\<forall>n. n * B < length R \<longrightarrow> (\<exists>ob x.
      s3_object env s tn (chunk_rows B R n) = Ok ob \<and> objs w' (s3_bucket s) (chunk_key s tn p n) = Some x \<and>
      sha256_hex env x = sha256_hex env (co_ndjson ob)))"
proof -
  have "list_all (\<lambda>aj. tier_laws v aj \<and> tc_batch_size (aj_config aj) = B \<and> configured tn col (aj_config aj)) ajs"
    using runs sink_contract [OF store, of env] v by (simp add: list_all_iff tier_laws_def)
  moreover have "tier_inv v B tn p col R w" using start v by (simp add: tier_inv_def s3_view_def)
  ultimately have "tier_inv v B tn p col R w'" unfolding w' by (rule runs_keep [OF good])
  then have "hot w' tn p = Some R \<or> hot w' tn p = None \<and> archived v w' tn p B R"
    using v by (auto simp: tier_inv_def s3_view_def)
  then show ?thesis
  proof
    assume gone: "hot w' tn p = None \<and> archived v w' tn p B R"
    have "\<exists>ob x. s3_object env s tn (chunk_rows B R n) = Ok ob \<and> objs w' (s3_bucket s) (chunk_key s tn p n) = Some x \<and>
        sha256_hex env x = sha256_hex env (co_ndjson ob)" if n: "n * B < length R" for n
    proof -
      obtain x where x: "vw_cold v w' tn p n = Some x" "vw_digest v x = vw_sum v tn (chunk_rows B R n)"
        using gone n by (auto simp: archived_def cold_ok_def)
      have "objs w' (s3_bucket s) (chunk_key s tn p n) = Some x" using x(1) v by (simp add: s3_view_def split: if_splits)
      moreover have "sha256_hex env x = vw_sum v tn (chunk_rows B R n)" using x(2) v by (simp add: s3_view_def)
      ultimately show ?thesis using s3_sum_ok [OF _ sha] v by blast
    qed
    then show ?thesis using gone by blast
  qed simp
qed


text \<open>The databases in memory with a store of objects.\<close>

record mem_whole = mem_tier +
  mw_store :: mem_store

definition wt_objects :: "mem_whole \<Rightarrow> string \<Rightarrow> string \<Rightarrow> string option" where
  "wt_objects w = mem_objects (mw_store w)"

definition wt_storage :: "mem_whole storage_client" where
  "wt_storage = \<lparr> sc_put = (\<lambda>b k d w. (Ok (), w\<lparr>mw_store := ((b, k), d) # mw_store w\<rparr>)),
     sc_get = (\<lambda>b k w. (fst (sc_get mem_storage b k (mw_store w)), w)), sc_list = (\<lambda>b k w. (fst (sc_list mem_storage b k (mw_store w)), w)) \<rparr>"

definition wt_env :: sink_env where
  "wt_env = mem_sink_env\<lparr>sn_sha256 := (\<lambda>x. take 32 (map of_char x @ replicate 32 0))\<rparr>"

definition wt_sink :: "mem_whole s3_sink" where
  "wt_sink = \<lparr> s3_client = wt_storage, s3_bucket = ''b'', s3_prefix = [], s3_tables = [(''t'', ''id'')], s3_verify_sample = None \<rparr>"

definition wt_job :: "mem_whole archive_job" where "wt_job = mt_job (s3_cold_sink wt_env wt_sink)"

definition wt_start :: mem_whole where
  "wt_start = \<lparr> mt_hot = (\<lambda>t p. if t = ''t'' \<and> p = ''p'' then Some mt_rows else None), mt_jobs = (\<lambda>_ _ _. None), mt_cold = (\<lambda>_ _ _. None), mw_store = [] \<rparr>"

lemma wt_storage_laws: "storage_laws wt_objects (\<lambda>w. (mt_hot w, mt_jobs_view w)) (s3_client wt_sink)"
  using mem_storage_laws
  by (auto simp: storage_laws_def put_law_def get_law_def list_law_def wt_storage_def wt_sink_def wt_objects_def mem_storage_def mt_jobs_view_def fun_eq_iff
      split: option.splits)

lemma wt_selects:
  "sk_write (s3_cold_sink env s) = s3_write_chunk env s" "sk_verify (s3_cold_sink env s) = s3_verify_chunk env s"
  "s3_client wt_sink = wt_storage" "s3_bucket wt_sink = ''b''" "s3_prefix wt_sink = []" "s3_tables wt_sink = [(''t'', ''id'')]"
  "s3_verify_sample wt_sink = None" "sn_to_string wt_env = sn_to_string mem_sink_env" "sn_manifest_text wt_env m = Inr (mf_checksum m)"
  "sc_put wt_storage b k d w = (Inr (), w\<lparr>mw_store := ((b, k), d) # mw_store w\<rparr>)"
  "sc_get wt_storage b k w = (case map_of (mw_store w) (b, k) of None \<Rightarrow> Inl ''no such key'' | Some d \<Rightarrow> Inr d, w)"
  "sc_list wt_storage b k w = (Inr (filter (\<lambda>k'. take (length k) k' = k) (map (snd \<circ> fst) (filter (\<lambda>e. fst (fst e) = b) (mw_store w)))), w)"
  by (simp_all add: s3_cold_sink_def wt_sink_def wt_env_def mem_sink_env_def wt_storage_def mem_storage_def)

lemma wt_row_text [simp]: "sn_to_string mem_sink_env (JObject [(x, JNumber (PosInt k))]) = Inr (dec_nat k)"
  by (simp add: mem_sink_env_def)

lemmas wt_sink_simps = wt_selects s3_write_chunk_def s3_verify_chunk_def table_spec_def
  build_chunk_def keyed_json_def row_json_def map_insert_def row_iter_def
  json_i64_def join_lines_def ensure_chunk_size_def MAX_CHUNK_BYTES_def
  s3_exists_def s3_list_def s3_put_def s3_get_def chunk_key_def base_key_def manifest_key_def MANIFEST_SUFFIX_def manifest_for_def
  dec_nat.simps digit_char_def digit_chars

lemma wt_digits: "char_of (49 :: nat) = CHR ''1''" "char_of (50 :: nat) = CHR ''2''"
  by (simp_all add: char_of_def bit_0)

lemma wt_drops:
  "mt_hot (snd (archive_partition wt_job \<lparr>pc_elapsed = (\<lambda>_. 0), pc_wait = (\<lambda>_ w. w)\<rparr> mt_table ''p'' (empty_report False) wt_start)) ''t'' ''p'' = None"
  unfolding wt_job_def
  by (simp add: mt_eval mt_walk wt_sink_simps wt_digits wt_start_def upt_rec is_i64_def del: set_filter set_map)

lemma wt_dropped: "mt_hot (snd (tier_run_once wt_job wt_start)) ''t'' ''p'' = None"
  using wt_drops unfolding wt_job_def
  by (cases "archive_partition (mt_job (s3_cold_sink wt_env wt_sink)) \<lparr>pc_elapsed = (\<lambda>_. 0), pc_wait = (\<lambda>_ w. w)\<rparr> mt_table ''p'' (empty_report False) wt_start")
    (simp add: tier_run_once_def mt_eval run_locked_def wt_start_def split: sum.split)

lemma wt_last_chunk: "s3_object wt_env wt_sink ''t'' (chunk_rows 2 mt_rows 1) = Inr ob \<Longrightarrow> co_ndjson ob = [CHR ''3'', CHR 0x0A]"
  by (auto simp: s3_object_def chunk_rows_def mt_rows_def mt_row_def mt_eval wt_sink_simps wt_digits)

lemma wt_view: "mt_shows (s3_view wt_objects wt_env wt_sink mt_hot mt_jobs_view)"
proof -
  have "wt_objects (w\<lparr>mt_hot := f\<rparr>) = wt_objects w" "wt_objects (w\<lparr>mt_jobs := g\<rparr>) = wt_objects w" for w f g
    by (simp_all add: wt_objects_def)
  then show ?thesis by (simp only: mt_shows_def s3_view_def tier_view.simps) simp
qed

lemma wt_good: "good_table ''id'' mt_rows"
  by (simp add: good_table_def mt_rows_def mt_row_def row_id_def row_get_def as_i64_def number_as_i64_def i64_max_def i64_min_def is_i64_def)

lemma wt_key: "chunk_key wt_sink ''t'' ''p'' 1 = ''t/p/1.ndjson''"
  by (simp add: chunk_key_def base_key_def wt_selects dec_nat.simps digit_char_def wt_digits)

theorem archived_partition_is_in_the_bucket_witness:
  "let w' = snd (tier_run_once wt_job wt_start) in
     mt_hot w' ''t'' ''p'' = None \<and>
     (\<exists>x. wt_objects w' ''b'' ''t/p/1.ndjson'' = Some x \<and> sha256_hex wt_env x = sha256_hex wt_env [CHR ''3'', CHR 0x0A])"
proof -
  let ?v = "s3_view wt_objects wt_env wt_sink mt_hot mt_jobs_view"
  have sha: "length (sn_sha256 wt_env x) = 32" for x by (simp add: wt_env_def)
  have runs: "list_all (\<lambda>aj. tier_read_laws ?v aj \<and> tier_write_laws ?v aj \<and> other_laws ?v aj \<and> aj_cold aj = s3_cold_sink wt_env wt_sink \<and>
      tc_batch_size (aj_config aj) = 2 \<and> configured ''t'' ''id'' (aj_config aj)) [wt_job]"
    by (simp add: wt_job_def mt_db_laws [OF wt_view] configured_def)
  have start: "mt_hot wt_start ''t'' ''p'' = Some mt_rows" "mt_jobs_view wt_start ''t'' ''p'' = (\<lambda>_. None)"
    by (simp_all add: wt_start_def mt_jobs_view_def fun_eq_iff)
  have len: "1 * 2 < length mt_rows" by (simp add: mt_rows_def)
  let ?w = "fold (\<lambda>aj w. snd (tier_run_once aj w)) [wt_job] wt_start"
  note at_input = archived_partition_is_in_the_bucket [of ?v wt_objects wt_env wt_sink mt_hot mt_jobs_view 2 "''t''" "''id''" "[wt_job]" mt_rows wt_start "''p''" ?w]
  have w: "?w = snd (tier_run_once wt_job wt_start)" by (simp only: fold.simps comp_def id_def)
  from at_input [OF refl wt_storage_laws sha runs wt_good start refl]
  have "mt_hot ?w ''t'' ''p'' = None \<and> (1 * 2 < length mt_rows \<longrightarrow> (\<exists>ob x. s3_object wt_env wt_sink ''t'' (chunk_rows 2 mt_rows 1) = Ok ob \<and>
      wt_objects ?w (s3_bucket wt_sink) (chunk_key wt_sink ''t'' ''p'' 1) = Some x \<and> sha256_hex wt_env x = sha256_hex wt_env (co_ndjson ob)))"
    unfolding w wt_dropped by blast
  then obtain ob x where "s3_object wt_env wt_sink ''t'' (chunk_rows 2 mt_rows 1) = Ok ob" "wt_objects ?w ''b'' ''t/p/1.ndjson'' = Some x"
    "sha256_hex wt_env x = sha256_hex wt_env (co_ndjson ob)" using len unfolding wt_key wt_selects by blast
  then show ?thesis unfolding Let_def w wt_dropped by (simp only: wt_last_chunk) blast
qed

end
